(* ===== verification/Prelude.thy ===== *)
theory Prelude
  imports
    Main
    "HOL-Library.Word"
    "HOL-Library.Mapping"
    "HOL-Library.AList_Mapping"
    "HOL-Library.List_Lexorder"
    "HOL-Library.Char_ord"
    "HOL-Library.Sublist"
begin

text \<open>
  Shared vocabulary of the development: machine integers, byte strings and clock values, the
  outcome of a Rust call, state-passing combinators for the \<open>?\<close> operator, hash maps and
  their iteration order, and the lemmas about them that every component uses.

  Arithmetic is that of a release build: a \<open>u64\<close> is a \<open>64 word\<close> and \<open>+\<close> wraps.  A
  \<open>usize\<close> that only counts elements of a vector is a \<open>nat\<close>.
\<close>

section \<open>Machine values\<close>

type_synonym u8 = "8 word"
type_synonym u16 = "16 word"
type_synonym u32 = "32 word"
type_synonym u64 = "64 word"

type_synonym bytes = "u8 list"

text \<open>
  A \<open>SystemTime\<close> is the number of nanoseconds since the Unix epoch (it may be negative), a
  \<open>Duration\<close> a number of nanoseconds.  An operation reads the clock once; the reading is an
  argument of its model.
\<close>

type_synonym system_time = int
type_synonym duration = nat

abbreviation unix_epoch :: system_time where
  "unix_epoch \<equiv> 0"

definition duration_from_secs :: "u64 \<Rightarrow> duration" where
  "duration_from_secs s = unat s * 1000000000"

definition duration_as_secs :: "duration \<Rightarrow> u64" where
  "duration_as_secs d = of_nat (d div 1000000000)"

text \<open>\<open>xs.len() as u64\<close>; the length of a vector is below \<open>2 ^ 63\<close>.\<close>

definition len_u64 :: "'a list \<Rightarrow> u64" where
  "len_u64 xs = of_nat (length xs)"

abbreviation vec_fits :: "'a list \<Rightarrow> bool" where
  "vec_fits xs \<equiv> length xs < 2 ^ 63"

lemma unat_of_nat_u64: "n < 2 ^ 64 \<Longrightarrow> unat (of_nat n :: u64) = n"
  by (simp add: unat_of_nat)

lemma unat_len_u64 [simp]: "length xs < 2 ^ 64 \<Longrightarrow> unat (len_u64 xs) = length xs"
  by (simp add: len_u64_def unat_of_nat)

lemma unat_len_u64_fits [simp]: "vec_fits xs \<Longrightarrow> unat (len_u64 xs) = length xs"
  by simp

lemma unat_len_u64_Suc: "vec_fits xs \<Longrightarrow> unat (len_u64 xs + 1) = Suc (length xs)"
proof -
  assume "vec_fits xs"
  then have "unat (of_nat (Suc (length xs)) :: u64) = Suc (length xs)"
    by (intro unat_of_nat_u64) simp
  then show ?thesis by (simp add: len_u64_def add.commute)
qed

lemma len_u64_Nil [simp]: "len_u64 [] = 0"
  by (simp add: len_u64_def)

lemma len_u64_snoc: "len_u64 (xs @ [x]) = len_u64 xs + 1"
  by (simp add: len_u64_def)

lemma unat_u64_less: "unat (w :: u64) < 2 ^ 64"
  using unsigned_less [of w] by simp

lemma u64_eq_len_iff: "length xs < 2 ^ 64 \<Longrightarrow> w = len_u64 xs \<longleftrightarrow> unat w = length xs"
  by (metis unat_len_u64 word_unat_eq_iff)

section \<open>The outcome of a call\<close>

text \<open>
  \<open>Ok\<close> and \<open>Err\<close> are the two constructors of a Rust \<open>Result\<close>.  \<open>Panic\<close> is a call
  that unwinds.  \<open>Stuck\<close> is a call that does not return in the state it was made in: a loop
  that does not end, or a blocking lock that another holder has.
\<close>

datatype ('e, 'a) outcome = Ok 'a | Err 'e | Panic | Stuck

primrec is_ok :: "('e, 'a) outcome \<Rightarrow> bool" where
  "is_ok (Ok a) = True"
| "is_ok (Err e) = False"
| "is_ok Panic = False"
| "is_ok Stuck = False"

lemma is_ok_iff: "is_ok r \<longleftrightarrow> (\<exists>a. r = Ok a)"
  by (cases r) auto

text \<open>\<open>r?\<close> followed by the rest of the function.\<close>

primrec outcome_bind :: "('e, 'a) outcome \<Rightarrow> ('a \<Rightarrow> ('e, 'b) outcome) \<Rightarrow> ('e, 'b) outcome" where
  "outcome_bind (Ok a) f = f a"
| "outcome_bind (Err e) f = Err e"
| "outcome_bind Panic f = Panic"
| "outcome_bind Stuck f = Stuck"

text \<open>\<open>map_err\<close>, also the error conversion that \<open>?\<close> inserts.\<close>

primrec map_err :: "('e \<Rightarrow> 'f) \<Rightarrow> ('e, 'a) outcome \<Rightarrow> ('f, 'a) outcome" where
  "map_err f (Ok a) = Ok a"
| "map_err f (Err e) = Err (f e)"
| "map_err f Panic = Panic"
| "map_err f Stuck = Stuck"

primrec map_ok :: "('a \<Rightarrow> 'b) \<Rightarrow> ('e, 'a) outcome \<Rightarrow> ('e, 'b) outcome" where
  "map_ok f (Ok a) = Ok (f a)"
| "map_ok f (Err e) = Err e"
| "map_ok f Panic = Panic"
| "map_ok f Stuck = Stuck"

text \<open>A computation that can only panic: \<open>None\<close> is the panic.\<close>

primrec or_panic :: "'a option \<Rightarrow> ('e, 'a) outcome" where
  "or_panic None = Panic"
| "or_panic (Some a) = Ok a"

text \<open>\<open>for x in xs { ... f(x)? ... }\<close> with the results pushed to a vector.\<close>

fun try_collect :: "('x \<Rightarrow> ('e, 'a) outcome) \<Rightarrow> 'x list \<Rightarrow> ('e, 'a list) outcome" where
  "try_collect f [] = Ok []"
| "try_collect f (x # xs) =
     outcome_bind (f x) (\<lambda>a. outcome_bind (try_collect f xs) (\<lambda>as. Ok (a # as)))"

named_theorems outcome_simps \<open>rewriting of outcomes and state-passing sequences\<close>

lemma outcome_bind_Ok_iff:
  "outcome_bind m f = Ok b \<longleftrightarrow> (\<exists>a. m = Ok a \<and> f a = Ok b)"
  by (cases m) auto

lemma outcome_bind_Err_iff:
  "outcome_bind m f = Err e \<longleftrightarrow> m = Err e \<or> (\<exists>a. m = Ok a \<and> f a = Err e)"
  by (cases m) auto

lemma map_err_Ok_iff [simp]: "map_err f m = Ok a \<longleftrightarrow> m = Ok a"
  by (cases m) auto

lemma map_ok_Ok_iff: "map_ok f m = Ok b \<longleftrightarrow> (\<exists>a. m = Ok a \<and> b = f a)"
  by (cases m) auto

lemma or_panic_Ok_iff [simp]: "or_panic m = Ok a \<longleftrightarrow> m = Some a"
  by (cases m) auto

lemma outcome_bind_assoc:
  "outcome_bind (outcome_bind m f) g = outcome_bind m (\<lambda>a. outcome_bind (f a) g)"
  by (cases m) auto

lemma try_collect_Ok_iff:
  "try_collect f xs = Ok ys \<longleftrightarrow> list_all2 (\<lambda>x y. f x = Ok y) xs ys"
  by (induction xs arbitrary: ys) (auto simp: outcome_bind_Ok_iff list_all2_Cons1)

lemma try_collect_length: "try_collect f xs = Ok ys \<Longrightarrow> length ys = length xs"
  by (metis list_all2_lengthD try_collect_Ok_iff)

lemma try_collect_total: "(\<And>x. x \<in> set xs \<Longrightarrow> f x = Ok (g x)) \<Longrightarrow> try_collect f xs = Ok (map g xs)"
  by (induction xs) auto

lemmas [outcome_simps] =
  outcome_bind_Ok_iff outcome_bind_Err_iff map_ok_Ok_iff try_collect_Ok_iff

section \<open>State passing\<close>

text \<open>
  An operation on a component with state \<open>'s\<close> returns its outcome and the state it leaves,
  also when it fails: Rust does not roll the state back.
\<close>

type_synonym ('s, 'e, 'a) call = "'s \<Rightarrow> ('e, 'a) outcome \<times> 's"

definition st_return :: "'a \<Rightarrow> ('s, 'e, 'a) call" where
  "st_return a s = (Ok a, s)"

definition st_lift :: "('e, 'a) outcome \<Rightarrow> ('s, 'e, 'a) call" where
  "st_lift r s = (r, s)"

definition st_bind ::
    "('s, 'e, 'a) call \<Rightarrow> ('a \<Rightarrow> ('s, 'e, 'b) call) \<Rightarrow> ('s, 'e, 'b) call" where
  "st_bind m f s =
     (case m s of
        (Ok a, s') \<Rightarrow> f a s'
      | (Err e, s') \<Rightarrow> (Err e, s')
      | (Panic, s') \<Rightarrow> (Panic, s')
      | (Stuck, s') \<Rightarrow> (Stuck, s'))"

definition st_map_err :: "('e \<Rightarrow> 'f) \<Rightarrow> ('s, 'e, 'a) call \<Rightarrow> ('s, 'f, 'a) call" where
  "st_map_err f m s = (case m s of (r, s') \<Rightarrow> (map_err f r, s'))"

fun st_collect :: "('x \<Rightarrow> ('s, 'e, 'a) call) \<Rightarrow> 'x list \<Rightarrow> ('s, 'e, 'a list) call" where
  "st_collect f [] s = (Ok [], s)"
| "st_collect f (x # xs) s =
     st_bind (f x) (\<lambda>a. st_bind (st_collect f xs) (\<lambda>as. st_return (a # as))) s"

lemma st_return_apply [simp]: "st_return a s = (Ok a, s)"
  by (simp add: st_return_def)

lemma st_lift_apply [simp]: "st_lift r s = (r, s)"
  by (simp add: st_lift_def)

lemma st_bind_simps [simp]:
  "m s = (Ok a, s') \<Longrightarrow> st_bind m f s = f a s'"
  "m s = (Err e, s') \<Longrightarrow> st_bind m f s = (Err e, s')"
  "m s = (Panic, s') \<Longrightarrow> st_bind m f s = (Panic, s')"
  "m s = (Stuck, s') \<Longrightarrow> st_bind m f s = (Stuck, s')"
  by (simp_all add: st_bind_def)

lemma st_bind_Ok_iff:
  "st_bind m f s = (Ok b, s'') \<longleftrightarrow> (\<exists>a s'. m s = (Ok a, s') \<and> f a s' = (Ok b, s''))"
  by (auto simp: st_bind_def split: prod.splits outcome.splits)

lemma st_map_err_Ok_iff [simp]: "st_map_err f m s = (Ok a, s') \<longleftrightarrow> m s = (Ok a, s')"
  by (auto simp: st_map_err_def split: prod.splits)

lemma st_map_err_eq: "m s = (r, s') \<Longrightarrow> st_map_err f m s = (map_err f r, s')"
  by (simp add: st_map_err_def)

text \<open>A predicate on the state that a call keeps, whatever its outcome.\<close>

definition st_keeps :: "('s \<Rightarrow> bool) \<Rightarrow> ('s, 'e, 'a) call \<Rightarrow> bool" where
  "st_keeps P m \<longleftrightarrow> (\<forall>s. P s \<longrightarrow> P (snd (m s)))"

lemma st_keepsD: "st_keeps P m \<Longrightarrow> P s \<Longrightarrow> P (snd (m s))"
  by (simp add: st_keeps_def)

lemma st_keeps_bind:
  assumes "st_keeps P m" and "\<And>a. st_keeps P (f a)"
  shows "st_keeps P (st_bind m f)"
  using assms by (fastforce simp: st_keeps_def st_bind_def split: prod.splits outcome.splits)

lemma st_keeps_return: "st_keeps P (st_return a)"
  by (simp add: st_keeps_def)

lemma st_keeps_collect: "(\<And>x. x \<in> set xs \<Longrightarrow> st_keeps P (f x)) \<Longrightarrow> st_keeps P (st_collect f xs)"
proof (induction xs)
  case Nil
  then show ?case by (simp add: st_keeps_def)
next
  case (Cons x xs)
  then have "st_keeps P (st_bind (f x) (\<lambda>a. st_bind (st_collect f xs) (\<lambda>as. st_return (a # as))))"
    by (intro st_keeps_bind st_keeps_return) auto
  then show ?case by (simp add: st_keeps_def)
qed

section \<open>Hash maps\<close>

text \<open>
  A \<open>HashMap\<close> is a \<open>mapping\<close>.  Its iteration order is not specified: an operation that
  iterates takes the order as an argument \<open>ks\<close>, of which \<open>iteration m ks\<close> says that it
  yields every key once.
\<close>

definition iteration :: "('k, 'v) mapping \<Rightarrow> 'k list \<Rightarrow> bool" where
  "iteration m ks \<longleftrightarrow> distinct ks \<and> set ks = Mapping.keys m"

definition hm_iter :: "('k, 'v) mapping \<Rightarrow> 'k list \<Rightarrow> ('k \<times> 'v) list" where
  "hm_iter m ks = List.map_filter (\<lambda>k. map_option (Pair k) (Mapping.lookup m k)) ks"

lemma hm_iter_Nil [simp]: "hm_iter m [] = []"
  by (simp add: hm_iter_def)

lemma hm_iter_Cons:
  "hm_iter m (k # ks) =
     (case Mapping.lookup m k of None \<Rightarrow> hm_iter m ks | Some v \<Rightarrow> (k, v) # hm_iter m ks)"
  by (simp add: hm_iter_def map_filter_simps split: option.splits)

lemma set_hm_iter: "set (hm_iter m ks) = {(k, v). k \<in> set ks \<and> Mapping.lookup m k = Some v}"
  by (induction ks) (auto simp: hm_iter_Cons split: option.splits)

lemma lookup_Some_in_keys: "Mapping.lookup m k = Some v \<Longrightarrow> k \<in> Mapping.keys m"
  by (simp add: keys_dom_lookup domI)

lemma in_keys_iff_lookup: "k \<in> Mapping.keys m \<longleftrightarrow> Mapping.lookup m k \<noteq> None"
  by (simp add: keys_dom_lookup domIff)

lemma set_hm_iter_iteration:
  "iteration m ks \<Longrightarrow> (k, v) \<in> set (hm_iter m ks) \<longleftrightarrow> Mapping.lookup m k = Some v"
  by (auto simp: set_hm_iter iteration_def dest: lookup_Some_in_keys)

lemma map_fst_hm_iter: "set ks \<subseteq> Mapping.keys m \<Longrightarrow> map fst (hm_iter m ks) = ks"
  by (induction ks) (auto simp: hm_iter_Cons in_keys_iff_lookup split: option.splits)

lemma map_fst_hm_iter_iteration: "iteration m ks \<Longrightarrow> map fst (hm_iter m ks) = ks"
  by (simp add: iteration_def map_fst_hm_iter)

lemma distinct_hm_iter: "iteration m ks \<Longrightarrow> distinct (hm_iter m ks)"
  by (metis distinct_map iteration_def map_fst_hm_iter_iteration)

lemma iteration_empty [simp]: "iteration Mapping.empty ks \<longleftrightarrow> ks = []"
  by (auto simp: iteration_def)

lemma iteration_ordered_keys:
  "finite (Mapping.keys m) \<Longrightarrow> iteration m (Mapping.ordered_keys m)"
  by (simp add: iteration_def)

section \<open>Strings\<close>

text \<open>\<open>s.starts_with(p)\<close> is \<open>prefix p s\<close>; the ordering of strings is bytewise.\<close>

text \<open>\<open>sort_unstable\<close> then \<open>dedup\<close>.\<close>

definition sort_dedup :: "string list \<Rightarrow> string list" where
  "sort_dedup ids = remdups_adj (sort ids)"

lemma set_sort_dedup [simp]: "set (sort_dedup ids) = set ids"
  by (simp add: sort_dedup_def)

lemma sorted_sort_dedup: "sorted (sort_dedup ids)"
  by (simp add: sort_dedup_def)

lemma distinct_remdups_adj_sorted: "sorted xs \<Longrightarrow> distinct (remdups_adj xs)"
  by (induction xs rule: remdups_adj.induct) (auto simp: less_le_not_le)

lemma distinct_sort_dedup [simp]: "distinct (sort_dedup ids)"
  by (simp add: sort_dedup_def distinct_remdups_adj_sorted)

lemma strict_sorted_sort_dedup: "sorted_wrt (<) (sort_dedup ids)"
  by (simp add: sorted_sort_dedup strict_sorted_iff)

text \<open>Decimal text of an unsigned number, as \<open>Display\<close> writes it.\<close>

definition digit_char :: "nat \<Rightarrow> char" where
  "digit_char d = char_of (48 + d)"

fun show_nat :: "nat \<Rightarrow> string" where
  "show_nat n =
     (if n < 10 then [digit_char n] else show_nat (n div 10) @ [digit_char (n mod 10)])"

declare show_nat.simps [simp del]

definition show_u64 :: "u64 \<Rightarrow> string" where
  "show_u64 w = show_nat (unat w)"

lemma digit_char_inj: "a < 10 \<Longrightarrow> b < 10 \<Longrightarrow> digit_char a = digit_char b \<longleftrightarrow> a = b"
proof -
  assume a: "a < 10" "b < 10"
  have "of_char (digit_char a) = (48 + a) mod 256" "of_char (digit_char b) = (48 + b) mod 256"
    by (simp_all add: digit_char_def)
  then have "digit_char a = digit_char b \<longrightarrow> (48 + a) mod 256 = (48 + b) mod 256" by metis
  with a show ?thesis by auto
qed

lemma show_nat_nonempty [simp]: "show_nat n \<noteq> []"
  by (subst show_nat.simps) simp

lemma Nil_neq_show_nat [simp]: "[] \<noteq> show_nat n"
  using show_nat_nonempty [of n] by metis

lemma show_nat_inj: "show_nat a = show_nat b \<Longrightarrow> a = b"
proof (induction a arbitrary: b rule: show_nat.induct)
  case (1 a)
  show ?case
  proof (cases "a < 10"; cases "b < 10")
    assume "a < 10" "b < 10"
    with "1.prems" show ?thesis by (simp add: show_nat.simps digit_char_inj)
  next
    assume "a < 10" "\<not> b < 10"
    with "1.prems" show ?thesis by (simp add: show_nat.simps [of a] show_nat.simps [of b])
  next
    assume "\<not> a < 10" "b < 10"
    with "1.prems" show ?thesis by (simp add: show_nat.simps [of a] show_nat.simps [of b])
  next
    assume a: "\<not> a < 10" and b: "\<not> b < 10"
    with "1.prems" have "show_nat (a div 10) = show_nat (b div 10)"
      and "a mod 10 = b mod 10"
      by (simp_all add: show_nat.simps [of a] show_nat.simps [of b] digit_char_inj)
    with "1.IH" [OF a] show ?thesis by (metis div_mult_mod_eq)
  qed
qed

end
