(* ===== verification/Event_Record.thy ===== *)
theory Event_Record
  imports Prelude
begin

text \<open>
  Stored events (\<open>src/entity/event_record.rs\<close>, \<open>local_event.rs\<close>): the record, its
  constructors and accessors, and the fields it is serialized to.  \<open>bitcode\<close>, \<open>serde_json\<close>
  and \<open>base64\<close> are not part of the repository: what the code asks of them is an argument.
\<close>

section \<open>Payload errors\<close>

record payload_error =
  pe_message :: string

definition payload_error_display :: "payload_error \<Rightarrow> string" where
  "payload_error_display e = ''payload error: '' @ pe_message e"

section \<open>The record\<close>

type_synonym metadata = "(string, string) mapping"

record event_record =
  er_event_name :: string
  er_payload :: bytes
  er_event_version :: u64
  er_sequence :: u64
  er_timestamp :: system_time
  er_metadata :: metadata

definition default_event_version :: u64 where
  "default_event_version = 1"

definition is_version_one :: "u64 \<Rightarrow> bool" where
  "is_version_one v \<longleftrightarrow> v = 1"

definition event_record_new :: "string \<Rightarrow> bytes \<Rightarrow> u64 \<Rightarrow> system_time \<Rightarrow> event_record" where
  "event_record_new name payload sequence now =
     \<lparr>er_event_name = name, er_payload = payload, er_event_version = 1,
      er_sequence = sequence, er_timestamp = now, er_metadata = Mapping.empty\<rparr>"

definition event_record_new_versioned ::
    "string \<Rightarrow> bytes \<Rightarrow> u64 \<Rightarrow> u64 \<Rightarrow> system_time \<Rightarrow> event_record" where
  "event_record_new_versioned name payload sequence version now =
     \<lparr>er_event_name = name, er_payload = payload, er_event_version = version,
      er_sequence = sequence, er_timestamp = now, er_metadata = Mapping.empty\<rparr>"

definition event_record_with_metadata ::
    "string \<Rightarrow> bytes \<Rightarrow> u64 \<Rightarrow> metadata \<Rightarrow> system_time \<Rightarrow> event_record" where
  "event_record_with_metadata name payload sequence md now =
     \<lparr>er_event_name = name, er_payload = payload, er_event_version = 1,
      er_sequence = sequence, er_timestamp = now, er_metadata = md\<rparr>"

text \<open>
  \<open>decode\<close>: \<open>deser\<close> is \<open>bitcode::deserialize\<close> at the type the caller decodes to, with the
  text of its error.
\<close>

definition event_record_decode ::
    "(bytes \<Rightarrow> string + 'a) \<Rightarrow> event_record \<Rightarrow> (payload_error, 'a) outcome" where
  "event_record_decode deser r =
     (case deser (er_payload r) of
        Inl msg \<Rightarrow> Err \<lparr>pe_message = msg\<rparr>
      | Inr a \<Rightarrow> Ok a)"

definition event_record_payload_bytes :: "event_record \<Rightarrow> bytes" where
  "event_record_payload_bytes r = er_payload r"

definition event_record_meta :: "event_record \<Rightarrow> string \<Rightarrow> string option" where
  "event_record_meta r key = Mapping.lookup (er_metadata r) key"

definition event_record_correlation_id :: "event_record \<Rightarrow> string option" where
  "event_record_correlation_id r = event_record_meta r ''correlation_id''"

definition event_record_causation_id :: "event_record \<Rightarrow> string option" where
  "event_record_causation_id r = event_record_meta r ''causation_id''"

section \<open>Serialized form\<close>

text \<open>
  The serde attributes of the struct decide which fields are written and what a missing field
  reads as.  The wire form is the list of fields; the payload is base64 text.
\<close>

datatype wire_field =
    WString string
  | WU64 u64
  | WTime system_time
  | WMap metadata

type_synonym wire_object = "(string \<times> wire_field) list"

definition event_record_serialize :: "(bytes \<Rightarrow> string) \<Rightarrow> event_record \<Rightarrow> wire_object" where
  "event_record_serialize b64 r =
     [(''event_name'', WString (er_event_name r)),
      (''payload'', WString (b64 (er_payload r)))]
     @ (if is_version_one (er_event_version r) then []
        else [(''event_version'', WU64 (er_event_version r))])
     @ [(''sequence'', WU64 (er_sequence r)),
        (''timestamp'', WTime (er_timestamp r))]
     @ (if Mapping.is_empty (er_metadata r) then []
        else [(''metadata'', WMap (er_metadata r))])"

fun wire_string :: "wire_field option \<Rightarrow> string option" where
  "wire_string (Some (WString s)) = Some s"
| "wire_string _ = None"

fun wire_u64 :: "wire_field option \<Rightarrow> u64 option" where
  "wire_u64 (Some (WU64 w)) = Some w"
| "wire_u64 _ = None"

fun wire_time :: "wire_field option \<Rightarrow> system_time option" where
  "wire_time (Some (WTime t)) = Some t"
| "wire_time _ = None"

fun wire_map :: "wire_field option \<Rightarrow> metadata option" where
  "wire_map (Some (WMap m)) = Some m"
| "wire_map _ = None"

definition event_record_deserialize ::
    "(string \<Rightarrow> bytes option) \<Rightarrow> wire_object \<Rightarrow> event_record option" where
  "event_record_deserialize unb64 fs =
     Option.bind (wire_string (map_of fs ''event_name'')) (\<lambda>name.
     Option.bind (wire_string (map_of fs ''payload'')) (\<lambda>text.
     Option.bind (unb64 text) (\<lambda>payload.
     Option.bind (case map_of fs ''event_version'' of
                    None \<Rightarrow> Some default_event_version
                  | Some f \<Rightarrow> wire_u64 (Some f)) (\<lambda>version.
     Option.bind (wire_u64 (map_of fs ''sequence'')) (\<lambda>sequence.
     Option.bind (wire_time (map_of fs ''timestamp'')) (\<lambda>ts.
     Option.bind (case map_of fs ''metadata'' of
                    None \<Rightarrow> Some Mapping.empty
                  | Some f \<Rightarrow> wire_map (Some f)) (\<lambda>md.
       Some \<lparr>er_event_name = name, er_payload = payload, er_event_version = version,
             er_sequence = sequence, er_timestamp = ts, er_metadata = md\<rparr>)))))))"

lemma mapping_is_empty_iff: "Mapping.is_empty m \<longleftrightarrow> m = Mapping.empty"
  by (metis Mapping.is_empty_def Mapping.is_empty_empty keys_dom_lookup dom_eq_empty_conv
        lookup_empty mapping_eqI)

lemma event_record_roundtrip_lemma:
  assumes "\<And>bs. unb64 (b64 bs) = Some bs"
  shows "event_record_deserialize unb64 (event_record_serialize b64 r) = Some r"
  by (cases "er_event_version r = 1"; cases "Mapping.is_empty (er_metadata r)")
     (simp_all add: event_record_deserialize_def event_record_serialize_def assms
        is_version_one_def default_event_version_def mapping_is_empty_iff)

section \<open>Local events\<close>

text \<open>A queued in-process event and the two accessors of the \<open>Event\<close> trait.\<close>

record local_event =
  le_event_type :: string
  le_data :: string

definition local_event_type :: "local_event \<Rightarrow> string" where
  "local_event_type e = le_event_type e"

definition local_event_get_data :: "local_event \<Rightarrow> string" where
  "local_event_get_data e = le_data e"

lemma event_record_new_simps [simp]:
  "er_event_name (event_record_new n p s t) = n"
  "er_payload (event_record_new n p s t) = p"
  "er_event_version (event_record_new n p s t) = 1"
  "er_sequence (event_record_new n p s t) = s"
  "er_metadata (event_record_new n p s t) = Mapping.empty"
  by (simp_all add: event_record_new_def)

lemma event_record_new_versioned_simps [simp]:
  "er_event_name (event_record_new_versioned n p s v t) = n"
  "er_payload (event_record_new_versioned n p s v t) = p"
  "er_event_version (event_record_new_versioned n p s v t) = v"
  "er_sequence (event_record_new_versioned n p s v t) = s"
  "er_metadata (event_record_new_versioned n p s v t) = Mapping.empty"
  by (simp_all add: event_record_new_versioned_def)

end
