(* ===== verification/Entity.thy ===== *)
theory Entity
  imports Event_Record
begin

text \<open>
  The event-sourced entity (\<open>src/entity/entity.rs\<close>, \<open>committable.rs\<close>): its fields, every
  operation, the well-formedness invariant they keep, and which events count as new.
\<close>

section \<open>State\<close>

record entity =
  en_id :: string
  en_version :: u64
  en_events :: "event_record list"
  en_replaying :: bool
  en_snapshot_version :: u64
  en_committed_version :: u64
  en_timestamp :: system_time
  en_metadata :: metadata

definition entity_default :: "system_time \<Rightarrow> entity" where
  "entity_default now =
     \<lparr>en_id = [], en_version = 0, en_events = [], en_replaying = False,
      en_snapshot_version = 0, en_committed_version = 0, en_timestamp = now,
      en_metadata = Mapping.empty\<rparr>"

definition entity_clone :: "entity \<Rightarrow> entity" where
  "entity_clone e =
     \<lparr>en_id = en_id e, en_version = en_version e, en_events = en_events e,
      en_replaying = en_replaying e, en_snapshot_version = en_snapshot_version e,
      en_committed_version = en_committed_version e, en_timestamp = en_timestamp e,
      en_metadata = en_metadata e\<rparr>"

definition entity_new :: "system_time \<Rightarrow> entity" where
  "entity_new now = entity_default now"

definition entity_with_id :: "string \<Rightarrow> system_time \<Rightarrow> entity" where
  "entity_with_id ident now = (entity_default now)\<lparr>en_id := ident\<rparr>"

section \<open>Accessors and setters\<close>

definition set_id :: "string \<Rightarrow> entity \<Rightarrow> entity" where
  "set_id ident e = e\<lparr>en_id := ident\<rparr>"

definition set_snapshot_version :: "u64 \<Rightarrow> entity \<Rightarrow> entity" where
  "set_snapshot_version v e = e\<lparr>en_snapshot_version := v\<rparr>"

text \<open>
  \<open>new_events\<close> slices the event vector from the committed version on.  A slice that starts
  behind the end of the vector panics: that is \<open>None\<close>.
\<close>

definition new_events :: "entity \<Rightarrow> event_record list option" where
  "new_events e =
     (if unat (en_committed_version e) \<le> length (en_events e)
      then Some (drop (unat (en_committed_version e)) (en_events e))
      else None)"

definition mark_committed :: "entity \<Rightarrow> entity" where
  "mark_committed e = e\<lparr>en_committed_version := en_version e\<rparr>"

definition set_metadata :: "metadata \<Rightarrow> entity \<Rightarrow> entity" where
  "set_metadata md e = e\<lparr>en_metadata := md\<rparr>"

definition set_meta :: "string \<Rightarrow> string \<Rightarrow> entity \<Rightarrow> entity" where
  "set_meta key val e = e\<lparr>en_metadata := Mapping.update key val (en_metadata e)\<rparr>"

definition set_correlation_id :: "string \<Rightarrow> entity \<Rightarrow> entity" where
  "set_correlation_id ident e = set_meta ''correlation_id'' ident e"

definition set_causation_id :: "string \<Rightarrow> entity \<Rightarrow> entity" where
  "set_causation_id ident e = set_meta ''causation_id'' ident e"

definition clear_metadata :: "entity \<Rightarrow> entity" where
  "clear_metadata e = e\<lparr>en_metadata := Mapping.empty\<rparr>"

definition set_replaying :: "bool \<Rightarrow> entity \<Rightarrow> entity" where
  "set_replaying b e = e\<lparr>en_replaying := b\<rparr>"

section \<open>Recording events\<close>

text \<open>
  \<open>ser\<close> is \<open>bitcode::serialize\<close> at the payload's type; its failure makes \<open>expect\<close> panic,
  which is \<open>None\<close>.
\<close>

definition push_record :: "event_record \<Rightarrow> system_time \<Rightarrow> entity \<Rightarrow> entity" where
  "push_record r now e =
     (let r' = (if \<not> Mapping.is_empty (en_metadata e)
                then r\<lparr>er_metadata := en_metadata e\<rparr> else r);
          evs = en_events e @ [r']
      in e\<lparr>en_events := evs, en_version := len_u64 evs, en_timestamp := now\<rparr>)"

definition digest ::
    "('p \<Rightarrow> bytes option) \<Rightarrow> system_time \<Rightarrow> string \<Rightarrow> 'p \<Rightarrow> entity \<Rightarrow> entity option" where
  "digest ser now name payload e =
     (if en_replaying e then Some e
      else case ser payload of
        None \<Rightarrow> None
      | Some bs \<Rightarrow>
          (let sequence = len_u64 (en_events e) + 1
           in Some (push_record (event_record_new name bs sequence now) now e)))"

definition digest_v ::
    "('p \<Rightarrow> bytes option) \<Rightarrow> system_time \<Rightarrow> string \<Rightarrow> u64 \<Rightarrow> 'p \<Rightarrow> entity \<Rightarrow> entity option" where
  "digest_v ser now name version payload e =
     (if en_replaying e then Some e
      else case ser payload of
        None \<Rightarrow> None
      | Some bs \<Rightarrow>
          (let sequence = len_u64 (en_events e) + 1
           in Some (push_record (event_record_new_versioned name bs sequence version now) now e)))"

definition digest_empty ::
    "(unit \<Rightarrow> bytes option) \<Rightarrow> system_time \<Rightarrow> string \<Rightarrow> entity \<Rightarrow> entity option" where
  "digest_empty ser now name e = digest ser now name () e"

definition load_from_history :: "event_record list \<Rightarrow> entity \<Rightarrow> entity" where
  "load_from_history history e =
     (let e' = e\<lparr>en_events := history, en_version := len_u64 history\<rparr>
      in e'\<lparr>en_committed_version := en_version e'\<rparr>)"

text \<open>
  \<open>set_snapshot\<close> replaces the events by one and does not look at the replaying flag or the
  committed version.
\<close>

definition set_snapshot ::
    "('p \<Rightarrow> bytes option) \<Rightarrow> system_time \<Rightarrow> 'p \<Rightarrow> entity \<Rightarrow> entity option" where
  "set_snapshot ser now data e =
     (case ser data of
        None \<Rightarrow> None
      | Some bs \<Rightarrow>
          Some (e\<lparr>en_events := [event_record_new ''Snapshot'' bs 1 now],
                  en_version := 1, en_timestamp := now\<rparr>))"

section \<open>Rehydration\<close>

text \<open>
  The guard sets the flag, and clears it when it is dropped: also when the closure fails or
  panics.  The closure has its own state \<open>'s\<close> and cannot reach the entity.
\<close>

definition replay_guard_new :: "entity \<Rightarrow> entity" where
  "replay_guard_new e = e\<lparr>en_replaying := True\<rparr>"

definition replay_guard_drop :: "entity \<Rightarrow> entity" where
  "replay_guard_drop e = e\<lparr>en_replaying := False\<rparr>"

fun apply_events ::
    "(event_record \<Rightarrow> ('s, 'e, unit) call) \<Rightarrow> event_record list \<Rightarrow> ('s, 'e, unit) call" where
  "apply_events f [] s = (Ok (), s)"
| "apply_events f (ev # evs) s = st_bind (f ev) (\<lambda>_. apply_events f evs) s"

definition rehydrate ::
    "(event_record \<Rightarrow> ('s, 'e, unit) call) \<Rightarrow> 's \<Rightarrow> entity \<Rightarrow>
     ('e, unit) outcome \<times> 's \<times> entity" where
  "rehydrate f s e =
     (let e1 = replay_guard_new e;
          (r, s') = apply_events f (en_events e1) s
      in (r, s', replay_guard_drop e1))"

section \<open>Serialized form\<close>

text \<open>
  \<open>#[serde(skip, default)]\<close> drops the replaying flag, the committed version and the metadata.
\<close>

record stored_entity =
  se_id :: string
  se_version :: u64
  se_events :: "event_record list"
  se_snapshot_version :: u64
  se_timestamp :: system_time

definition entity_serialize :: "entity \<Rightarrow> stored_entity" where
  "entity_serialize e =
     \<lparr>se_id = en_id e, se_version = en_version e, se_events = en_events e,
      se_snapshot_version = en_snapshot_version e, se_timestamp = en_timestamp e\<rparr>"

definition entity_deserialize :: "stored_entity \<Rightarrow> entity" where
  "entity_deserialize s =
     \<lparr>en_id = se_id s, en_version = se_version s, en_events = se_events s,
      en_replaying = False, en_snapshot_version = se_snapshot_version s,
      en_committed_version = 0, en_timestamp = se_timestamp s, en_metadata = Mapping.empty\<rparr>"

section \<open>Committable\<close>

text \<open>
  What can be given to \<open>commit\<close>.  Exclusive references cannot alias, so the entities of one
  commit are distinct objects, although their ids may agree.
\<close>

datatype committable =
    CEntity entity
  | CSlice "entity list"
  | CArray "entity list"
  | CVec "entity list"

fun entities_mut :: "committable \<Rightarrow> entity list" where
  "entities_mut (CEntity e) = [e]"
| "entities_mut (CSlice es) = es"
| "entities_mut (CArray es) = es"
| "entities_mut (CVec es) = es"

section \<open>Well-formed entities\<close>

text \<open>
  The events of a stream are numbered from 1; the version of an entity is the number of its
  events, and no more events are committed than there are.
\<close>

definition seq_ok :: "event_record list \<Rightarrow> bool" where
  "seq_ok evs \<longleftrightarrow> map (\<lambda>r. unat (er_sequence r)) evs = [1..<Suc (length evs)]"

definition entity_wf :: "entity \<Rightarrow> bool" where
  "entity_wf e \<longleftrightarrow>
     unat (en_version e) = length (en_events e) \<and>
     unat (en_committed_version e) \<le> length (en_events e) \<and>
     seq_ok (en_events e)"

lemma seq_ok_Nil [simp]: "seq_ok []"
  by (simp add: seq_ok_def)

lemma seq_ok_snoc:
  "seq_ok (evs @ [r]) \<longleftrightarrow> seq_ok evs \<and> unat (er_sequence r) = Suc (length evs)"
  by (auto simp: seq_ok_def)

lemma seq_ok_nth: "seq_ok evs \<Longrightarrow> i < length evs \<Longrightarrow> unat (er_sequence (evs ! i)) = Suc i"
proof -
  assume ok: "seq_ok evs" and i: "i < length evs"
  have "map (\<lambda>r. unat (er_sequence r)) evs ! i = [1..<Suc (length evs)] ! i"
    using ok by (simp add: seq_ok_def)
  with i show ?thesis by (simp del: upt_Suc)
qed

lemma seq_ok_take: "seq_ok evs \<Longrightarrow> seq_ok (take n evs)"
  by (auto simp: seq_ok_def take_map [symmetric] min_def)

lemma seq_ok_cong:
  "map er_sequence evs = map er_sequence evs' \<Longrightarrow> seq_ok evs \<longleftrightarrow> seq_ok evs'"
proof -
  assume eq: "map er_sequence evs = map er_sequence evs'"
  then have "length evs = length evs'" by (metis length_map)
  moreover from eq have "map (unat \<circ> er_sequence) evs = map (unat \<circ> er_sequence) evs'"
    by (metis map_map)
  ultimately show ?thesis by (simp add: seq_ok_def comp_def)
qed

lemma entity_wfD:
  assumes "entity_wf e"
  shows "unat (en_version e) = length (en_events e)"
    and "unat (en_committed_version e) \<le> length (en_events e)"
    and "seq_ok (en_events e)"
  using assms by (simp_all add: entity_wf_def)

lemma entity_wf_default [simp]: "entity_wf (entity_default now)"
  by (simp add: entity_wf_def entity_default_def)

lemma entity_wf_with_id [simp]: "entity_wf (entity_with_id ident now)"
  by (simp add: entity_wf_def entity_default_def entity_with_id_def)

lemma entity_wf_frame [simp]:
  "entity_wf (e\<lparr>en_id := i\<rparr>) = entity_wf e"
  "entity_wf (e\<lparr>en_replaying := b\<rparr>) = entity_wf e"
  "entity_wf (e\<lparr>en_snapshot_version := v\<rparr>) = entity_wf e"
  "entity_wf (e\<lparr>en_timestamp := t\<rparr>) = entity_wf e"
  "entity_wf (e\<lparr>en_metadata := m\<rparr>) = entity_wf e"
  by (simp_all add: entity_wf_def)

lemmas entity_setters =
  set_id_def set_snapshot_version_def set_metadata_def set_meta_def set_correlation_id_def
  set_causation_id_def clear_metadata_def set_replaying_def replay_guard_new_def
  replay_guard_drop_def

lemma push_record_simps [simp]:
  "en_id (push_record r now e) = en_id e"
  "en_replaying (push_record r now e) = en_replaying e"
  "en_snapshot_version (push_record r now e) = en_snapshot_version e"
  "en_committed_version (push_record r now e) = en_committed_version e"
  "en_metadata (push_record r now e) = en_metadata e"
  "en_timestamp (push_record r now e) = now"
  by (simp_all add: push_record_def Let_def)

lemma push_record_events:
  assumes "er_metadata r = Mapping.empty"
  shows "en_events (push_record r now e) = en_events e @ [r\<lparr>er_metadata := en_metadata e\<rparr>]"
  using assms by (cases "Mapping.is_empty (en_metadata e)")
    (auto simp: push_record_def Let_def mapping_is_empty_iff)

lemma push_record_version:
  "en_version (push_record r now e) = len_u64 (en_events e) + 1"
  by (simp add: push_record_def Let_def len_u64_snoc)

lemma push_record_wf:
  assumes "entity_wf e" and "vec_fits (en_events e)" and "er_metadata r = Mapping.empty"
    and "er_sequence r = len_u64 (en_events e) + 1"
  shows "entity_wf (push_record r now e)"
  using assms
  by (simp add: entity_wf_def push_record_events push_record_version seq_ok_snoc
      unat_len_u64_Suc)

text \<open>What one \<open>digest\<close> does, on each of its branches.\<close>

lemma digest_replaying [simp]: "en_replaying e \<Longrightarrow> digest ser now name p e = Some e"
  by (simp add: digest_def)

lemma digest_Some_iff:
  "\<not> en_replaying e \<Longrightarrow> digest ser now name p e = Some e' \<longleftrightarrow>
     (\<exists>bs. ser p = Some bs \<and>
        e' = push_record (event_record_new name bs (len_u64 (en_events e) + 1) now) now e)"
  by (auto simp: digest_def split: option.splits)

lemma digest_v_replaying [simp]: "en_replaying e \<Longrightarrow> digest_v ser now name v p e = Some e"
  by (simp add: digest_v_def)

lemma digest_v_Some_iff:
  "\<not> en_replaying e \<Longrightarrow> digest_v ser now name v p e = Some e' \<longleftrightarrow>
     (\<exists>bs. ser p = Some bs \<and>
        e' = push_record
               (event_record_new_versioned name bs (len_u64 (en_events e) + 1) v now) now e)"
  by (auto simp: digest_v_def split: option.splits)

lemma digest_wf:
  "entity_wf e \<Longrightarrow> vec_fits (en_events e) \<Longrightarrow> digest ser now name p e = Some e' \<Longrightarrow> entity_wf e'"
  by (cases "en_replaying e") (auto simp: digest_Some_iff intro: push_record_wf)

lemma digest_v_wf:
  "entity_wf e \<Longrightarrow> vec_fits (en_events e) \<Longrightarrow> digest_v ser now name v p e = Some e' \<Longrightarrow> entity_wf e'"
  by (cases "en_replaying e") (auto simp: digest_v_Some_iff intro: push_record_wf)

lemma digest_v_one: "digest_v ser now name 1 p e = digest ser now name p e"
  by (simp add: digest_def digest_v_def event_record_new_def event_record_new_versioned_def
      cong: option.case_cong)

lemma load_from_history_simps [simp]:
  "en_id (load_from_history h e) = en_id e"
  "en_events (load_from_history h e) = h"
  "en_version (load_from_history h e) = len_u64 h"
  "en_committed_version (load_from_history h e) = len_u64 h"
  "en_replaying (load_from_history h e) = en_replaying e"
  "en_snapshot_version (load_from_history h e) = en_snapshot_version e"
  "en_metadata (load_from_history h e) = en_metadata e"
  by (simp_all add: load_from_history_def Let_def)

lemma load_from_history_wf: "seq_ok h \<Longrightarrow> vec_fits h \<Longrightarrow> entity_wf (load_from_history h e)"
  by (simp add: entity_wf_def)

lemma mark_committed_wf: "entity_wf e \<Longrightarrow> entity_wf (mark_committed e)"
  by (simp add: entity_wf_def mark_committed_def)

text \<open>New events.\<close>

lemma new_events_wf:
  "entity_wf e \<Longrightarrow> new_events e = Some (drop (unat (en_committed_version e)) (en_events e))"
  by (simp add: new_events_def entity_wf_def)

lemma new_events_load_from_history: "vec_fits h \<Longrightarrow> new_events (load_from_history h e) = Some []"
  by (simp add: new_events_def)

lemma new_events_mark_committed: "entity_wf e \<Longrightarrow> new_events (mark_committed e) = Some []"
  by (simp add: new_events_def mark_committed_def entity_wf_def)

lemma new_events_push_record:
  assumes "entity_wf e" and "er_metadata r = Mapping.empty"
  shows "new_events (push_record r now e) =
           map_option (\<lambda>evs. evs @ [r\<lparr>er_metadata := en_metadata e\<rparr>]) (new_events e)"
  using assms by (auto simp: new_events_def push_record_events entity_wf_def)

lemma apply_events_append:
  "apply_events f (xs @ ys) s = st_bind (apply_events f xs) (\<lambda>_. apply_events f ys) s"
proof (induction xs arbitrary: s)
  case Nil
  then show ?case by (simp add: st_bind_def)
next
  case (Cons x xs)
  then show ?case
    by (auto simp: st_bind_def split: prod.splits outcome.splits)
qed

section \<open>Histories of an entity\<close>

text \<open>
  The entities a program can build with the public operations other than \<open>set_snapshot\<close>, with
  the history that was given last to \<open>load_from_history\<close>: any list of events, numbered or not, that
  fits in a vector.  What a digest does depends on its payload through the serialized bytes only,
  so the payload here is a unit.
\<close>

inductive entity_built :: "event_record list \<Rightarrow> entity \<Rightarrow> bool" where
  built_new: "entity_built [] (entity_new now)"
| built_with_id: "entity_built [] (entity_with_id ident now)"
| built_clone: "entity_built h e \<Longrightarrow> entity_built h (entity_clone e)"
| built_set_id: "entity_built h e \<Longrightarrow> entity_built h (set_id ident e)"
| built_set_snapshot_version: "entity_built h e \<Longrightarrow> entity_built h (set_snapshot_version v e)"
| built_set_metadata: "entity_built h e \<Longrightarrow> entity_built h (set_metadata md e)"
| built_set_meta: "entity_built h e \<Longrightarrow> entity_built h (set_meta key val e)"
| built_clear_metadata: "entity_built h e \<Longrightarrow> entity_built h (clear_metadata e)"
| built_set_replaying: "entity_built h e \<Longrightarrow> entity_built h (set_replaying b e)"
| built_mark_committed: "entity_built h e \<Longrightarrow> entity_built h (mark_committed e)"
| built_load_from_history: "entity_built h e \<Longrightarrow> vec_fits h' \<Longrightarrow> entity_built h' (load_from_history h' e)"
| built_digest:
    "entity_built h e \<Longrightarrow> vec_fits (en_events e) \<Longrightarrow>
     digest (\<lambda>_. Some bs) now name () e = Some e' \<Longrightarrow> entity_built h e'"
| built_digest_v:
    "entity_built h e \<Longrightarrow> vec_fits (en_events e) \<Longrightarrow>
     digest_v (\<lambda>_. Some bs) now name v () e = Some e' \<Longrightarrow> entity_built h e'"
| built_serde: "entity_built h e \<Longrightarrow> entity_built h (entity_deserialize (entity_serialize e))"

definition numbered_after :: "event_record list \<Rightarrow> entity \<Rightarrow> bool" where
  "numbered_after h e \<longleftrightarrow>
     unat (en_version e) = length (en_events e) \<and> unat (en_committed_version e) \<le> length (en_events e) \<and>
     prefix h (en_events e) \<and>
     (\<forall>i. length h \<le> i \<longrightarrow> i < length (en_events e) \<longrightarrow> unat (er_sequence (en_events e ! i)) = Suc i)"

lemma numbered_after_push:
  assumes "numbered_after h e" and "vec_fits (en_events e)" and "er_metadata r = Mapping.empty"
    and "er_sequence r = len_u64 (en_events e) + 1"
  shows "numbered_after h (push_record r now e)"
  using assms
  by (auto simp: numbered_after_def push_record_events push_record_version unat_len_u64_Suc nth_append less_Suc_eq)

lemma entity_built_numbered: "entity_built h e \<Longrightarrow> numbered_after h e"
proof (induction rule: entity_built.induct)
  case (built_digest h e bs now name e')
  then show ?case by (cases "en_replaying e") (auto simp: digest_Some_iff intro: numbered_after_push)
next
  case (built_digest_v h e bs now name v e')
  then show ?case by (cases "en_replaying e") (auto simp: digest_v_Some_iff intro: numbered_after_push)
qed (simp_all add: numbered_after_def entity_new_def entity_clone_def entity_setters mark_committed_def
       load_from_history_def Let_def entity_deserialize_def entity_serialize_def
       entity_default_def entity_with_id_def)

section \<open>Properties\<close>

lemma apply_events_Err_split:
  "apply_events f evs s = (Err x, s') \<Longrightarrow>
     \<exists>xs ev ys s1. evs = xs @ ev # ys \<and> apply_events f xs s = (Ok (), s1) \<and> f ev s1 = (Err x, s')"
proof (induction evs arbitrary: s)
  case Nil
  then show ?case by simp
next
  case (Cons ev evs)
  show ?case
  proof (cases "f ev s")
    case (Pair r s1)
    show ?thesis
    proof (cases r)
      case (Ok u)
      with Pair Cons.prems have "apply_events f evs s1 = (Err x, s')" by simp
      from Cons.IH [OF this] obtain xs ev' ys s2
        where "evs = xs @ ev' # ys" "apply_events f xs s1 = (Ok (), s2)" "f ev' s2 = (Err x, s')"
        by blast
      with Pair Ok have "ev # evs = (ev # xs) @ ev' # ys \<and>
          apply_events f (ev # xs) s = (Ok (), s2) \<and> f ev' s2 = (Err x, s')"
        by simp
      then show ?thesis by blast
    next
      case (Err y)
      with Pair Cons.prems have "ev # evs = [] @ ev # evs \<and>
          apply_events f [] s = (Ok (), s) \<and> f ev s = (Err x, s')"
        by simp
      then show ?thesis by blast
    qed (use Pair Cons.prems in simp_all)
  qed
qed



text \<open>
  Outside a replay, \<open>digest\<close> on a well-formed entity appends exactly one event to the new
  events: it carries the given name, the serialized payload, version 1, the next sequence
  number and the metadata of the entity; the committed events stay and the entity stays
  well-formed.
\<close>

theorem digest_appends_one_event:
  assumes "entity_wf e" and "vec_fits (en_events e)" and "\<not> en_replaying e"
    and "ser p = Some bs"
  shows "\<exists>e' r evs. digest ser now name p e = Some e' \<and> entity_wf e' \<and>
           en_events e' = en_events e @ [r] \<and>
           new_events e = Some evs \<and> new_events e' = Some (evs @ [r]) \<and>
           er_event_name r = name \<and> er_payload r = bs \<and> er_event_version r = 1 \<and>
           unat (er_sequence r) = Suc (length (en_events e)) \<and>
           er_metadata r = en_metadata e \<and>
           en_committed_version e' = en_committed_version e"
proof -
  let ?r = "event_record_new name bs (len_u64 (en_events e) + 1) now"
  have d: "digest ser now name p e = Some (push_record ?r now e)"
    using assms by (simp add: digest_def)
  show ?thesis
    using d digest_wf [OF assms(1,2) d] new_events_push_record [OF assms(1), of ?r now]
      new_events_wf [OF assms(1)] assms(2)
    by (simp add: push_record_events unat_len_u64_Suc)
qed

theorem digest_appends_one_event_witness:
  "\<exists>e'. digest (\<lambda>_. Some [7]) 5 ''e1'' () (entity_default 0) = Some e' \<and>
        length (en_events e') = 1"
proof -
  have h: "entity_wf (entity_default 0)" "vec_fits (en_events (entity_default 0))"
    "\<not> en_replaying (entity_default 0)"
    by (simp, simp add: entity_default_def, simp add: entity_default_def)
  from digest_appends_one_event [OF h, of "\<lambda>_. Some [7]" "()" "[7]" 5 "''e1''"]
  show ?thesis by (auto simp: entity_default_def)
qed

text \<open>
  \<open>set_snapshot\<close> leaves the committed version alone, so afterwards \<open>new_events\<close> returns
  the snapshot event only if nothing had been committed; with one committed event the
  snapshot event is lost to the next commit, and with two or more \<open>new_events\<close> panics.
\<close>

theorem set_snapshot_new_events:
  assumes "set_snapshot ser now d e = Some e'"
  shows "new_events e' =
           (if en_committed_version e = 0 then Some (en_events e')
            else if en_committed_version e = 1 then Some []
            else None)"
proof -
  have len: "length (en_events e') = 1" and c: "en_committed_version e' = en_committed_version e"
    using assms by (auto simp: set_snapshot_def split: option.splits)
  have "unat (en_committed_version e) \<le> 1 \<longleftrightarrow>
          en_committed_version e = 0 \<or> en_committed_version e = 1"
    by (auto simp: word_unat_eq_iff le_Suc_eq)
  then show ?thesis using len c by (auto simp: new_events_def)
qed

theorem set_snapshot_new_events_witness:
  "new_events ((entity_default 0)\<lparr>en_events := [event_record_new ''Snapshot'' [1] 1 9],
      en_version := 1, en_timestamp := 9, en_committed_version := 2\<rparr>) = None"
proof -
  let ?e = "(entity_default 0)\<lparr>en_committed_version := 2\<rparr>"
  have "set_snapshot (\<lambda>_. Some [1]) 9 () ?e =
          Some (?e\<lparr>en_events := [event_record_new ''Snapshot'' [1] 1 9],
                  en_version := 1, en_timestamp := 9\<rparr>)"
    by (simp add: set_snapshot_def)
  from set_snapshot_new_events [OF this] show ?thesis
    by (simp add: entity_default_def)
qed

text \<open>
  \<open>rehydrate\<close> always leaves the entity as it was but with the replaying flag cleared,
  whatever the closure returns; when it fails, the closure had accepted every event before
  the failing one and saw none after it.
\<close>

theorem rehydrate_outcome:
  assumes "rehydrate f s e = (r, s', e')"
  shows "e' = e\<lparr>en_replaying := False\<rparr> \<and>
         (r = Ok () \<longrightarrow> apply_events f (en_events e) s = (Ok (), s')) \<and>
         (\<forall>x. r = Err x \<longrightarrow>
            (\<exists>xs ev ys s1. en_events e = xs @ ev # ys \<and>
               apply_events f xs s = (Ok (), s1) \<and> f ev s1 = (Err x, s')))"
proof -
  have a: "apply_events f (en_events e) s = (r, s')" and e': "e' = e\<lparr>en_replaying := False\<rparr>"
    using assms by (auto simp: rehydrate_def entity_setters split: prod.splits)
  show ?thesis using a e' apply_events_Err_split [of f "en_events e" s] by simp
qed

theorem rehydrate_outcome_witness:
  "en_replaying (snd (snd (rehydrate (\<lambda>ev n. (Err ev, Suc n)) (0::nat)
     ((entity_default 0)\<lparr>en_events := [event_record_new ''a'' [] 1 0]\<rparr>)))) = False"
proof -
  let ?e = "(entity_default 0)\<lparr>en_events := [event_record_new ''a'' [] 1 0]\<rparr>"
  obtain r s' e' where eq: "rehydrate (\<lambda>ev n. (Err ev :: (event_record, unit) outcome, Suc n)) (0::nat) ?e = (r, s', e')"
    by (metis prod_cases3)
  from rehydrate_outcome [OF this] eq show ?thesis by simp
qed

text \<open>
  The serialized form of an entity keeps its identity and its history, and drops exactly
  the transient fields: the entity read back has the same events and version, is not
  replaying, has an empty metadata context, and counts all its events as new.
\<close>

theorem entity_serde_transient:
  assumes "entity_wf e"
  shows "entity_deserialize (entity_serialize e) =
           e\<lparr>en_replaying := False, en_committed_version := 0, en_metadata := Mapping.empty\<rparr> \<and>
         new_events (entity_deserialize (entity_serialize e)) = Some (en_events e)"
  by (simp add: entity_deserialize_def entity_serialize_def new_events_def)

theorem entity_serde_transient_witness:
  "new_events (entity_deserialize (entity_serialize (mark_committed (entity_default 3)))) = Some []"
proof -
  have "entity_wf (mark_committed (entity_default 3))" by (simp add: mark_committed_wf)
  from entity_serde_transient [OF this, THEN conjunct2] show ?thesis
    by (simp add: mark_committed_def entity_default_def entity_serialize_def
        entity_deserialize_def)
qed

end
