(* ===== verification/Upcaster.thy ===== *)
theory Upcaster
  imports Entity
begin

text \<open>
  Event upcasting (\<open>src/entity/upcaster.rs\<close>).  The loop of \<open>upcast_one\<close> restarts after each
  match and ends when no upcaster matches; nothing in the code makes it end, so it is a
  \<open>partial_function\<close> whose \<open>None\<close> is "does not return".
\<close>

section \<open>Upcasters\<close>

record event_upcaster =
  up_event_type :: string
  up_from_version :: u64
  up_to_version :: u64
  up_transform :: "bytes \<Rightarrow> bytes"

definition upcaster_matches :: "event_record \<Rightarrow> event_upcaster \<Rightarrow> bool" where
  "upcaster_matches e u \<longleftrightarrow>
     up_event_type u = er_event_name e \<and> up_from_version u = er_event_version e"

definition apply_upcaster :: "event_upcaster \<Rightarrow> event_record \<Rightarrow> event_record" where
  "apply_upcaster u e =
     e\<lparr>er_payload := up_transform u (er_payload e), er_event_version := up_to_version u\<rparr>"

partial_function (option) upcast_one ::
    "event_upcaster list \<Rightarrow> event_record \<Rightarrow> event_record option" where
  "upcast_one us e =
     (case find (upcaster_matches e) us of
        None \<Rightarrow> Some e
      | Some u \<Rightarrow> upcast_one us (apply_upcaster u e))"

fun upcast_events ::
    "event_record list \<Rightarrow> event_upcaster list \<Rightarrow> event_record list option" where
  "upcast_events [] us = Some []"
| "upcast_events (e # es) us =
     Option.bind (upcast_one us e) (\<lambda>e'.
     Option.bind (upcast_events es us) (\<lambda>es'. Some (e' # es')))"

lemma apply_upcaster_simps [simp]:
  "er_event_name (apply_upcaster u e) = er_event_name e"
  "er_sequence (apply_upcaster u e) = er_sequence e"
  "er_timestamp (apply_upcaster u e) = er_timestamp e"
  "er_metadata (apply_upcaster u e) = er_metadata e"
  "er_event_version (apply_upcaster u e) = up_to_version u"
  "er_payload (apply_upcaster u e) = up_transform u (er_payload e)"
  by (simp_all add: apply_upcaster_def)

lemma upcast_one_no_match: "find (upcaster_matches e) us = None \<Longrightarrow> upcast_one us e = Some e"
  by (simp add: upcast_one.simps)

lemma upcast_one_match:
  "find (upcaster_matches e) us = Some u \<Longrightarrow> upcast_one us e = upcast_one us (apply_upcaster u e)"
  by (subst upcast_one.simps) simp

lemma upcast_one_Nil [simp]: "upcast_one [] e = Some e"
  by (simp add: upcast_one.simps)

lemma upcast_events_Nil_upcasters [simp]: "upcast_events es [] = Some es"
  by (induction es) auto

lemma upcast_events_no_match:
  "\<forall>u \<in> set us. \<forall>e \<in> set es. \<not> upcaster_matches e u \<Longrightarrow> upcast_events es us = Some es"
  by (induction es) (simp_all add: upcast_one_no_match find_None_iff)

lemma find_SomeD: "find P xs = Some x \<Longrightarrow> x \<in> set xs \<and> P x"
  by (auto simp: find_Some_iff)

section \<open>What a returning call returns\<close>

text \<open>
  The reference: the chain of upcasters from an event to a version none of them handles.
\<close>

inductive upcast_chain :: "event_upcaster list \<Rightarrow> event_record \<Rightarrow> event_record \<Rightarrow> bool" for us where
  chain_end: "\<forall>u \<in> set us. \<not> upcaster_matches e u \<Longrightarrow> upcast_chain us e e"
| chain_step: "find (upcaster_matches e) us = Some u \<Longrightarrow> upcast_chain us (apply_upcaster u e) e' \<Longrightarrow>
    upcast_chain us e e'"

lemma upcast_one_chain: "upcast_one us e = Some e' \<Longrightarrow> upcast_chain us e e'"
proof (rule upcast_one.raw_induct [where P = "\<lambda>us e e'. upcast_chain us e e'"])
  fix f us e e'
  assume IH: "\<And>us e e'. f us e = Some e' \<Longrightarrow> upcast_chain us e e'"
    and eq: "(case find (upcaster_matches e) us of None \<Rightarrow> Some e
              | Some u \<Rightarrow> f us (apply_upcaster u e)) = Some e'"
  show "upcast_chain us e e'"
  proof (cases "find (upcaster_matches e) us")
    case None
    with eq show ?thesis by (auto simp: find_None_iff intro: chain_end)
  next
    case (Some u)
    with eq IH show ?thesis by (auto intro: chain_step)
  qed
qed

lemma chain_upcast_one: "upcast_chain us e e' \<Longrightarrow> upcast_one us e = Some e'"
proof (induction rule: upcast_chain.induct)
  case (chain_end e)
  then have "find (upcaster_matches e) us = None" by (simp add: find_None_iff)
  then show ?case by (rule upcast_one_no_match)
next
  case (chain_step e u e')
  then show ?case by (simp add: upcast_one_match)
qed

lemma upcast_one_iff_chain: "upcast_one us e = Some e' \<longleftrightarrow> upcast_chain us e e'"
  by (blast intro: upcast_one_chain chain_upcast_one)

lemma upcast_chain_keeps:
  "upcast_chain us e e' \<Longrightarrow>
     er_event_name e' = er_event_name e \<and> er_sequence e' = er_sequence e \<and>
     er_timestamp e' = er_timestamp e \<and> er_metadata e' = er_metadata e"
  by (induction rule: upcast_chain.induct) auto

lemma upcast_chain_final: "upcast_chain us e e' \<Longrightarrow> \<forall>u \<in> set us. \<not> upcaster_matches e' u"
  by (induction rule: upcast_chain.induct) auto

lemma upcast_events_Some_iff:
  "upcast_events es us = Some es' \<longleftrightarrow> list_all2 (\<lambda>e e'. upcast_one us e = Some e') es es'"
  by (induction es arbitrary: es') (auto simp: bind_eq_Some_conv list_all2_Cons1)

lemma upcast_events_sequences:
  assumes "upcast_events es us = Some es'"
  shows "map er_sequence es' = map er_sequence es"
proof -
  have "list_all2 (\<lambda>e e'. er_sequence e' = er_sequence e) es es'"
    using assms unfolding upcast_events_Some_iff
    by (rule list_all2_mono) (auto dest: upcast_one_chain upcast_chain_keeps)
  then show ?thesis by (induction rule: list_all2_induct) auto
qed

section \<open>Termination\<close>

text \<open>
  If every upcaster raises the version, each round moves the event past at least one of the
  registered source versions, so the loop ends.
\<close>

definition upcasters_increase :: "event_upcaster list \<Rightarrow> bool" where
  "upcasters_increase us \<longleftrightarrow> (\<forall>u \<in> set us. up_from_version u < up_to_version u)"

definition versions_ahead :: "event_upcaster list \<Rightarrow> event_record \<Rightarrow> nat" where
  "versions_ahead us e = length (filter (\<lambda>u. er_event_version e \<le> up_from_version u) us)"

lemma versions_ahead_decreases:
  assumes "upcasters_increase us" and "find (upcaster_matches e) us = Some u"
  shows "versions_ahead us (apply_upcaster u e) < versions_ahead us e"
proof -
  from find_SomeD [OF assms(2)] have u: "u \<in> set us" "up_from_version u = er_event_version e"
    by (auto simp: upcaster_matches_def)
  with assms(1) have lt: "er_event_version e < up_to_version u"
    by (auto simp: upcasters_increase_def)
  let ?A = "\<lambda>x. up_to_version u \<le> up_from_version x"
  let ?B = "\<lambda>x. er_event_version e \<le> up_from_version x"
  have AB: "?A x \<Longrightarrow> ?B x" for x using lt by auto
  have "filter ?A us = filter ?A (filter ?B us)"
    using AB by (auto simp: filter_filter intro!: filter_cong)
  moreover have "u \<in> set (filter ?B us)" and "\<not> ?A u"
    using u lt by auto
  ultimately have "length (filter ?A us) < length (filter ?B us)"
    by (metis length_filter_less)
  then show ?thesis by (simp add: versions_ahead_def)
qed

lemma upcast_one_terminates:
  "upcasters_increase us \<Longrightarrow> \<exists>e'. upcast_one us e = Some e'"
proof (induction "versions_ahead us e" arbitrary: e rule: less_induct)
  case less
  show ?case
  proof (cases "find (upcaster_matches e) us")
    case None
    then show ?thesis by (auto dest: upcast_one_no_match)
  next
    case (Some u)
    then show ?thesis
      using less.hyps [OF versions_ahead_decreases [OF less.prems Some] less.prems]
      by (simp add: upcast_one_match)
  qed
qed

lemma upcast_events_terminates:
  "upcasters_increase us \<Longrightarrow> \<exists>es'. upcast_events es us = Some es'"
proof (induction es)
  case (Cons e es)
  with upcast_one_terminates [OF Cons.prems, of e] show ?case by auto
qed simp

text \<open>A cycle of matches is a loop without end.\<close>

lemma upcast_chain_cycle:
  assumes "find (upcaster_matches e) us = Some u"
    and "\<And>e. upcaster_matches e u \<Longrightarrow> er_event_version (apply_upcaster u e) = er_event_version e"
  shows "\<not> upcast_chain us e e'"
proof
  assume "upcast_chain us e e'"
  then show False using assms(1)
  proof (induction rule: upcast_chain.induct)
    case (chain_end e)
    then show ?case by (auto dest: find_SomeD)
  next
    case (chain_step e v e')
    then have "v = u" by simp
    moreover have "upcaster_matches (apply_upcaster u e) = upcaster_matches e"
      using assms(2) [of e] chain_step.prems
      by (auto simp: fun_eq_iff upcaster_matches_def dest!: find_SomeD)
    ultimately show ?case using chain_step by simp
  qed
qed

section \<open>Properties\<close>

text \<open>
  C39: Upcasting ends and is total when every registered upcaster raises the version; the
  result keeps the name, sequence, timestamp and metadata of each event, and no upcaster
  applies to it any more.
\<close>

theorem upcast_events_correct:
  assumes "upcasters_increase us"
  shows "\<exists>es'. upcast_events es us = Some es' \<and> length es' = length es \<and>
           (\<forall>i < length es. upcast_chain us (es ! i) (es' ! i) \<and>
              er_event_name (es' ! i) = er_event_name (es ! i) \<and>
              er_sequence (es' ! i) = er_sequence (es ! i) \<and>
              er_timestamp (es' ! i) = er_timestamp (es ! i) \<and>
              er_metadata (es' ! i) = er_metadata (es ! i) \<and>
              (\<forall>u \<in> set us. \<not> upcaster_matches (es' ! i) u))"
proof -
  obtain es' where es': "upcast_events es us = Some es'"
    using upcast_events_terminates [OF assms] by blast
  then have "list_all2 (\<lambda>e e'. upcast_chain us e e') es es'"
    by (simp add: upcast_events_Some_iff upcast_one_iff_chain)
  then have "length es' = length es" "\<forall>i < length es. upcast_chain us (es ! i) (es' ! i)"
    by (auto simp: list_all2_conv_all_nth)
  with es' show ?thesis
    using upcast_chain_keeps [of us] upcast_chain_final [of us] by blast
qed

theorem upcast_events_correct_witness:
  "\<exists>es'. upcast_events [event_record_new ''A'' [10] 1 0]
      [\<lparr>up_event_type = ''A'', up_from_version = 1, up_to_version = 2, up_transform = (\<lambda>p. p @ [99])\<rparr>]
      = Some es' \<and> length es' = 1"
proof -
  let ?us = "[\<lparr>up_event_type = ''A'', up_from_version = 1, up_to_version = 2,
               up_transform = (\<lambda>p. p @ [99])\<rparr>]"
  have "upcasters_increase ?us" by (simp add: upcasters_increase_def)
  from upcast_events_correct [OF this, of "[event_record_new ''A'' [10] 1 0]"]
  show ?thesis by auto
qed

text \<open>
  An upcaster whose target version is its source version makes the loop run forever on
  the events it matches: the call does not return.
\<close>

theorem upcast_one_diverges:
  assumes "up_to_version u = up_from_version u" and "find (upcaster_matches e) us = Some u"
  shows "upcast_one us e = None"
proof -
  have "er_event_version (apply_upcaster u e') = er_event_version e'" if "upcaster_matches e' u" for e'
    using that assms(1) by (simp add: upcaster_matches_def)
  from upcast_chain_cycle [OF assms(2) this] have "\<not> upcast_chain us e e'" for e' .
  then show ?thesis by (cases "upcast_one us e") (auto dest: upcast_one_chain)
qed

theorem upcast_one_diverges_witness:
  "upcast_one [\<lparr>up_event_type = ''A'', up_from_version = 1, up_to_version = 1, up_transform = id\<rparr>]
     (event_record_new ''A'' [] 1 0) = None"
  by (rule upcast_one_diverges
      [of "\<lparr>up_event_type = ''A'', up_from_version = 1, up_to_version = 1, up_transform = id\<rparr>"])
     (simp_all add: upcaster_matches_def)

end
