(* ===== verification/Locks.thy ===== *)
theory Locks
  imports Prelude
begin

text \<open>
  Per-key locks (\<open>src/lock\<close>): the error type, the in-memory lock and the lock manager as
  state-passing operations, the \<open>LockManager\<close> contract as a locale with the in-memory manager
  as its instance, and two step relations: the \<open>Mutex\<close>/\<open>Condvar\<close> protocol of one lock, and
  several threads that take several locks in sorted order.
\<close>

section \<open>Errors\<close>

datatype lock_error =
    Lock_Poisoned string
  | Lock_AcquireFailed string
  | Lock_ReleaseFailed string
  | Lock_Expired string
  | Lock_Other string

fun lock_error_display :: "lock_error \<Rightarrow> string" where
  "lock_error_display (Lock_Poisoned msg) = ''lock poisoned: '' @ msg"
| "lock_error_display (Lock_AcquireFailed msg) = ''lock acquire failed: '' @ msg"
| "lock_error_display (Lock_ReleaseFailed msg) = ''lock release failed: '' @ msg"
| "lock_error_display (Lock_Expired msg) = ''lock expired: '' @ msg"
| "lock_error_display (Lock_Other msg) = ''lock error: '' @ msg"

section \<open>The in-memory lock\<close>

text \<open>
  \<open>lk_poisoned\<close> is the poison flag of the mutex around the boolean.  A \<open>lock\<close> on a held lock
  waits on the condition variable: as a call in a fixed state it is \<open>Stuck\<close>.
\<close>

record in_memory_lock =
  lk_locked :: bool
  lk_poisoned :: bool

definition in_memory_lock_new :: in_memory_lock where
  "in_memory_lock_new = \<lparr>lk_locked = False, lk_poisoned = False\<rparr>"

definition poison_text :: string where
  "poison_text = ''poisoned lock: another task failed inside''"

definition lock_lock :: "(in_memory_lock, lock_error, unit) call" where
  "lock_lock l =
     (if lk_poisoned l then (Err (Lock_Poisoned poison_text), l)
      else if lk_locked l then (Stuck, l)
      else (Ok (), l\<lparr>lk_locked := True\<rparr>))"

definition lock_try_lock :: "(in_memory_lock, lock_error, bool) call" where
  "lock_try_lock l =
     (if lk_poisoned l then (Err (Lock_Poisoned poison_text), l)
      else if lk_locked l then (Ok False, l)
      else (Ok True, l\<lparr>lk_locked := True\<rparr>))"

definition lock_unlock :: "(in_memory_lock, lock_error, unit) call" where
  "lock_unlock l =
     (if lk_poisoned l then (Err (Lock_Poisoned poison_text), l)
      else if lk_locked l then (Ok (), l\<lparr>lk_locked := False\<rparr>)
      else (Ok (), l))"

section \<open>The in-memory lock manager\<close>

text \<open>
  The manager never removes a lock, so the \<open>Arc\<close> it returns for a key is represented by the
  key: two handles are the same lock exactly when the keys agree.
\<close>

record lock_manager =
  lm_poisoned :: bool
  lm_locks :: "(string, in_memory_lock) mapping"

type_synonym lock_handle = string

definition lock_manager_new :: lock_manager where
  "lock_manager_new = \<lparr>lm_poisoned = False, lm_locks = Mapping.empty\<rparr>"

definition lm_get_lock :: "string \<Rightarrow> (lock_manager, lock_error, lock_handle) call" where
  "lm_get_lock ident m =
     (if lm_poisoned m then (Err (Lock_Poisoned ''lock manager map poisoned''), m)
      else (Ok ident,
            m\<lparr>lm_locks := Mapping.update ident
                (Mapping.lookup_default in_memory_lock_new (lm_locks m) ident) (lm_locks m)\<rparr>))"

definition lm_on_lock ::
    "(in_memory_lock, lock_error, 'a) call \<Rightarrow> lock_handle \<Rightarrow> (lock_manager, lock_error, 'a) call" where
  "lm_on_lock f h m =
     (case f (Mapping.lookup_default in_memory_lock_new (lm_locks m) h) of
        (r, l) \<Rightarrow> (r, m\<lparr>lm_locks := Mapping.update h l (lm_locks m)\<rparr>))"

text \<open>The operations a client of a \<open>LockManager\<close> uses.\<close>

record ('m, 'h) lock_ops =
  lo_get_lock :: "string \<Rightarrow> ('m, lock_error, 'h) call"
  lo_lock :: "'h \<Rightarrow> ('m, lock_error, unit) call"
  lo_try_lock :: "'h \<Rightarrow> ('m, lock_error, bool) call"
  lo_unlock :: "'h \<Rightarrow> ('m, lock_error, unit) call"

definition in_memory_locks :: "(lock_manager, lock_handle) lock_ops" where
  "in_memory_locks =
     \<lparr>lo_get_lock = lm_get_lock, lo_lock = lm_on_lock lock_lock,
      lo_try_lock = lm_on_lock lock_try_lock, lo_unlock = lm_on_lock lock_unlock\<rparr>"

text \<open>Taking several locks: sorted, without duplicates, one after the other.\<close>

fun lock_all :: "('m, 'h) lock_ops \<Rightarrow> string list \<Rightarrow> ('m, lock_error, 'h list) call" where
  "lock_all L [] m = (Ok [], m)"
| "lock_all L (k # ks) m =
     st_bind (lo_get_lock L k) (\<lambda>h.
     st_bind (lo_lock L h) (\<lambda>_.
     st_bind (lock_all L ks) (\<lambda>hs. st_return (h # hs)))) m"

definition lock_ids_in_order :: "('m, 'h) lock_ops \<Rightarrow> string list \<Rightarrow> ('m, lock_error, 'h list) call" where
  "lock_ids_in_order L ids = lock_all L (sort_dedup ids)"

section \<open>The contract of a lock manager\<close>

text \<open>
  What the documentation of the two traits promises: the same key gives the same lock, a free
  lock is taken by \<open>lock\<close> and \<open>try_lock\<close>, a held one blocks the first and makes the second
  return \<open>false\<close>, and \<open>unlock\<close> frees it.  \<open>held\<close> is the set of locked keys, \<open>inv\<close> the states
  in which no mutex is poisoned, \<open>handle\<close> the handle of a key.
\<close>

locale lock_service =
  fixes L :: "('m, 'h) lock_ops"
    and held :: "'m \<Rightarrow> string set"
    and inv :: "'m \<Rightarrow> bool"
    and handle :: "string \<Rightarrow> 'h"
  assumes get_lock: "inv m \<Longrightarrow>
      \<exists>m'. lo_get_lock L k m = (Ok (handle k), m') \<and> inv m' \<and> held m' = held m"
    and lock_free: "inv m \<Longrightarrow> k \<notin> held m \<Longrightarrow>
      \<exists>m'. lo_lock L (handle k) m = (Ok (), m') \<and> inv m' \<and> held m' = insert k (held m)"
    and lock_held: "inv m \<Longrightarrow> k \<in> held m \<Longrightarrow>
      \<exists>m'. lo_lock L (handle k) m = (Stuck, m') \<and> inv m' \<and> held m' = held m"
    and try_lock: "inv m \<Longrightarrow>
      \<exists>m'. lo_try_lock L (handle k) m = (Ok (k \<notin> held m), m') \<and> inv m' \<and>
           held m' = insert k (held m)"
    and unlock: "inv m \<Longrightarrow>
      \<exists>m'. lo_unlock L (handle k) m = (Ok (), m') \<and> inv m' \<and> held m' = held m - {k}"
begin

lemma lock_all_Ok:
  assumes "inv m" and "distinct ks" and "set ks \<inter> held m = {}"
  shows "\<exists>m'. lock_all L ks m = (Ok (map handle ks), m') \<and> inv m' \<and>
              held m' = held m \<union> set ks"
  using assms
proof (induction ks arbitrary: m)
  case Nil
  then show ?case by simp
next
  case (Cons k ks)
  obtain m1 where 1: "lo_get_lock L k m = (Ok (handle k), m1)" "inv m1" "held m1 = held m"
    using get_lock [OF Cons.prems(1), of k] by blast
  obtain m2 where 2: "lo_lock L (handle k) m1 = (Ok (), m2)" "inv m2" "held m2 = insert k (held m1)"
    using lock_free [OF 1(2), of k] 1(3) Cons.prems(3) by auto
  have "set ks \<inter> held m2 = {}" using 1(3) 2(3) Cons.prems by auto
  with Cons.IH [OF 2(2)] Cons.prems(2) obtain m3
    where 3: "lock_all L ks m2 = (Ok (map handle ks), m3)" "inv m3" "held m3 = held m2 \<union> set ks"
    by auto
  with 1 2 show ?case by (simp add: st_bind_def)
qed

lemma lock_all_Stuck:
  assumes "inv m" and "set ks \<inter> held m \<noteq> {}" and "distinct ks"
  shows "\<exists>m' k pre. lock_all L ks m = (Stuck, m') \<and> inv m' \<and> k \<in> held m \<and>
           (\<exists>post. ks = pre @ k # post) \<and> set pre \<inter> held m = {} \<and>
           held m' = held m \<union> set pre"
  using assms
proof (induction ks arbitrary: m)
  case Nil
  then show ?case by simp
next
  case (Cons k ks)
  obtain m1 where 1: "lo_get_lock L k m = (Ok (handle k), m1)" "inv m1" "held m1 = held m"
    using get_lock [OF Cons.prems(1), of k] by blast
  show ?case
  proof (cases "k \<in> held m")
    case True
    then obtain m2 where 2: "lo_lock L (handle k) m1 = (Stuck, m2)" "inv m2" "held m2 = held m1"
      using lock_held [OF 1(2), of k] 1(3) by auto
    have "lock_all L (k # ks) m = (Stuck, m2) \<and> inv m2 \<and> k \<in> held m \<and>
        (\<exists>post. k # ks = [] @ k # post) \<and> set [] \<inter> held m = {} \<and> held m2 = held m \<union> set []"
      using 1 2 True by (simp add: st_bind_def)
    then show ?thesis by blast
  next
    case False
    then obtain m2
      where 2: "lo_lock L (handle k) m1 = (Ok (), m2)" "inv m2" "held m2 = insert k (held m1)"
      using lock_free [OF 1(2), of k] 1(3) by auto
    have "set ks \<inter> held m2 \<noteq> {}" using 1(3) 2(3) False Cons.prems(2) by auto
    from Cons.IH [OF 2(2) this] Cons.prems(3) obtain m3 k' pre post
      where 3: "lock_all L ks m2 = (Stuck, m3)" "inv m3" "k' \<in> held m2"
        "ks = pre @ k' # post" "set pre \<inter> held m2 = {}" "held m3 = held m2 \<union> set pre"
      by auto
    have "k' \<noteq> k" using 3(4) Cons.prems(3) by auto
    then have "lock_all L (k # ks) m = (Stuck, m3) \<and> inv m3 \<and> k' \<in> held m \<and>
        (\<exists>post. k # ks = (k # pre) @ k' # post) \<and> set (k # pre) \<inter> held m = {} \<and>
        held m3 = held m \<union> set (k # pre)"
      using 1 2 3 False by (auto simp: st_bind_def)
    then show ?thesis by blast
  qed
qed

lemma lock_ids_in_order_Ok:
  assumes "inv m" and "set ids \<inter> held m = {}"
  shows "\<exists>m'. lock_ids_in_order L ids m = (Ok (map handle (sort_dedup ids)), m') \<and> inv m' \<and>
              held m' = held m \<union> set ids"
  using lock_all_Ok [OF assms(1), of "sort_dedup ids"] assms(2)
  by (simp add: lock_ids_in_order_def)

lemma lock_ids_in_order_Stuck:
  assumes "inv m" and "set ids \<inter> held m \<noteq> {}"
  shows "\<exists>m'. lock_ids_in_order L ids m = (Stuck, m') \<and> inv m' \<and>
              held m \<subseteq> held m' \<and> held m' \<subseteq> held m \<union> set ids"
proof -
  have "set (sort_dedup ids) \<inter> held m \<noteq> {}" using assms(2) by simp
  from lock_all_Stuck [OF assms(1) this distinct_sort_dedup] obtain m' k pre post
    where "lock_all L (sort_dedup ids) m = (Stuck, m')" "inv m'"
      "sort_dedup ids = pre @ k # post" "held m' = held m \<union> set pre"
    by blast
  moreover from this(3) have "set pre \<subseteq> set ids"
    by (metis Un_upper1 set_append set_sort_dedup)
  ultimately show ?thesis by (auto simp: lock_ids_in_order_def)
qed

end

section \<open>The in-memory manager keeps the contract\<close>

definition lm_held :: "lock_manager \<Rightarrow> string set" where
  "lm_held m = {k. \<exists>l. Mapping.lookup (lm_locks m) k = Some l \<and> lk_locked l}"

definition lm_inv :: "lock_manager \<Rightarrow> bool" where
  "lm_inv m \<longleftrightarrow> \<not> lm_poisoned m \<and>
     (\<forall>k l. Mapping.lookup (lm_locks m) k = Some l \<longrightarrow> \<not> lk_poisoned l)"

lemma lm_held_new [simp]: "lm_held lock_manager_new = {}"
  by (simp add: lm_held_def lock_manager_new_def)

lemma lm_inv_new [simp]: "lm_inv lock_manager_new"
  by (simp add: lm_inv_def lock_manager_new_def)

lemma lm_lock_cases:
  assumes "lm_inv m"
  shows "\<not> lk_poisoned (Mapping.lookup_default in_memory_lock_new (lm_locks m) k)"
    and "lk_locked (Mapping.lookup_default in_memory_lock_new (lm_locks m) k) \<longleftrightarrow> k \<in> lm_held m"
  using assms
  by (auto simp: lookup_default_def lm_inv_def lm_held_def in_memory_lock_new_def
      split: option.splits)

lemma lm_inv_update:
  "lm_inv m \<Longrightarrow> \<not> lk_poisoned l \<Longrightarrow>
     lm_inv (m\<lparr>lm_locks := Mapping.update k l (lm_locks m)\<rparr>)"
  by (auto simp: lm_inv_def lookup_update')

lemma lm_held_update:
  "lm_held (m\<lparr>lm_locks := Mapping.update k l (lm_locks m)\<rparr>) =
     (if lk_locked l then insert k (lm_held m) else lm_held m - {k})"
  by (auto simp: lm_held_def lookup_update')

interpretation mem_locks: lock_service in_memory_locks lm_held lm_inv "\<lambda>k. k"
proof (unfold_locales, goal_cases)
  case (1 m k)
  then show ?case
    using lm_lock_cases [OF 1, of k]
    by (auto simp: in_memory_locks_def lm_get_lock_def lm_held_update intro: lm_inv_update)
      (auto simp: lm_inv_def)
next
  case (2 m k)
  then show ?case
    using lm_lock_cases [OF 2(1), of k]
    by (simp add: in_memory_locks_def lm_on_lock_def lock_lock_def lm_held_update lm_inv_update)
next
  case (3 m k)
  then show ?case
    using lm_lock_cases [OF 3(1), of k]
    by (simp add: in_memory_locks_def lm_on_lock_def lock_lock_def lm_held_update lm_inv_update
        insert_absorb)
next
  case (4 m k)
  then show ?case
    using lm_lock_cases [OF 4(1), of k]
    by (auto simp: in_memory_locks_def lm_on_lock_def lock_try_lock_def lm_held_update lm_inv_update)
next
  case (5 m k)
  then show ?case
    using lm_lock_cases [OF 5(1), of k]
    by (auto simp: in_memory_locks_def lm_on_lock_def lock_unlock_def lm_held_update lm_inv_update)
qed

section \<open>One lock, many threads\<close>

text \<open>
  The body of every operation runs under the mutex, so it is one step.  A thread inside
  \<open>lock\<close> is about to test the flag (\<open>LP_Entering\<close>), asleep in \<open>wait\<close>, or woken and about to
  test the flag again; a wake-up may be spurious, and a thread that was not waiting may
  overtake one that was.  Only a thread that holds the lock calls \<open>unlock\<close>, which wakes one
  sleeper if there is one.
\<close>

datatype lock_pc = LP_Out | LP_Entering | LP_Sleeping | LP_Woken | LP_Holding

record cv_state =
  cv_lock :: in_memory_lock
  cv_pc :: "nat \<Rightarrow> lock_pc"

definition cv_init :: cv_state where
  "cv_init = \<lparr>cv_lock = in_memory_lock_new, cv_pc = (\<lambda>_. LP_Out)\<rparr>"

inductive cv_step :: "cv_state \<Rightarrow> cv_state \<Rightarrow> bool" where
  cv_call: "cv_pc s i = LP_Out \<Longrightarrow> cv_step s (s\<lparr>cv_pc := (cv_pc s)(i := LP_Entering)\<rparr>)"
| cv_take: "cv_pc s i = LP_Entering \<or> cv_pc s i = LP_Woken \<Longrightarrow>
    lock_lock (cv_lock s) = (Ok (), l) \<Longrightarrow>
    cv_step s (s\<lparr>cv_lock := l, cv_pc := (cv_pc s)(i := LP_Holding)\<rparr>)"
| cv_wait: "cv_pc s i = LP_Entering \<or> cv_pc s i = LP_Woken \<Longrightarrow>
    lock_lock (cv_lock s) = (Stuck, l) \<Longrightarrow>
    cv_step s (s\<lparr>cv_lock := l, cv_pc := (cv_pc s)(i := LP_Sleeping)\<rparr>)"
| cv_spurious: "cv_pc s i = LP_Sleeping \<Longrightarrow> cv_step s (s\<lparr>cv_pc := (cv_pc s)(i := LP_Woken)\<rparr>)"
| cv_try: "cv_pc s i = LP_Out \<Longrightarrow> lock_try_lock (cv_lock s) = (Ok b, l) \<Longrightarrow>
    cv_step s (s\<lparr>cv_lock := l, cv_pc := (cv_pc s)(i := if b then LP_Holding else LP_Out)\<rparr>)"
| cv_unlock_notify: "cv_pc s i = LP_Holding \<Longrightarrow> lock_unlock (cv_lock s) = (Ok (), l) \<Longrightarrow>
    cv_pc s j = LP_Sleeping \<Longrightarrow>
    cv_step s (s\<lparr>cv_lock := l, cv_pc := (cv_pc s)(i := LP_Out, j := LP_Woken)\<rparr>)"
| cv_unlock_quiet: "cv_pc s i = LP_Holding \<Longrightarrow> lock_unlock (cv_lock s) = (Ok (), l) \<Longrightarrow>
    \<forall>j. cv_pc s j \<noteq> LP_Sleeping \<Longrightarrow>
    cv_step s (s\<lparr>cv_lock := l, cv_pc := (cv_pc s)(i := LP_Out)\<rparr>)"

inductive cv_reachable :: "cv_state \<Rightarrow> bool" where
  cv_start: "cv_reachable cv_init"
| cv_next: "cv_reachable s \<Longrightarrow> cv_step s t \<Longrightarrow> cv_reachable t"

definition cv_inv :: "cv_state \<Rightarrow> bool" where
  "cv_inv s \<longleftrightarrow>
     \<not> lk_poisoned (cv_lock s) \<and>
     (\<forall>i. cv_pc s i = LP_Holding \<longrightarrow> lk_locked (cv_lock s)) \<and>
     (\<forall>i j. cv_pc s i = LP_Holding \<longrightarrow> cv_pc s j = LP_Holding \<longrightarrow> i = j) \<and>
     (lk_locked (cv_lock s) \<longrightarrow> (\<exists>i. cv_pc s i = LP_Holding)) \<and>
     ((\<exists>i. cv_pc s i = LP_Sleeping) \<longrightarrow> \<not> lk_locked (cv_lock s) \<longrightarrow> (\<exists>j. cv_pc s j = LP_Woken))"

lemma lock_call_results:
  "\<not> lk_poisoned l \<Longrightarrow> lock_lock l = (Ok (), l') \<longleftrightarrow> \<not> lk_locked l \<and> l' = l\<lparr>lk_locked := True\<rparr>"
  "\<not> lk_poisoned l \<Longrightarrow> lock_lock l = (Stuck, l') \<longleftrightarrow> lk_locked l \<and> l' = l"
  "\<not> lk_poisoned l \<Longrightarrow> lock_try_lock l = (Ok b, l') \<longleftrightarrow>
     b = (\<not> lk_locked l) \<and> l' = l\<lparr>lk_locked := True\<rparr>"
  "\<not> lk_poisoned l \<Longrightarrow> lock_unlock l = (Ok (), l') \<longleftrightarrow> l' = l\<lparr>lk_locked := False\<rparr>"
  by (auto simp: lock_lock_def lock_try_lock_def lock_unlock_def)

lemma cv_inv_init: "cv_inv cv_init"
  by (simp add: cv_inv_def cv_init_def in_memory_lock_new_def)

lemma cv_inv_free:
  "cv_inv s \<Longrightarrow> \<not> lk_locked (cv_lock s) \<Longrightarrow> cv_pc s i \<noteq> LP_Holding"
  by (auto simp: cv_inv_def)

lemma cv_inv_take:
  assumes "cv_inv s" and "\<not> lk_locked (cv_lock s)"
  shows "cv_inv (s\<lparr>cv_lock := (cv_lock s)\<lparr>lk_locked := True\<rparr>, cv_pc := (cv_pc s)(i := LP_Holding)\<rparr>)"
  using assms(1) cv_inv_free [OF assms] by (auto simp: cv_inv_def)

lemma cv_inv_move:
  assumes inv: "cv_inv s" and i: "cv_pc s i \<noteq> LP_Holding" and p: "p \<noteq> LP_Holding"
    and held: "p = LP_Sleeping \<or> cv_pc s i = LP_Woken \<and> p \<noteq> LP_Woken \<Longrightarrow> lk_locked (cv_lock s)"
  shows "cv_inv (s\<lparr>cv_pc := (cv_pc s)(i := p)\<rparr>)"
proof -
  have "\<exists>j. ((cv_pc s)(i := p)) j = LP_Holding" if "lk_locked (cv_lock s)"
    using inv i that unfolding cv_inv_def by (metis fun_upd_other)
  moreover have "\<exists>j. ((cv_pc s)(i := p)) j = LP_Woken"
    if "((cv_pc s)(i := p)) k = LP_Sleeping" "\<not> lk_locked (cv_lock s)" for k
  proof -
    from that held have "p \<noteq> LP_Sleeping" by auto
    with that have "cv_pc s k = LP_Sleeping" by (auto split: if_splits)
    with inv that(2) obtain j where "cv_pc s j = LP_Woken" unfolding cv_inv_def by blast
    with held that(2) show ?thesis by (metis fun_upd_other fun_upd_same)
  qed
  moreover have "cv_pc s k = LP_Holding" if "((cv_pc s)(i := p)) k = LP_Holding" for k
    using that p by (auto split: if_splits)
  ultimately show ?thesis
    using inv unfolding cv_inv_def by (simp del: fun_upd_apply) blast
qed

lemma cv_inv_release:
  assumes inv: "cv_inv s" and i: "cv_pc s i = LP_Holding"
    and pc: "pc i = LP_Out" "\<And>k. pc k = LP_Holding \<Longrightarrow> k \<noteq> i \<and> cv_pc s k = LP_Holding"
    and woken: "(\<exists>k. pc k = LP_Sleeping) \<Longrightarrow> \<exists>k. pc k = LP_Woken"
  shows "cv_inv (s\<lparr>cv_lock := (cv_lock s)\<lparr>lk_locked := False\<rparr>, cv_pc := pc\<rparr>)"
proof -
  have "pc k \<noteq> LP_Holding" for k
    using inv i pc(2) [of k] unfolding cv_inv_def by blast
  with inv woken show ?thesis unfolding cv_inv_def by simp
qed

lemma cv_step_inv: "cv_step s t \<Longrightarrow> cv_inv s \<Longrightarrow> cv_inv t"
proof (induction rule: cv_step.induct)
  case (cv_call s i)
  then show ?case by (intro cv_inv_move) auto
next
  case (cv_take s i l)
  then have "\<not> lk_poisoned (cv_lock s)" by (simp add: cv_inv_def)
  with cv_take show ?case by (simp add: lock_call_results cv_inv_take)
next
  case (cv_wait s i l)
  then have "\<not> lk_poisoned (cv_lock s)" by (simp add: cv_inv_def)
  with cv_wait.hyps have l: "lk_locked (cv_lock s)" "l = cv_lock s"
    by (simp_all add: lock_call_results)
  have "cv_inv (s\<lparr>cv_pc := (cv_pc s)(i := LP_Sleeping)\<rparr>)"
    using cv_wait l by (intro cv_inv_move) auto
  with l show ?case by simp
next
  case (cv_spurious s i)
  then show ?case by (intro cv_inv_move) auto
next
  case (cv_try s i b l)
  then have "\<not> lk_poisoned (cv_lock s)" by (simp add: cv_inv_def)
  with cv_try.hyps have l: "b = (\<not> lk_locked (cv_lock s))" "l = (cv_lock s)\<lparr>lk_locked := True\<rparr>"
    by (simp_all add: lock_call_results)
  show ?case
  proof (cases b)
    case True
    with l cv_try.prems show ?thesis by (simp add: cv_inv_take)
  next
    case False
    with l have "l = cv_lock s" by simp
    moreover have "(cv_pc s)(i := LP_Out) = cv_pc s" using cv_try.hyps by auto
    ultimately show ?thesis using False cv_try.prems by simp
  qed
next
  case (cv_unlock_notify s i l j)
  then have "\<not> lk_poisoned (cv_lock s)" by (simp add: cv_inv_def)
  with cv_unlock_notify show ?case
    by (auto simp: lock_call_results intro!: cv_inv_release split: if_splits)
next
  case (cv_unlock_quiet s i l)
  then have "\<not> lk_poisoned (cv_lock s)" by (simp add: cv_inv_def)
  with cv_unlock_quiet show ?case
    by (auto simp: lock_call_results intro!: cv_inv_release split: if_splits)
qed

lemma cv_reachable_inv: "cv_reachable s \<Longrightarrow> cv_inv s"
  by (induction rule: cv_reachable.induct) (auto intro: cv_inv_init cv_step_inv)

section \<open>Many locks, many threads\<close>

text \<open>
  What \<open>lock_ids_in_order\<close> asks of a lock manager, and in which order: the locks that it takes of a
  manager that grants every lock and writes it down.
\<close>

definition lock_log :: "(string list, string) lock_ops" where
  "lock_log =
     \<lparr>lo_get_lock = (\<lambda>k log. (Ok k, log)), lo_lock = (\<lambda>h log. (Ok (), log @ [h])),
      lo_try_lock = (\<lambda>h log. (Ok True, log @ [h])), lo_unlock = (\<lambda>h log. (Ok (), log))\<rparr>"

definition lock_calls :: "string list \<Rightarrow> string list" where
  "lock_calls ids = snd (lock_ids_in_order lock_log ids [])"

lemma lock_all_log: "lock_all lock_log ks log = (Ok ks, log @ ks)"
  by (induction ks arbitrary: log) (simp_all add: lock_log_def)

lemma lock_calls_sorted: "lock_calls ids = sort_dedup ids"
  by (simp add: lock_calls_def lock_ids_in_order_def lock_all_log)

text \<open>
  Thread \<open>i\<close> runs \<open>lock_ids_in_order\<close> on the ids it asks for, one lock at a time, and when it has
  them all it gives them back one after the other.  \<open>aq_todo\<close> is what it still has to take,
  \<open>aq_got\<close> what it holds.
\<close>

record acq_state =
  aq_locks :: lock_manager
  aq_todo :: "nat \<Rightarrow> string list"
  aq_got :: "nat \<Rightarrow> string list"

definition acq_init :: "(nat \<Rightarrow> string list) \<Rightarrow> acq_state" where
  "acq_init req =
     \<lparr>aq_locks = lock_manager_new, aq_todo = (\<lambda>i. lock_calls (req i)), aq_got = (\<lambda>_. [])\<rparr>"

inductive acq_step :: "acq_state \<Rightarrow> acq_state \<Rightarrow> bool" where
  acq_take: "aq_todo s i = k # ks \<Longrightarrow>
    st_bind (lo_get_lock in_memory_locks k) (lo_lock in_memory_locks) (aq_locks s) = (Ok (), m) \<Longrightarrow>
    acq_step s (s\<lparr>aq_locks := m, aq_todo := (aq_todo s)(i := ks),
                  aq_got := (aq_got s)(i := k # aq_got s i)\<rparr>)"
| acq_release: "aq_todo s i = [] \<Longrightarrow> aq_got s i = k # ks \<Longrightarrow>
    lo_unlock in_memory_locks k (aq_locks s) = (Ok (), m) \<Longrightarrow>
    acq_step s (s\<lparr>aq_locks := m, aq_got := (aq_got s)(i := ks)\<rparr>)"

definition acq_inv :: "nat \<Rightarrow> acq_state \<Rightarrow> bool" where
  "acq_inv n s \<longleftrightarrow>
     lm_inv (aq_locks s) \<and>
     (\<forall>k. k \<in> lm_held (aq_locks s) \<longleftrightarrow> (\<exists>i. k \<in> set (aq_got s i))) \<and>
     (\<forall>i j k. k \<in> set (aq_got s i) \<longrightarrow> k \<in> set (aq_got s j) \<longrightarrow> i = j) \<and>
     (\<forall>i. distinct (aq_got s i)) \<and>
     (\<forall>i. sorted_wrt (<) (aq_todo s i)) \<and>
     (\<forall>i. \<forall>g \<in> set (aq_got s i). \<forall>t \<in> set (aq_todo s i). g < t) \<and>
     (\<forall>i \<ge> n. aq_todo s i = [] \<and> aq_got s i = [])"

lemma acq_inv_init: "\<forall>i \<ge> n. req i = [] \<Longrightarrow> acq_inv n (acq_init req)"
  by (simp add: acq_inv_def acq_init_def lock_calls_sorted strict_sorted_sort_dedup)
     (simp add: sort_dedup_def)

lemma mem_get_then_lock:
  assumes "lm_inv m"
  shows "st_bind (lo_get_lock in_memory_locks k) (lo_lock in_memory_locks) m = (Ok (), m') \<Longrightarrow>
           k \<notin> lm_held m \<and> lm_inv m' \<and> lm_held m' = insert k (lm_held m)"
    and "k \<notin> lm_held m \<Longrightarrow>
           \<exists>m'. st_bind (lo_get_lock in_memory_locks k) (lo_lock in_memory_locks) m = (Ok (), m')"
proof -
  obtain m1 where 1: "lo_get_lock in_memory_locks k m = (Ok k, m1)" "lm_inv m1" "lm_held m1 = lm_held m"
    using mem_locks.get_lock [OF assms, of k] by blast
  show "k \<notin> lm_held m \<and> lm_inv m' \<and> lm_held m' = insert k (lm_held m)"
    if "st_bind (lo_get_lock in_memory_locks k) (lo_lock in_memory_locks) m = (Ok (), m')"
    using that 1 mem_locks.lock_free [OF 1(2), of k] mem_locks.lock_held [OF 1(2), of k]
    by (cases "k \<in> lm_held m") auto
  show "\<exists>m'. st_bind (lo_get_lock in_memory_locks k) (lo_lock in_memory_locks) m = (Ok (), m')"
    if "k \<notin> lm_held m"
    using that 1 mem_locks.lock_free [OF 1(2), of k] by auto
qed

lemma mem_unlock_result:
  "lm_inv m \<Longrightarrow> lo_unlock in_memory_locks k m = (Ok (), m') \<Longrightarrow>
     lm_inv m' \<and> lm_held m' = lm_held m - {k}"
  using mem_locks.unlock [of m k] by auto

lemma ex_in_upd_Cons:
  "(\<exists>j. x \<in> set ((f(i := k # f i)) j)) \<longleftrightarrow> x = k \<or> (\<exists>j. x \<in> set (f j))"
  by (metis fun_upd_other fun_upd_same list.set_intros set_ConsD)

lemma acq_step_inv: "acq_step s t \<Longrightarrow> acq_inv n s \<Longrightarrow> acq_inv n t"
proof (induction rule: acq_step.induct)
  case (acq_take s i k ks m)
  have inv: "lm_inv (aq_locks s)" using acq_take.prems by (simp add: acq_inv_def)
  note m = mem_get_then_lock(1) [OF inv acq_take.hyps(2)]
  have free: "k \<notin> set (aq_got s j)" for j
    using acq_take.prems m by (auto simp: acq_inv_def)
  have srt: "sorted_wrt (<) (k # ks)" and gt: "\<forall>g \<in> set (aq_got s i). \<forall>t \<in> set (k # ks). g < t"
    using acq_take.prems acq_take.hyps(1) by (auto simp: acq_inv_def simp del: sorted_wrt.simps)
       (metis)+
  have i: "i < n"
    using acq_take.prems acq_take.hyps(1) by (metis acq_inv_def list.distinct(1) not_le_imp_less)
  have held: "x \<in> lm_held m \<longleftrightarrow> (\<exists>j. x \<in> set (((aq_got s)(i := k # aq_got s i)) j))" for x
    using acq_take.prems m by (simp only: ex_in_upd_Cons) (simp add: acq_inv_def)
  show ?case
    using acq_take.prems m free srt gt i held unfolding acq_inv_def
    by (auto split: if_splits)
next
  case (acq_release s i k ks m)
  have inv: "lm_inv (aq_locks s)" using acq_release.prems by (simp add: acq_inv_def)
  note m = mem_unlock_result [OF inv acq_release.hyps(3)]
  have d: "distinct (k # ks)" using acq_release.prems acq_release.hyps(2)
    by (metis acq_inv_def)
  have i: "i < n"
    using acq_release.prems acq_release.hyps(2)
    by (metis acq_inv_def list.distinct(1) not_le_imp_less)
  have held: "x \<in> lm_held m \<longleftrightarrow> (\<exists>j. x \<in> set (((aq_got s)(i := ks)) j))" for x
    using acq_release.prems acq_release.hyps(2) m d unfolding acq_inv_def
    by (auto split: if_splits) (metis list.set_intros(1) list.set_intros(2) set_ConsD)+
  show ?case
    using acq_release.prems acq_release.hyps m d i held unfolding acq_inv_def
    by (auto split: if_splits)
qed

lemma acq_inv_progress:
  assumes inv: "acq_inv n s" and work: "aq_todo s i \<noteq> [] \<or> aq_got s i \<noteq> []"
  shows "\<exists>t. acq_step s t"
proof (rule ccontr)
  assume stuck: "\<nexists>t. acq_step s t"
  have lm: "lm_inv (aq_locks s)" using inv by (simp add: acq_inv_def)
  have blocked: "hd (aq_todo s j) \<in> lm_held (aq_locks s)" if "aq_todo s j \<noteq> []" for j
    using that stuck mem_get_then_lock(2) [OF lm, of "hd (aq_todo s j)"] acq_take
    by (metis list.collapse)
  have waiting: "aq_todo s j \<noteq> []" if "aq_got s j \<noteq> []" for j
    using that stuck mem_locks.unlock [OF lm, of "hd (aq_got s j)"] acq_release
    by (metis list.collapse)
  let ?W = "{j. aq_todo s j \<noteq> []}"
  have "?W \<subseteq> {..<n}" using inv unfolding acq_inv_def by (metis (mono_tags, lifting) lessThan_iff
      mem_Collect_eq not_le_imp_less subsetI)
  then have fin: "finite ?W" by (rule finite_subset) simp
  have ne: "?W \<noteq> {}" using work waiting by blast
  define K where "K = (\<lambda>j. hd (aq_todo s j)) ` ?W"
  have "Max K \<in> K" using fin ne by (simp add: K_def)
  then obtain j where j: "aq_todo s j \<noteq> []" "hd (aq_todo s j) = Max K"
    by (auto simp: K_def)
  from blocked [OF j(1)] obtain h where h: "Max K \<in> set (aq_got s h)"
    using inv j(2) by (auto simp: acq_inv_def)
  then have "aq_got s h \<noteq> []" by (metis empty_iff list.set(1))
  then have hw: "aq_todo s h \<noteq> []" by (rule waiting)
  have "Max K < hd (aq_todo s h)"
    using inv h hw by (auto simp: acq_inv_def)
  moreover have "hd (aq_todo s h) \<le> Max K"
    using hw fin by (auto simp: K_def)
  ultimately show False by simp
qed

definition acq_work :: "nat \<Rightarrow> acq_state \<Rightarrow> nat" where
  "acq_work n s = (\<Sum>i<n. 2 * length (aq_todo s i) + length (aq_got s i))"

lemma sum_update_less:
  fixes f :: "nat \<Rightarrow> nat"
  assumes "i < n" and "g i < f i" and "\<And>j. j \<noteq> i \<Longrightarrow> g j = f j"
  shows "(\<Sum>j<n. g j) < (\<Sum>j<n. f j)"
  by (rule sum_strict_mono_ex1) (use assms in \<open>auto simp: le_less\<close>, metis)

lemma acq_step_work: "acq_step s t \<Longrightarrow> acq_inv n s \<Longrightarrow> acq_work n t < acq_work n s"
proof (induction rule: acq_step.induct)
  case (acq_take s i k ks m)
  have "i < n" using acq_take by (metis acq_inv_def list.distinct(1) not_le_imp_less)
  then show ?case unfolding acq_work_def
    by (rule sum_update_less) (use acq_take.hyps in auto)
next
  case (acq_release s i k ks m)
  have "i < n" using acq_release by (metis acq_inv_def list.distinct(1) not_le_imp_less)
  then show ?case unfolding acq_work_def
    by (rule sum_update_less) (use acq_release.hyps in auto)
qed

inductive acq_run :: "nat \<Rightarrow> acq_state \<Rightarrow> acq_state \<Rightarrow> bool" where
  run_zero: "acq_run 0 s s"
| run_step: "acq_run k s t \<Longrightarrow> acq_step t u \<Longrightarrow> acq_run (Suc k) s u"

lemma acq_run_inv:
  "acq_run k s t \<Longrightarrow> acq_inv n s \<Longrightarrow> acq_inv n t \<and> acq_work n t + k \<le> acq_work n s"
proof (induction rule: acq_run.induct)
  case (run_step k s t u)
  then show ?case using acq_step_inv [of t u n] acq_step_work [of t u n] by fastforce
qed simp

text \<open>A thread that is not interrupted takes the locks that the call takes.\<close>

lemma lock_all_steps:
  assumes "lock_all in_memory_locks ks (aq_locks s) = (Ok hs, m)" and "aq_todo s i = ks"
  shows "acq_step\<^sup>*\<^sup>* s (s\<lparr>aq_locks := m, aq_todo := (aq_todo s)(i := []), aq_got := (aq_got s)(i := rev hs @ aq_got s i)\<rparr>)"
  using assms
proof (induction ks arbitrary: s hs)
  case Nil
  then have "s\<lparr>aq_locks := m, aq_todo := (aq_todo s)(i := []), aq_got := (aq_got s)(i := rev hs @ aq_got s i)\<rparr> = s"
    by (auto simp: fun_upd_idem)
  then show ?case by (simp only: rtranclp.rtrancl_refl)
next
  case (Cons k ks)
  then obtain m1 hs' where one: "st_bind (lo_get_lock in_memory_locks k) (lo_lock in_memory_locks) (aq_locks s) = (Ok (), m1)"
    and more: "lock_all in_memory_locks ks m1 = (Ok hs', m)" and hs: "hs = k # hs'"
    by (auto simp: st_bind_Ok_iff in_memory_locks_def lm_get_lock_def split: if_splits)
  let ?s1 = "s\<lparr>aq_locks := m1, aq_todo := (aq_todo s)(i := ks), aq_got := (aq_got s)(i := k # aq_got s i)\<rparr>"
  have "acq_step s ?s1" by (rule acq_take [OF Cons.prems(2) one])
  moreover have "acq_step\<^sup>*\<^sup>* ?s1 (s\<lparr>aq_locks := m, aq_todo := (aq_todo s)(i := []), aq_got := (aq_got s)(i := rev hs @ aq_got s i)\<rparr>)"
    using Cons.IH [of ?s1 hs'] more by (simp add: hs fun_upd_same del: fun_upd_apply)
  ultimately show ?case by (rule converse_rtranclp_into_rtranclp)
qed

section \<open>Properties\<close>

text \<open>
  C13: Two threads never hold an in-memory lock at the same time, whatever the interleaving of
  \<open>lock\<close>, \<open>try_lock\<close>, \<open>unlock\<close> and spurious wake-ups, when only holders unlock.
\<close>

theorem lock_mutual_exclusion:
  assumes "cv_reachable s" and "cv_pc s i = LP_Holding" and "cv_pc s j = LP_Holding"
  shows "i = j"
  using cv_reachable_inv [OF assms(1)] assms(2,3) by (auto simp: cv_inv_def)

lemma cv_reachable_held:
  "cv_reachable (cv_init\<lparr>cv_lock := \<lparr>lk_locked = True, lk_poisoned = False\<rparr>,
      cv_pc := (\<lambda>_. LP_Out)(3 := LP_Holding)\<rparr>)"
proof -
  have "cv_step cv_init (cv_init\<lparr>cv_lock := \<lparr>lk_locked = True, lk_poisoned = False\<rparr>,
      cv_pc := (cv_pc cv_init)(3 := if True then LP_Holding else LP_Out)\<rparr>)"
    by (rule cv_step.cv_try)
      (simp_all add: cv_init_def lock_try_lock_def in_memory_lock_new_def)
  from cv_next [OF cv_start this] show ?thesis by (simp add: cv_init_def)
qed

theorem lock_mutual_exclusion_witness:
  "\<exists>s. cv_reachable s \<and> cv_pc s 3 = LP_Holding \<and> (\<forall>j. cv_pc s j = LP_Holding \<longrightarrow> j = 3)"
proof -
  let ?s = "cv_init\<lparr>cv_lock := \<lparr>lk_locked = True, lk_poisoned = False\<rparr>,
      cv_pc := (\<lambda>_. LP_Out)(3 := LP_Holding)\<rparr>"
  have "cv_pc ?s 3 = LP_Holding" by simp
  with lock_mutual_exclusion [OF cv_reachable_held] cv_reachable_held show ?thesis by blast
qed

text \<open>
  C14: No wake-up is lost: in every reachable state in which the lock is free and a thread
  sleeps on the condition variable, some thread has been woken and will test the flag.
\<close>

theorem lock_no_lost_wakeup:
  assumes "cv_reachable s" and "\<not> lk_locked (cv_lock s)" and "cv_pc s i = LP_Sleeping"
  shows "\<exists>j. cv_pc s j = LP_Woken"
  using cv_reachable_inv [OF assms(1)] assms(2,3) by (auto simp: cv_inv_def)

theorem lock_no_lost_wakeup_witness:
  "\<exists>s. cv_reachable s \<and> cv_pc s 7 = LP_Sleeping \<and> \<not> lk_locked (cv_lock s) \<and>
       (\<exists>j. cv_pc s j = LP_Woken)"
proof -
  let ?h = "cv_init\<lparr>cv_lock := \<lparr>lk_locked = True, lk_poisoned = False\<rparr>,
      cv_pc := (\<lambda>_. LP_Out)(3 := LP_Holding)\<rparr>"
  let ?l = "\<lparr>lk_locked = True, lk_poisoned = False\<rparr> :: in_memory_lock"
  let ?a = "?h\<lparr>cv_pc := (cv_pc ?h)(7 := LP_Entering)\<rparr>"
  let ?b = "?a\<lparr>cv_lock := ?l, cv_pc := (cv_pc ?a)(7 := LP_Sleeping)\<rparr>"
  let ?c = "?b\<lparr>cv_pc := (cv_pc ?b)(8 := LP_Entering)\<rparr>"
  let ?d = "?c\<lparr>cv_lock := ?l, cv_pc := (cv_pc ?c)(8 := LP_Sleeping)\<rparr>"
  let ?e = "?d\<lparr>cv_lock := ?l\<lparr>lk_locked := False\<rparr>, cv_pc := (cv_pc ?d)(3 := LP_Out, 8 := LP_Woken)\<rparr>"
  have "cv_reachable ?a" by (rule cv_next [OF cv_reachable_held cv_call]) simp
  then have "cv_reachable ?b" by (rule cv_next) (rule cv_wait, simp_all add: lock_lock_def)
  then have "cv_reachable ?c" by (rule cv_next) (rule cv_call, simp)
  then have "cv_reachable ?d" by (rule cv_next) (rule cv_wait, simp_all add: lock_lock_def)
  then have e: "cv_reachable ?e"
    by (rule cv_next) (rule cv_unlock_notify, simp_all add: lock_unlock_def)
  have "\<not> lk_locked (cv_lock ?e)" and "cv_pc ?e 7 = LP_Sleeping" by simp_all
  with lock_no_lost_wakeup [OF e this] e show ?thesis by blast
qed

text \<open>
  C15: Threads that take their locks with \<open>lock_ids_in_order\<close> and then release them cannot
  deadlock.  Each takes, one lock at a time, what its call of \<open>lock_ids_in_order\<close> takes, in that
  order; with nobody in between that is the call itself.  In every state some run reaches from the
  start, if any thread still has a lock to take or to give back then some thread can step, and no
  run is longer than twice the number of locks asked for, so every maximal run ends with all locks
  taken and released.
\<close>

theorem ordered_locking_no_deadlock:
  assumes "\<forall>i \<ge> n. req i = []" and "acq_run k (acq_init req) s"
  shows "((\<exists>i. aq_todo s i \<noteq> [] \<or> aq_got s i \<noteq> []) \<longrightarrow> (\<exists>t. acq_step s t)) \<and>
         k \<le> 2 * (\<Sum>i<n. length (lock_calls (req i))) \<and>
         (\<forall>i. aq_todo (acq_init req) i = snd (lock_ids_in_order lock_log (req i) [])) \<and>
         (\<forall>i hs m. aq_todo s i = lock_calls (req i) \<and>
            lock_ids_in_order in_memory_locks (req i) (aq_locks s) = (Ok hs, m) \<longrightarrow>
            acq_step\<^sup>*\<^sup>* s (s\<lparr>aq_locks := m, aq_todo := (aq_todo s)(i := []),
                            aq_got := (aq_got s)(i := rev hs @ aq_got s i)\<rparr>))"
proof -
  have inv: "acq_inv n s" and le: "acq_work n s + k \<le> acq_work n (acq_init req)"
    using acq_run_inv [OF assms(2) acq_inv_init [OF assms(1)]] by auto
  have "acq_work n (acq_init req) = 2 * (\<Sum>i<n. length (lock_calls (req i)))"
    by (simp add: acq_work_def acq_init_def sum_distrib_left)
  with le inv acq_inv_progress lock_all_steps show ?thesis
    by (auto simp: acq_init_def lock_calls_def [symmetric]) (auto simp: lock_calls_sorted lock_ids_in_order_def)
qed

theorem ordered_locking_no_deadlock_witness:
  "\<exists>t. acq_step (acq_init (\<lambda>i. if i = 0 then [''b'', ''a''] else if i = 1 then [''a'', ''b''] else [])) t"
proof -
  let ?req = "\<lambda>i::nat. if i = 0 then [''b'', ''a''] else if i = 1 then [''a'', ''b''] else []"
  have "\<forall>i \<ge> 2. ?req i = []" by auto
  from ordered_locking_no_deadlock [OF this run_zero]
  have "(\<exists>i. aq_todo (acq_init ?req) i \<noteq> []) \<longrightarrow> (\<exists>t. acq_step (acq_init ?req) t)" by blast
  moreover have "aq_todo (acq_init ?req) 0 \<noteq> []"
    by (simp add: acq_init_def lock_calls_sorted sort_dedup_def)
  ultimately show ?thesis by blast
qed

end
