(* ===== verification/Read_Model.thy ===== *)
theory Read_Model
  imports Locks
begin

text \<open>
  Read models (\<open>src/read_model\<close>: \<open>mod.rs\<close>, \<open>store.rs\<close>, \<open>in_memory.rs\<close>,
  \<open>repository.rs\<close>): the error type, the in-memory store with its version counters, the
  contract of a store as a locale with the in-memory store as its instance, and the typed
  repository on top of it.
\<close>

section \<open>Errors and versions\<close>

datatype read_model_error =
    RM_ConcurrencyConflict (rmc_collection: string) (rmc_id: string) (rmc_expected: u64)
      (rmc_actual: u64)
  | RM_Serde string
  | RM_Storage string
  | RM_NotFound string string
  | RM_Lock lock_error

fun read_model_error_display :: "read_model_error \<Rightarrow> string" where
  "read_model_error_display (RM_ConcurrencyConflict coll ident expected actual) =
     ''concurrency conflict on '' @ coll @ '':'' @ ident @ '' (expected version '' @
     show_u64 expected @ '', actual '' @ show_u64 actual @ '')''"
| "read_model_error_display (RM_Serde msg) = ''read model serialization error: '' @ msg"
| "read_model_error_display (RM_Storage msg) = ''read model storage error: '' @ msg"
| "read_model_error_display (RM_NotFound coll ident) =
     ''read model not found: '' @ coll @ '':'' @ ident"
| "read_model_error_display (RM_Lock err) = ''read model lock error: '' @ lock_error_display err"

definition read_model_error_from_lock :: "lock_error \<Rightarrow> read_model_error" where
  "read_model_error_from_lock err = RM_Lock err"

record 'm versioned =
  vs_data :: 'm
  vs_version :: u64

text \<open>
  A type that implements \<open>ReadModel\<close>: its collection, its id, and \<open>serde_json\<close> at the type.
  \<open>Inl\<close> is the text of a serialization error.
\<close>

record 'm read_model =
  md_collection :: string
  md_id :: "'m \<Rightarrow> string"
  md_to_vec :: "'m \<Rightarrow> string + bytes"
  md_from_slice :: "bytes \<Rightarrow> string + 'm"

text \<open>The operations of a store at one read-model type.\<close>

record ('r, 'm) rm_ops =
  rmo_get_model :: "string \<Rightarrow> ('r, read_model_error, 'm versioned option) call"
  rmo_upsert :: "'m \<Rightarrow> ('r, read_model_error, 'm versioned) call"
  rmo_insert :: "'m \<Rightarrow> ('r, read_model_error, 'm versioned) call"
  rmo_update :: "'m \<Rightarrow> u64 \<Rightarrow> ('r, read_model_error, 'm versioned) call"
  rmo_delete :: "string \<Rightarrow> ('r, read_model_error, bool) call"
  rmo_find_models :: "('m \<Rightarrow> bool) \<Rightarrow> ('r, read_model_error, 'm versioned list) call"
  rmo_find_one_model :: "('m \<Rightarrow> bool) \<Rightarrow> ('r, read_model_error, 'm versioned option) call"
  rmo_upsert_raw :: "string \<Rightarrow> bytes \<Rightarrow> ('r, read_model_error, unit) call"

section \<open>The in-memory store\<close>

record stored_model =
  sm_bytes :: bytes
  sm_version :: u64

record rm_store =
  rm_poisoned :: bool
  rm_storage :: "(string, stored_model) mapping"

definition rm_store_new :: rm_store where
  "rm_store_new = \<lparr>rm_poisoned = False, rm_storage = Mapping.empty\<rparr>"

definition make_key :: "string \<Rightarrow> string \<Rightarrow> string" where
  "make_key table ident = table @ '':'' @ ident"

definition next_version :: "rm_store \<Rightarrow> string \<Rightarrow> u64" where
  "next_version s key =
     (case Mapping.lookup (rm_storage s) key of Some st \<Rightarrow> sm_version st + 1 | None \<Rightarrow> 1)"

definition put_model :: "string \<Rightarrow> bytes \<Rightarrow> u64 \<Rightarrow> rm_store \<Rightarrow> rm_store" where
  "put_model key bs v s =
     s\<lparr>rm_storage := Mapping.update key \<lparr>sm_bytes = bs, sm_version = v\<rparr> (rm_storage s)\<rparr>"

abbreviation rm_poison_error :: read_model_error where
  "rm_poison_error \<equiv> RM_Storage ''lock poisoned''"

definition save_raw :: "string \<Rightarrow> bytes \<Rightarrow> (rm_store, read_model_error, u64) call" where
  "save_raw key bs s =
     (if rm_poisoned s then (Err rm_poison_error, s)
      else (Ok (next_version s key), put_model key bs (next_version s key) s))"

definition get_model ::
    "'m read_model \<Rightarrow> string \<Rightarrow> (rm_store, read_model_error, 'm versioned option) call" where
  "get_model M ident s =
     (if rm_poisoned s then (Err rm_poison_error, s)
      else case Mapping.lookup (rm_storage s) (make_key (md_collection M) ident) of
        None \<Rightarrow> (Ok None, s)
      | Some st \<Rightarrow>
          (case md_from_slice M (sm_bytes st) of
             Inl msg \<Rightarrow> (Err (RM_Serde msg), s)
           | Inr m \<Rightarrow> (Ok (Some \<lparr>vs_data = m, vs_version = sm_version st\<rparr>), s)))"

definition upsert ::
    "'m read_model \<Rightarrow> 'm \<Rightarrow> (rm_store, read_model_error, 'm versioned) call" where
  "upsert M model s =
     (let key = make_key (md_collection M) (md_id M model)
      in case md_to_vec M model of
        Inl msg \<Rightarrow> (Err (RM_Serde msg), s)
      | Inr bs \<Rightarrow>
          (if rm_poisoned s then (Err rm_poison_error, s)
           else (Ok \<lparr>vs_data = model, vs_version = next_version s key\<rparr>,
                 put_model key bs (next_version s key) s)))"

definition insert_model ::
    "'m read_model \<Rightarrow> 'm \<Rightarrow> (rm_store, read_model_error, 'm versioned) call" where
  "insert_model M model s =
     (let key = make_key (md_collection M) (md_id M model)
      in case md_to_vec M model of
        Inl msg \<Rightarrow> (Err (RM_Serde msg), s)
      | Inr bs \<Rightarrow>
          (if rm_poisoned s then (Err rm_poison_error, s)
           else case Mapping.lookup (rm_storage s) key of
             Some st \<Rightarrow>
               (Err (RM_ConcurrencyConflict (md_collection M) (md_id M model) 0 (sm_version st)), s)
           | None \<Rightarrow> (Ok \<lparr>vs_data = model, vs_version = 1\<rparr>, put_model key bs 1 s)))"

definition update_model ::
    "'m read_model \<Rightarrow> 'm \<Rightarrow> u64 \<Rightarrow> (rm_store, read_model_error, 'm versioned) call" where
  "update_model M model expected s =
     (let key = make_key (md_collection M) (md_id M model)
      in case md_to_vec M model of
        Inl msg \<Rightarrow> (Err (RM_Serde msg), s)
      | Inr bs \<Rightarrow>
          (if rm_poisoned s then (Err rm_poison_error, s)
           else case Mapping.lookup (rm_storage s) key of
             None \<Rightarrow> (Err (RM_NotFound (md_collection M) (md_id M model)), s)
           | Some st \<Rightarrow>
               (if sm_version st \<noteq> expected
                then (Err (RM_ConcurrencyConflict (md_collection M) (md_id M model) expected
                             (sm_version st)), s)
                else (Ok \<lparr>vs_data = model, vs_version = sm_version st + 1\<rparr>,
                      put_model key bs (sm_version st + 1) s))))"

definition delete_model :: "'m read_model \<Rightarrow> string \<Rightarrow> (rm_store, read_model_error, bool) call" where
  "delete_model M ident s =
     (let key = make_key (md_collection M) ident
      in if rm_poisoned s then (Err rm_poison_error, s)
         else (Ok (Mapping.lookup (rm_storage s) key \<noteq> None),
               s\<lparr>rm_storage := Mapping.delete key (rm_storage s)\<rparr>))"

text \<open>
  The body of the loop of both searches: the entry is looked at when its key starts with
  \<open>collection:\<close>, and an entry that does not deserialize is passed over.
\<close>

definition match_model ::
    "'m read_model \<Rightarrow> ('m \<Rightarrow> bool) \<Rightarrow> string \<times> stored_model \<Rightarrow> 'm versioned option" where
  "match_model M p kv =
     (case kv of (key, st) \<Rightarrow>
        if prefix (md_collection M @ '':'') key
        then case md_from_slice M (sm_bytes st) of
               Inr m \<Rightarrow> if p m then Some \<lparr>vs_data = m, vs_version = sm_version st\<rparr> else None
             | Inl _ \<Rightarrow> None
        else None)"

fun find_loop :: "('x \<Rightarrow> 'y option) \<Rightarrow> 'x list \<Rightarrow> 'y option" where
  "find_loop f [] = None"
| "find_loop f (x # xs) = (case f x of Some y \<Rightarrow> Some y | None \<Rightarrow> find_loop f xs)"

definition find_models ::
    "'m read_model \<Rightarrow> ((string, stored_model) mapping \<Rightarrow> string list) \<Rightarrow> ('m \<Rightarrow> bool) \<Rightarrow>
     (rm_store, read_model_error, 'm versioned list) call" where
  "find_models M ord p s =
     (if rm_poisoned s then (Err rm_poison_error, s)
      else (Ok (List.map_filter (match_model M p) (hm_iter (rm_storage s) (ord (rm_storage s)))), s))"

definition find_one_model ::
    "'m read_model \<Rightarrow> ((string, stored_model) mapping \<Rightarrow> string list) \<Rightarrow> ('m \<Rightarrow> bool) \<Rightarrow>
     (rm_store, read_model_error, 'm versioned option) call" where
  "find_one_model M ord p s =
     (if rm_poisoned s then (Err rm_poison_error, s)
      else (Ok (find_loop (match_model M p) (hm_iter (rm_storage s) (ord (rm_storage s)))), s))"

definition upsert_raw :: "string \<Rightarrow> bytes \<Rightarrow> (rm_store, read_model_error, unit) call" where
  "upsert_raw key bs = st_bind (save_raw key bs) (\<lambda>_. st_return ())"

definition in_memory_models ::
    "'m read_model \<Rightarrow> ((string, stored_model) mapping \<Rightarrow> string list) \<Rightarrow> (rm_store, 'm) rm_ops" where
  "in_memory_models M ord =
     \<lparr>rmo_get_model = get_model M, rmo_upsert = upsert M, rmo_insert = insert_model M,
      rmo_update = update_model M, rmo_delete = delete_model M,
      rmo_find_models = find_models M ord, rmo_find_one_model = find_one_model M ord,
      rmo_upsert_raw = upsert_raw\<rparr>"

section \<open>The typed repository\<close>

text \<open>\<open>ReadModelRepository\<close> holds a store and passes every call on.\<close>

definition rmr_get where "rmr_get S ident = rmo_get_model S ident"
definition rmr_upsert where "rmr_upsert S model = rmo_upsert S model"
definition rmr_insert where "rmr_insert S model = rmo_insert S model"
definition rmr_update where "rmr_update S model expected = rmo_update S model expected"
definition rmr_delete where "rmr_delete S ident = rmo_delete S ident"
definition rmr_find where "rmr_find S p = rmo_find_models S p"
definition rmr_find_one where "rmr_find_one S p = rmo_find_one_model S p"

section \<open>What a store promises\<close>

text \<open>
  The table of a store at one type: for each id the model with its version.  A command is one
  call with its arguments, and \<open>table_step\<close> says what it returns and does to the table.
\<close>

type_synonym 'm table = "string \<Rightarrow> 'm versioned option"

datatype 'm rm_cmd =
    RC_Get string | RC_Upsert 'm | RC_Insert 'm | RC_Update 'm u64 | RC_Delete string

datatype 'm rm_reply = RR_Found "'m versioned option" | RR_Stored "'m versioned" | RR_Deleted bool

fun cmd_model :: "'m rm_cmd \<Rightarrow> 'm option" where
  "cmd_model (RC_Upsert m) = Some m"
| "cmd_model (RC_Insert m) = Some m"
| "cmd_model (RC_Update m v) = Some m"
| "cmd_model (RC_Get i) = None"
| "cmd_model (RC_Delete i) = None"

definition bump :: "'m versioned option \<Rightarrow> 'm \<Rightarrow> 'm versioned" where
  "bump old m =
     \<lparr>vs_data = m, vs_version = (case old of None \<Rightarrow> 1 | Some v \<Rightarrow> vs_version v + 1)\<rparr>"

fun table_step ::
    "string \<Rightarrow> ('m \<Rightarrow> string) \<Rightarrow> 'm rm_cmd \<Rightarrow> 'm table \<Rightarrow>
     (read_model_error, 'm rm_reply) outcome \<times> 'm table" where
  "table_step coll ident (RC_Get i) t = (Ok (RR_Found (t i)), t)"
| "table_step coll ident (RC_Upsert m) t =
     (let v = bump (t (ident m)) m in (Ok (RR_Stored v), t(ident m \<mapsto> v)))"
| "table_step coll ident (RC_Insert m) t =
     (case t (ident m) of
        Some old \<Rightarrow> (Err (RM_ConcurrencyConflict coll (ident m) 0 (vs_version old)), t)
      | None \<Rightarrow> (Ok (RR_Stored (bump None m)), t(ident m \<mapsto> bump None m)))"
| "table_step coll ident (RC_Update m expected) t =
     (case t (ident m) of
        None \<Rightarrow> (Err (RM_NotFound coll (ident m)), t)
      | Some old \<Rightarrow>
          if vs_version old = expected
          then (Ok (RR_Stored (bump (Some old) m)), t(ident m \<mapsto> bump (Some old) m))
          else (Err (RM_ConcurrencyConflict coll (ident m) expected (vs_version old)), t))"
| "table_step coll ident (RC_Delete i) t = (Ok (RR_Deleted (t i \<noteq> None)), t(i := None))"

fun run_cmd :: "('r, 'm) rm_ops \<Rightarrow> 'm rm_cmd \<Rightarrow> ('r, read_model_error, 'm rm_reply) call" where
  "run_cmd S (RC_Get i) r = apfst (map_ok RR_Found) (rmo_get_model S i r)"
| "run_cmd S (RC_Upsert m) r = apfst (map_ok RR_Stored) (rmo_upsert S m r)"
| "run_cmd S (RC_Insert m) r = apfst (map_ok RR_Stored) (rmo_insert S m r)"
| "run_cmd S (RC_Update m v) r = apfst (map_ok RR_Stored) (rmo_update S m v r)"
| "run_cmd S (RC_Delete i) r = apfst (map_ok RR_Deleted) (rmo_delete S i r)"

text \<open>A program issues its commands one after the other, whatever each of them returns.\<close>

fun run_cmds where
  "run_cmds f [] r = ([], r)"
| "run_cmds f (c # cs) r =
     (case f c r of (a, r') \<Rightarrow> (case run_cmds f cs r' of (as, r'') \<Rightarrow> (a # as, r'')))"

locale read_model_service =
  fixes S :: "('r, 'm) rm_ops"
    and coll :: string
    and ident :: "'m \<Rightarrow> string"
    and table :: "'r \<Rightarrow> 'm table"
    and inv :: "'r \<Rightarrow> bool"
    and storable :: "'m \<Rightarrow> bool"
  assumes step: "inv r \<Longrightarrow> pred_option storable (cmd_model c) \<Longrightarrow>
      \<exists>r'. run_cmd S c r = (fst (table_step coll ident c (table r)), r') \<and> inv r' \<and>
           table r' = snd (table_step coll ident c (table r))"
    and get_pure: "inv r \<Longrightarrow> snd (rmo_get_model S i r) = r"
    and stored_id: "inv r \<Longrightarrow> table r i = Some v \<Longrightarrow> ident (vs_data v) = i"
    and find: "inv r \<Longrightarrow> \<exists>vs. rmo_find_models S p r = (Ok vs, r) \<and> distinct vs \<and>
      set vs = {v. \<exists>i. table r i = Some v \<and> p (vs_data v)}"
    and find_one: "inv r \<Longrightarrow> \<exists>vs. rmo_find_models S p r = (Ok vs, r) \<and>
      rmo_find_one_model S p r = (Ok (case vs of [] \<Rightarrow> None | v # _ \<Rightarrow> Some v), r)"
begin

lemma run_refines:
  assumes "inv r" and "\<forall>c \<in> set cs. pred_option storable (cmd_model c)"
  shows "fst (run_cmds (run_cmd S) cs r) = fst (run_cmds (table_step coll ident) cs (table r)) \<and>
         inv (snd (run_cmds (run_cmd S) cs r)) \<and>
         table (snd (run_cmds (run_cmd S) cs r)) =
           snd (run_cmds (table_step coll ident) cs (table r))"
  using assms
proof (induction cs arbitrary: r)
  case Nil
  then show ?case by simp
next
  case (Cons c cs)
  obtain r' where r': "run_cmd S c r = (fst (table_step coll ident c (table r)), r')" "inv r'"
    "table r' = snd (table_step coll ident c (table r))"
    using step [OF Cons.prems(1), of c] Cons.prems(2) by auto
  with Cons.IH [OF r'(2)] Cons.prems(2) show ?case
    by (auto split: prod.splits simp: prod_eq_iff)
qed

lemma get_eq: "inv r \<Longrightarrow> rmo_get_model S i r = (Ok (table r i), r)"
  using step [of r "RC_Get i"] get_pure [of r i]
  by (auto simp: map_ok_Ok_iff prod_eq_iff)

lemma upsert_eq:
  assumes "inv r" and "storable m"
  shows "\<exists>r'. rmo_upsert S m r = (Ok (bump (table r (ident m)) m), r') \<and> inv r' \<and>
              table r' = (table r)(ident m \<mapsto> bump (table r (ident m)) m)"
  using step [OF assms(1), of "RC_Upsert m"] assms(2)
  by (auto simp: map_ok_Ok_iff prod_eq_iff Let_def)

lemma update_current:
  assumes "inv r" and "storable m" and "table r (ident m) = Some old"
  shows "\<exists>r'. rmo_update S m (vs_version old) r = (Ok (bump (Some old) m), r') \<and> inv r' \<and>
              table r' = (table r)(ident m \<mapsto> bump (Some old) m)"
  using step [OF assms(1), of "RC_Update m (vs_version old)"] assms(2,3)
  by (auto simp: map_ok_Ok_iff prod_eq_iff)

lemma update_conflict:
  assumes "inv r" and "storable m" and "table r (ident m) = Some old" and "vs_version old \<noteq> expected"
  shows "\<exists>r'. rmo_update S m expected r =
      (Err (RM_ConcurrencyConflict coll (ident m) expected (vs_version old)), r') \<and> inv r' \<and>
      table r' = table r"
proof -
  obtain r' where "apfst (map_ok RR_Stored) (rmo_update S m expected r) =
      (Err (RM_ConcurrencyConflict coll (ident m) expected (vs_version old)), r')" "inv r'"
    "table r' = table r"
    using step [OF assms(1), of "RC_Update m expected"] assms(2-4) by auto
  then show ?thesis
    by (cases "fst (rmo_update S m expected r)") (auto simp: prod_eq_iff)
qed

lemma second_update_conflicts:
  assumes "inv r" and "storable m1" and "storable m2"
    and "table r i = Some old" and "ident m1 = i" and "ident m2 = i"
  shows "\<exists>r1 r2. rmo_update S m1 (vs_version old) r = (Ok (bump (Some old) m1), r1) \<and>
      rmo_update S m2 (vs_version old) r1 =
        (Err (RM_ConcurrencyConflict coll i (vs_version old) (vs_version old + 1)), r2) \<and>
      table r2 i = Some (bump (Some old) m1)"
proof -
  obtain r1 where r1: "rmo_update S m1 (vs_version old) r = (Ok (bump (Some old) m1), r1)" "inv r1"
    "table r1 = (table r)(i \<mapsto> bump (Some old) m1)"
    using update_current [OF assms(1,2)] assms(4,5) by blast
  then have t: "table r1 (ident m2) = Some (bump (Some old) m1)" using assms(6) by simp
  have v: "vs_version (bump (Some old) m1) = vs_version old + 1" by (simp add: bump_def)
  then have "vs_version (bump (Some old) m1) \<noteq> vs_version old" by simp
  from update_conflict [OF r1(2) assms(3) t this] v assms(6) r1 show ?thesis by auto
qed

end


section \<open>The in-memory store keeps the promise\<close>

definition codec_ok :: "'m read_model \<Rightarrow> bool" where
  "codec_ok M \<longleftrightarrow> (\<forall>m bs. md_to_vec M m = Inr bs \<longrightarrow> md_from_slice M bs = Inr m)"

definition rm_table :: "'m read_model \<Rightarrow> rm_store \<Rightarrow> 'm table" where
  "rm_table M s i =
     (case Mapping.lookup (rm_storage s) (make_key (md_collection M) i) of
        None \<Rightarrow> None
      | Some st \<Rightarrow>
          (case md_from_slice M (sm_bytes st) of
             Inl _ \<Rightarrow> None
           | Inr m \<Rightarrow> Some \<lparr>vs_data = m, vs_version = sm_version st\<rparr>))"

text \<open>
  The entries of the collection were written by the typed operations: they deserialize, to a
  model whose id is the one in the key.
\<close>

definition rm_inv ::
    "'m read_model \<Rightarrow> ((string, stored_model) mapping \<Rightarrow> string list) \<Rightarrow> rm_store \<Rightarrow> bool" where
  "rm_inv M ord s \<longleftrightarrow>
     codec_ok M \<and> (\<forall>m. finite (Mapping.keys m) \<longrightarrow> iteration m (ord m)) \<and>
     finite (Mapping.keys (rm_storage s)) \<and> \<not> rm_poisoned s \<and>
     (\<forall>i st. Mapping.lookup (rm_storage s) (make_key (md_collection M) i) = Some st \<longrightarrow>
        (\<exists>m. md_from_slice M (sm_bytes st) = Inr m \<and> md_id M m = i))"

definition rm_storable :: "'m read_model \<Rightarrow> 'm \<Rightarrow> bool" where
  "rm_storable M m \<longleftrightarrow> (\<exists>bs. md_to_vec M m = Inr bs)"

lemma make_key_inj [simp]: "make_key c i = make_key c j \<longleftrightarrow> i = j"
  by (simp add: make_key_def)

lemma prefix_key_iff: "prefix (c @ '':'') k \<longleftrightarrow> (\<exists>i. k = make_key c i)"
  by (auto simp: make_key_def prefix_def)

lemma make_key_colon_free:
  assumes "CHR '':'' \<notin> set c" and "CHR '':'' \<notin> set d"
  shows "make_key c i = make_key d j \<longleftrightarrow> c = d \<and> i = j"
  using assms
proof (induction c arbitrary: d)
  case Nil
  then show ?case by (cases d) (auto simp: make_key_def)
next
  case (Cons x c)
  then show ?case by (cases d) (auto simp: make_key_def)
qed

lemma rm_inv_entry:
  assumes "rm_inv M ord s"
  obtains (absent) "Mapping.lookup (rm_storage s) (make_key (md_collection M) i) = None"
      "rm_table M s i = None"
  | (present) st m where
      "Mapping.lookup (rm_storage s) (make_key (md_collection M) i) = Some st"
      "md_from_slice M (sm_bytes st) = Inr m" "md_id M m = i"
      "rm_table M s i = Some \<lparr>vs_data = m, vs_version = sm_version st\<rparr>"
proof (cases "Mapping.lookup (rm_storage s) (make_key (md_collection M) i)")
  case None
  then show ?thesis by (intro absent) (simp_all add: rm_table_def)
next
  case (Some st)
  with assms obtain m where "md_from_slice M (sm_bytes st) = Inr m" "md_id M m = i"
    unfolding rm_inv_def by blast
  with Some show ?thesis by (intro present) (simp_all add: rm_table_def)
qed

lemma rm_inv_not_poisoned: "rm_inv M ord s \<Longrightarrow> \<not> rm_poisoned s"
  by (simp add: rm_inv_def)

lemma rm_inv_get:
  assumes "rm_inv M ord s" shows "get_model M i s = (Ok (rm_table M s i), s)"
  by (rule rm_inv_entry [OF assms, of i]) (simp_all add: get_model_def rm_inv_not_poisoned [OF assms])

lemma rm_inv_next_version:
  assumes "rm_inv M ord s"
  shows "next_version s (make_key (md_collection M) i) = vs_version (bump (rm_table M s i) m)"
  by (rule rm_inv_entry [OF assms, of i]) (simp_all add: next_version_def bump_def)

lemma rm_put:
  assumes "rm_inv M ord s" and "md_to_vec M m = Inr bs"
  shows "rm_inv M ord (put_model (make_key (md_collection M) (md_id M m)) bs v s)"
    and "rm_table M (put_model (make_key (md_collection M) (md_id M m)) bs v s) =
           (rm_table M s)(md_id M m \<mapsto> \<lparr>vs_data = m, vs_version = v\<rparr>)"
proof -
  have "md_from_slice M bs = Inr m" using assms by (simp add: rm_inv_def codec_ok_def)
  then show "rm_inv M ord (put_model (make_key (md_collection M) (md_id M m)) bs v s)"
    and "rm_table M (put_model (make_key (md_collection M) (md_id M m)) bs v s) =
           (rm_table M s)(md_id M m \<mapsto> \<lparr>vs_data = m, vs_version = v\<rparr>)"
    using assms(1) unfolding rm_inv_def rm_table_def put_model_def
    by (auto simp: lookup_update' fun_eq_iff keys_update)
qed

lemma lookup_delete_if:
  "Mapping.lookup (Mapping.delete k m) j = (if j = k then None else Mapping.lookup m j)"
  by transfer simp

lemma rm_delete:
  assumes "rm_inv M ord s"
  shows "rm_inv M ord (s\<lparr>rm_storage := Mapping.delete (make_key (md_collection M) i) (rm_storage s)\<rparr>)"
    and "rm_table M (s\<lparr>rm_storage := Mapping.delete (make_key (md_collection M) i) (rm_storage s)\<rparr>) =
           (rm_table M s)(i := None)"
    and "Mapping.lookup (rm_storage s) (make_key (md_collection M) i) \<noteq> None \<longleftrightarrow>
           rm_table M s i \<noteq> None"
proof -
  let ?k = "make_key (md_collection M) i"
  show "rm_inv M ord (s\<lparr>rm_storage := Mapping.delete ?k (rm_storage s)\<rparr>)"
    using assms unfolding rm_inv_def by (auto simp: lookup_delete_if split: if_splits)
  show "rm_table M (s\<lparr>rm_storage := Mapping.delete ?k (rm_storage s)\<rparr>) = (rm_table M s)(i := None)"
    by (auto simp: rm_table_def lookup_delete_if fun_eq_iff)
  show "Mapping.lookup (rm_storage s) ?k \<noteq> None \<longleftrightarrow> rm_table M s i \<noteq> None"
    by (rule rm_inv_entry [OF assms, of i]) simp_all
qed

lemma rm_insert_step:
  assumes "rm_inv M ord s" and "md_to_vec M m = Inr bs"
  shows "insert_model M m s =
     (case rm_table M s (md_id M m) of
        Some old \<Rightarrow>
          (Err (RM_ConcurrencyConflict (md_collection M) (md_id M m) 0 (vs_version old)), s)
      | None \<Rightarrow> (Ok (bump None m), put_model (make_key (md_collection M) (md_id M m)) bs 1 s))"
  by (rule rm_inv_entry [OF assms(1), of "md_id M m"])
    (simp_all add: insert_model_def rm_inv_not_poisoned [OF assms(1)] assms(2) bump_def)

lemma rm_update_step:
  assumes "rm_inv M ord s" and "md_to_vec M m = Inr bs"
  shows "update_model M m expected s =
     (case rm_table M s (md_id M m) of
        None \<Rightarrow> (Err (RM_NotFound (md_collection M) (md_id M m)), s)
      | Some old \<Rightarrow>
          if vs_version old \<noteq> expected
          then (Err (RM_ConcurrencyConflict (md_collection M) (md_id M m) expected
                       (vs_version old)), s)
          else (Ok (bump (Some old) m),
                put_model (make_key (md_collection M) (md_id M m)) bs (vs_version old + 1) s))"
  by (rule rm_inv_entry [OF assms(1), of "md_id M m"])
    (simp_all add: update_model_def rm_inv_not_poisoned [OF assms(1)] assms(2) bump_def)

lemma match_model_iff:
  assumes "rm_inv M ord s"
  shows "(\<exists>k st. Mapping.lookup (rm_storage s) k = Some st \<and> match_model M p (k, st) = Some v) \<longleftrightarrow>
         (\<exists>i. rm_table M s i = Some v \<and> p (vs_data v))"
proof
  assume "\<exists>k st. Mapping.lookup (rm_storage s) k = Some st \<and> match_model M p (k, st) = Some v"
  then obtain i st where i: "Mapping.lookup (rm_storage s) (make_key (md_collection M) i) = Some st"
    and v: "match_model M p (make_key (md_collection M) i, st) = Some v"
    by (auto simp: match_model_def prefix_key_iff split: if_splits)
  have "prefix (md_collection M @ '':'') (make_key (md_collection M) i)"
    by (auto simp: prefix_key_iff)
  with i v show "\<exists>i. rm_table M s i = Some v \<and> p (vs_data v)"
    by (intro exI [of _ i]) (auto simp: match_model_def rm_table_def split: sum.splits if_splits)
next
  assume "\<exists>i. rm_table M s i = Some v \<and> p (vs_data v)"
  then obtain i where i: "rm_table M s i = Some v" "p (vs_data v)" by blast
  have pre: "prefix (md_collection M @ '':'') (make_key (md_collection M) i)"
    by (auto simp: prefix_key_iff)
  have "\<exists>st. Mapping.lookup (rm_storage s) (make_key (md_collection M) i) = Some st \<and>
      match_model M p (make_key (md_collection M) i, st) = Some v"
    by (rule rm_inv_entry [OF assms, of i]) (use i pre in \<open>auto simp: match_model_def\<close>)
  then show "\<exists>k st. Mapping.lookup (rm_storage s) k = Some st \<and> match_model M p (k, st) = Some v"
    by blast
qed

lemma set_map_filter: "set (List.map_filter f xs) = {y. \<exists>x \<in> set xs. f x = Some y}"
  by (induction xs) (auto simp: map_filter_simps split: option.splits)

lemma distinct_map_filter:
  assumes "distinct xs"
    and "\<And>x y z. x \<in> set xs \<Longrightarrow> y \<in> set xs \<Longrightarrow> f x = Some z \<Longrightarrow> f y = Some z \<Longrightarrow> x = y"
  shows "distinct (List.map_filter f xs)"
  using assms
proof (induction xs)
  case Nil
  then show ?case by (simp add: map_filter_simps)
next
  case (Cons x xs)
  then have "distinct (List.map_filter f xs)" by auto
  with Cons.prems show ?case
    by (auto simp: map_filter_simps set_map_filter split: option.splits)
qed

lemma find_loop_map_filter:
  "find_loop f xs = (case List.map_filter f xs of [] \<Rightarrow> None | y # _ \<Rightarrow> Some y)"
  by (induction xs) (auto simp: map_filter_simps split: option.splits)

lemma match_model_key:
  assumes "rm_inv M ord s" and "Mapping.lookup (rm_storage s) k = Some st"
    and "match_model M p (k, st) = Some v"
  shows "k = make_key (md_collection M) (md_id M (vs_data v))"
proof -
  obtain i where i: "k = make_key (md_collection M) i"
    using assms(3) by (auto simp: match_model_def prefix_key_iff split: if_splits)
  from assms(1) show ?thesis
    by (rule rm_inv_entry [of M ord s i])
      (use assms(2,3) i in \<open>auto simp: match_model_def split: if_splits\<close>)
qed

lemma rm_find_result:
  assumes inv: "rm_inv M ord s"
  shows "\<exists>vs. find_models M ord p s = (Ok vs, s) \<and> distinct vs \<and>
      set vs = {v. \<exists>i. rm_table M s i = Some v \<and> p (vs_data v)}"
proof -
  let ?xs = "hm_iter (rm_storage s) (ord (rm_storage s))"
  let ?vs = "List.map_filter (match_model M p) ?xs"
  have it: "iteration (rm_storage s) (ord (rm_storage s))" and np: "\<not> rm_poisoned s"
    using inv by (simp_all add: rm_inv_def)
  have mem: "(k, st) \<in> set ?xs \<longleftrightarrow> Mapping.lookup (rm_storage s) k = Some st" for k st
    using set_hm_iter_iteration [OF it] .
  have "set ?vs = {v. \<exists>k st. (k, st) \<in> set ?xs \<and> match_model M p (k, st) = Some v}"
    by (simp add: set_map_filter Bex_def split_paired_Ex)
  then have "set ?vs = {v. \<exists>k st. Mapping.lookup (rm_storage s) k = Some st \<and>
      match_model M p (k, st) = Some v}"
    by (simp only: mem)
  then have "set ?vs = {v. \<exists>i. rm_table M s i = Some v \<and> p (vs_data v)}"
    using match_model_iff [OF inv] by simp
  moreover have "distinct ?vs"
  proof (rule distinct_map_filter [OF distinct_hm_iter [OF it]])
    fix x y z
    assume "x \<in> set ?xs" "y \<in> set ?xs" "match_model M p x = Some z" "match_model M p y = Some z"
    moreover obtain k st where x: "x = (k, st)" by (cases x)
    moreover obtain j su where y: "y = (j, su)" by (cases y)
    ultimately have "k = make_key (md_collection M) (md_id M (vs_data z))"
      "j = make_key (md_collection M) (md_id M (vs_data z))"
      and l: "Mapping.lookup (rm_storage s) k = Some st" "Mapping.lookup (rm_storage s) j = Some su"
      by (auto simp: mem intro!: match_model_key [OF inv])
    then have "k = j" by simp
    with l x y show "x = y" by simp
  qed
  ultimately show ?thesis using np by (simp add: find_models_def)
qed


interpretation mem_models: read_model_service "in_memory_models M ord" "md_collection M" "md_id M"
    "rm_table M" "rm_inv M ord" "rm_storable M"
  for M :: "'m read_model" and ord
proof (unfold_locales, goal_cases)
  case (1 s c)
  note inv = rm_inv_next_version [OF 1(1)] rm_inv_get [OF 1(1)] rm_inv_not_poisoned [OF 1(1)]
  show ?case
  proof (cases c)
    case (RC_Get i)
    with 1 inv show ?thesis by (simp add: in_memory_models_def)
  next
    case (RC_Upsert m)
    with 1 obtain bs where bs: "md_to_vec M m = Inr bs" by (auto simp: rm_storable_def)
    from RC_Upsert inv bs rm_put [OF 1(1) bs] show ?thesis
      by (simp add: in_memory_models_def upsert_def Let_def bump_def)
  next
    case (RC_Insert m)
    with 1 obtain bs where bs: "md_to_vec M m = Inr bs" by (auto simp: rm_storable_def)
    from RC_Insert 1(1) rm_insert_step [OF 1(1) bs] rm_put [OF 1(1) bs] show ?thesis
      by (cases "rm_table M s (md_id M m)") (simp_all add: in_memory_models_def bump_def)
  next
    case (RC_Update m v)
    with 1 obtain bs where bs: "md_to_vec M m = Inr bs" by (auto simp: rm_storable_def)
    from RC_Update 1(1) rm_update_step [OF 1(1) bs] rm_put [OF 1(1) bs] show ?thesis
      by (cases "rm_table M s (md_id M m)") (simp_all add: in_memory_models_def bump_def)
  next
    case (RC_Delete i)
    with 1 inv rm_delete [OF 1(1), of i] show ?thesis
      by (simp add: in_memory_models_def delete_model_def)
  qed
next
  case (2 s i)
  then show ?case by (simp add: in_memory_models_def rm_inv_get)
next
  case (3 s i v)
  then show ?case by (auto elim!: rm_inv_entry [of M ord s i])
next
  case (4 s p)
  then show ?case using rm_find_result by (simp add: in_memory_models_def)
next
  case (5 s p)
  then show ?case
    by (simp add: in_memory_models_def find_models_def find_one_model_def find_loop_map_filter
        rm_inv_not_poisoned)
qed

section \<open>Properties\<close>

text \<open>
  C26: The in-memory store implements a table of versioned models: whatever commands a program
  issues with models that encode, the answers are those of the table,
  errors included, and so is the state it leaves.
\<close>

theorem read_models_refine_table:
  assumes "rm_inv M ord s" and "\<forall>c \<in> set cs. pred_option (rm_storable M) (cmd_model c)"
  shows "fst (run_cmds (run_cmd (in_memory_models M ord)) cs s) =
           fst (run_cmds (table_step (md_collection M) (md_id M)) cs (rm_table M s)) \<and>
         rm_table M (snd (run_cmds (run_cmd (in_memory_models M ord)) cs s)) =
           snd (run_cmds (table_step (md_collection M) (md_id M)) cs (rm_table M s))"
  using mem_models.run_refines [OF assms] by blast

definition text_model :: "string \<Rightarrow> (string \<times> u8) read_model" where
  "text_model coll =
     \<lparr>md_collection = coll, md_id = fst,
      md_to_vec = (\<lambda>m. Inr (snd m # map (\<lambda>c. of_nat (of_char c)) (fst m))),
      md_from_slice = (\<lambda>bs. case bs of [] \<Rightarrow> Inl ''EOF''
         | b # bs' \<Rightarrow> Inr (map (\<lambda>w. char_of (unat w)) bs', b))\<rparr>"

lemma unat_of_char_u8: "unat (of_nat (of_char (c :: char)) :: u8) = of_char c"
proof -
  have "of_char c < (256 :: nat)" by (cases c) (simp add: of_char_Char)
  then show ?thesis by (simp add: unat_of_nat)
qed

lemma text_model_ok: "rm_inv (text_model coll) Mapping.ordered_keys rm_store_new"
  by (auto simp: rm_inv_def codec_ok_def text_model_def rm_store_new_def iteration_def comp_def
      unat_of_char_u8 lookup_empty intro!: list.map_ident_strong)

lemma text_model_storable [simp]: "rm_storable (text_model coll) m"
  by (simp add: rm_storable_def text_model_def)

lemma text_model_fields [simp]: "md_collection (text_model coll) = coll" "md_id (text_model coll) = fst"
  by (simp_all add: text_model_def)

theorem read_models_refine_table_witness:
  "fst (run_cmds (run_cmd (in_memory_models (text_model ''v'') Mapping.ordered_keys))
      [RC_Update (''a'', 7) 1, RC_Insert (''a'', 7), RC_Update (''a'', 8) 1, RC_Update (''a'', 9) 1,
       RC_Get ''a''] rm_store_new) =
   [Err (RM_NotFound ''v'' ''a''), Ok (RR_Stored \<lparr>vs_data = (''a'', 7), vs_version = 1\<rparr>),
    Ok (RR_Stored \<lparr>vs_data = (''a'', 8), vs_version = 2\<rparr>),
    Err (RM_ConcurrencyConflict ''v'' ''a'' 1 2),
    Ok (RR_Found (Some \<lparr>vs_data = (''a'', 8), vs_version = 2\<rparr>))]"
proof -
  have t: "rm_table (text_model ''v'') rm_store_new = (\<lambda>_. None)"
    by (simp add: rm_table_def rm_store_new_def lookup_empty fun_eq_iff)
  show ?thesis
    by (subst read_models_refine_table [OF text_model_ok, THEN conjunct1])
      (simp_all add: t bump_def)
qed

text \<open>
  Optimistic concurrency control loses no update: of two writers that read the same
  version, the first to call \<open>update\<close> succeeds, the second gets the conflict with the version
  it expected and the actual one, and what the first wrote is what the store then returns.
\<close>

theorem read_model_lost_update_prevented:
  assumes "rm_inv M ord s" and "rm_storable M m1" and "rm_storable M m2"
    and "md_id M m1 = i" and "md_id M m2 = i"
    and "get_model M i s = (Ok (Some old), s)"
  shows "\<exists>s1 s2. update_model M m1 (vs_version old) s = (Ok (bump (Some old) m1), s1) \<and>
      update_model M m2 (vs_version old) s1 =
        (Err (RM_ConcurrencyConflict (md_collection M) i (vs_version old) (vs_version old + 1)), s2) \<and>
      rm_table M s2 i = Some (bump (Some old) m1)"
  using mem_models.second_update_conflicts [OF assms(1-3) _ assms(4,5), of old] assms(6)
    rm_inv_get [OF assms(1), of i]
  by (simp add: in_memory_models_def)

theorem read_model_lost_update_prevented_witness:
  "\<exists>s s1 s2. get_model (text_model ''v'') ''a'' s =
        (Ok (Some \<lparr>vs_data = (''a'', 7), vs_version = 1\<rparr>), s) \<and>
      update_model (text_model ''v'') (''a'', 8) 1 s =
        (Ok \<lparr>vs_data = (''a'', 8), vs_version = 2\<rparr>, s1) \<and>
      update_model (text_model ''v'') (''a'', 9) 1 s1 =
        (Err (RM_ConcurrencyConflict ''v'' ''a'' 1 2), s2)"
proof -
  let ?M = "text_model ''v''" and ?old = "\<lparr>vs_data = (''a'', 7 :: u8), vs_version = 1\<rparr>"
  have t: "rm_table ?M rm_store_new = (\<lambda>_. None)"
    by (simp add: rm_table_def rm_store_new_def lookup_empty fun_eq_iff)
  obtain s where inv: "rm_inv ?M Mapping.ordered_keys s" and s: "rm_table ?M s ''a'' = Some ?old"
    using mem_models.upsert_eq [OF text_model_ok [of "''v''"], of "(''a'', 7)"]
    by (auto simp: t bump_def)
  have g: "get_model ?M ''a'' s = (Ok (Some ?old), s)"
    using rm_inv_get [OF inv] s by simp
  from read_model_lost_update_prevented [OF inv, of "(''a'', 8)" "(''a'', 9)", OF _ _ _ _ g] g
  show ?thesis by (auto simp: bump_def)
qed

lemma rm_table_put_other:
  assumes "\<And>j. key \<noteq> make_key (md_collection N) j"
  shows "rm_table N (put_model key bs v s) = rm_table N s"
  using assms by (auto simp: rm_table_def put_model_def lookup_update' fun_eq_iff)

text \<open>
  Collections whose names have no colon do not see each other: no command on one of them
  changes what the other holds.  (With colons in the names, two collections can share a key.)
\<close>

theorem collections_isolated:
  assumes "CHR '':'' \<notin> set (md_collection M)" and "CHR '':'' \<notin> set (md_collection N)"
    and "md_collection M \<noteq> md_collection N"
  shows "rm_table N (snd (run_cmd (in_memory_models M ord) c s)) = rm_table N s"
proof -
  have other: "make_key (md_collection M) i \<noteq> make_key (md_collection N) j" for i j
    using make_key_colon_free [OF assms(1,2)] assms(3) by simp
  show ?thesis
  proof (cases c)
    case (RC_Delete i)
    then show ?thesis using other other [symmetric]
      by (auto simp: in_memory_models_def delete_model_def rm_table_def lookup_delete_if Let_def
          fun_eq_iff)
  qed (use other in \<open>auto simp: in_memory_models_def get_model_def upsert_def insert_model_def
        update_model_def Let_def rm_table_put_other split: sum.splits option.splits\<close>)
qed

theorem collections_isolated_witness:
  "rm_table (text_model ''users'')
     (snd (run_cmd (in_memory_models (text_model ''todos'') Mapping.ordered_keys)
        (RC_Upsert (''users:1'', 3)) rm_store_new)) ''1'' = None"
proof -
  have "rm_table (text_model ''users'')
      (snd (run_cmd (in_memory_models (text_model ''todos'') Mapping.ordered_keys)
        (RC_Upsert (''users:1'', 3)) rm_store_new)) = rm_table (text_model ''users'') rm_store_new"
    by (rule collections_isolated) simp_all
  then show ?thesis by (simp add: rm_table_def rm_store_new_def lookup_empty)
qed

text \<open>
  \<open>find_models\<close> returns each model of the collection that satisfies the predicate once,
  with its version, and nothing else; \<open>find_one_model\<close> returns one of them, and \<open>None\<close> only
  when there is none.
\<close>

theorem find_models_complete:
  assumes "rm_inv M ord s"
  shows "\<exists>vs. find_models M ord p s = (Ok vs, s) \<and> distinct vs \<and>
           set vs = {v. \<exists>i. rm_table M s i = Some v \<and> p (vs_data v)} \<and>
           find_one_model M ord p s = (Ok (case vs of [] \<Rightarrow> None | v # _ \<Rightarrow> Some v), s)"
  using mem_models.find [OF assms, of p] mem_models.find_one [OF assms, of p]
  by (auto simp: in_memory_models_def)

theorem find_models_complete_witness:
  "\<exists>vs. find_models (text_model ''v'') Mapping.ordered_keys (\<lambda>_. True) rm_store_new = (Ok vs, rm_store_new) \<and>
     find_one_model (text_model ''v'') Mapping.ordered_keys (\<lambda>_. True) rm_store_new =
       (Ok None, rm_store_new)"
proof -
  have t: "rm_table (text_model ''v'') rm_store_new = (\<lambda>_. None)"
    by (simp add: rm_table_def rm_store_new_def lookup_empty fun_eq_iff)
  show ?thesis
    using find_models_complete [OF text_model_ok [of "''v''"], of "\<lambda>_. True"] by (auto simp: t)
qed

end
