(* ===== verification/Repository.thy ===== *)
theory Repository
  imports Entity Read_Model
begin

text \<open>
  The repository interface (\<open>src/repository\<close>): its error type, the operations behind the traits
  \<open>Get\<close>, \<open>Find\<close>, \<open>FindOne\<close>, \<open>Exists\<close>, \<open>Count\<close> and \<open>Commit\<close>, the arguments \<open>get\<close> accepts, and
  what an event store promises, as a locale.
\<close>

section \<open>Errors\<close>

datatype repository_error =
    RE_LockPoisoned string
  | RE_Lock lock_error
  | RE_ConcurrentWrite (re_id: string) (re_expected: u64) (re_actual: u64)
  | RE_Replay string
  | RE_Model string

fun repository_error_display :: "repository_error \<Rightarrow> string" where
  "repository_error_display (RE_LockPoisoned oper) = ''repository lock poisoned during '' @ oper"
| "repository_error_display (RE_Lock err) = ''repository lock error: '' @ lock_error_display err"
| "repository_error_display (RE_ConcurrentWrite ident expected actual) =
     ''concurrent write detected for entity '' @ ident @ '' (expected version '' @
     show_u64 expected @ '', got '' @ show_u64 actual @ '')''"
| "repository_error_display (RE_Replay msg) = ''replay error: '' @ msg"
| "repository_error_display (RE_Model msg) = ''model error: '' @ msg"

definition repository_error_from_lock :: "lock_error \<Rightarrow> repository_error" where
  "repository_error_from_lock err = RE_Lock err"

definition repository_error_from_read_model :: "read_model_error \<Rightarrow> repository_error" where
  "repository_error_from_read_model err = RE_Model (read_model_error_display err)"

section \<open>Operations\<close>

text \<open>
  A repository with state \<open>'r\<close>.  \<open>commit\<close> also changes the entities it is given, so its state
  is the pair of the repository and the committed entities.
\<close>

record 'r repo_ops =
  op_get_one :: "string \<Rightarrow> ('r, repository_error, entity option) call"
  op_get_many :: "string list \<Rightarrow> ('r, repository_error, entity list) call"
  op_find :: "(entity \<Rightarrow> bool) \<Rightarrow> ('r, repository_error, entity list) call"
  op_find_one :: "(entity \<Rightarrow> bool) \<Rightarrow> ('r, repository_error, entity option) call"
  op_exists :: "(entity \<Rightarrow> bool) \<Rightarrow> ('r, repository_error, bool) call"
  op_count :: "(entity \<Rightarrow> bool) \<Rightarrow> ('r, repository_error, nat) call"
  op_commit :: "('r \<times> entity list, repository_error, unit) call"

definition commit_with ::
    "'r repo_ops \<Rightarrow> committable \<Rightarrow> 'r \<Rightarrow> (repository_error, unit) outcome \<times> 'r \<times> entity list" where
  "commit_with R c r = op_commit R (r, entities_mut c)"

text \<open>What \<open>get\<close> is called with: one id, or several in a slice, an array or a vector.\<close>

datatype gettable =
    GStr string
  | GString string
  | GStringRef string
  | GSlice "string list"
  | GArray "string list"
  | GArrayRef "string list"
  | GVec "string list"
  | GVecRef "string list"

datatype get_output = GOne "entity option" | GMany "entity list"

fun get_from :: "'r repo_ops \<Rightarrow> gettable \<Rightarrow> ('r, repository_error, get_output) call" where
  "get_from R (GStr i) r = apfst (map_ok GOne) (op_get_one R i r)"
| "get_from R (GString i) r = apfst (map_ok GOne) (op_get_one R i r)"
| "get_from R (GStringRef i) r = apfst (map_ok GOne) (op_get_one R i r)"
| "get_from R (GSlice is) r = apfst (map_ok GMany) (op_get_many R is r)"
| "get_from R (GArray is) r = apfst (map_ok GMany) (op_get_many R is r)"
| "get_from R (GArrayRef is) r = apfst (map_ok GMany) (op_get_many R is r)"
| "get_from R (GVec is) r = apfst (map_ok GMany) (op_get_many R is r)"
| "get_from R (GVecRef is) r = apfst (map_ok GMany) (op_get_many R is r)"

definition repo_get :: "'r repo_ops \<Rightarrow> gettable \<Rightarrow> ('r, repository_error, get_output) call" where
  "repo_get R g = get_from R g"

section \<open>What an event store promises\<close>

text \<open>
  Streams of events by id.  An entity that was read from a stream has its events, all of them
  committed.  A commit checks every entity against the stream it started from, and then
  appends the new events of each.
\<close>

type_synonym streams = "string \<Rightarrow> event_record list option"

definition stream_of :: "streams \<Rightarrow> string \<Rightarrow> event_record list" where
  "stream_of t i = (case t i of None \<Rightarrow> [] | Some evs \<Rightarrow> evs)"

definition entity_from :: "system_time \<Rightarrow> string \<Rightarrow> event_record list \<Rightarrow> entity" where
  "entity_from now ident evs = load_from_history evs (set_id ident (entity_new now))"

definition entity_at :: "system_time \<Rightarrow> streams \<Rightarrow> string \<Rightarrow> entity option" where
  "entity_at now t i = map_option (entity_from now i) (t i)"

definition uncommitted :: "entity \<Rightarrow> event_record list" where
  "uncommitted e = drop (unat (en_committed_version e)) (en_events e)"

text \<open>An entity is current when its committed part is as long as the stream in the store.\<close>

definition current :: "streams \<Rightarrow> entity \<Rightarrow> bool" where
  "current t e \<longleftrightarrow> len_u64 (stream_of t (en_id e)) = en_committed_version e"

fun append_all :: "entity list \<Rightarrow> streams \<Rightarrow> streams" where
  "append_all [] t = t"
| "append_all (e # es) t =
     append_all es (t(en_id e \<mapsto> stream_of t (en_id e) @ uncommitted e))"

definition streams_ok :: "streams \<Rightarrow> bool" where
  "streams_ok t \<longleftrightarrow> (\<forall>i evs. t i = Some evs \<longrightarrow> seq_ok evs \<and> vec_fits evs)"

definition conflict_of :: "streams \<Rightarrow> entity \<Rightarrow> repository_error" where
  "conflict_of t e =
     RE_ConcurrentWrite (en_id e) (en_committed_version e) (len_u64 (stream_of t (en_id e)))"

lemma stream_of_simps [simp]:
  "stream_of (t(i := v)) i = (case v of None \<Rightarrow> [] | Some evs \<Rightarrow> evs)"
  "j \<noteq> i \<Longrightarrow> stream_of (t(i := v)) j = stream_of t j"
  by (auto simp: stream_of_def)

lemma append_all_apply:
  "append_all es t i =
     (if \<exists>e \<in> set es. en_id e = i
      then Some (stream_of t i @ concat (map uncommitted (filter (\<lambda>e. en_id e = i) es)))
      else t i)"
proof (induction es arbitrary: t)
  case Nil
  then show ?case by simp
next
  case (Cons e es)
  show ?case
  proof (cases "en_id e = i")
    case True
    then have "filter (\<lambda>e. en_id e = i) es = []" if "\<not> (\<exists>e \<in> set es. en_id e = i)"
      using that by (auto simp: filter_empty_conv)
    with True Cons.IH show ?thesis by auto
  next
    case False
    with Cons.IH show ?thesis by auto
  qed
qed

lemma append_all_other: "\<forall>e \<in> set es. en_id e \<noteq> i \<Longrightarrow> append_all es t i = t i"
  by (auto simp: append_all_apply)

lemma append_all_distinct:
  assumes "distinct (map en_id es)" and "e \<in> set es"
  shows "append_all es t (en_id e) = Some (stream_of t (en_id e) @ uncommitted e)"
proof -
  have "filter (\<lambda>e'. en_id e' = en_id e) es = [e]"
    using assms
  proof (induction es)
    case (Cons x xs)
    then show ?case by (cases "x = e") (auto simp: filter_empty_conv intro: rev_image_eqI)
  qed simp
  with assms(2) show ?thesis by (auto simp: append_all_apply)
qed

text \<open>The numbering of a stream goes on in the events an up-to-date entity adds to it.\<close>

lemma seq_ok_append:
  assumes "seq_ok evs" and "seq_ok full" and "length evs \<le> length full"
  shows "seq_ok (evs @ drop (length evs) full)"
proof -
  obtain k where k: "length full = length evs + k" using assms(3) le_Suc_ex by blast
  have "map (\<lambda>r. unat (er_sequence r)) (drop (length evs) full) =
      drop (length evs) [1..<Suc (length evs) + k]"
    using assms(2) by (simp add: seq_ok_def drop_map [symmetric] k del: upt_Suc)
  then have "map (\<lambda>r. unat (er_sequence r)) (drop (length evs) full) =
      [Suc (length evs)..<Suc (length evs) + k]"
    by (simp del: upt_Suc)
  then show ?thesis
    using assms(1) upt_add_eq_append [of 1 "Suc (length evs)" k]
    by (simp add: seq_ok_def k del: upt_Suc)
qed

lemma current_length:
  assumes "current t e" and "length (stream_of t (en_id e)) < 2 ^ 64"
  shows "unat (en_committed_version e) = length (stream_of t (en_id e))"
  using assms by (metis current_def unat_len_u64)

lemma streams_ok_stream:
  "streams_ok t \<Longrightarrow> seq_ok (stream_of t i) \<and> vec_fits (stream_of t i)"
  by (auto simp: streams_ok_def stream_of_def split: option.splits)

lemma committed_stream_ok:
  assumes "streams_ok t" and "entity_wf e" and "current t e" and "vec_fits (en_events e)"
  shows "seq_ok (stream_of t (en_id e) @ uncommitted e)"
    and "length (stream_of t (en_id e) @ uncommitted e) = length (en_events e)"
proof -
  let ?s = "stream_of t (en_id e)"
  have s: "seq_ok ?s" "vec_fits ?s" using streams_ok_stream [OF assms(1)] by auto
  then have len: "unat (en_committed_version e) = length ?s"
    using current_length [OF assms(3)] by simp
  with entity_wfD(2) [OF assms(2)] have le: "length ?s \<le> length (en_events e)" by simp
  show "seq_ok (?s @ uncommitted e)"
    using seq_ok_append [OF s(1) entity_wfD(3) [OF assms(2)] le] by (simp add: uncommitted_def len)
  show "length (?s @ uncommitted e) = length (en_events e)"
    using le by (simp add: uncommitted_def len)
qed

lemma append_all_streams_ok:
  assumes ok: "streams_ok t" and d: "distinct (map en_id es)"
    and es: "\<forall>e \<in> set es. entity_wf e \<and> current t e \<and> vec_fits (en_events e)"
  shows "streams_ok (append_all es t)"
  unfolding streams_ok_def
proof (intro allI impI)
  fix i evs
  assume "append_all es t i = Some evs"
  then consider "t i = Some evs"
    | e where "e \<in> set es" "evs = stream_of t (en_id e) @ uncommitted e"
    using append_all_distinct [OF d] append_all_other [of es i t]
    by (cases "\<exists>e \<in> set es. en_id e = i") fastforce+
  then show "seq_ok evs \<and> vec_fits evs"
  proof cases
    case 1
    with ok show ?thesis by (simp add: streams_ok_def)
  next
    case 2
    with es committed_stream_ok [OF ok, of e] show ?thesis by auto
  qed
qed

locale event_store =
  fixes R :: "'r repo_ops"
    and now :: system_time
    and streams :: "'r \<Rightarrow> streams"
    and inv :: "'r \<Rightarrow> bool"
  assumes get_one: "inv r \<Longrightarrow> op_get_one R i r = (Ok (entity_at now (streams r) i), r)"
    and get_many: "inv r \<Longrightarrow>
      op_get_many R is r = (Ok (List.map_filter (entity_at now (streams r)) is), r)"
    and find: "inv r \<Longrightarrow> \<exists>ids. distinct ids \<and> set ids = dom (streams r) \<and>
      (\<forall>p. op_find R p r =
        (Ok (filter p (List.map_filter (entity_at now (streams r)) ids)), r))"
    and commit: "inv r \<Longrightarrow> \<forall>e \<in> set es. entity_wf e \<Longrightarrow>
      \<forall>e \<in> set es. current (streams r) e \<Longrightarrow>
      \<exists>r'. op_commit R (r, es) = (Ok (), r', map mark_committed es) \<and> inv r' \<and>
           streams r' = append_all es (streams r)"
    and commit_conflict: "inv r \<Longrightarrow> es = pre @ e # post \<Longrightarrow>
      \<forall>e \<in> set pre. current (streams r) e \<Longrightarrow> \<not> current (streams r) e \<Longrightarrow>
      op_commit R (r, es) = (Err (conflict_of (streams r) e), r, es)"

begin

lemma commit_cases:
  assumes "inv r" and "\<forall>e \<in> set es. entity_wf e"
  shows "(\<forall>e \<in> set es. current (streams r) e) \<and>
           (\<exists>r'. op_commit R (r, es) = (Ok (), r', map mark_committed es) \<and> inv r' \<and>
                 streams r' = append_all es (streams r)) \<or>
         (\<exists>e \<in> set es. \<not> current (streams r) e \<and>
             op_commit R (r, es) = (Err (conflict_of (streams r) e), r, es))"
proof (cases "\<forall>e \<in> set es. current (streams r) e")
  case True
  with commit [OF assms] show ?thesis by blast
next
  case False
  then have "\<exists>e \<in> set es. \<not> current (streams r) e" by blast
  from split_list_first_prop [OF this] obtain pre e post
    where "es = pre @ e # post" "\<not> current (streams r) e" "\<forall>e \<in> set pre. current (streams r) e"
    by blast
  with commit_conflict [OF assms(1) this(1,3,2)] show ?thesis by auto
qed

lemma read_your_writes:
  assumes "inv r" and "\<forall>e \<in> set es. entity_wf e" and "distinct (map en_id es)"
    and "op_commit R (r, es) = (Ok (), r', es')" and "e \<in> set es"
  shows "inv r' \<and> es' = map mark_committed es \<and>
         op_get_one R (en_id e) r' =
           (Ok (Some (entity_from now (en_id e) (stream_of (streams r) (en_id e) @ uncommitted e))), r')"
proof -
  from commit_cases [OF assms(1,2)] assms(4)
  have "inv r'" "streams r' = append_all es (streams r)" "es' = map mark_committed es" by auto
  with get_one [of r' "en_id e"] append_all_distinct [OF assms(3,5)] show ?thesis
    by (simp add: entity_at_def)
qed

lemma second_commit_conflicts:
  assumes "inv r" and "streams_ok (streams r)"
    and "entity_wf e1" and "vec_fits (en_events e1)" and "uncommitted e1 \<noteq> []"
    and "entity_wf e2" and "en_id e2 = en_id e1"
    and "current (streams r) e1" and "current (streams r) e2"
  shows "\<exists>r1. op_commit R (r, [e1]) = (Ok (), r1, [mark_committed e1]) \<and> inv r1 \<and>
      streams r1 = (streams r)(en_id e1 \<mapsto> stream_of (streams r) (en_id e1) @ uncommitted e1) \<and>
      op_commit R (r1, [e2]) =
        (Err (RE_ConcurrentWrite (en_id e1) (en_committed_version e2) (len_u64 (en_events e1))), r1, [e2])"
proof -
  let ?s = "stream_of (streams r) (en_id e1)"
  obtain r1 where r1: "op_commit R (r, [e1]) = (Ok (), r1, [mark_committed e1])" "inv r1"
    "streams r1 = (streams r)(en_id e1 \<mapsto> ?s @ uncommitted e1)"
    using commit [OF assms(1), of "[e1]"] assms(3,8) by auto
  have len: "length (?s @ uncommitted e1) = length (en_events e1)"
    using committed_stream_ok(2) [OF assms(2,3,8,4)] .
  have lu: "len_u64 (?s @ uncommitted e1) = len_u64 (en_events e1)"
    unfolding len_u64_def len ..
  have "length ?s < length (en_events e1)" using len assms(5) by (simp add: length_greater_0_conv [symmetric] del: length_greater_0_conv)
  moreover have "unat (en_committed_version e2) = length ?s"
    using current_length [OF assms(9)] assms(4,7) calculation by simp
  ultimately have "len_u64 (en_events e1) \<noteq> en_committed_version e2"
    using assms(4) by (metis less_irrefl unat_len_u64_fits)
  then have "\<not> current (streams r1) e2"
    by (simp add: current_def r1(3) assms(7) lu)
  from commit_conflict [OF r1(2), of "[e2]" "[]" e2 "[]", OF _ _ this] r1 lu assms(7)
  show ?thesis by (auto simp: conflict_of_def)
qed

end

end
