(* ===== verification/Snapshot_Store.thy ===== *)
theory Snapshot_Store
  imports Repository
begin

text \<open>
  Snapshot persistence (\<open>src/snapshot/store.rs\<close>, \<open>in_memory.rs\<close>): one record per aggregate
  id, the last one saved.
\<close>

record snapshot_record =
  sn_aggregate_id :: string
  sn_version :: u64
  sn_data :: bytes

record 'r snap_ops =
  so_get_snapshot :: "string \<Rightarrow> ('r, repository_error, snapshot_record option) call"
  so_save_snapshot :: "snapshot_record \<Rightarrow> ('r, repository_error, unit) call"
  so_delete_snapshot :: "string \<Rightarrow> ('r, repository_error, bool) call"

record snap_store =
  ss_poisoned :: bool
  ss_storage :: "(string, snapshot_record) mapping"

definition snap_store_new :: snap_store where
  "snap_store_new = \<lparr>ss_poisoned = False, ss_storage = Mapping.empty\<rparr>"

definition get_snapshot :: "string \<Rightarrow> (snap_store, repository_error, snapshot_record option) call" where
  "get_snapshot ident s =
     (if ss_poisoned s then (Err (RE_LockPoisoned ''snapshot read''), s)
      else (Ok (Mapping.lookup (ss_storage s) ident), s))"

definition save_snapshot :: "snapshot_record \<Rightarrow> (snap_store, repository_error, unit) call" where
  "save_snapshot r s =
     (if ss_poisoned s then (Err (RE_LockPoisoned ''snapshot write''), s)
      else (Ok (), s\<lparr>ss_storage := Mapping.update (sn_aggregate_id r) r (ss_storage s)\<rparr>))"

definition delete_snapshot :: "string \<Rightarrow> (snap_store, repository_error, bool) call" where
  "delete_snapshot ident s =
     (if ss_poisoned s then (Err (RE_LockPoisoned ''snapshot write''), s)
      else (Ok (Mapping.lookup (ss_storage s) ident \<noteq> None),
            s\<lparr>ss_storage := Mapping.delete ident (ss_storage s)\<rparr>))"

definition in_memory_snapshots :: "snap_store snap_ops" where
  "in_memory_snapshots =
     \<lparr>so_get_snapshot = get_snapshot, so_save_snapshot = save_snapshot,
      so_delete_snapshot = delete_snapshot\<rparr>"

text \<open>The contract: a map from ids to records, and the record saved under an id has that id.\<close>

locale snapshot_service =
  fixes P :: "'r snap_ops"
    and snaps :: "'r \<Rightarrow> string \<Rightarrow> snapshot_record option"
    and inv :: "'r \<Rightarrow> bool"
  assumes get_snap: "inv r \<Longrightarrow> so_get_snapshot P i r = (Ok (snaps r i), r)"
    and save_snap: "inv r \<Longrightarrow> \<exists>r'. so_save_snapshot P s r = (Ok (), r') \<and> inv r' \<and>
      snaps r' = (snaps r)(sn_aggregate_id s \<mapsto> s)"
    and delete_snap: "inv r \<Longrightarrow> \<exists>r'. so_delete_snapshot P i r = (Ok (snaps r i \<noteq> None), r') \<and>
      inv r' \<and> snaps r' = (snaps r)(i := None)"
begin

lemma save_then_get:
  "inv r \<Longrightarrow> so_save_snapshot P s r = (Ok (), r') \<Longrightarrow>
     so_get_snapshot P (sn_aggregate_id s) r' = (Ok (Some s), r')"
  using save_snap [of r s] get_snap [of r' "sn_aggregate_id s"] by auto

end

definition ss_inv :: "snap_store \<Rightarrow> bool" where
  "ss_inv s \<longleftrightarrow> \<not> ss_poisoned s \<and>
     (\<forall>i r. Mapping.lookup (ss_storage s) i = Some r \<longrightarrow> sn_aggregate_id r = i)"

interpretation mem_snaps: snapshot_service in_memory_snapshots "\<lambda>s. Mapping.lookup (ss_storage s)" ss_inv
proof (unfold_locales, goal_cases)
  case (1 s i)
  then show ?case by (simp add: in_memory_snapshots_def get_snapshot_def ss_inv_def)
next
  case (2 s r)
  then show ?case
    by (auto simp: in_memory_snapshots_def save_snapshot_def ss_inv_def lookup_update' fun_eq_iff)
next
  case (3 s i)
  then show ?case
    by (auto simp: in_memory_snapshots_def delete_snapshot_def ss_inv_def lookup_delete_if fun_eq_iff
        split: if_splits)
qed

end
