(* ===== verification/Hashmap_Repo.thy ===== *)
theory Hashmap_Repo
  imports Snapshot_Store
begin

text \<open>
  The in-memory repository (\<open>src/hashmap_repo/repository.rs\<close>): the event store behind a
  reader-writer lock, with an embedded read-model store and snapshot store; its reads, its
  two-phase commit, and the proof that it is an event store.
\<close>

section \<open>State\<close>

text \<open>\<open>hr_poisoned\<close> is the poison flag of the lock around the event map.\<close>

record hm_repo =
  hr_poisoned :: bool
  hr_events :: "(string, event_record list) mapping"
  hr_models :: rm_store
  hr_snapshots :: snap_store

definition hm_repo_new :: hm_repo where
  "hm_repo_new =
     \<lparr>hr_poisoned = False, hr_events = Mapping.empty, hr_models = rm_store_new,
      hr_snapshots = snap_store_new\<rparr>"

type_synonym event_order = "(string, event_record list) mapping \<Rightarrow> string list"

section \<open>Reads\<close>

text \<open>
  \<open>now\<close> is the clock reading of \<open>Entity::new\<close>, \<open>ord\<close> the order in which the map is iterated.
\<close>

definition hm_get_one ::
    "system_time \<Rightarrow> string \<Rightarrow> (hm_repo, repository_error, entity option) call" where
  "hm_get_one now ident r =
     (if hr_poisoned r then (Err (RE_LockPoisoned ''read''), r)
      else case Mapping.lookup (hr_events r) ident of
        Some events \<Rightarrow> (Ok (Some (entity_from now ident events)), r)
      | None \<Rightarrow> (Ok None, r))"

fun hm_get_many ::
    "system_time \<Rightarrow> string list \<Rightarrow> (hm_repo, repository_error, entity list) call" where
  "hm_get_many now [] r = (Ok [], r)"
| "hm_get_many now (i # is) r =
     st_bind (hm_get_one now i) (\<lambda>found.
     st_bind (hm_get_many now is) (\<lambda>rest.
     st_return (case found of Some e \<Rightarrow> e # rest | None \<Rightarrow> rest))) r"

definition hm_entities :: "system_time \<Rightarrow> event_order \<Rightarrow> hm_repo \<Rightarrow> entity list" where
  "hm_entities now ord r =
     map (\<lambda>(ident, events). entity_from now ident events)
       (hm_iter (hr_events r) (ord (hr_events r)))"

definition hm_find ::
    "system_time \<Rightarrow> event_order \<Rightarrow> (entity \<Rightarrow> bool) \<Rightarrow> (hm_repo, repository_error, entity list) call" where
  "hm_find now ord p r =
     (if hr_poisoned r then (Err (RE_LockPoisoned ''read''), r)
      else (Ok (filter p (hm_entities now ord r)), r))"

definition hm_find_one ::
    "system_time \<Rightarrow> event_order \<Rightarrow> (entity \<Rightarrow> bool) \<Rightarrow> (hm_repo, repository_error, entity option) call" where
  "hm_find_one now ord p r =
     (if hr_poisoned r then (Err (RE_LockPoisoned ''read''), r)
      else (Ok (find_loop (\<lambda>e. if p e then Some e else None) (hm_entities now ord r)), r))"

definition hm_exists ::
    "system_time \<Rightarrow> event_order \<Rightarrow> (entity \<Rightarrow> bool) \<Rightarrow> (hm_repo, repository_error, bool) call" where
  "hm_exists now ord p r =
     (if hr_poisoned r then (Err (RE_LockPoisoned ''read''), r)
      else (Ok (list_ex p (hm_entities now ord r)), r))"

fun count_loop :: "('x \<Rightarrow> bool) \<Rightarrow> 'x list \<Rightarrow> nat" where
  "count_loop p [] = 0"
| "count_loop p (x # xs) = (if p x then 1 else 0) + count_loop p xs"

definition hm_count ::
    "system_time \<Rightarrow> event_order \<Rightarrow> (entity \<Rightarrow> bool) \<Rightarrow> (hm_repo, repository_error, nat) call" where
  "hm_count now ord p r =
     (if hr_poisoned r then (Err (RE_LockPoisoned ''read''), r)
      else (Ok (count_loop p (hm_entities now ord r)), r))"

section \<open>Commit\<close>

text \<open>
  Phase 1 compares each entity with its stream and returns at the first that differs.  Phase 2
  appends and marks the entities one after the other; a panic in \<open>new_events\<close> unwinds
  through the write guard, which poisons the lock and keeps what was appended so far.
\<close>

fun hm_validate :: "(string, event_record list) mapping \<Rightarrow> entity list \<Rightarrow>
    (repository_error, unit) outcome" where
  "hm_validate m [] = Ok ()"
| "hm_validate m (e # es) =
     (let stored_len = (case Mapping.lookup m (en_id e) of Some v \<Rightarrow> len_u64 v | None \<Rightarrow> 0)
      in if stored_len \<noteq> en_committed_version e
         then Err (RE_ConcurrentWrite (en_id e) (en_committed_version e) stored_len)
         else hm_validate m es)"

fun hm_append :: "entity list \<Rightarrow> (string, event_record list) mapping \<Rightarrow>
    (repository_error, unit) outcome \<times> (string, event_record list) mapping \<times> entity list" where
  "hm_append [] m = (Ok (), m, [])"
| "hm_append (e # es) m =
     (case new_events e of
        None \<Rightarrow> (Panic, m, e # es)
      | Some evs \<Rightarrow>
          (let stored = Mapping.lookup_default [] m (en_id e);
               (res, m', es') = hm_append es (Mapping.update (en_id e) (stored @ evs) m)
           in (res, m', mark_committed e # es')))"

definition hm_commit :: "(hm_repo \<times> entity list, repository_error, unit) call" where
  "hm_commit s =
     (case s of (r, es) \<Rightarrow>
        if hr_poisoned r then (Err (RE_LockPoisoned ''write''), r, es)
        else case hm_validate (hr_events r) es of
          Ok _ \<Rightarrow>
            (case hm_append es (hr_events r) of
               (res, m, es') \<Rightarrow>
                 (res, r\<lparr>hr_events := m, hr_poisoned := (res = Panic)\<rparr>, es'))
        | Err err \<Rightarrow> (Err err, r, es)
        | Panic \<Rightarrow> (Panic, r, es)
        | Stuck \<Rightarrow> (Stuck, r, es))"

definition hashmap_repo :: "system_time \<Rightarrow> event_order \<Rightarrow> hm_repo repo_ops" where
  "hashmap_repo now ord =
     \<lparr>op_get_one = hm_get_one now, op_get_many = hm_get_many now, op_find = hm_find now ord,
      op_find_one = hm_find_one now ord, op_exists = hm_exists now ord,
      op_count = hm_count now ord, op_commit = hm_commit\<rparr>"

section \<open>The embedded stores\<close>

definition on_models :: "(rm_store, 'e, 'a) call \<Rightarrow> (hm_repo, 'e, 'a) call" where
  "on_models f r = (case f (hr_models r) of (a, m) \<Rightarrow> (a, r\<lparr>hr_models := m\<rparr>))"

definition on_snapshots :: "(snap_store, 'e, 'a) call \<Rightarrow> (hm_repo, 'e, 'a) call" where
  "on_snapshots f r = (case f (hr_snapshots r) of (a, m) \<Rightarrow> (a, r\<lparr>hr_snapshots := m\<rparr>))"

definition hashmap_models ::
    "'m read_model \<Rightarrow> ((string, stored_model) mapping \<Rightarrow> string list) \<Rightarrow> (hm_repo, 'm) rm_ops" where
  "hashmap_models M ord =
     (let S = in_memory_models M ord
      in \<lparr>rmo_get_model = (\<lambda>i. on_models (rmo_get_model S i)),
          rmo_upsert = (\<lambda>m. on_models (rmo_upsert S m)),
          rmo_insert = (\<lambda>m. on_models (rmo_insert S m)),
          rmo_update = (\<lambda>m v. on_models (rmo_update S m v)),
          rmo_delete = (\<lambda>i. on_models (rmo_delete S i)),
          rmo_find_models = (\<lambda>p. on_models (rmo_find_models S p)),
          rmo_find_one_model = (\<lambda>p. on_models (rmo_find_one_model S p)),
          rmo_upsert_raw = (\<lambda>k bs. on_models (rmo_upsert_raw S k bs))\<rparr>)"

definition hashmap_snapshots :: "hm_repo snap_ops" where
  "hashmap_snapshots =
     \<lparr>so_get_snapshot = (\<lambda>i. on_snapshots (get_snapshot i)),
      so_save_snapshot = (\<lambda>s. on_snapshots (save_snapshot s)),
      so_delete_snapshot = (\<lambda>i. on_snapshots (delete_snapshot i))\<rparr>"

section \<open>It is an event store\<close>

definition hm_streams :: "hm_repo \<Rightarrow> streams" where
  "hm_streams r = Mapping.lookup (hr_events r)"

definition hm_inv :: "event_order \<Rightarrow> hm_repo \<Rightarrow> bool" where
  "hm_inv ord r \<longleftrightarrow>
     \<not> hr_poisoned r \<and> finite (Mapping.keys (hr_events r)) \<and>
     (\<forall>m. finite (Mapping.keys m) \<longrightarrow> iteration m (ord m))"

lemma hm_inv_ordered_new [simp]: "hm_inv Mapping.ordered_keys hm_repo_new"
  by (simp add: hm_inv_def hm_repo_new_def iteration_ordered_keys)

lemma hm_streams_new [simp]: "hm_streams hm_repo_new = (\<lambda>_. None)"
  by (simp add: hm_streams_def hm_repo_new_def lookup_empty fun_eq_iff)

lemma stored_len_eq:
  "(case Mapping.lookup m i of Some v \<Rightarrow> len_u64 v | None \<Rightarrow> 0) =
     len_u64 (stream_of (Mapping.lookup m) i)"
  by (simp add: stream_of_def split: option.splits)

lemma hm_validate_Ok_iff: "hm_validate m es = Ok () \<longleftrightarrow> (\<forall>e \<in> set es. current (Mapping.lookup m) e)"
  by (induction es) (auto simp: current_def stored_len_eq Let_def)

lemma hm_validate_Err:
  "\<forall>e \<in> set pre. current (Mapping.lookup m) e \<Longrightarrow> \<not> current (Mapping.lookup m) e \<Longrightarrow>
     hm_validate m (pre @ e # post) = Err (conflict_of (Mapping.lookup m) e)"
  by (induction pre) (auto simp: current_def conflict_of_def stored_len_eq Let_def)

lemma lookup_default_stream: "Mapping.lookup_default [] m i = stream_of (Mapping.lookup m) i"
  by (simp add: lookup_default_def stream_of_def split: option.splits)

lemma lookup_update_fun: "Mapping.lookup (Mapping.update k v m) = (Mapping.lookup m)(k \<mapsto> v)"
  by (auto simp: fun_eq_iff lookup_update')

lemma hm_append_wf:
  assumes "\<forall>e \<in> set es. entity_wf e"
  shows "\<exists>m'. hm_append es m = (Ok (), m', map mark_committed es) \<and>
      Mapping.lookup m' = append_all es (Mapping.lookup m) \<and>
      (finite (Mapping.keys m) \<longrightarrow> finite (Mapping.keys m'))"
  using assms
proof (induction es arbitrary: m)
  case Nil
  then show ?case by simp
next
  case (Cons e es)
  let ?m = "Mapping.update (en_id e) (Mapping.lookup_default [] m (en_id e) @ uncommitted e) m"
  obtain m' where "hm_append es ?m = (Ok (), m', map mark_committed es)"
    "Mapping.lookup m' = append_all es (Mapping.lookup ?m)"
    "finite (Mapping.keys ?m) \<longrightarrow> finite (Mapping.keys m')"
    using Cons.IH [of ?m] Cons.prems by auto
  moreover have "new_events e = Some (uncommitted e)"
    using Cons.prems by (simp add: new_events_wf uncommitted_def)
  ultimately show ?case
    by (simp add: lookup_update_fun lookup_default_stream)
qed

lemma hm_get_many_eq:
  "\<not> hr_poisoned r \<Longrightarrow>
     hm_get_many now is r = (Ok (List.map_filter (entity_at now (hm_streams r)) is), r)"
  by (induction "is")
    (auto simp: st_bind_def hm_get_one_def hm_streams_def entity_at_def map_filter_simps
      split: option.splits)

lemma hm_entities_eq:
  "hm_entities now ord r =
     List.map_filter (entity_at now (hm_streams r)) (ord (hr_events r))"
proof -
  have "map (\<lambda>(ident, events). entity_from now ident events) (hm_iter (hr_events r) ks) =
      List.map_filter (entity_at now (hm_streams r)) ks" for ks
    by (induction ks)
      (auto simp: hm_iter_Cons map_filter_simps entity_at_def hm_streams_def split: option.splits)
  then show ?thesis by (simp add: hm_entities_def)
qed

interpretation hm: event_store "hashmap_repo now ord" now hm_streams "hm_inv ord"
  for now ord
proof (unfold_locales, goal_cases)
  case (1 r i)
  then show ?case
    by (simp add: hashmap_repo_def hm_get_one_def hm_inv_def entity_at_def hm_streams_def
        split: option.splits)
next
  case (2 r "is")
  then show ?case by (simp add: hashmap_repo_def hm_get_many_eq hm_inv_def)
next
  case (3 r)
  then have "iteration (hr_events r) (ord (hr_events r))" by (simp add: hm_inv_def)
  then have "distinct (ord (hr_events r))" "set (ord (hr_events r)) = dom (hm_streams r)"
    by (simp_all add: iteration_def hm_streams_def keys_dom_lookup)
  with 3 show ?case
    by (intro exI [of _ "ord (hr_events r)"])
      (simp add: hashmap_repo_def hm_find_def hm_inv_def hm_entities_eq)
next
  case (4 r es)
  obtain m' where m': "hm_append es (hr_events r) = (Ok (), m', map mark_committed es)"
    "Mapping.lookup m' = append_all es (Mapping.lookup (hr_events r))"
    "finite (Mapping.keys (hr_events r)) \<longrightarrow> finite (Mapping.keys m')"
    using hm_append_wf [OF 4(2)] by blast
  have "hm_validate (hr_events r) es = Ok ()"
    using 4(3) by (simp add: hm_validate_Ok_iff hm_streams_def)
  with m' 4(1) show ?case
    by (simp add: hashmap_repo_def hm_commit_def hm_inv_def hm_streams_def)
next
  case (5 r es pre e post)
  then have "hm_validate (hr_events r) es = Err (conflict_of (hm_streams r) e)"
    by (simp add: hm_validate_Err hm_streams_def)
  with 5(1) show ?case by (simp add: hashmap_repo_def hm_commit_def hm_inv_def)
qed

interpretation hm_snaps: snapshot_service hashmap_snapshots
    "\<lambda>r. Mapping.lookup (ss_storage (hr_snapshots r))" "\<lambda>r. ss_inv (hr_snapshots r)"
proof (unfold_locales, goal_cases)
  case (1 r i)
  then show ?case using mem_snaps.get_snap [OF 1, of i]
    by (simp add: hashmap_snapshots_def on_snapshots_def in_memory_snapshots_def)
next
  case (2 r s)
  then show ?case using mem_snaps.save_snap [OF 2, of s]
    by (auto simp: hashmap_snapshots_def on_snapshots_def in_memory_snapshots_def)
next
  case (3 r i)
  then show ?case using mem_snaps.delete_snap [OF 3, of i]
    by (auto simp: hashmap_snapshots_def on_snapshots_def in_memory_snapshots_def)
qed

section \<open>Sessions that read, change and commit\<close>

text \<open>A client records several events on an entity it has read: name and payload bytes of each.\<close>

fun digests :: "system_time \<Rightarrow> (string \<times> bytes) list \<Rightarrow> entity \<Rightarrow> entity option" where
  "digests now [] e = Some e"
| "digests now ((name, bs) # ps) e =
     (case digest (\<lambda>_. Some bs) now name () e of None \<Rightarrow> None | Some e' \<Rightarrow> digests now ps e')"

lemma digests_result:
  assumes "entity_wf e" and "\<not> en_replaying e" and "length (en_events e) + length ps < 2 ^ 63"
  shows "\<exists>e' evs. digests now ps e = Some e' \<and> entity_wf e' \<and> en_id e' = en_id e \<and>
      en_committed_version e' = en_committed_version e \<and> \<not> en_replaying e' \<and>
      en_events e' = en_events e @ evs \<and>
      map (\<lambda>r. (er_event_name r, er_payload r)) evs = ps"
  using assms
proof (induction ps arbitrary: e)
  case Nil
  then show ?case by simp
next
  case (Cons p ps)
  obtain name bs where p: "p = (name, bs)" by (cases p)
  let ?r = "event_record_new name bs (len_u64 (en_events e) + 1) now"
  let ?e = "push_record ?r now e"
  have d: "digest (\<lambda>_. Some bs) now name () e = Some ?e"
    using Cons.prems by (simp add: digest_def)
  have wf: "entity_wf ?e" using digest_wf [OF Cons.prems(1) _ d] Cons.prems(3) by simp
  have ev: "en_events ?e = en_events e @ [?r\<lparr>er_metadata := en_metadata e\<rparr>]"
    by (rule push_record_events) simp
  from Cons.IH [OF wf] Cons.prems(2,3) obtain e' evs where
    "digests now ps ?e = Some e'" "entity_wf e'" "en_id e' = en_id e"
    "en_committed_version e' = en_committed_version e" "\<not> en_replaying e'"
    "en_events e' = en_events ?e @ evs"
    "map (\<lambda>r. (er_event_name r, er_payload r)) evs = ps"
    by (auto simp: ev)
  moreover have "er_event_name ?r = name" "er_payload ?r = bs"
    by (simp_all add: event_record_new_def)
  ultimately show ?case by (simp add: p d ev)
qed

lemma entity_from_simps [simp]:
  "en_id (entity_from now i evs) = i"
  "en_events (entity_from now i evs) = evs"
  "en_version (entity_from now i evs) = len_u64 evs"
  "en_committed_version (entity_from now i evs) = len_u64 evs"
  "\<not> en_replaying (entity_from now i evs)"
  by (simp_all add: entity_from_def set_id_def entity_new_def entity_default_def)

lemma entity_from_wf: "seq_ok evs \<Longrightarrow> vec_fits evs \<Longrightarrow> entity_wf (entity_from now i evs)"
  by (simp add: entity_from_def load_from_history_wf)

lemma digests_on_stored:
  assumes "streams_ok t" and "entity_at t0 t i = Some e0"
    and "length (en_events e0) + length ps < 2 ^ 63"
  obtains e where "digests now ps e0 = Some e" "entity_wf e" "en_id e = i" "current t e"
    "vec_fits (en_events e)" "length (uncommitted e) = length ps"
    "en_events e = stream_of t i @ uncommitted e"
    "map (\<lambda>r. (er_event_name r, er_payload r)) (uncommitted e) = ps"
proof -
  obtain evs where t: "t i = Some evs" and e0: "e0 = entity_from t0 i evs"
    using assms(2) by (auto simp: entity_at_def)
  then have ok: "seq_ok evs" "vec_fits evs" using assms(1) by (auto simp: streams_ok_def)
  obtain e new where e: "digests now ps e0 = Some e" "entity_wf e" "en_id e = i"
    "en_committed_version e = len_u64 evs" "en_events e = evs @ new"
    "map (\<lambda>r. (er_event_name r, er_payload r)) new = ps"
    using digests_result [of e0 ps now] assms(3) entity_from_wf [OF ok] by (auto simp: e0)
  have unc: "uncommitted e = new" using e(4,5) ok(2) by (simp add: uncommitted_def)
  have "length new = length ps" using e(6) by auto
  with e unc t assms(3) show ?thesis
    by (intro that [of e]) (auto simp: current_def stream_of_def e0)
qed

section \<open>Properties\<close>

text \<open>
  C3: A commit is atomic: of well-formed entities it either finds each of them current,
  appends the new events of each to its stream and marks all of them committed, or returns
  the concurrent-write error of an entity that is not current and changes neither the store
  nor the entities.
\<close>

theorem commit_atomic:
  assumes "hm_inv ord r" and "\<forall>e \<in> set es. entity_wf e"
  shows "(\<forall>e \<in> set es. current (hm_streams r) e) \<and>
           (\<exists>r'. hm_commit (r, es) = (Ok (), r', map mark_committed es) \<and> hm_inv ord r' \<and>
              (\<forall>i. hm_streams r' i =
                 (if \<exists>e \<in> set es. en_id e = i
                  then Some (stream_of (hm_streams r) i @
                         concat (map uncommitted (filter (\<lambda>e. en_id e = i) es)))
                  else hm_streams r i))) \<or>
         (\<exists>e \<in> set es. \<not> current (hm_streams r) e \<and>
             hm_commit (r, es) =
               (Err (RE_ConcurrentWrite (en_id e) (en_committed_version e)
                       (len_u64 (stream_of (hm_streams r) (en_id e)))), r, es))"
  using hm.commit_cases [OF assms, of 0]
  by (auto simp: hashmap_repo_def append_all_apply conflict_of_def)

theorem commit_atomic_witness:
  "\<exists>r'. hm_commit (hm_repo_new, [push_record (event_record_new ''e1'' [7] 1 5) 5 (entity_with_id ''a'' 0),
                                 entity_with_id ''b'' 0]) =
     (Ok (), r', [mark_committed (push_record (event_record_new ''e1'' [7] 1 5) 5 (entity_with_id ''a'' 0)),
                  mark_committed (entity_with_id ''b'' 0)])"
proof -
  let ?a = "push_record (event_record_new ''e1'' [7] 1 5) 5 (entity_with_id ''a'' 0)"
  let ?b = "entity_with_id ''b'' 0"
  have "entity_wf ?a"
    by (rule push_record_wf)
      (simp_all add: event_record_new_def entity_with_id_def entity_default_def entity_wf_def)
  then have wf: "\<forall>e \<in> set [?a, ?b]. entity_wf e" by simp
  have "\<forall>e \<in> set [?a, ?b]. current (hm_streams hm_repo_new) e"
    by (simp add: current_def stream_of_def) (simp add: entity_with_id_def entity_default_def)
  with commit_atomic [OF hm_inv_ordered_new wf] show ?thesis by auto
qed

text \<open>
  What was committed is what is read: after a client reads an entity, records events on
  it and commits it, \<open>get\<close> returns an entity with the same id and the full history, the
  recorded events in order at its end, all of it committed, and the store keeps its
  streams numbered.
\<close>

theorem commit_then_get:
  assumes "hm_inv ord r" and "streams_ok (hm_streams r)"
    and "hm_get_one t0 i r = (Ok (Some e0), r)"
    and "length (en_events e0) + length ps < 2 ^ 63"
  shows "\<exists>e r' e'. digests now ps e0 = Some e \<and> hm_commit (r, [e]) = (Ok (), r', [mark_committed e]) \<and>
      hm_get_one t1 i r' = (Ok (Some e'), r') \<and> en_id e' = i \<and> en_events e' = en_events e \<and>
      take (length (en_events e0)) (en_events e') = en_events e0 \<and>
      map (\<lambda>ev. (er_event_name ev, er_payload ev)) (drop (length (en_events e0)) (en_events e')) = ps \<and>
      new_events e' = Some [] \<and> hm_inv ord r' \<and> streams_ok (hm_streams r')"
proof -
  have e0: "entity_at t0 (hm_streams r) i = Some e0"
    using hm.get_one [OF assms(1), of t0 i] assms(3) by (simp add: hashmap_repo_def)
  obtain e where e: "digests now ps e0 = Some e" "entity_wf e" "en_id e = i"
    "current (hm_streams r) e" "vec_fits (en_events e)" "length (uncommitted e) = length ps"
    "en_events e = stream_of (hm_streams r) i @ uncommitted e"
    "map (\<lambda>r. (er_event_name r, er_payload r)) (uncommitted e) = ps"
    by (rule digests_on_stored [OF assms(2) e0 assms(4)])
  have s: "stream_of (hm_streams r) i = en_events e0"
    using e0 by (auto simp: entity_at_def stream_of_def)
  obtain r' where r': "hm_commit (r, [e]) = (Ok (), r', [mark_committed e])" "hm_inv ord r'"
    "hm_streams r' = append_all [e] (hm_streams r)"
    using hm.commit [OF assms(1), of "[e]"] e(2,4) by (auto simp: hashmap_repo_def)
  have ok: "streams_ok (hm_streams r')"
    using append_all_streams_ok [OF assms(2), of "[e]"] e(2,4,5) by (simp add: r'(3))
  have "hm_get_one t1 i r' = (Ok (Some (entity_from t1 i (en_events e))), r')"
    using hm.get_one [OF r'(2), of t1 i] e(3) by (simp add: r'(3) entity_at_def hashmap_repo_def e(7) [symmetric])
  moreover have "new_events (entity_from t1 i (en_events e)) = Some []"
    using e(5) by (simp add: entity_from_def new_events_load_from_history)
  ultimately show ?thesis using e(1,7,8) r'(1,2) ok s by auto
qed


lemma one_event_store:
  "hm_inv Mapping.ordered_keys (hm_repo_new\<lparr>hr_events := Mapping.update ''a'' [event_record_new ''Created'' [1] 1 0] Mapping.empty\<rparr>)"
  "streams_ok (hm_streams (hm_repo_new\<lparr>hr_events := Mapping.update ''a'' [event_record_new ''Created'' [1] 1 0] Mapping.empty\<rparr>))"
  "hm_get_one t ''a'' (hm_repo_new\<lparr>hr_events := Mapping.update ''a'' [event_record_new ''Created'' [1] 1 0] Mapping.empty\<rparr>) =
     (Ok (Some (entity_from t ''a'' [event_record_new ''Created'' [1] 1 0])),
      hm_repo_new\<lparr>hr_events := Mapping.update ''a'' [event_record_new ''Created'' [1] 1 0] Mapping.empty\<rparr>)"
  by (auto simp: hm_inv_def hm_repo_new_def iteration_def streams_ok_def hm_streams_def
      lookup_update_fun lookup_empty hm_get_one_def seq_ok_def event_record_new_def)

theorem commit_then_get_witness:
  "\<exists>r r' e'. hm_get_one 5 ''a'' r' = (Ok (Some e'), r') \<and>
     fst (hm_commit r) = Ok () \<and> length (en_events e') = 3"
proof -
  let ?r = "hm_repo_new\<lparr>hr_events := Mapping.update ''a'' [event_record_new ''Created'' [1] 1 0] Mapping.empty\<rparr>"
  let ?ps = "[(''Renamed'', [2]), (''Closed'', [3])]"
  from commit_then_get [OF one_event_store(1,2) one_event_store(3) [of 4], of ?ps 9 5]
  obtain e r' e' where "hm_commit (?r, [e]) = (Ok (), r', [mark_committed e])"
    "hm_get_one 5 ''a'' r' = (Ok (Some e'), r')"
    and d: "map (\<lambda>ev. (er_event_name ev, er_payload ev)) (drop 1 (en_events e')) = ?ps"
    by auto
  moreover have "length (en_events e') = 3" using arg_cong [OF d, of length] by simp
  ultimately show ?thesis
    by (intro exI [of _ "(?r, [e])"] exI [of _ r'] exI [of _ e']) simp
qed

text \<open>
  C4: No update is lost: when two clients read the same entity and both record events, the one
  that commits first succeeds, and the other gets the concurrent-write error with the version
  it read and the version now stored; the store then holds the history of the first.
\<close>

theorem commit_lost_update_prevented:
  assumes "hm_inv ord r" and "streams_ok (hm_streams r)"
    and "hm_get_one t1 i r = (Ok (Some e1), r)" and "hm_get_one t2 i r = (Ok (Some e2), r)"
    and "ps1 \<noteq> []" and "length (en_events e1) + length ps1 < 2 ^ 63"
    and "length (en_events e2) + length ps2 < 2 ^ 63"
  shows "\<exists>f1 f2 r'. digests now1 ps1 e1 = Some f1 \<and> digests now2 ps2 e2 = Some f2 \<and>
      hm_commit (r, [f1]) = (Ok (), r', [mark_committed f1]) \<and>
      hm_commit (r', [f2]) =
        (Err (RE_ConcurrentWrite i (len_u64 (en_events e1)) (len_u64 (en_events f1))), r', [f2]) \<and>
      hm_streams r' i = Some (en_events f1)"
proof -
  have e1: "entity_at t1 (hm_streams r) i = Some e1" and e2: "entity_at t2 (hm_streams r) i = Some e2"
    using hm.get_one [OF assms(1), of t1 i] hm.get_one [OF assms(1), of t2 i] assms(3,4)
    by (simp_all add: hashmap_repo_def)
  then have s: "stream_of (hm_streams r) i = en_events e1"
    by (auto simp: entity_at_def stream_of_def)
  obtain f1 where f1: "digests now1 ps1 e1 = Some f1" "entity_wf f1" "en_id f1 = i"
    "current (hm_streams r) f1" "vec_fits (en_events f1)" "length (uncommitted f1) = length ps1"
    "en_events f1 = stream_of (hm_streams r) i @ uncommitted f1"
    "map (\<lambda>r. (er_event_name r, er_payload r)) (uncommitted f1) = ps1"
    by (rule digests_on_stored [OF assms(2) e1 assms(6)])
  obtain f2 where f2: "digests now2 ps2 e2 = Some f2" "entity_wf f2" "en_id f2 = i"
    "current (hm_streams r) f2" "vec_fits (en_events f2)" "length (uncommitted f2) = length ps2"
    "en_events f2 = stream_of (hm_streams r) i @ uncommitted f2"
    "map (\<lambda>r. (er_event_name r, er_payload r)) (uncommitted f2) = ps2"
    by (rule digests_on_stored [OF assms(2) e2 assms(7)])
  have "uncommitted f1 \<noteq> []" using f1(6) assms(5) by auto
  from hm.second_commit_conflicts [OF assms(1,2) f1(2,5) this f2(2) _ f1(4) f2(4), of 0]
  show ?thesis
    using f1(1,3) f2(1,3,4) s f1(7) by (auto simp: hashmap_repo_def current_def)
qed

theorem commit_lost_update_prevented_witness:
  "\<exists>r' f2. hm_commit (r', [f2]) = (Err (RE_ConcurrentWrite ''a'' 1 2), r', [f2])"
proof -
  let ?e = "entity_from 4 ''a'' [event_record_new ''Created'' [1] 1 0]"
  have d: "digests 6 [(''Renamed'', [2])] ?e = Some f \<Longrightarrow> len_u64 (en_events f) = 2" for f
    by (auto simp: digest_def push_record_events event_record_new_def len_u64_def)
  from commit_lost_update_prevented [OF one_event_store(1,2) one_event_store(3) [of 4] one_event_store(3) [of 4],
      of "[(''Renamed'', [2])]" "[(''Closed'', [3])]" 6 7]
  show ?thesis using d by (auto simp: len_u64_def) blast
qed

text \<open>
  The two phases do not protect a batch from itself: both of two entities with the same
  id pass the check against the stream, and the commit writes two events with one sequence
  number.
\<close>

theorem duplicate_batch_renumbers:
  assumes "hm_inv ord r" and "hm_streams r i = None"
    and "digests now [(n1, b1)] (entity_with_id i t1) = Some e1"
    and "digests now [(n2, b2)] (entity_with_id i t2) = Some e2"
  shows "\<exists>r' evs. hm_commit (r, [e1, e2]) = (Ok (), r', [mark_committed e1, mark_committed e2]) \<and>
           hm_streams r' i = Some evs \<and> map er_sequence evs = [1, 1] \<and> \<not> seq_ok evs"
proof -
  have new: "\<exists>x. uncommitted e = [x] \<and> er_sequence x = 1 \<and> entity_wf e \<and> en_id e = i \<and>
      en_committed_version e = 0"
    if "digests now [(n, b)] (entity_with_id i t) = Some e" for n b t e
  proof -
    let ?x = "event_record_new n b 1 now"
    have e: "e = push_record ?x now (entity_with_id i t)"
      using that by (simp add: digest_def entity_with_id_def entity_default_def)
    have ev: "en_events e = en_events (entity_with_id i t) @ [?x\<lparr>er_metadata := en_metadata (entity_with_id i t)\<rparr>]"
      unfolding e by (rule push_record_events) (simp add: event_record_new_def)
    have "entity_wf e"
      unfolding e by (rule push_record_wf)
        (simp_all add: event_record_new_def entity_with_id_def entity_default_def entity_wf_def)
    with ev e show ?thesis
      by (simp add: uncommitted_def entity_with_id_def entity_default_def event_record_new_def)
  qed
  obtain x y where x: "uncommitted e1 = [x]" "er_sequence x = 1" "entity_wf e1" "en_id e1 = i"
      "en_committed_version e1 = 0"
    and y: "uncommitted e2 = [y]" "er_sequence y = 1" "entity_wf e2" "en_id e2 = i"
      "en_committed_version e2 = 0"
    using new [OF assms(3)] new [OF assms(4)] by blast
  have "stream_of (hm_streams r) i = []" using assms(2) by (simp add: stream_of_def)
  then obtain r' where "hm_commit (r, [e1, e2]) = (Ok (), r', [mark_committed e1, mark_committed e2])"
    "hm_streams r' i = Some [x, y]"
    using hm.commit [OF assms(1), of "[e1, e2]" 0] x y
    by (auto simp: hashmap_repo_def current_def)
  then show ?thesis using x(2) y(2) by (auto simp: seq_ok_def)
qed

theorem duplicate_batch_renumbers_witness:
  "\<exists>e1 e2 r' evs. hm_commit (hm_repo_new, [e1, e2]) = (Ok (), r', [mark_committed e1, mark_committed e2]) \<and>
     hm_streams r' ''a'' = Some evs \<and> \<not> seq_ok evs"
proof -
  have "\<exists>e. digests 5 [(n, b)] (entity_with_id ''a'' 0) = Some e" for n b
    by (simp add: digest_def entity_with_id_def entity_default_def)
  then obtain e1 e2 where "digests 5 [(''x'', [1])] (entity_with_id ''a'' 0) = Some e1"
    "digests 5 [(''y'', [2])] (entity_with_id ''a'' 0) = Some e2" by blast
  from duplicate_batch_renumbers [OF hm_inv_ordered_new _ this] show ?thesis by auto
qed


lemma find_loop_filter:
  "find_loop (\<lambda>e. if p e then Some e else None) xs =
     (case filter p xs of [] \<Rightarrow> None | x # _ \<Rightarrow> Some x)"
  by (induction xs) auto

lemma count_loop_filter: "count_loop p xs = length (filter p xs)"
  by (induction xs) auto

lemma list_ex_filter: "list_ex p xs \<longleftrightarrow> filter p xs \<noteq> []"
  by (induction xs) auto

lemma map_id_entities:
  "set is \<subseteq> dom t \<Longrightarrow> map en_id (List.map_filter (entity_at now t) is) = is"
  by (induction "is") (auto simp: map_filter_simps entity_at_def)

lemma distinct_map_filter_List: "distinct (map f xs) \<Longrightarrow> distinct (map f (filter p xs))"
  by (induction xs) auto

text \<open>
  The four searches agree: \<open>find\<close> returns each stored entity that satisfies the predicate
  once, \<open>find_one\<close> the first of them, \<open>exists\<close> says whether there is one, and \<open>count\<close> how
  many.
\<close>

theorem searches_agree:
  assumes "hm_inv ord r"
  shows "\<exists>es. hm_find now ord p r = (Ok es, r) \<and> distinct (map en_id es) \<and>
      set es = {e. \<exists>i. entity_at now (hm_streams r) i = Some e \<and> p e} \<and>
      hm_find_one now ord p r = (Ok (case es of [] \<Rightarrow> None | e # _ \<Rightarrow> Some e), r) \<and>
      hm_exists now ord p r = (Ok (es \<noteq> []), r) \<and>
      hm_count now ord p r = (Ok (length es), r)"
proof -
  obtain ids where ids: "distinct ids" "set ids = dom (hm_streams r)"
    and find: "\<And>p. hm_find now ord p r =
      (Ok (filter p (List.map_filter (entity_at now (hm_streams r)) ids)), r)"
    using hm.find [OF assms, of now] by (auto simp: hashmap_repo_def)
  let ?all = "List.map_filter (entity_at now (hm_streams r)) ids"
  have np: "\<not> hr_poisoned r" using assms by (simp add: hm_inv_def)
  have all: "hm_entities now ord r = ?all"
    using find [of "\<lambda>_. True"] np by (simp add: hm_find_def)
  have "distinct (map en_id (filter p ?all))"
    using map_id_entities [of ids "hm_streams r" now] ids
    by (metis distinct_map_filter_List subset_refl)
  moreover have "set (filter p ?all) = {e. \<exists>i. entity_at now (hm_streams r) i = Some e \<and> p e}"
    using ids(2) by (auto simp: set_map_filter entity_at_def)
  ultimately show ?thesis
    using find np all
    by (intro exI [of _ "filter p ?all"])
      (simp add: hm_find_one_def hm_exists_def hm_count_def find_loop_filter count_loop_filter
        list_ex_filter)
qed

theorem searches_agree_witness:
  "\<exists>r es. hm_find 0 Mapping.ordered_keys (\<lambda>e. en_id e = ''a'') r = (Ok es, r) \<and>
     hm_count 0 Mapping.ordered_keys (\<lambda>e. en_id e = ''a'') r = (Ok (length es), r) \<and>
     hm_exists 0 Mapping.ordered_keys (\<lambda>e. en_id e = ''a'') r = (Ok (es \<noteq> []), r)"
  using searches_agree [OF one_event_store(1), of 0 "\<lambda>e. en_id e = ''a''"] by blast

text \<open>
  A commit panics only in its second phase, on an entity whose committed version points
  behind its events.  It poisons the lock: from then on every read, search and commit
  returns the poison error and nothing changes any more.
\<close>

theorem commit_panic_poisons:
  assumes "hm_commit (r, es) = (Panic, r', es')"
  shows "(\<exists>e \<in> set es. new_events e = None) \<and> hr_poisoned r' \<and>
         hm_get_one now i r' = (Err (RE_LockPoisoned ''read''), r') \<and>
         hm_find now ord p r' = (Err (RE_LockPoisoned ''read''), r') \<and>
         hm_count now ord p r' = (Err (RE_LockPoisoned ''read''), r') \<and>
         hm_commit (r', fs) = (Err (RE_LockPoisoned ''write''), r', fs)"
proof -
  have panic: "\<exists>e \<in> set es. new_events e = None" if "hm_append es m = (Panic, m', es')" for m m' es'
    using that
  proof (induction es arbitrary: m es')
    case Nil
    then show ?case by simp
  next
    case (Cons e es)
    then show ?case by (auto simp: Let_def split: option.splits prod.splits)
  qed
  have val: "hm_validate m es \<noteq> Panic" for m
    by (induction es) (auto simp: Let_def)
  have "\<exists>m'. hm_append es (hr_events r) = (Panic, m', es') \<and>
      r' = r\<lparr>hr_events := m', hr_poisoned := True\<rparr>"
    using assms val by (auto simp: hm_commit_def split: if_splits outcome.splits prod.splits)
  then have "hr_poisoned r'" "\<exists>e \<in> set es. new_events e = None"
    using panic by auto
  then show ?thesis
    by (simp add: hm_get_one_def hm_find_def hm_count_def hm_commit_def)
qed

theorem commit_panic_poisons_witness:
  "\<exists>r' e'. hm_commit (hm_repo_new\<lparr>hr_events :=
       Mapping.update ''a'' [event_record_new ''x'' [] 1 0, event_record_new ''y'' [] 2 0] Mapping.empty\<rparr>,
     [(entity_with_id ''a'' 0)\<lparr>en_events := [event_record_new ''Snapshot'' [] 1 0], en_version := 1,
        en_committed_version := 2\<rparr>]) = (Panic, r', e') \<and>
     hm_get_one 0 ''b'' r' = (Err (RE_LockPoisoned ''read''), r')"
proof -
  let ?r = "hm_repo_new\<lparr>hr_events :=
       Mapping.update ''a'' [event_record_new ''x'' [] 1 0, event_record_new ''y'' [] 2 0] Mapping.empty\<rparr>"
  let ?e = "(entity_with_id ''a'' 0)\<lparr>en_events := [event_record_new ''Snapshot'' [] 1 0],
       en_version := 1, en_committed_version := 2\<rparr>"
  have "hm_commit (?r, [?e]) = (Panic, ?r\<lparr>hr_poisoned := True\<rparr>, [?e])"
    by (simp add: hm_commit_def hm_repo_new_def entity_with_id_def entity_default_def len_u64_def
        new_events_def)
  with commit_panic_poisons [OF this] show ?thesis by blast
qed

end
