(* ===== verification/Queued_Repo.thy ===== *)
theory Queued_Repo
  imports Hashmap_Repo
begin

text \<open>
  The queued repository (\<open>src/queued_repo/repository.rs\<close>): a repository with one lock per
  entity id, taken by reads and given back by a successful commit or by \<open>unlock\<close>.  It is
  generic in the repository and the lock manager, as the code is; sessions of many clients on
  the in-memory instance are a step relation.
\<close>

section \<open>State and lifting\<close>

record ('r, 'm) queued =
  qu_inner :: 'r
  qu_locks :: 'm

record read_opts =
  ro_lock :: bool

definition read_opts_default :: read_opts where
  "read_opts_default = \<lparr>ro_lock = True\<rparr>"

definition no_lock :: read_opts where
  "no_lock = \<lparr>ro_lock = False\<rparr>"

definition queued_new :: "'r \<Rightarrow> ('r, lock_manager) queued" where
  "queued_new r = \<lparr>qu_inner = r, qu_locks = lock_manager_new\<rparr>"

definition queued_with_lock_manager :: "'r \<Rightarrow> 'm \<Rightarrow> ('r, 'm) queued" where
  "queued_with_lock_manager r m = \<lparr>qu_inner = r, qu_locks = m\<rparr>"

definition q_inner :: "('r, 'e, 'a) call \<Rightarrow> (('r, 'm) queued, 'e, 'a) call" where
  "q_inner f q = (case f (qu_inner q) of (res, r) \<Rightarrow> (res, q\<lparr>qu_inner := r\<rparr>))"

text \<open>A call on the lock manager followed by \<open>?\<close>, which converts the error.\<close>

definition q_locks ::
    "('m, lock_error, 'a) call \<Rightarrow> (('r, 'm) queued, repository_error, 'a) call" where
  "q_locks f q =
     (case f (qu_locks q) of
        (res, m) \<Rightarrow> (map_err repository_error_from_lock res, q\<lparr>qu_locks := m\<rparr>))"

section \<open>Locks\<close>

definition q_ensure_lock :: "('m, 'h) lock_ops \<Rightarrow> string \<Rightarrow> (('r, 'm) queued, repository_error, 'h) call" where
  "q_ensure_lock L ident = q_locks (lo_get_lock L ident)"

text \<open>The result of \<open>try_lock\<close> is dropped.\<close>

definition q_lock :: "('m, 'h) lock_ops \<Rightarrow> string \<Rightarrow> (('r, 'm) queued, repository_error, unit) call" where
  "q_lock L ident =
     st_bind (q_ensure_lock L ident) (\<lambda>h.
     st_bind (q_locks (lo_try_lock L h)) (\<lambda>_.
     st_return ()))"

definition q_unlock :: "('m, 'h) lock_ops \<Rightarrow> string \<Rightarrow> (('r, 'm) queued, repository_error, unit) call" where
  "q_unlock L ident =
     st_bind (q_ensure_lock L ident) (\<lambda>h.
     st_bind (q_locks (lo_unlock L h)) (\<lambda>_.
     st_return ()))"

definition q_abort :: "('m, 'h) lock_ops \<Rightarrow> string \<Rightarrow> (('r, 'm) queued, repository_error, unit) call" where
  "q_abort L ident = q_unlock L ident"

definition q_lock_ids_in_order ::
    "('m, 'h) lock_ops \<Rightarrow> string list \<Rightarrow> (('r, 'm) queued, repository_error, 'h list) call" where
  "q_lock_ids_in_order L ids = q_locks (lock_ids_in_order L ids)"

section \<open>Reads\<close>

definition q_get_one ::
    "'r repo_ops \<Rightarrow> ('m, 'h) lock_ops \<Rightarrow> string \<Rightarrow>
     (('r, 'm) queued, repository_error, entity option) call" where
  "q_get_one R L ident =
     st_bind (q_ensure_lock L ident) (\<lambda>h.
     st_bind (q_locks (lo_lock L h)) (\<lambda>_.
     q_inner (op_get_one R ident)))"

definition q_get_many ::
    "'r repo_ops \<Rightarrow> ('m, 'h) lock_ops \<Rightarrow> string list \<Rightarrow>
     (('r, 'm) queued, repository_error, entity list) call" where
  "q_get_many R L ids =
     st_bind (q_lock_ids_in_order L ids) (\<lambda>_.
     q_inner (op_get_many R ids))"

text \<open>
  \<open>find\<close> and \<open>find_one\<close> read twice: before and after they take the locks.  \<open>env\<close> is what the
  other threads did to the inner repository in between.
\<close>

fun q_refetch ::
    "'r repo_ops \<Rightarrow> (entity \<Rightarrow> bool) \<Rightarrow> string list \<Rightarrow>
     (('r, 'm) queued, repository_error, entity list) call" where
  "q_refetch R p [] q = (Ok [], q)"
| "q_refetch R p (i # is) q =
     st_bind (q_inner (op_get_one R i)) (\<lambda>found.
     st_bind (q_refetch R p is) (\<lambda>rest.
     st_return (case found of Some e \<Rightarrow> if p e then e # rest else rest | None \<Rightarrow> rest))) q"

definition q_others :: "('r \<Rightarrow> 'r) \<Rightarrow> (('r, 'm) queued, repository_error, unit) call" where
  "q_others env q = (Ok (), q\<lparr>qu_inner := env (qu_inner q)\<rparr>)"

definition q_find ::
    "'r repo_ops \<Rightarrow> ('m, 'h) lock_ops \<Rightarrow> ('r \<Rightarrow> 'r) \<Rightarrow> (entity \<Rightarrow> bool) \<Rightarrow>
     (('r, 'm) queued, repository_error, entity list) call" where
  "q_find R L env p =
     st_bind (q_inner (op_find R p)) (\<lambda>entities.
     let ids = map en_id entities in
     st_bind (q_lock_ids_in_order L ids) (\<lambda>_.
     st_bind (q_others env) (\<lambda>_.
     q_refetch R p ids)))"

definition q_find_one ::
    "'r repo_ops \<Rightarrow> ('m, 'h) lock_ops \<Rightarrow> ('r \<Rightarrow> 'r) \<Rightarrow> (entity \<Rightarrow> bool) \<Rightarrow>
     (('r, 'm) queued, repository_error, entity option) call" where
  "q_find_one R L env p =
     st_bind (q_inner (op_find_one R p)) (\<lambda>found.
     case found of
       None \<Rightarrow> st_return None
     | Some e \<Rightarrow>
         st_bind (q_ensure_lock L (en_id e)) (\<lambda>h.
         st_bind (q_locks (lo_lock L h)) (\<lambda>_.
         st_bind (q_others env) (\<lambda>_.
         st_bind (q_inner (op_get_one R (en_id e))) (\<lambda>again.
         case again of
           Some e' \<Rightarrow>
             if p e' then st_return (Some e')
             else st_bind (q_locks (lo_unlock L h)) (\<lambda>_. st_return None)
         | None \<Rightarrow> st_bind (q_locks (lo_unlock L h)) (\<lambda>_. st_return None))))))"

definition q_exists ::
    "'r repo_ops \<Rightarrow> (entity \<Rightarrow> bool) \<Rightarrow> (('r, 'm) queued, repository_error, bool) call" where
  "q_exists R p = q_inner (op_exists R p)"

definition q_count ::
    "'r repo_ops \<Rightarrow> (entity \<Rightarrow> bool) \<Rightarrow> (('r, 'm) queued, repository_error, nat) call" where
  "q_count R p = q_inner (op_count R p)"

section \<open>Commit\<close>

fun q_unlock_all :: "('m, 'h) lock_ops \<Rightarrow> 'h list \<Rightarrow> (('r, 'm) queued, repository_error, unit) call" where
  "q_unlock_all L [] q = (Ok (), q)"
| "q_unlock_all L (h # hs) q = st_bind (q_locks (lo_unlock L h)) (\<lambda>_. q_unlock_all L hs) q"

text \<open>
  The handles of all ids are looked up, the inner repository commits, and on success every
  handle is unlocked: whoever holds it.
\<close>

definition q_commit ::
    "'r repo_ops \<Rightarrow> ('m, 'h) lock_ops \<Rightarrow>
     (('r, 'm) queued \<times> entity list, repository_error, unit) call" where
  "q_commit R L s =
     (case s of (q, es) \<Rightarrow>
        case st_collect (q_ensure_lock L) (map en_id es) q of
          (Ok hs, q1) \<Rightarrow>
            (case op_commit R (qu_inner q1, es) of
               (res, r', es') \<Rightarrow>
                 (let q2 = q1\<lparr>qu_inner := r'\<rparr>
                  in if is_ok res
                     then (case q_unlock_all L hs q2 of (res', q3) \<Rightarrow> (res', q3, es'))
                     else (res, q2, es')))
        | (Err err, q1) \<Rightarrow> (Err err, q1, es)
        | (Panic, q1) \<Rightarrow> (Panic, q1, es)
        | (Stuck, q1) \<Rightarrow> (Stuck, q1, es))"

definition queued_repo ::
    "'r repo_ops \<Rightarrow> ('m, 'h) lock_ops \<Rightarrow> ('r \<Rightarrow> 'r) \<Rightarrow> ('r, 'm) queued repo_ops" where
  "queued_repo R L env =
     \<lparr>op_get_one = q_get_one R L, op_get_many = q_get_many R L, op_find = q_find R L env,
      op_find_one = q_find_one R L env, op_exists = q_exists R, op_count = q_count R,
      op_commit = q_commit R L\<rparr>"

section \<open>Reads with options, snapshots\<close>

definition q_get_with ::
    "'r repo_ops \<Rightarrow> ('m, 'h) lock_ops \<Rightarrow> string \<Rightarrow> read_opts \<Rightarrow>
     (('r, 'm) queued, repository_error, entity option) call" where
  "q_get_with R L ident opts =
     (if ro_lock opts then q_get_one R L ident else q_inner (op_get_one R ident))"

definition q_get_all_with ::
    "'r repo_ops \<Rightarrow> ('m, 'h) lock_ops \<Rightarrow> string list \<Rightarrow> read_opts \<Rightarrow>
     (('r, 'm) queued, repository_error, entity list) call" where
  "q_get_all_with R L ids opts =
     (if ro_lock opts then q_get_many R L ids else q_inner (op_get_many R ids))"

definition q_find_with ::
    "'r repo_ops \<Rightarrow> ('m, 'h) lock_ops \<Rightarrow> ('r \<Rightarrow> 'r) \<Rightarrow> (entity \<Rightarrow> bool) \<Rightarrow> read_opts \<Rightarrow>
     (('r, 'm) queued, repository_error, entity list) call" where
  "q_find_with R L env p opts =
     (if ro_lock opts then q_find R L env p else q_inner (op_find R p))"

definition q_find_one_with ::
    "'r repo_ops \<Rightarrow> ('m, 'h) lock_ops \<Rightarrow> ('r \<Rightarrow> 'r) \<Rightarrow> (entity \<Rightarrow> bool) \<Rightarrow> read_opts \<Rightarrow>
     (('r, 'm) queued, repository_error, entity option) call" where
  "q_find_one_with R L env p opts =
     (if ro_lock opts then q_find_one R L env p else q_inner (op_find_one R p))"

text \<open>What a client of a repository with locks uses beside the repository operations.\<close>

record 'r queue_ops =
  qo_get_with :: "string \<Rightarrow> read_opts \<Rightarrow> ('r, repository_error, entity option) call"
  qo_get_all_with :: "string list \<Rightarrow> read_opts \<Rightarrow> ('r, repository_error, entity list) call"
  qo_unlock :: "string \<Rightarrow> ('r, repository_error, unit) call"

definition queued_ops :: "'r repo_ops \<Rightarrow> ('m, 'h) lock_ops \<Rightarrow> ('r, 'm) queued queue_ops" where
  "queued_ops R L =
     \<lparr>qo_get_with = q_get_with R L, qo_get_all_with = q_get_all_with R L, qo_unlock = q_unlock L\<rparr>"

definition queued_snapshots :: "'r snap_ops \<Rightarrow> ('r, 'm) queued snap_ops" where
  "queued_snapshots P =
     \<lparr>so_get_snapshot = (\<lambda>i. q_inner (so_get_snapshot P i)),
      so_save_snapshot = (\<lambda>s. q_inner (so_save_snapshot P s)),
      so_delete_snapshot = (\<lambda>i. q_inner (so_delete_snapshot P i))\<rparr>"

section \<open>The lock protocol\<close>

lemma q_inner_eq: "f (qu_inner q) = (res, r) \<Longrightarrow> q_inner f q = (res, q\<lparr>qu_inner := r\<rparr>)"
  by (simp add: q_inner_def)

lemma q_locks_eq:
  "f (qu_locks q) = (res, m) \<Longrightarrow>
     q_locks f q = (map_err repository_error_from_lock res, q\<lparr>qu_locks := m\<rparr>)"
  by (simp add: q_locks_def)

lemma queued_update_same [simp]:
  "q\<lparr>qu_inner := qu_inner q\<rparr> = q" "q\<lparr>qu_locks := qu_locks q\<rparr> = q"
  by simp_all

locale queued_store =
  store: event_store R now streams rinv + locks: lock_service L held linv handle
  for R :: "'r repo_ops" and now and streams :: "'r \<Rightarrow> streams" and rinv :: "'r \<Rightarrow> bool"
    and L :: "('m, 'h) lock_ops" and held :: "'m \<Rightarrow> string set" and linv :: "'m \<Rightarrow> bool"
    and handle :: "string \<Rightarrow> 'h"
begin

abbreviation qheld :: "('r, 'm) queued \<Rightarrow> string set" where
  "qheld q \<equiv> held (qu_locks q)"

abbreviation qstreams :: "('r, 'm) queued \<Rightarrow> streams" where
  "qstreams q \<equiv> streams (qu_inner q)"

abbreviation qinv :: "('r, 'm) queued \<Rightarrow> bool" where
  "qinv q \<equiv> rinv (qu_inner q) \<and> linv (qu_locks q)"

lemma ensure_lock:
  assumes "qinv q"
  shows "\<exists>m. q_ensure_lock L i q = (Ok (handle i), q\<lparr>qu_locks := m\<rparr>) \<and> linv m \<and> held m = qheld q"
  using locks.get_lock [of "qu_locks q" i] assms
  by (auto simp: q_ensure_lock_def q_locks_def)

lemma get_one_free:
  assumes "qinv q" and "i \<notin> qheld q"
  shows "\<exists>q'. q_get_one R L i q = (Ok (entity_at now (qstreams q) i), q') \<and> qinv q' \<and>
              qu_inner q' = qu_inner q \<and> qheld q' = insert i (qheld q)"
proof -
  obtain m where m: "q_ensure_lock L i q = (Ok (handle i), q\<lparr>qu_locks := m\<rparr>)" "linv m"
    "held m = qheld q"
    using ensure_lock [OF assms(1)] by blast
  obtain m' where m': "lo_lock L (handle i) m = (Ok (), m')" "linv m'" "held m' = insert i (held m)"
    using locks.lock_free [OF m(2), of i] m(3) assms(2) by auto
  have "q_get_one R L i q = (Ok (entity_at now (qstreams q) i), q\<lparr>qu_locks := m'\<rparr>)"
    using m m' store.get_one [of "qu_inner q" i] assms(1)
    by (simp add: q_get_one_def q_locks_def q_inner_def)
  with m' m assms(1) show ?thesis by auto
qed

lemma get_one_held:
  assumes "qinv q" and "i \<in> qheld q"
  shows "\<exists>q'. q_get_one R L i q = (Stuck, q') \<and> qinv q' \<and> qu_inner q' = qu_inner q \<and>
              qheld q' = qheld q"
proof -
  obtain m where m: "q_ensure_lock L i q = (Ok (handle i), q\<lparr>qu_locks := m\<rparr>)" "linv m"
    "held m = qheld q"
    using ensure_lock [OF assms(1)] by blast
  obtain m' where m': "lo_lock L (handle i) m = (Stuck, m')" "linv m'" "held m' = held m"
    using locks.lock_held [OF m(2), of i] m(3) assms(2) by auto
  have "q_get_one R L i q = (Stuck, q\<lparr>qu_locks := m'\<rparr>)"
    using m m' by (simp add: q_get_one_def q_locks_def)
  with m' m assms(1) show ?thesis by auto
qed

lemma lock_ignores_result:
  assumes "qinv q"
  shows "\<exists>q'. q_lock L i q = (Ok (), q') \<and> qinv q' \<and> qu_inner q' = qu_inner q \<and>
              qheld q' = insert i (qheld q)"
proof -
  obtain m where m: "q_ensure_lock L i q = (Ok (handle i), q\<lparr>qu_locks := m\<rparr>)" "linv m"
    "held m = qheld q"
    using ensure_lock [OF assms] by blast
  with locks.try_lock [OF m(2), of i] assms show ?thesis
    by (auto simp: q_lock_def q_locks_def)
qed

lemma unlock_frees:
  assumes "qinv q"
  shows "\<exists>q'. q_unlock L i q = (Ok (), q') \<and> qinv q' \<and> qu_inner q' = qu_inner q \<and>
              qheld q' = qheld q - {i}"
proof -
  obtain m where m: "q_ensure_lock L i q = (Ok (handle i), q\<lparr>qu_locks := m\<rparr>)" "linv m"
    "held m = qheld q"
    using ensure_lock [OF assms] by blast
  with locks.unlock [OF m(2), of i] assms show ?thesis
    by (auto simp: q_unlock_def q_locks_def)
qed

lemma collect_handles:
  assumes "qinv q"
  shows "\<exists>q'. st_collect (q_ensure_lock L) is q = (Ok (map handle is), q') \<and> qinv q' \<and>
              qu_inner q' = qu_inner q \<and> qheld q' = qheld q"
  using assms
proof (induction "is" arbitrary: q)
  case Nil
  then show ?case by simp
next
  case (Cons i "is")
  obtain m where m: "q_ensure_lock L i q = (Ok (handle i), q\<lparr>qu_locks := m\<rparr>)" "linv m"
    "held m = qheld q"
    using ensure_lock [OF Cons.prems] by blast
  with Cons.IH [of "q\<lparr>qu_locks := m\<rparr>"] Cons.prems show ?case by auto
qed

lemma unlock_all:
  assumes "qinv q"
  shows "\<exists>q'. q_unlock_all L (map handle is) q = (Ok (), q') \<and> qinv q' \<and>
              qu_inner q' = qu_inner q \<and> qheld q' = qheld q - set is"
  using assms
proof (induction "is" arbitrary: q)
  case Nil
  then show ?case by simp
next
  case (Cons i "is")
  obtain m where m: "lo_unlock L (handle i) (qu_locks q) = (Ok (), m)" "linv m"
    "held m = qheld q - {i}"
    using locks.unlock [of "qu_locks q" i] Cons.prems by auto
  with Cons.IH [of "q\<lparr>qu_locks := m\<rparr>"] Cons.prems show ?case
    by (auto simp: q_locks_def)
qed

lemma commit_current:
  assumes "qinv q" and "\<forall>e \<in> set es. entity_wf e" and "\<forall>e \<in> set es. current (qstreams q) e"
  shows "\<exists>q'. q_commit R L (q, es) = (Ok (), q', map mark_committed es) \<and> qinv q' \<and>
      qstreams q' = append_all es (qstreams q) \<and> qheld q' = qheld q - set (map en_id es)"
proof -
  obtain q1 where q1: "st_collect (q_ensure_lock L) (map en_id es) q = (Ok (map handle (map en_id es)), q1)"
    "qinv q1" "qu_inner q1 = qu_inner q" "qheld q1 = qheld q"
    using collect_handles [OF assms(1), of "map en_id es"] by blast
  obtain r' where r': "op_commit R (qu_inner q, es) = (Ok (), r', map mark_committed es)" "rinv r'"
    "streams r' = append_all es (qstreams q)"
    using store.commit [of "qu_inner q" es] assms by auto
  from q1 r' have "qinv (q1\<lparr>qu_inner := r'\<rparr>)" by simp
  from unlock_all [OF this, of "map en_id es"] q1 r' show ?thesis
    by (auto simp: q_commit_def)
qed

lemma commit_stale:
  assumes "qinv q" and "\<forall>e \<in> set es. entity_wf e" and "e \<in> set es" and "\<not> current (qstreams q) e"
  shows "\<exists>q' err. q_commit R L (q, es) = (Err err, q', es) \<and> qinv q' \<and>
      qu_inner q' = qu_inner q \<and> qheld q' = qheld q"
proof -
  obtain q1 where q1: "st_collect (q_ensure_lock L) (map en_id es) q = (Ok (map handle (map en_id es)), q1)"
    "qinv q1" "qu_inner q1 = qu_inner q" "qheld q1 = qheld q"
    using collect_handles [OF assms(1), of "map en_id es"] by blast
  have "\<exists>err. op_commit R (qu_inner q, es) = (Err err, qu_inner q, es)"
    using store.commit_cases [of "qu_inner q" es] assms by auto
  with q1 show ?thesis by (auto simp: q_commit_def)
qed

lemma refetch:
  assumes "rinv (qu_inner q)"
  shows "q_refetch R p is q =
     (Ok (filter p (List.map_filter (entity_at now (qstreams q)) is)), q)"
  by (induction "is")
    (auto simp: st_bind_def q_inner_def store.get_one [OF assms] map_filter_simps
      split: option.splits)

lemma find_locks:
  assumes q: "qinv q" and env: "rinv (env (qu_inner q))"
    and found: "op_find R p (qu_inner q) = (Ok es, qu_inner q)"
    and free: "set (map en_id es) \<inter> qheld q = {}"
  shows "\<exists>q'. q_find R L env p q =
        (Ok (filter p (List.map_filter (entity_at now (streams (env (qu_inner q)))) (map en_id es))), q') \<and>
      qinv q' \<and> qu_inner q' = env (qu_inner q) \<and> qheld q' = qheld q \<union> set (map en_id es)"
proof -
  obtain m where m: "lock_ids_in_order L (map en_id es) (qu_locks q) =
      (Ok (map handle (sort_dedup (map en_id es))), m)" "linv m" "held m = qheld q \<union> set (map en_id es)"
    using locks.lock_ids_in_order_Ok [of "qu_locks q" "map en_id es"] q free by auto
  let ?q = "q\<lparr>qu_locks := m, qu_inner := env (qu_inner q)\<rparr>"
  have "q_find R L env p q = q_refetch R p (map en_id es) ?q"
    using found m(1)
    by (simp add: q_find_def q_inner_def q_lock_ids_in_order_def q_locks_def q_others_def Let_def)
  with refetch [of ?q p "map en_id es"] m env show ?thesis by simp
qed

end


interpretation hmq: queued_store "hashmap_repo now ord" now hm_streams "hm_inv ord"
    in_memory_locks lm_held lm_inv "\<lambda>k. k"
  for now ord
  by unfold_locales

section \<open>Sessions of many clients\<close>

text \<open>
  A client gets an entity by id, or starts a new one when there is none, records events on it,
  and commits or aborts; then it may begin again.  \<open>qs_work\<close> is the entity each client works
  on.  A commit that fails leaves the client with its entity.
\<close>

type_synonym hm_queued = "(hm_repo, lock_manager) queued"

record qs_state =
  qs_repo :: hm_queued
  qs_work :: "nat \<Rightarrow> entity option"

definition qs_init :: qs_state where
  "qs_init = \<lparr>qs_repo = queued_new hm_repo_new, qs_work = (\<lambda>_. None)\<rparr>"

inductive qs_step :: "event_order \<Rightarrow> qs_state \<Rightarrow> qs_state \<Rightarrow> bool" for ord where
  qs_get: "qs_work s c = None \<Longrightarrow>
    q_get_one (hashmap_repo now ord) in_memory_locks i (qs_repo s) = (Ok (Some e), q) \<Longrightarrow>
    qs_step ord s (s\<lparr>qs_repo := q, qs_work := (qs_work s)(c \<mapsto> e)\<rparr>)"
| qs_create: "qs_work s c = None \<Longrightarrow>
    q_get_one (hashmap_repo now ord) in_memory_locks i (qs_repo s) = (Ok None, q) \<Longrightarrow>
    qs_step ord s (s\<lparr>qs_repo := q, qs_work := (qs_work s)(c \<mapsto> entity_with_id i now)\<rparr>)"
| qs_record: "qs_work s c = Some e \<Longrightarrow> length (en_events e) + length ps < 2 ^ 63 \<Longrightarrow>
    digests now ps e = Some e' \<Longrightarrow>
    qs_step ord s (s\<lparr>qs_work := (qs_work s)(c \<mapsto> e')\<rparr>)"
| qs_commit: "qs_work s c = Some e \<Longrightarrow>
    q_commit (hashmap_repo now ord) in_memory_locks (qs_repo s, [e]) = (Ok (), q, es) \<Longrightarrow>
    qs_step ord s (s\<lparr>qs_repo := q, qs_work := (qs_work s)(c := None)\<rparr>)"
| qs_commit_failed: "qs_work s c = Some e \<Longrightarrow>
    q_commit (hashmap_repo now ord) in_memory_locks (qs_repo s, [e]) = (Err err, q, es) \<Longrightarrow>
    qs_step ord s (s\<lparr>qs_repo := q\<rparr>)"
| qs_abort: "qs_work s c = Some e \<Longrightarrow>
    q_abort in_memory_locks (en_id e) (qs_repo s) = (Ok (), q) \<Longrightarrow>
    qs_step ord s (s\<lparr>qs_repo := q, qs_work := (qs_work s)(c := None)\<rparr>)"

inductive qs_reachable :: "event_order \<Rightarrow> qs_state \<Rightarrow> bool" for ord where
  qs_start: "qs_reachable ord qs_init"
| qs_next: "qs_reachable ord s \<Longrightarrow> qs_step ord s t \<Longrightarrow> qs_reachable ord t"

definition works_on :: "hm_queued \<Rightarrow> entity \<Rightarrow> bool" where
  "works_on q e \<longleftrightarrow>
     entity_wf e \<and> \<not> en_replaying e \<and> vec_fits (en_events e) \<and>
     en_id e \<in> lm_held (qu_locks q) \<and> current (hm_streams (qu_inner q)) e \<and>
     stream_of (hm_streams (qu_inner q)) (en_id e) =
       take (unat (en_committed_version e)) (en_events e)"

definition qs_inv :: "event_order \<Rightarrow> qs_state \<Rightarrow> bool" where
  "qs_inv ord s \<longleftrightarrow>
     hm_inv ord (qu_inner (qs_repo s)) \<and> lm_inv (qu_locks (qs_repo s)) \<and>
     streams_ok (hm_streams (qu_inner (qs_repo s))) \<and>
     (\<forall>c e. qs_work s c = Some e \<longrightarrow> works_on (qs_repo s) e) \<and>
     (\<forall>c d e f. qs_work s c = Some e \<longrightarrow> qs_work s d = Some f \<longrightarrow> en_id e = en_id f \<longrightarrow> c = d)"

lemma qs_inv_init: "hm_inv ord hm_repo_new \<Longrightarrow> qs_inv ord qs_init"
  by (simp add: qs_inv_def qs_init_def queued_new_def streams_ok_def)

lemma current_cong: "s (en_id e) = t (en_id e) \<Longrightarrow> current s e = current t e"
  by (simp add: current_def stream_of_def)

text \<open>A client takes a lock that nobody holds.\<close>

lemma qs_inv_take:
  assumes inv: "qs_inv ord s" and q: "hm_inv ord (qu_inner q)" "lm_inv (qu_locks q)"
    and inner: "qu_inner q = qu_inner (qs_repo s)"
    and held: "lm_held (qu_locks q) = insert i (lm_held (qu_locks (qs_repo s)))"
    and free: "i \<notin> lm_held (qu_locks (qs_repo s))"
    and e: "works_on q e" "en_id e = i"
  shows "qs_inv ord (s\<lparr>qs_repo := q, qs_work := (qs_work s)(c \<mapsto> e)\<rparr>)"
proof -
  have "works_on q f \<and> en_id f \<noteq> i \<and> i \<noteq> en_id f" if "qs_work s d = Some f" for d f
    using inv that free inner held by (auto simp: qs_inv_def works_on_def)
  with inv q inner e show ?thesis unfolding qs_inv_def by simp
qed

text \<open>A client gives its lock back; the streams of the other ids are what they were.\<close>

lemma qs_inv_give:
  assumes inv: "qs_inv ord s" and q: "hm_inv ord (qu_inner q)" "lm_inv (qu_locks q)"
    and ok: "streams_ok (hm_streams (qu_inner q))"
    and e: "qs_work s c = Some e"
    and held: "lm_held (qu_locks q) = lm_held (qu_locks (qs_repo s)) - {en_id e}"
    and other: "\<And>i. i \<noteq> en_id e \<Longrightarrow> hm_streams (qu_inner q) i = hm_streams (qu_inner (qs_repo s)) i"
  shows "qs_inv ord (s\<lparr>qs_repo := q, qs_work := (qs_work s)(c := None)\<rparr>)"
proof -
  have "works_on q f" if "qs_work s d = Some f" "d \<noteq> c" for d f
  proof -
    have "en_id f \<noteq> en_id e" using inv e that unfolding qs_inv_def by metis
    moreover have "works_on (qs_repo s) f" using inv that by (simp add: qs_inv_def)
    ultimately show ?thesis
      using held other current_cong [of "hm_streams (qu_inner q)" f]
      by (auto simp: works_on_def stream_of_def)
  qed
  with inv q ok show ?thesis unfolding qs_inv_def by simp
qed

lemma qs_commit_works:
  assumes inv: "qs_inv ord s" and e: "qs_work s c = Some e"
  shows "\<exists>q. q_commit (hashmap_repo now ord) in_memory_locks (qs_repo s, [e]) =
        (Ok (), q, [mark_committed e]) \<and>
      hm_inv ord (qu_inner q) \<and> lm_inv (qu_locks q) \<and>
      hm_streams (qu_inner q) = (hm_streams (qu_inner (qs_repo s)))(en_id e \<mapsto>
        stream_of (hm_streams (qu_inner (qs_repo s))) (en_id e) @ uncommitted e) \<and>
      streams_ok (hm_streams (qu_inner q)) \<and>
      lm_held (qu_locks q) = lm_held (qu_locks (qs_repo s)) - {en_id e}"
proof -
  have w: "works_on (qs_repo s) e" using inv e by (simp add: qs_inv_def)
  have ok: "streams_ok (append_all [e] (hm_streams (qu_inner (qs_repo s))))"
    using inv w by (intro append_all_streams_ok) (simp_all add: qs_inv_def works_on_def)
  from hmq.commit_current [of ord "qs_repo s" "[e]" now] inv w ok show ?thesis
    by (auto simp: qs_inv_def works_on_def)
qed

lemma qs_step_inv: "qs_step ord s t \<Longrightarrow> qs_inv ord s \<Longrightarrow> qs_inv ord t"
proof (induction rule: qs_step.induct)
  case (qs_get s c now i e q)
  then have inv: "hm_inv ord (qu_inner (qs_repo s)) \<and> lm_inv (qu_locks (qs_repo s))"
    by (simp add: qs_inv_def)
  have free: "i \<notin> lm_held (qu_locks (qs_repo s))"
    using hmq.get_one_held [OF inv, of i now] qs_get.hyps(2) by auto
  from hmq.get_one_free [OF inv this, of now] qs_get.hyps(2)
  have q: "hm_inv ord (qu_inner q)" "lm_inv (qu_locks q)" "qu_inner q = qu_inner (qs_repo s)"
    "lm_held (qu_locks q) = insert i (lm_held (qu_locks (qs_repo s)))"
    and e: "entity_at now (hm_streams (qu_inner (qs_repo s))) i = Some e"
    by auto
  have "works_on q e" "en_id e = i"
    using e q qs_get.prems
    by (auto simp: entity_at_def works_on_def current_def stream_of_def qs_inv_def streams_ok_def
        intro!: entity_from_wf)
  with qs_inv_take [OF qs_get.prems q free] show ?case by simp
next
  case (qs_create s c now i q)
  then have inv: "hm_inv ord (qu_inner (qs_repo s)) \<and> lm_inv (qu_locks (qs_repo s))"
    by (simp add: qs_inv_def)
  have free: "i \<notin> lm_held (qu_locks (qs_repo s))"
    using hmq.get_one_held [OF inv, of i now] qs_create.hyps(2) by auto
  from hmq.get_one_free [OF inv this, of now] qs_create.hyps(2)
  have q: "hm_inv ord (qu_inner q)" "lm_inv (qu_locks q)" "qu_inner q = qu_inner (qs_repo s)"
    "lm_held (qu_locks q) = insert i (lm_held (qu_locks (qs_repo s)))"
    and e: "entity_at now (hm_streams (qu_inner (qs_repo s))) i = None"
    by auto
  have "works_on q (entity_with_id i now)"
    using e q by (auto simp: entity_at_def works_on_def current_def stream_of_def
        entity_with_id_def entity_default_def entity_wf_def)
  with qs_inv_take [OF qs_create.prems q free] show ?case
    by (simp add: entity_with_id_def entity_default_def)
next
  case (qs_record s c e ps now e')
  then have w: "works_on (qs_repo s) e" by (simp add: qs_inv_def)
  then obtain evs where e': "entity_wf e'" "en_id e' = en_id e" "\<not> en_replaying e'"
    "en_committed_version e' = en_committed_version e" "en_events e' = en_events e @ evs"
    "map (\<lambda>r. (er_event_name r, er_payload r)) evs = ps"
    using digests_result [of e ps now] qs_record.hyps(2,3) by (auto simp: works_on_def)
  have "length evs = length ps" using e'(6) by auto
  have "current (hm_streams (qu_inner (qs_repo s))) e" using w by (simp add: works_on_def)
  then have "current (hm_streams (qu_inner (qs_repo s))) e'"
    by (simp add: current_def e'(2,4))
  moreover have "unat (en_committed_version e) \<le> length (en_events e)"
    using w by (simp add: works_on_def entity_wf_def)
  ultimately have "works_on (qs_repo s) e'"
    using e' w qs_record.hyps(2) \<open>length evs = length ps\<close> by (simp add: works_on_def)
  moreover have "en_id e' \<noteq> en_id f \<and> en_id f \<noteq> en_id e'" if "qs_work s d = Some f" "d \<noteq> c" for d f
    using qs_record.prems qs_record.hyps(1) e'(2) that unfolding qs_inv_def by metis
  ultimately show ?case
    using qs_record.prems unfolding qs_inv_def by auto
next
  case (qs_commit s c e now q es)
  from qs_commit_works [OF qs_commit.prems qs_commit.hyps(1), of now] qs_commit.hyps(2)
  have q: "hm_inv ord (qu_inner q)" "lm_inv (qu_locks q)" "streams_ok (hm_streams (qu_inner q))"
    "lm_held (qu_locks q) = lm_held (qu_locks (qs_repo s)) - {en_id e}"
    and t: "hm_streams (qu_inner q) = (hm_streams (qu_inner (qs_repo s)))(en_id e \<mapsto>
        stream_of (hm_streams (qu_inner (qs_repo s))) (en_id e) @ uncommitted e)"
    by (simp_all only: prod.inject simp_thms) blast+
  show ?case
    by (rule qs_inv_give [OF qs_commit.prems q(1-3) qs_commit.hyps(1) q(4)]) (simp add: t)
next
  case (qs_commit_failed s c e now err q es)
  from qs_commit_works [OF qs_commit_failed.prems qs_commit_failed.hyps(1), of now]
    qs_commit_failed.hyps(2)
  show ?case by auto
next
  case (qs_abort s c e q)
  then have inv: "hm_inv ord (qu_inner (qs_repo s)) \<and> lm_inv (qu_locks (qs_repo s))"
    by (simp add: qs_inv_def)
  from hmq.unlock_frees [OF inv, of "en_id e"] qs_abort.hyps(2) qs_abort.prems
  show ?case
    by (intro qs_inv_give [OF qs_abort.prems _ _ _ qs_abort.hyps(1)])
      (auto simp: q_abort_def qs_inv_def)
qed


lemma qs_reachable_inv: "qs_reachable ord s \<Longrightarrow> hm_inv ord hm_repo_new \<Longrightarrow> qs_inv ord s"
  by (induction rule: qs_reachable.induct) (auto intro: qs_inv_init qs_step_inv)

section \<open>Properties\<close>

text \<open>
  C11: Sessions that read through the queued repository never lose the race: in every state
  that interleaved sessions of any number of clients reach, the commit of a client that works
  on an entity succeeds, appends what the client recorded, and releases its lock.
\<close>

theorem queued_commit_never_conflicts:
  assumes "qs_reachable ord s" and "hm_inv ord hm_repo_new" and "qs_work s c = Some e"
  shows "\<exists>q. q_commit (hashmap_repo now ord) in_memory_locks (qs_repo s, [e]) =
        (Ok (), q, [mark_committed e]) \<and>
      hm_streams (qu_inner q) (en_id e) = Some (en_events e) \<and>
      take (unat (en_committed_version e)) (en_events e) =
        stream_of (hm_streams (qu_inner (qs_repo s))) (en_id e) \<and>
      en_id e \<notin> lm_held (qu_locks q)"
proof -
  have inv: "qs_inv ord s" using qs_reachable_inv [OF assms(1,2)] .
  then have "works_on (qs_repo s) e" using assms(3) by (simp add: qs_inv_def)
  then have s: "stream_of (hm_streams (qu_inner (qs_repo s))) (en_id e) =
      take (unat (en_committed_version e)) (en_events e)"
    by (simp add: works_on_def)
  from qs_commit_works [OF inv assms(3), of now] s show ?thesis
    by (auto simp: uncommitted_def)
qed

lemma hm_inv_new_ordered: "hm_inv Mapping.ordered_keys hm_repo_new"
  by simp

lemma qs_reachable_working:
  "\<exists>s. qs_reachable Mapping.ordered_keys s \<and> qs_work s 3 = Some (entity_with_id ''a'' 8)"
proof -
  let ?q = "qs_repo qs_init"
  have inv: "hm_inv Mapping.ordered_keys (qu_inner ?q) \<and> lm_inv (qu_locks ?q)"
    by (simp add: qs_init_def queued_new_def)
  have "\<exists>q. q_get_one (hashmap_repo 8 Mapping.ordered_keys) in_memory_locks ''a'' ?q = (Ok None, q)"
    using hmq.get_one_free [OF inv, of "''a''" 8]
    by (auto simp: qs_init_def queued_new_def entity_at_def)
  then obtain q where
    "q_get_one (hashmap_repo 8 Mapping.ordered_keys) in_memory_locks ''a'' ?q = (Ok None, q)" by blast
  from qs_next [OF qs_start qs_create [OF _ this, of 3]] show ?thesis
    by (auto simp: qs_init_def intro!: exI)
qed

theorem queued_commit_never_conflicts_witness:
  "\<exists>s q. qs_reachable Mapping.ordered_keys s \<and>
     q_commit (hashmap_repo 9 Mapping.ordered_keys) in_memory_locks
       (qs_repo s, [entity_with_id ''a'' 8]) = (Ok (), q, [mark_committed (entity_with_id ''a'' 8)])"
proof -
  obtain s where s: "qs_reachable Mapping.ordered_keys s" "qs_work s 3 = Some (entity_with_id ''a'' 8)"
    using qs_reachable_working by blast
  from queued_commit_never_conflicts [OF s(1) hm_inv_new_ordered s(2), of 9] s(1) show ?thesis
    by blast
qed

text \<open>
  A client that works on an entity excludes the others: until it commits or aborts, a
  \<open>get\<close> of the same id by anyone, itself included, does not return, while \<open>peek\<close> still
  reads the stored entity.
\<close>

theorem queued_get_excludes:
  assumes "qs_reachable ord s" and "hm_inv ord hm_repo_new" and "qs_work s c = Some e"
  shows "fst (q_get_one (hashmap_repo now ord) in_memory_locks (en_id e) (qs_repo s)) = Stuck \<and>
         q_get_with (hashmap_repo now ord) in_memory_locks (en_id e) no_lock (qs_repo s) =
           (Ok (entity_at now (hm_streams (qu_inner (qs_repo s))) (en_id e)), qs_repo s) \<and>
         (\<forall>d f. qs_work s d = Some f \<longrightarrow> d \<noteq> c \<longrightarrow> en_id f \<noteq> en_id e)"
proof -
  have inv: "qs_inv ord s" using qs_reachable_inv [OF assms(1,2)] .
  then have q: "hm_inv ord (qu_inner (qs_repo s)) \<and> lm_inv (qu_locks (qs_repo s))"
    and w: "works_on (qs_repo s) e" using assms(3) by (simp_all add: qs_inv_def)
  have "fst (q_get_one (hashmap_repo now ord) in_memory_locks (en_id e) (qs_repo s)) = Stuck"
    using hmq.get_one_held [OF q, of "en_id e" now] w by (auto simp: works_on_def)
  moreover have "q_get_with (hashmap_repo now ord) in_memory_locks (en_id e) no_lock (qs_repo s) =
      (Ok (entity_at now (hm_streams (qu_inner (qs_repo s))) (en_id e)), qs_repo s)"
    using hm.get_one [of ord "qu_inner (qs_repo s)" now "en_id e"] q
    by (simp add: q_get_with_def no_lock_def q_inner_def)
  moreover have "\<forall>d f. qs_work s d = Some f \<longrightarrow> d \<noteq> c \<longrightarrow> en_id f \<noteq> en_id e"
    using inv assms(3) unfolding qs_inv_def by metis
  ultimately show ?thesis by blast
qed

theorem queued_get_excludes_witness:
  "\<exists>s. qs_reachable Mapping.ordered_keys s \<and> qs_work s 3 = Some (entity_with_id ''a'' 8) \<and>
     fst (q_get_one (hashmap_repo 9 Mapping.ordered_keys) in_memory_locks
       (en_id (entity_with_id ''a'' 8)) (qs_repo s)) = Stuck"
proof -
  obtain s where s: "qs_reachable Mapping.ordered_keys s" "qs_work s 3 = Some (entity_with_id ''a'' 8)"
    using qs_reachable_working by blast
  from queued_get_excludes [OF s(1) hm_inv_new_ordered s(2), of 9] s show ?thesis by blast
qed

text \<open>
  The lock does not know its owner: a commit that succeeds frees the locks of the ids it
  writes, also when someone else holds them, and \<open>lock\<close> answers \<open>Ok\<close> on a lock that is held
  without waiting for it.
\<close>

theorem commit_releases_foreign_lock:
  assumes "hm_inv ord (qu_inner q)" and "lm_inv (qu_locks q)" and "en_id e \<in> lm_held (qu_locks q)"
    and "entity_wf e" and "current (hm_streams (qu_inner q)) e"
  shows "\<exists>q' q''. q_lock in_memory_locks (en_id e) q = (Ok (), q') \<and>
      lm_held (qu_locks q') = lm_held (qu_locks q) \<and>
      q_commit (hashmap_repo now ord) in_memory_locks (q, [e]) = (Ok (), q'', [mark_committed e]) \<and>
      lm_held (qu_locks q'') = lm_held (qu_locks q) - {en_id e}"
  using hmq.lock_ignores_result [of ord q "en_id e"] hmq.commit_current [of ord q "[e]" now] assms
  by (auto simp: insert_absorb)

theorem commit_releases_foreign_lock_witness:
  "\<exists>q q''. lm_held (qu_locks q) = {''a''} \<and>
      q_commit (hashmap_repo 9 Mapping.ordered_keys) in_memory_locks (q, [entity_with_id ''a'' 8]) =
        (Ok (), q'', [mark_committed (entity_with_id ''a'' 8)]) \<and>
      lm_held (qu_locks q'') = {}"
proof -
  define q where "q = \<lparr>qu_inner = hm_repo_new, qu_locks = \<lparr>lm_poisoned = False, lm_locks =
      Mapping.update ''a'' \<lparr>lk_locked = True, lk_poisoned = False\<rparr> Mapping.empty\<rparr>\<rparr>"
  have q: "hm_inv Mapping.ordered_keys (qu_inner q)" "lm_inv (qu_locks q)"
    "qu_inner q = hm_repo_new" "lm_held (qu_locks q) = {''a''}"
    by (auto simp: q_def lm_inv_def lm_held_def lookup_update' lookup_empty split: if_splits)
  have id: "en_id (entity_with_id ''a'' 8) = ''a''" by (simp add: entity_with_id_def)
  have "current (hm_streams (qu_inner q)) (entity_with_id ''a'' 8)"
    by (simp add: q(3) current_def stream_of_def) (simp add: entity_with_id_def entity_default_def)
  from commit_releases_foreign_lock [OF q(1,2) _ _ this, of 9] obtain q''
    where "q_commit (hashmap_repo 9 Mapping.ordered_keys) in_memory_locks (q, [entity_with_id ''a'' 8]) =
        (Ok (), q'', [mark_committed (entity_with_id ''a'' 8)])" "lm_held (qu_locks q'') = {}"
    using q(4) id by auto
  with q(4) show ?thesis by blast
qed

text \<open>
  \<open>find\<close> takes the locks of all entities it saw first and returns, of those, the ones that
  still match when it reads them again; it keeps the locks of the ones that no longer match.
\<close>

theorem queued_find_keeps_locks:
  assumes "hm_inv ord (qu_inner q)" and "lm_inv (qu_locks q)" and "hm_inv ord (env (qu_inner q))"
    and "hm_find now ord p (qu_inner q) = (Ok es, qu_inner q)"
    and "set (map en_id es) \<inter> lm_held (qu_locks q) = {}"
  shows "\<exists>fs q'. q_find (hashmap_repo now ord) in_memory_locks env p q = (Ok fs, q') \<and>
      set fs = {f. \<exists>i \<in> set (map en_id es).
                  entity_at now (hm_streams (env (qu_inner q))) i = Some f \<and> p f} \<and>
      lm_held (qu_locks q') = lm_held (qu_locks q) \<union> set (map en_id es)"
  using hmq.find_locks [of ord q env now p es] assms
  by (auto simp: hashmap_repo_def set_map_filter)

theorem queued_find_keeps_locks_witness:
  "\<exists>q q'. q_find (hashmap_repo 9 Mapping.ordered_keys) in_memory_locks (\<lambda>_. hm_repo_new) (\<lambda>_. True) q =
      (Ok [], q') \<and> lm_held (qu_locks q) = {} \<and> lm_held (qu_locks q') = {''a''}"
proof -
  let ?r = "hm_repo_new\<lparr>hr_events := Mapping.update ''a'' [event_record_new ''Created'' [1] 1 0] Mapping.empty\<rparr>"
  let ?q = "queued_new ?r"
  obtain es where es: "hm_find 9 Mapping.ordered_keys (\<lambda>_. True) ?r = (Ok es, ?r)"
    "set (map en_id es) = {''a''}"
  proof -
    have "hm_find 9 Mapping.ordered_keys (\<lambda>_. True) ?r =
        (Ok [entity_from 9 ''a'' [event_record_new ''Created'' [1] 1 0]], ?r)"
      by (simp add: hm_find_def hm_entities_def hm_repo_new_def hm_iter_Cons)
    then show ?thesis by (rule that) simp
  qed
  have "hm_inv Mapping.ordered_keys (qu_inner ?q)" "lm_inv (qu_locks ?q)"
    "hm_find 9 Mapping.ordered_keys (\<lambda>_. True) (qu_inner ?q) = (Ok es, qu_inner ?q)"
    using one_event_store(1) es(1) by (simp_all add: queued_new_def)
  from queued_find_keeps_locks [OF this(1,2) _ this(3), of "\<lambda>_. hm_repo_new"] obtain fs q'
    where "q_find (hashmap_repo 9 Mapping.ordered_keys) in_memory_locks (\<lambda>_. hm_repo_new) (\<lambda>_. True) ?q = (Ok fs, q')"
      "set fs = {}" "lm_held (qu_locks q') = {''a''}"
    using es(2) by (auto simp: queued_new_def entity_at_def)
  moreover have "lm_held (qu_locks ?q) = {}" by (simp add: queued_new_def)
  ultimately show ?thesis by (metis set_empty)
qed

end
