(* ===== verification/Aggregate.thy ===== *)
theory Aggregate
  imports Upcaster Queued_Repo
begin

text \<open>
  Aggregates (\<open>src/aggregate/aggregate.rs\<close>): the trait as a record of operations, hydration
  by replay of the upcast events, the extension traits of a repository, and the typed
  \<open>AggregateRepository\<close>.
\<close>

section \<open>The trait\<close>

text \<open>
  \<open>ag_set_entity\<close> is an assignment through \<open>entity_mut\<close>.  \<open>ag_replay\<close> applies one event; its
  error is given by the text \<open>Display\<close> writes for it.
\<close>

record 'a aggregate =
  ag_new_empty :: 'a
  ag_entity :: "'a \<Rightarrow> entity"
  ag_set_entity :: "entity \<Rightarrow> 'a \<Rightarrow> 'a"
  ag_replay :: "event_record \<Rightarrow> ('a, string, unit) call"
  ag_upcasters :: "event_upcaster list"

text \<open>
  \<open>impl_aggregate!\<close>: an aggregate from the field that is its entity and its replay method; the rest
  of the trait is its defaults, \<open>new_empty\<close> the default value and no upcasters.
\<close>

definition impl_aggregate ::
    "'a \<Rightarrow> ('a \<Rightarrow> entity) \<Rightarrow> (entity \<Rightarrow> 'a \<Rightarrow> 'a) \<Rightarrow> (event_record \<Rightarrow> ('a, string, unit) call) \<Rightarrow> 'a aggregate" where
  "impl_aggregate default_value entity_field set_field replay =
     \<lparr>ag_new_empty = default_value, ag_entity = entity_field, ag_set_entity = set_field,
      ag_replay = replay, ag_upcasters = []\<rparr>"

definition on_entity :: "('a, 'z) aggregate_scheme \<Rightarrow> (entity \<Rightarrow> entity) \<Rightarrow> 'a \<Rightarrow> 'a" where
  "on_entity A f a = ag_set_entity A (f (ag_entity A a)) a"

section \<open>Hydration\<close>

text \<open>
  The replay loop of \<open>hydrate\<close> and \<open>hydrate_from_snapshot\<close>: the replaying flag is set around
  the loop and cleared on both ways out; an aggregate that fails to replay is dropped.
\<close>

definition upcast_all :: "('a, 'z) aggregate_scheme \<Rightarrow> event_record list \<Rightarrow> event_record list option" where
  "upcast_all A evs =
     (if ag_upcasters A = [] then Some evs else upcast_events evs (ag_upcasters A))"

definition replay_loop ::
    "('a, 'z) aggregate_scheme \<Rightarrow> event_record list \<Rightarrow> 'a \<Rightarrow> (repository_error, 'a) outcome" where
  "replay_loop A evs agg =
     (case apply_events (ag_replay A) evs (on_entity A (set_replaying True) agg) of
        (Ok _, agg') \<Rightarrow> Ok (on_entity A (set_replaying False) agg')
      | (Err err, agg') \<Rightarrow> Err (RE_Replay err)
      | (Panic, agg') \<Rightarrow> Panic
      | (Stuck, agg') \<Rightarrow> Stuck)"

definition hydrate :: "('a, 'z) aggregate_scheme \<Rightarrow> entity \<Rightarrow> (repository_error, 'a) outcome" where
  "hydrate A e =
     (let agg = ag_set_entity A e (ag_new_empty A)
      in case upcast_all A (en_events (ag_entity A agg)) of
        None \<Rightarrow> Stuck
      | Some events \<Rightarrow> replay_loop A events agg)"

text \<open>
  The arms of the \<open>replay_event\<close> that \<open>aggregate!\<close> generates: call a method, or decode the
  arguments from the payload and call it with them.  A method is \<open>None\<close> when it panics.
\<close>

definition run_method :: "('a \<Rightarrow> 'a option) \<Rightarrow> ('a, string, unit) call" where
  "run_method f a = (case f a of None \<Rightarrow> (Panic, a) | Some a' \<Rightarrow> (Ok (), a'))"

definition decode_then ::
    "(bytes \<Rightarrow> string + 'x) \<Rightarrow> ('x \<Rightarrow> 'a \<Rightarrow> 'a option) \<Rightarrow> event_record \<Rightarrow> ('a, string, unit) call" where
  "decode_then de f ev a =
     (case event_record_decode de ev of
        Ok x \<Rightarrow> run_method (f x) a
      | Err err \<Rightarrow> (Err (payload_error_display err), a)
      | Panic \<Rightarrow> (Panic, a)
      | Stuck \<Rightarrow> (Stuck, a))"

section \<open>Extension traits of a repository\<close>

definition get_aggregate ::
    "('a, 'z) aggregate_scheme \<Rightarrow> 'r repo_ops \<Rightarrow> string \<Rightarrow> ('r, repository_error, 'a option) call" where
  "get_aggregate A R ident =
     st_bind (op_get_one R ident) (\<lambda>found.
     case found of
       None \<Rightarrow> st_return None
     | Some e \<Rightarrow> st_lift (map_ok Some (hydrate A e)))"

definition get_all_aggregates ::
    "('a, 'z) aggregate_scheme \<Rightarrow> 'r repo_ops \<Rightarrow> string list \<Rightarrow> ('r, repository_error, 'a list) call" where
  "get_all_aggregates A R ids =
     st_bind (op_get_many R ids) (\<lambda>es. st_lift (try_collect (hydrate A) es))"

definition commit_aggregate ::
    "('a, 'z) aggregate_scheme \<Rightarrow> 'r repo_ops \<Rightarrow> ('r \<times> 'a, repository_error, unit) call" where
  "commit_aggregate A R s =
     (case s of (r, a) \<Rightarrow>
        (case op_commit R (r, [ag_entity A a]) of
           (res, r', es) \<Rightarrow> (res, r', ag_set_entity A (hd es) a)))"

definition commit_all_aggregates ::
    "('a, 'z) aggregate_scheme \<Rightarrow> 'r repo_ops \<Rightarrow> ('r \<times> 'a list, repository_error, unit) call" where
  "commit_all_aggregates A R s =
     (case s of (r, as) \<Rightarrow>
        (case op_commit R (r, map (ag_entity A) as) of
           (res, r', es) \<Rightarrow> (res, r', map2 (ag_set_entity A) es as)))"

text \<open>
  The searches read all entities and hydrate them one after the other; the first aggregate
  that fails to hydrate ends the search.
\<close>

fun hydrate_matching ::
    "('e \<Rightarrow> (repository_error, 'a) outcome) \<Rightarrow> ('a \<Rightarrow> bool) \<Rightarrow> 'e list \<Rightarrow>
     (repository_error, 'a list) outcome" where
  "hydrate_matching h p [] = Ok []"
| "hydrate_matching h p (e # es) =
     outcome_bind (h e) (\<lambda>a.
     outcome_bind (hydrate_matching h p es) (\<lambda>as.
     Ok (if p a then a # as else as)))"

fun hydrate_first ::
    "('e \<Rightarrow> (repository_error, 'a) outcome) \<Rightarrow> ('a \<Rightarrow> bool) \<Rightarrow> 'e list \<Rightarrow>
     (repository_error, 'a option) outcome" where
  "hydrate_first h p [] = Ok None"
| "hydrate_first h p (e # es) =
     outcome_bind (h e) (\<lambda>a. if p a then Ok (Some a) else hydrate_first h p es)"

fun hydrate_exists ::
    "('e \<Rightarrow> (repository_error, 'a) outcome) \<Rightarrow> ('a \<Rightarrow> bool) \<Rightarrow> 'e list \<Rightarrow>
     (repository_error, bool) outcome" where
  "hydrate_exists h p [] = Ok False"
| "hydrate_exists h p (e # es) =
     outcome_bind (h e) (\<lambda>a. if p a then Ok True else hydrate_exists h p es)"

fun hydrate_count ::
    "('e \<Rightarrow> (repository_error, 'a) outcome) \<Rightarrow> ('a \<Rightarrow> bool) \<Rightarrow> 'e list \<Rightarrow> nat \<Rightarrow>
     (repository_error, nat) outcome" where
  "hydrate_count h p [] n = Ok n"
| "hydrate_count h p (e # es) n =
     outcome_bind (h e) (\<lambda>a. hydrate_count h p es (if p a then n + 1 else n))"

definition find_aggregate ::
    "('a, 'z) aggregate_scheme \<Rightarrow> 'r repo_ops \<Rightarrow> ('a \<Rightarrow> bool) \<Rightarrow> ('r, repository_error, 'a list) call" where
  "find_aggregate A R p =
     st_bind (op_find R (\<lambda>_. True)) (\<lambda>es. st_lift (hydrate_matching (hydrate A) p es))"

definition find_one_aggregate ::
    "('a, 'z) aggregate_scheme \<Rightarrow> 'r repo_ops \<Rightarrow> ('a \<Rightarrow> bool) \<Rightarrow> ('r, repository_error, 'a option) call" where
  "find_one_aggregate A R p =
     st_bind (op_find R (\<lambda>_. True)) (\<lambda>es. st_lift (hydrate_first (hydrate A) p es))"

definition exists_aggregate ::
    "('a, 'z) aggregate_scheme \<Rightarrow> 'r repo_ops \<Rightarrow> ('a \<Rightarrow> bool) \<Rightarrow> ('r, repository_error, bool) call" where
  "exists_aggregate A R p =
     st_bind (op_find R (\<lambda>_. True)) (\<lambda>es. st_lift (hydrate_exists (hydrate A) p es))"

definition count_aggregate ::
    "('a, 'z) aggregate_scheme \<Rightarrow> 'r repo_ops \<Rightarrow> ('a \<Rightarrow> bool) \<Rightarrow> ('r, repository_error, nat) call" where
  "count_aggregate A R p =
     st_bind (op_find R (\<lambda>_. True)) (\<lambda>es. st_lift (hydrate_count (hydrate A) p es 0))"

section \<open>The typed repository\<close>

text \<open>\<open>AggregateRepository\<close> holds a repository; its state is that of the repository.\<close>

definition ar_get where
  "ar_get A R ident =
     st_bind (op_get_one R ident) (\<lambda>found.
     case found of
       None \<Rightarrow> st_return None
     | Some e \<Rightarrow> st_lift (map_ok Some (hydrate A e)))"

definition ar_get_all where
  "ar_get_all A R ids = st_bind (op_get_many R ids) (\<lambda>es. st_lift (try_collect (hydrate A) es))"

definition ar_commit where
  "ar_commit A R s =
     (case s of (r, a) \<Rightarrow>
        (case op_commit R (r, [ag_entity A a]) of
           (res, r', es) \<Rightarrow> (res, r', ag_set_entity A (hd es) a)))"

definition ar_commit_all where
  "ar_commit_all A R s =
     (case s of (r, as) \<Rightarrow>
        (case op_commit R (r, map (ag_entity A) as) of
           (res, r', es) \<Rightarrow> (res, r', map2 (ag_set_entity A) es as)))"

definition ar_find where
  "ar_find A R p =
     st_bind (op_find R (\<lambda>_. True)) (\<lambda>es. st_lift (hydrate_matching (hydrate A) p es))"

definition ar_find_one where
  "ar_find_one A R p =
     st_bind (op_find R (\<lambda>_. True)) (\<lambda>es. st_lift (hydrate_first (hydrate A) p es))"

definition ar_exists where
  "ar_exists A R p = st_bind (ar_find_one A R p) (\<lambda>found. st_return (found \<noteq> None))"

definition ar_count where
  "ar_count A R p = st_bind (ar_find A R p) (\<lambda>as. st_return (length as))"

definition ar_abort where
  "ar_abort A Q a = qo_unlock Q (en_id (ag_entity A a))"

definition ar_get_with where
  "ar_get_with A Q ident opts =
     st_bind (qo_get_with Q ident opts) (\<lambda>found.
     case found of
       None \<Rightarrow> st_return None
     | Some e \<Rightarrow> st_lift (map_ok Some (hydrate A e)))"

definition ar_peek where
  "ar_peek A Q ident = ar_get_with A Q ident no_lock"

definition ar_get_all_with where
  "ar_get_all_with A Q ids opts =
     st_bind (qo_get_all_with Q ids opts) (\<lambda>es. st_lift (try_collect (hydrate A) es))"

definition ar_peek_all where
  "ar_peek_all A Q ids = ar_get_all_with A Q ids no_lock"

section \<open>The contract of an aggregate\<close>

text \<open>
  The entity is a field, and replaying an event leaves it alone but for its id: the methods
  that \<open>replay_event\<close> calls digest only while the entity is not replaying, and the one that
  initializes an aggregate sets the id.
\<close>

lemma same_but_id: "\<exists>i. (e :: entity) = e\<lparr>en_id := i\<rparr>"
  by (rule exI [of _ "en_id e"]) simp

locale aggregate_laws =
  fixes A :: "('a, 'z) aggregate_scheme"
  assumes entity_set: "ag_entity A (ag_set_entity A e a) = e"
    and set_entity: "ag_set_entity A (ag_entity A a) a = a"
    and set_set: "ag_set_entity A e (ag_set_entity A f a) = ag_set_entity A e a"
    and replay_keeps: "en_replaying (ag_entity A a) \<Longrightarrow>
      \<exists>i. ag_entity A (snd (ag_replay A ev a)) = (ag_entity A a)\<lparr>en_id := i\<rparr>"
begin

lemma apply_events_keeps:
  "en_replaying (ag_entity A a) \<Longrightarrow>
     \<exists>i. ag_entity A (snd (apply_events (ag_replay A) evs a)) = (ag_entity A a)\<lparr>en_id := i\<rparr>"
proof (induction evs arbitrary: a)
  case Nil
  then show ?case by (simp add: same_but_id)
next
  case (Cons ev evs)
  obtain r a' where r: "ag_replay A ev a = (r, a')" by (cases "ag_replay A ev a")
  with replay_keeps [OF Cons.prems, of ev] obtain i
    where i: "ag_entity A a' = (ag_entity A a)\<lparr>en_id := i\<rparr>" by auto
  with Cons.prems have "en_replaying (ag_entity A a')" by simp
  from Cons.IH [OF this] i r show ?case by (cases r) (auto simp: st_bind_def)
qed

lemma replay_loop_Ok:
  assumes "replay_loop A evs a = Ok a'"
  shows "\<exists>b i. apply_events (ag_replay A) evs (on_entity A (set_replaying True) a) = (Ok (), b) \<and>
      a' = on_entity A (set_replaying False) b \<and>
      ag_entity A a' = (ag_entity A a)\<lparr>en_id := i, en_replaying := False\<rparr>"
proof -
  let ?s = "on_entity A (set_replaying True) a"
  obtain b where b: "apply_events (ag_replay A) evs ?s = (Ok (), b)"
    "a' = on_entity A (set_replaying False) b"
    using assms by (auto simp: replay_loop_def split: prod.splits outcome.splits)
  have "en_replaying (ag_entity A ?s)"
    by (simp add: on_entity_def entity_set set_replaying_def)
  from apply_events_keeps [OF this, of evs] b show ?thesis
    by (auto simp: on_entity_def entity_set set_replaying_def)
qed

lemma replay_loop_append:
  assumes "apply_events (ag_replay A) xs (on_entity A (set_replaying True) a) =
      (Ok (), on_entity A (set_replaying True) b)"
  shows "replay_loop A (xs @ ys) a = replay_loop A ys b"
  by (simp add: replay_loop_def apply_events_append assms)

lemma hydrate_entity:
  assumes "hydrate A e = Ok a"
  shows "\<exists>i. ag_entity A a = e\<lparr>en_id := i, en_replaying := False\<rparr>"
proof -
  obtain evs where "replay_loop A evs (ag_set_entity A e (ag_new_empty A)) = Ok a"
    using assms by (auto simp: hydrate_def Let_def split: option.splits)
  from replay_loop_Ok [OF this] show ?thesis by (auto simp: entity_set)
qed

end

lemma hydrate_matching_first:
  "hydrate_matching h p es = Ok as \<Longrightarrow>
     hydrate_first h p es = Ok (case as of [] \<Rightarrow> None | a # _ \<Rightarrow> Some a) \<and>
     hydrate_exists h p es = Ok (as \<noteq> []) \<and>
     hydrate_count h p es n = Ok (n + length as)"
proof (induction es arbitrary: as n)
  case Nil
  then show ?case by simp
next
  case (Cons e es)
  then obtain a as' where a: "h e = Ok a" "hydrate_matching h p es = Ok as'"
    "as = (if p a then a # as' else as')"
    by (auto simp: outcome_bind_Ok_iff)
  with Cons.IH [OF a(2)] show ?case by auto
qed

section \<open>Properties\<close>

text \<open>For the witnesses: an aggregate that is an entity and rejects events named \<open>Bad\<close>.\<close>

definition bare_aggregate :: "entity aggregate" where
  "bare_aggregate =
     \<lparr>ag_new_empty = entity_default 0, ag_entity = (\<lambda>a. a), ag_set_entity = (\<lambda>e _. e),
      ag_replay = (\<lambda>ev a. if er_event_name ev = ''Bad'' then (Err ''bad event'', a) else (Ok (), a)),
      ag_upcasters = []\<rparr>"

lemma bare_aggregate_laws: "aggregate_laws bare_aggregate"
  by unfold_locales (auto simp: bare_aggregate_def same_but_id)

text \<open>
  C16: \<open>hydrate\<close> replays the events of the entity in order, after upcasting.  It succeeds when
  each event replays, with the state the replay ends in; it fails with the replay error of
  the first event that does not, and every event before that one was accepted; it does not
  return when an upcaster loops on some event.
\<close>

theorem hydrate_outcome:
  assumes "\<And>f b. ag_entity A (ag_set_entity A f b) = f"
  shows "case upcast_events (en_events e) (ag_upcasters A) of
      None \<Rightarrow> hydrate A e = Stuck
    | Some evs \<Rightarrow>
        (let start = on_entity A (set_replaying True) (ag_set_entity A e (ag_new_empty A))
         in map er_sequence evs = map er_sequence (en_events e) \<and>
            (\<forall>a. hydrate A e = Ok a \<longleftrightarrow>
               (\<exists>b. apply_events (ag_replay A) evs start = (Ok (), b) \<and>
                    a = on_entity A (set_replaying False) b)) \<and>
            (\<forall>err. hydrate A e = Err err \<longleftrightarrow>
               (\<exists>xs ev ys s1 msg s2. evs = xs @ ev # ys \<and> err = RE_Replay msg \<and>
                  apply_events (ag_replay A) xs start = (Ok (), s1) \<and>
                  ag_replay A ev s1 = (Err msg, s2))))"
proof (cases "upcast_events (en_events e) (ag_upcasters A)")
  case None
  then show ?thesis
    by (auto simp: hydrate_def upcast_all_def assms Let_def)
next
  case (Some evs)
  let ?start = "on_entity A (set_replaying True) (ag_set_entity A e (ag_new_empty A))"
  have h: "hydrate A e = replay_loop A evs (ag_set_entity A e (ag_new_empty A))"
    using Some by (auto simp: hydrate_def upcast_all_def assms Let_def)
  have seq: "map er_sequence evs = map er_sequence (en_events e)"
    using upcast_events_sequences [OF Some] .
  have ok: "hydrate A e = Ok a \<longleftrightarrow>
      (\<exists>b. apply_events (ag_replay A) evs ?start = (Ok (), b) \<and> a = on_entity A (set_replaying False) b)"
    for a by (auto simp: h replay_loop_def split: prod.splits outcome.splits)
  have err: "hydrate A e = Err err \<longleftrightarrow>
      (\<exists>msg s2. apply_events (ag_replay A) evs ?start = (Err msg, s2) \<and> err = RE_Replay msg)" for err
    by (auto simp: h replay_loop_def split: prod.splits outcome.splits)
  have "(apply_events (ag_replay A) evs ?start = (Err msg, s2)) \<longleftrightarrow>
      (\<exists>xs ev ys s1. evs = xs @ ev # ys \<and>
         apply_events (ag_replay A) xs ?start = (Ok (), s1) \<and> ag_replay A ev s1 = (Err msg, s2))"
    for msg s2
    using apply_events_Err_split [of "ag_replay A" evs ?start msg s2]
    by (auto simp: apply_events_append)
  then have "hydrate A e = Err err \<longleftrightarrow>
      (\<exists>xs ev ys s1 msg s2. evs = xs @ ev # ys \<and> err = RE_Replay msg \<and>
         apply_events (ag_replay A) xs ?start = (Ok (), s1) \<and> ag_replay A ev s1 = (Err msg, s2))"
    for err unfolding err by blast
  with seq ok show ?thesis unfolding Some option.case Let_def by blast
qed

theorem hydrate_outcome_witness:
  "hydrate bare_aggregate (entity_from 0 ''a''
     [event_record_new ''Good'' [] 1 0, event_record_new ''Bad'' [] 2 0]) =
   Err (RE_Replay ''bad event'')"
proof -
  let ?evs = "[event_record_new ''Good'' [] 1 0, event_record_new ''Bad'' [] 2 0]"
  let ?e = "entity_from 0 ''a'' ?evs"
  let ?start = "on_entity bare_aggregate (set_replaying True) (ag_set_entity bare_aggregate ?e (ag_new_empty bare_aggregate))"
  have up: "upcast_events (en_events ?e) (ag_upcasters bare_aggregate) = Some ?evs"
    by (simp add: bare_aggregate_def)
  have es: "ag_entity bare_aggregate (ag_set_entity bare_aggregate f b) = f" for f b
    by (simp add: bare_aggregate_def)
  have ex: "\<exists>xs ev ys s1 msg s2. ?evs = xs @ ev # ys \<and> RE_Replay ''bad event'' = RE_Replay msg \<and>
      apply_events (ag_replay bare_aggregate) xs ?start = (Ok (), s1) \<and>
      ag_replay bare_aggregate ev s1 = (Err msg, s2)"
    by (rule exI [of _ "[event_record_new ''Good'' [] 1 0]"], rule exI [of _ "event_record_new ''Bad'' [] 2 0"])
      (simp add: bare_aggregate_def event_record_new_def)
  have iff: "\<forall>err. hydrate bare_aggregate ?e = Err err \<longleftrightarrow>
      (\<exists>xs ev ys s1 msg s2. ?evs = xs @ ev # ys \<and> err = RE_Replay msg \<and>
         apply_events (ag_replay bare_aggregate) xs ?start = (Ok (), s1) \<and>
         ag_replay bare_aggregate ev s1 = (Err msg, s2))"
    using hydrate_outcome [of bare_aggregate ?e, OF es, unfolded up option.case Let_def]
    by (elim conjE)
  show ?thesis
    by (rule iffD2 [OF iff [THEN spec, of "RE_Replay ''bad event''"] ex])
qed

lemma ar_commit_then_get:
  assumes "hm_inv ord r"
    and "entity_wf (ag_entity A a)" and "current (hm_streams r) (ag_entity A a)"
    and "stream_of (hm_streams r) (en_id (ag_entity A a)) =
      take (unat (en_committed_version (ag_entity A a))) (en_events (ag_entity A a))"
  shows "\<exists>r'. ar_commit A (hashmap_repo now ord) (r, a) =
        (Ok (), r', ag_set_entity A (mark_committed (ag_entity A a)) a) \<and>
      ar_get A (hashmap_repo now' ord) (en_id (ag_entity A a)) r' =
        (map_ok Some (hydrate A (entity_from now' (en_id (ag_entity A a)) (en_events (ag_entity A a)))), r')"
proof -
  let ?e = "ag_entity A a"
  obtain r' where r': "op_commit (hashmap_repo now ord) (r, [?e]) = (Ok (), r', [mark_committed ?e])"
    "hm_inv ord r'" "hm_streams r' = append_all [?e] (hm_streams r)"
    using hm.commit [OF assms(1), of "[?e]" now] assms(2,3) by auto
  have "entity_at now' (hm_streams r') (en_id ?e) = Some (entity_from now' (en_id ?e) (en_events ?e))"
    by (simp add: r'(3) entity_at_def assms(4) uncommitted_def)
  with hm.get_one [OF r'(2), of now' "en_id ?e"] r'(1) show ?thesis
    by (simp add: ar_commit_def ar_get_def)
qed

text \<open>
  When a search over all aggregates succeeds, the other searches agree with it:
  \<open>find_one\<close> returns the first aggregate \<open>find\<close> returns, \<open>exists\<close> says whether there is one and
  \<open>count\<close> how many, for the typed repository and the extension traits alike.
\<close>

theorem aggregate_searches_agree:
  assumes "ar_find A R p r = (Ok as, r')"
  shows "ar_find_one A R p r = (Ok (case as of [] \<Rightarrow> None | a # _ \<Rightarrow> Some a), r') \<and>
         ar_exists A R p r = (Ok (as \<noteq> []), r') \<and>
         ar_count A R p r = (Ok (length as), r') \<and>
         find_one_aggregate A R p r = (Ok (case as of [] \<Rightarrow> None | a # _ \<Rightarrow> Some a), r') \<and>
         exists_aggregate A R p r = (Ok (as \<noteq> []), r') \<and>
         count_aggregate A R p r = (Ok (length as), r')"
proof -
  obtain es where es: "op_find R (\<lambda>_. True) r = (Ok es, r')" "hydrate_matching (hydrate A) p es = Ok as"
    using assms by (auto simp: ar_find_def st_bind_Ok_iff)
  show ?thesis
    using assms es hydrate_matching_first [OF es(2)]
    by (auto simp: ar_find_one_def ar_exists_def ar_count_def find_one_aggregate_def
        exists_aggregate_def count_aggregate_def split: list.splits)
qed

theorem aggregate_searches_agree_witness:
  "ar_count bare_aggregate (hashmap_repo 0 Mapping.ordered_keys) (\<lambda>_. True) hm_repo_new =
     (Ok 0, hm_repo_new)"
proof -
  have "ar_find bare_aggregate (hashmap_repo 0 Mapping.ordered_keys) (\<lambda>_. True) hm_repo_new =
      (Ok [], hm_repo_new)"
    by (simp add: ar_find_def hashmap_repo_def hm_find_def hm_repo_new_def hm_entities_def)
  from aggregate_searches_agree [OF this] show ?thesis by simp
qed

text \<open>
  Committing an aggregate that is up to date with its stream and reading it again through
  the typed repository gives what hydration makes of its full history, the new events
  included; the aggregate itself keeps its state and is marked committed.
\<close>

theorem aggregate_commit_get:
  assumes "hm_inv ord r"
    and "entity_wf (ag_entity A a)" and "current (hm_streams r) (ag_entity A a)"
    and "stream_of (hm_streams r) (en_id (ag_entity A a)) =
      take (unat (en_committed_version (ag_entity A a))) (en_events (ag_entity A a))"
  shows "\<exists>r'. ar_commit A (hashmap_repo now ord) (r, a) =
        (Ok (), r', ag_set_entity A (mark_committed (ag_entity A a)) a) \<and>
      ar_get A (hashmap_repo now' ord) (en_id (ag_entity A a)) r' =
        (map_ok Some (hydrate A (entity_from now' (en_id (ag_entity A a)) (en_events (ag_entity A a)))), r')"
  using assms by (rule ar_commit_then_get)

theorem aggregate_commit_get_witness:
  "\<exists>r' a. ar_commit bare_aggregate (hashmap_repo 1 Mapping.ordered_keys)
        (hm_repo_new, entity_with_id ''a'' 0) = (Ok (), r', a) \<and>
      ar_get bare_aggregate (hashmap_repo 2 Mapping.ordered_keys) ''a'' r' =
        (Ok (Some (entity_from 2 ''a'' [])), r')"
proof -
  let ?e = "entity_with_id ''a'' 0"
  have f: "ag_entity bare_aggregate ?e = ?e" "en_id ?e = ''a''" "en_events ?e = []"
    "en_committed_version ?e = 0"
    by (simp_all add: bare_aggregate_def entity_with_id_def entity_default_def)
  have h: "entity_wf (ag_entity bare_aggregate ?e)"
    "current (hm_streams hm_repo_new) (ag_entity bare_aggregate ?e)"
    "stream_of (hm_streams hm_repo_new) (en_id (ag_entity bare_aggregate ?e)) =
      take (unat (en_committed_version (ag_entity bare_aggregate ?e))) (en_events (ag_entity bare_aggregate ?e))"
    by (simp_all add: f current_def stream_of_def)
  have "hydrate bare_aggregate (entity_from 2 ''a'' []) = Ok (entity_from 2 ''a'' [])"
    by (simp add: hydrate_def upcast_all_def replay_loop_def on_entity_def bare_aggregate_def
        set_replaying_def entity_from_def entity_new_def entity_default_def set_id_def
        load_from_history_def)
  with aggregate_commit_get [OF hm_inv_ordered_new h, of 1 2] f show ?thesis
    by auto
qed

end
