(* ===== verification/Queued_Read_Model.thy ===== *)
theory Queued_Read_Model
  imports Queued_Repo
begin

text \<open>
  The queued read-model store (\<open>src/read_model/queued.rs\<close>): a read-model store with one lock per
  \<open>collection:id\<close>, taken by reads and given back by a successful write or by \<open>unlock\<close>.  It is
  generic in the store and the lock manager; its state is the wrapper of \<open>Queued_Repo\<close>.
\<close>

section \<open>Locks\<close>

definition qm_locks ::
    "('m, lock_error, 'a) call \<Rightarrow> (('r, 'm) queued, read_model_error, 'a) call" where
  "qm_locks f q =
     (case f (qu_locks q) of
        (res, m) \<Rightarrow> (map_err read_model_error_from_lock res, q\<lparr>qu_locks := m\<rparr>))"

definition qm_key :: "'d read_model \<Rightarrow> string \<Rightarrow> string" where
  "qm_key M ident = make_key (md_collection M) ident"

definition qm_ensure_lock ::
    "('m, 'h) lock_ops \<Rightarrow> string \<Rightarrow> (('r, 'm) queued, read_model_error, 'h) call" where
  "qm_ensure_lock L key = qm_locks (lo_get_lock L key)"

definition qm_lock ::
    "'d read_model \<Rightarrow> ('m, 'h) lock_ops \<Rightarrow> string \<Rightarrow> (('r, 'm) queued, read_model_error, unit) call" where
  "qm_lock M L ident =
     st_bind (qm_ensure_lock L (qm_key M ident)) (\<lambda>h.
     st_bind (qm_locks (lo_lock L h)) (\<lambda>_. st_return ()))"

definition qm_unlock ::
    "'d read_model \<Rightarrow> ('m, 'h) lock_ops \<Rightarrow> string \<Rightarrow> (('r, 'm) queued, read_model_error, unit) call" where
  "qm_unlock M L ident =
     st_bind (qm_ensure_lock L (qm_key M ident)) (\<lambda>h.
     st_bind (qm_locks (lo_unlock L h)) (\<lambda>_. st_return ()))"

definition qm_abort ::
    "'d read_model \<Rightarrow> ('m, 'h) lock_ops \<Rightarrow> string \<Rightarrow> (('r, 'm) queued, read_model_error, unit) call" where
  "qm_abort M L ident = qm_unlock M L ident"

text \<open>\<open>release\<close> drops every error.\<close>

fun ignore_err :: "('e, 'a) outcome \<Rightarrow> ('f, unit) outcome" where
  "ignore_err Panic = Panic"
| "ignore_err Stuck = Stuck"
| "ignore_err (Ok _) = Ok ()"
| "ignore_err (Err _) = Ok ()"

definition qm_release ::
    "('m, 'h) lock_ops \<Rightarrow> string \<Rightarrow> (('r, 'm) queued, read_model_error, unit) call" where
  "qm_release L key q =
     (case lo_get_lock L key (qu_locks q) of
        (Ok h, m) \<Rightarrow> (case lo_unlock L h m of (res, m') \<Rightarrow> (ignore_err res, q\<lparr>qu_locks := m'\<rparr>))
      | (res, m) \<Rightarrow> (ignore_err res, q\<lparr>qu_locks := m\<rparr>))"

definition qm_lock_ids_in_order ::
    "('m, 'h) lock_ops \<Rightarrow> string list \<Rightarrow> (('r, 'm) queued, read_model_error, 'h list) call" where
  "qm_lock_ids_in_order L keys = qm_locks (lock_ids_in_order L keys)"

section \<open>Reads\<close>

definition qm_get_model ::
    "'d read_model \<Rightarrow> ('r, 'd) rm_ops \<Rightarrow> ('m, 'h) lock_ops \<Rightarrow> string \<Rightarrow>
     (('r, 'm) queued, read_model_error, 'd versioned option) call" where
  "qm_get_model M S L ident =
     st_bind (qm_ensure_lock L (qm_key M ident)) (\<lambda>h.
     st_bind (qm_locks (lo_lock L h)) (\<lambda>_.
     q_inner (rmo_get_model S ident)))"

text \<open>
  The searches read twice, before and after they take the locks; \<open>env\<close> is what other threads
  did to the inner store in between.
\<close>

fun qm_refetch ::
    "'d read_model \<Rightarrow> ('r, 'd) rm_ops \<Rightarrow> ('m, 'h) lock_ops \<Rightarrow> ('d \<Rightarrow> bool) \<Rightarrow> 'd versioned list \<Rightarrow>
     (('r, 'm) queued, read_model_error, 'd versioned list) call" where
  "qm_refetch M S L p [] = st_return []"
| "qm_refetch M S L p (v # vs) =
     (let ident = md_id M (vs_data v) in
      st_bind (q_inner (rmo_get_model S ident)) (\<lambda>found.
      case found of
        Some cur \<Rightarrow>
          if p (vs_data cur)
          then st_bind (qm_refetch M S L p vs) (\<lambda>rest. st_return (cur # rest))
          else st_bind (qm_release L (qm_key M ident)) (\<lambda>_. qm_refetch M S L p vs)
      | None \<Rightarrow> st_bind (qm_release L (qm_key M ident)) (\<lambda>_. qm_refetch M S L p vs)))"

definition qm_others :: "('r \<Rightarrow> 'r) \<Rightarrow> (('r, 'm) queued, read_model_error, unit) call" where
  "qm_others env q = (Ok (), q\<lparr>qu_inner := env (qu_inner q)\<rparr>)"

definition qm_find_models ::
    "'d read_model \<Rightarrow> ('r, 'd) rm_ops \<Rightarrow> ('m, 'h) lock_ops \<Rightarrow> ('r \<Rightarrow> 'r) \<Rightarrow> ('d \<Rightarrow> bool) \<Rightarrow>
     (('r, 'm) queued, read_model_error, 'd versioned list) call" where
  "qm_find_models M S L env p =
     st_bind (q_inner (rmo_find_models S p)) (\<lambda>matches.
     let keys = map (\<lambda>v. qm_key M (md_id M (vs_data v))) matches in
     st_bind (qm_lock_ids_in_order L keys) (\<lambda>_.
     st_bind (qm_others env) (\<lambda>_.
     qm_refetch M S L p matches)))"

definition qm_find_one_model ::
    "'d read_model \<Rightarrow> ('r, 'd) rm_ops \<Rightarrow> ('m, 'h) lock_ops \<Rightarrow> ('r \<Rightarrow> 'r) \<Rightarrow> ('d \<Rightarrow> bool) \<Rightarrow>
     (('r, 'm) queued, read_model_error, 'd versioned option) call" where
  "qm_find_one_model M S L env p =
     st_bind (q_inner (rmo_find_one_model S p)) (\<lambda>found.
     case found of
       None \<Rightarrow> st_return None
     | Some v \<Rightarrow>
         (let ident = md_id M (vs_data v) in
          st_bind (qm_ensure_lock L (qm_key M ident)) (\<lambda>h.
          st_bind (qm_locks (lo_lock L h)) (\<lambda>_.
          st_bind (qm_others env) (\<lambda>_.
          st_bind (q_inner (rmo_get_model S ident)) (\<lambda>again.
          if (case again of Some cur \<Rightarrow> p (vs_data cur) | None \<Rightarrow> False)
          then st_return again
          else st_bind (qm_locks (lo_unlock L h)) (\<lambda>_. st_return None)))))))"

section \<open>Writes\<close>

text \<open>The result of the inner store is returned; when it is a success the lock is released.\<close>

definition qm_releasing ::
    "('m, 'h) lock_ops \<Rightarrow> string \<Rightarrow> (('r, 'm) queued, read_model_error, 'a) call \<Rightarrow>
     (('r, 'm) queued, read_model_error, 'a) call" where
  "qm_releasing L key f =
     st_bind f (\<lambda>a. st_bind (qm_release L key) (\<lambda>_. st_return a))"

definition qm_upsert ::
    "'d read_model \<Rightarrow> ('r, 'd) rm_ops \<Rightarrow> ('m, 'h) lock_ops \<Rightarrow> 'd \<Rightarrow>
     (('r, 'm) queued, read_model_error, 'd versioned) call" where
  "qm_upsert M S L model = qm_releasing L (qm_key M (md_id M model)) (q_inner (rmo_upsert S model))"

definition qm_insert ::
    "'d read_model \<Rightarrow> ('r, 'd) rm_ops \<Rightarrow> ('m, 'h) lock_ops \<Rightarrow> 'd \<Rightarrow>
     (('r, 'm) queued, read_model_error, 'd versioned) call" where
  "qm_insert M S L model = qm_releasing L (qm_key M (md_id M model)) (q_inner (rmo_insert S model))"

definition qm_update ::
    "'d read_model \<Rightarrow> ('r, 'd) rm_ops \<Rightarrow> ('m, 'h) lock_ops \<Rightarrow> 'd \<Rightarrow> u64 \<Rightarrow>
     (('r, 'm) queued, read_model_error, 'd versioned) call" where
  "qm_update M S L model expected =
     qm_releasing L (qm_key M (md_id M model)) (q_inner (rmo_update S model expected))"

definition qm_delete ::
    "'d read_model \<Rightarrow> ('r, 'd) rm_ops \<Rightarrow> ('m, 'h) lock_ops \<Rightarrow> string \<Rightarrow>
     (('r, 'm) queued, read_model_error, bool) call" where
  "qm_delete M S L ident = qm_releasing L (qm_key M ident) (q_inner (rmo_delete S ident))"

definition qm_upsert_raw ::
    "('r, 'd) rm_ops \<Rightarrow> ('m, 'h) lock_ops \<Rightarrow> string \<Rightarrow> bytes \<Rightarrow>
     (('r, 'm) queued, read_model_error, unit) call" where
  "qm_upsert_raw S L key bs = qm_releasing L key (q_inner (rmo_upsert_raw S key bs))"

definition queued_models ::
    "'d read_model \<Rightarrow> ('r, 'd) rm_ops \<Rightarrow> ('m, 'h) lock_ops \<Rightarrow> ('r \<Rightarrow> 'r) \<Rightarrow> (('r, 'm) queued, 'd) rm_ops" where
  "queued_models M S L env =
     \<lparr>rmo_get_model = qm_get_model M S L, rmo_upsert = qm_upsert M S L, rmo_insert = qm_insert M S L,
      rmo_update = qm_update M S L, rmo_delete = qm_delete M S L,
      rmo_find_models = qm_find_models M S L env, rmo_find_one_model = qm_find_one_model M S L env,
      rmo_upsert_raw = qm_upsert_raw S L\<rparr>"

text \<open>The commit is the inner one; it touches no lock.\<close>

definition qm_commit :: "'r repo_ops \<Rightarrow> (('r, 'm) queued \<times> entity list, repository_error, unit) call" where
  "qm_commit R s =
     (case s of (q, es) \<Rightarrow>
        (case op_commit R (qu_inner q, es) of (res, r, es') \<Rightarrow> (res, q\<lparr>qu_inner := r\<rparr>, es')))"

section \<open>Reads with options\<close>

definition qm_get_model_with ::
    "'d read_model \<Rightarrow> ('r, 'd) rm_ops \<Rightarrow> ('m, 'h) lock_ops \<Rightarrow> string \<Rightarrow> read_opts \<Rightarrow>
     (('r, 'm) queued, read_model_error, 'd versioned option) call" where
  "qm_get_model_with M S L ident opts =
     (if ro_lock opts then qm_get_model M S L ident else q_inner (rmo_get_model S ident))"

definition qm_find_models_with ::
    "'d read_model \<Rightarrow> ('r, 'd) rm_ops \<Rightarrow> ('m, 'h) lock_ops \<Rightarrow> ('r \<Rightarrow> 'r) \<Rightarrow> ('d \<Rightarrow> bool) \<Rightarrow> read_opts \<Rightarrow>
     (('r, 'm) queued, read_model_error, 'd versioned list) call" where
  "qm_find_models_with M S L env p opts =
     (if ro_lock opts then qm_find_models M S L env p else q_inner (rmo_find_models S p))"

definition qm_find_one_model_with ::
    "'d read_model \<Rightarrow> ('r, 'd) rm_ops \<Rightarrow> ('m, 'h) lock_ops \<Rightarrow> ('r \<Rightarrow> 'r) \<Rightarrow> ('d \<Rightarrow> bool) \<Rightarrow> read_opts \<Rightarrow>
     (('r, 'm) queued, read_model_error, 'd versioned option) call" where
  "qm_find_one_model_with M S L env p opts =
     (if ro_lock opts then qm_find_one_model M S L env p else q_inner (rmo_find_one_model S p))"

section \<open>The lock protocol\<close>

text \<open>Which of the matches still match, in a table of the store.\<close>

definition still :: "'d read_model \<Rightarrow> 'd table \<Rightarrow> ('d \<Rightarrow> bool) \<Rightarrow> 'd versioned \<Rightarrow> 'd versioned option" where
  "still M t p v =
     (case t (md_id M (vs_data v)) of
        Some c \<Rightarrow> if p (vs_data c) then Some c else None | None \<Rightarrow> None)"

definition stale_keys :: "'d read_model \<Rightarrow> 'd table \<Rightarrow> ('d \<Rightarrow> bool) \<Rightarrow> 'd versioned list \<Rightarrow> string set" where
  "stale_keys M t p vs = {qm_key M (md_id M (vs_data v)) | v. v \<in> set vs \<and> still M t p v = None}"

lemma stale_keys_Cons:
  "stale_keys M t p (v # vs) =
     (if still M t p v = None then {qm_key M (md_id M (vs_data v))} else {}) \<union> stale_keys M t p vs"
  by (auto simp: stale_keys_def)

locale queued_model_store =
  models: read_model_service S coll ident table sinv storable + locks: lock_service L held linv handle
  for S :: "('r, 'd) rm_ops" and coll and ident and table and sinv and storable
    and L :: "('m, 'h) lock_ops" and held and linv and handle +
  fixes M :: "'d read_model"
  assumes coll_M: "coll = md_collection M" and ident_M: "ident = md_id M"
begin

abbreviation qmheld :: "('r, 'm) queued \<Rightarrow> string set" where
  "qmheld q \<equiv> held (qu_locks q)"

abbreviation qminv :: "('r, 'm) queued \<Rightarrow> bool" where
  "qminv q \<equiv> sinv (qu_inner q) \<and> linv (qu_locks q)"

lemma ensure_lock:
  assumes "linv (qu_locks q)"
  shows "\<exists>m. qm_ensure_lock L k q = (Ok (handle k), q\<lparr>qu_locks := m\<rparr>) \<and> linv m \<and> held m = qmheld q"
  using locks.get_lock [of "qu_locks q" k] assms
  by (auto simp: qm_ensure_lock_def qm_locks_def)

lemma get_model_free:
  assumes "qminv q" and "qm_key M i \<notin> qmheld q"
  shows "\<exists>q'. qm_get_model M S L i q = (Ok (table (qu_inner q) i), q') \<and> qminv q' \<and>
              qu_inner q' = qu_inner q \<and> qmheld q' = insert (qm_key M i) (qmheld q)"
proof -
  obtain m where m: "qm_ensure_lock L (qm_key M i) q = (Ok (handle (qm_key M i)), q\<lparr>qu_locks := m\<rparr>)" "linv m"
    "held m = qmheld q" using ensure_lock assms(1) by blast
  obtain m' where m': "lo_lock L (handle (qm_key M i)) m = (Ok (), m')" "linv m'" "held m' = insert (qm_key M i) (held m)"
    using locks.lock_free [OF m(2), of "qm_key M i"] m(3) assms(2) by auto
  have "qm_get_model M S L i q = (Ok (table (qu_inner q) i), q\<lparr>qu_locks := m'\<rparr>)"
    using m m' models.get_eq assms(1) by (simp add: qm_get_model_def qm_locks_def q_inner_def)
  with m' m assms(1) show ?thesis by auto
qed

lemma get_model_held:
  assumes "qminv q" and "qm_key M i \<in> qmheld q"
  shows "\<exists>q'. qm_get_model M S L i q = (Stuck, q') \<and> qminv q' \<and> qu_inner q' = qu_inner q \<and> qmheld q' = qmheld q"
proof -
  obtain m where m: "qm_ensure_lock L (qm_key M i) q = (Ok (handle (qm_key M i)), q\<lparr>qu_locks := m\<rparr>)" "linv m"
    "held m = qmheld q" using ensure_lock assms(1) by blast
  obtain m' where m': "lo_lock L (handle (qm_key M i)) m = (Stuck, m')" "linv m'" "held m' = held m"
    using locks.lock_held [OF m(2), of "qm_key M i"] m(3) assms(2) by auto
  have "qm_get_model M S L i q = (Stuck, q\<lparr>qu_locks := m'\<rparr>)"
    using m m' by (simp add: qm_get_model_def qm_locks_def)
  with m' m assms(1) show ?thesis by auto
qed

lemma release_frees:
  assumes "linv (qu_locks q)"
  shows "\<exists>m. qm_release L k q = (Ok (), q\<lparr>qu_locks := m\<rparr>) \<and> linv m \<and> held m = qmheld q - {k}"
proof -
  obtain m where m: "lo_get_lock L k (qu_locks q) = (Ok (handle k), m)" "linv m" "held m = qmheld q"
    using locks.get_lock [OF assms, of k] by blast
  with locks.unlock [OF m(2), of k] show ?thesis by (auto simp: qm_release_def)
qed

lemma releasing_Ok:
  assumes "linv (qu_locks q)" and "f (qu_inner q) = (Ok a, r')"
  shows "\<exists>m. qm_releasing L k (q_inner f) q = (Ok a, q\<lparr>qu_inner := r', qu_locks := m\<rparr>) \<and> linv m \<and>
              held m = qmheld q - {k}"
  using release_frees [of "q\<lparr>qu_inner := r'\<rparr>" k] assms
  by (auto simp: qm_releasing_def q_inner_def)

lemma releasing_Err:
  assumes "f (qu_inner q) = (Err e, r')"
  shows "qm_releasing L k (q_inner f) q = (Err e, q\<lparr>qu_inner := r'\<rparr>)"
  using assms by (simp add: qm_releasing_def q_inner_def)

lemma refetch:
  assumes "qminv q"
  shows "\<exists>m. qm_refetch M S L p vs q =
        (Ok (List.map_filter (still M (table (qu_inner q)) p) vs), q\<lparr>qu_locks := m\<rparr>) \<and> linv m \<and>
      held m = qmheld q - stale_keys M (table (qu_inner q)) p vs"
  using assms
proof (induction vs arbitrary: q)
  case Nil
  then show ?case by (intro exI [of _ "qu_locks q"]) (simp add: map_filter_simps stale_keys_def)
next
  case (Cons v vs)
  let ?i = "md_id M (vs_data v)" and ?t = "table (qu_inner q)"
  have get: "q_inner (rmo_get_model S ?i) q = (Ok (?t ?i), q)"
    using models.get_eq Cons.prems by (simp add: q_inner_def)
  show ?case
  proof (cases "still M ?t p v")
    case (Some c)
    then have t: "?t ?i = Some c" "p (vs_data c)"
      by (auto simp: still_def split: option.splits if_splits)
    from Cons.IH [OF Cons.prems] obtain m where m:
      "qm_refetch M S L p vs q = (Ok (List.map_filter (still M ?t p) vs), q\<lparr>qu_locks := m\<rparr>)" "linv m"
      "held m = qmheld q - stale_keys M ?t p vs" by auto
    with Some t get show ?thesis
      by (intro exI [of _ m]) (auto simp: Let_def map_filter_simps stale_keys_Cons)
  next
    case None
    then have t: "case ?t ?i of None \<Rightarrow> True | Some c \<Rightarrow> \<not> p (vs_data c)"
      by (auto simp: still_def split: option.splits if_splits)
    obtain m1 where m1: "qm_release L (qm_key M ?i) q = (Ok (), q\<lparr>qu_locks := m1\<rparr>)" "linv m1"
      "held m1 = qmheld q - {qm_key M ?i}"
      using release_frees Cons.prems by blast
    from Cons.IH [of "q\<lparr>qu_locks := m1\<rparr>"] m1(2) Cons.prems obtain m where m:
      "qm_refetch M S L p vs (q\<lparr>qu_locks := m1\<rparr>) =
         (Ok (List.map_filter (still M ?t p) vs), q\<lparr>qu_locks := m\<rparr>)" "linv m"
      "held m = held m1 - stale_keys M ?t p vs" by auto
    have "qm_refetch M S L p (v # vs) q = qm_refetch M S L p vs (q\<lparr>qu_locks := m1\<rparr>)"
      using get m1(1) t by (auto simp: Let_def split: option.splits)
    with m m1(3) None show ?thesis
      by (intro exI [of _ m]) (auto simp: map_filter_simps stale_keys_Cons)
  qed
qed

lemma find_models_locks:
  assumes "qminv q" and "sinv (env (qu_inner q))"
    and "rmo_find_models S p (qu_inner q) = (Ok vs, qu_inner q)"
    and "qm_key M ` md_id M ` vs_data ` set vs \<inter> qmheld q = {}"
  shows "\<exists>q'. qm_find_models M S L env p q =
        (Ok (List.map_filter (still M (table (env (qu_inner q))) p) vs), q') \<and> qminv q' \<and>
      qu_inner q' = env (qu_inner q) \<and>
      qmheld q' = qmheld q \<union> qm_key M ` md_id M ` vs_data ` set vs
        - stale_keys M (table (env (qu_inner q))) p vs"
proof -
  let ?keys = "map (\<lambda>v. qm_key M (md_id M (vs_data v))) vs"
  have ks: "set ?keys = qm_key M ` md_id M ` vs_data ` set vs" by auto
  obtain m where m: "lock_ids_in_order L ?keys (qu_locks q) = (Ok (map handle (sort_dedup ?keys)), m)"
    "linv m" "held m = qmheld q \<union> set ?keys"
    using locks.lock_ids_in_order_Ok [of "qu_locks q" ?keys] assms(1,4) ks by auto
  let ?q = "q\<lparr>qu_locks := m, qu_inner := env (qu_inner q)\<rparr>"
  have "qm_find_models M S L env p q = qm_refetch M S L p vs ?q"
    using assms(3) m(1)
    by (simp add: qm_find_models_def q_inner_def qm_lock_ids_in_order_def qm_locks_def qm_others_def Let_def)
  with refetch [of ?q p vs] m assms(2) ks show ?thesis by auto
qed

end

interpretation qmem: queued_model_store "in_memory_models M ord" "md_collection M" "md_id M" "rm_table M"
    "rm_inv M ord" "rm_storable M" in_memory_locks lm_held lm_inv "\<lambda>k. k" M
  for M :: "'m read_model" and ord
  by unfold_locales simp_all

section \<open>Properties\<close>

text \<open>
  C27: Read, then write.  \<open>get\<close> on a free model returns it and takes its lock, under which any
  other \<open>get\<close> of it waits; an update with the version that was read then succeeds, raises the
  version by one and gives the lock back.  An update with another version is refused, and
  keeps the lock.
\<close>

theorem queued_model_read_modify_write:
  assumes "rm_inv M ord (qu_inner q)" and "lm_inv (qu_locks q)"
    and "make_key (md_collection M) i \<notin> lm_held (qu_locks q)"
    and "rm_table M (qu_inner q) i = Some old" and "md_id M model = i" and "rm_storable M model"
  shows "\<exists>q1. qm_get_model M (in_memory_models M ord) in_memory_locks i q = (Ok (Some old), q1) \<and>
    fst (qm_get_model M (in_memory_models M ord) in_memory_locks i q1) = Stuck \<and>
    (\<exists>q2. qm_update M (in_memory_models M ord) in_memory_locks model (vs_version old) q1 =
         (Ok \<lparr>vs_data = model, vs_version = vs_version old + 1\<rparr>, q2) \<and>
       rm_table M (qu_inner q2) i = Some \<lparr>vs_data = model, vs_version = vs_version old + 1\<rparr> \<and>
       lm_held (qu_locks q2) = lm_held (qu_locks q)) \<and>
    (\<forall>v. v \<noteq> vs_version old \<longrightarrow>
       (\<exists>err q2. qm_update M (in_memory_models M ord) in_memory_locks model v q1 = (Err err, q2) \<and>
          make_key (md_collection M) i \<in> lm_held (qu_locks q2)))"
proof -
  let ?S = "in_memory_models M ord" and ?k = "make_key (md_collection M) i"
  obtain q1 where q1: "qm_get_model M ?S in_memory_locks i q = (Ok (Some old), q1)"
    "rm_inv M ord (qu_inner q1)" "lm_inv (qu_locks q1)" "qu_inner q1 = qu_inner q"
    "lm_held (qu_locks q1) = insert ?k (lm_held (qu_locks q))"
    using qmem.get_model_free [where M = M and ord = ord and q = q and i = i] assms(1-4)
    by (auto simp: qm_key_def)
  have again: "fst (qm_get_model M ?S in_memory_locks i q1) = Stuck"
    using qmem.get_model_held [where M = M and ord = ord and q = q1 and i = i] q1(2,3,5)
    by (auto simp: qm_key_def)
  have t: "rm_table M (qu_inner q1) (md_id M model) = Some old" using q1(4) assms(4,5) by simp
  have key: "qm_key M (md_id M model) = ?k" using assms(5) by (simp add: qm_key_def)
  obtain r where r: "rmo_update ?S model (vs_version old) (qu_inner q1) = (Ok (bump (Some old) model), r)"
    "rm_table M r = (rm_table M (qu_inner q1))(md_id M model \<mapsto> bump (Some old) model)"
    using mem_models.update_current [OF q1(2) assms(6) t] by blast
  from qmem.releasing_Ok [where q = q1 and f = "rmo_update ?S model (vs_version old)" and k = ?k, OF q1(3) r(1)] obtain m where
    "qm_update M ?S in_memory_locks model (vs_version old) q1 =
       (Ok (bump (Some old) model), q1\<lparr>qu_inner := r, qu_locks := m\<rparr>)"
    "lm_held m = lm_held (qu_locks q1) - {?k}"
    by (auto simp: qm_update_def key)
  moreover have "lm_held (qu_locks q1) - {?k} = lm_held (qu_locks q)" using q1(5) assms(3) by auto
  ultimately have ok: "\<exists>q2. qm_update M ?S in_memory_locks model (vs_version old) q1 =
         (Ok \<lparr>vs_data = model, vs_version = vs_version old + 1\<rparr>, q2) \<and>
       rm_table M (qu_inner q2) i = Some \<lparr>vs_data = model, vs_version = vs_version old + 1\<rparr> \<and>
       lm_held (qu_locks q2) = lm_held (qu_locks q)"
    using r(2) assms(5) by (auto simp: bump_def)
  have err: "\<exists>err q2. qm_update M ?S in_memory_locks model v q1 = (Err err, q2) \<and> ?k \<in> lm_held (qu_locks q2)"
    if ne: "vs_version old \<noteq> v" for v
  proof -
    obtain e r where e: "rmo_update ?S model v (qu_inner q1) = (Err e, r)"
      using mem_models.update_conflict [OF q1(2) assms(6) t ne] by blast
    from qmem.releasing_Err [where q = q1 and f = "rmo_update ?S model v" and k = ?k, OF e] q1(5) show ?thesis by (auto simp: qm_update_def key)
  qed
  show ?thesis
    by (rule exI [of _ q1], intro conjI allI impI, rule q1(1), rule again, rule ok, rule err, erule not_sym)
qed

theorem queued_model_read_modify_write_witness:
  "\<exists>q q1 q2. qm_get_model (text_model ''views'') (in_memory_models (text_model ''views'') Mapping.ordered_keys)
       in_memory_locks ''a'' q = (Ok (Some \<lparr>vs_data = (''a'', 7), vs_version = 1\<rparr>), q1) \<and>
     qm_update (text_model ''views'') (in_memory_models (text_model ''views'') Mapping.ordered_keys)
       in_memory_locks (''a'', 8) 1 q1 = (Ok \<lparr>vs_data = (''a'', 8), vs_version = 2\<rparr>, q2)"
proof -
  let ?M = "text_model ''views''"
  obtain r where r: "rm_inv ?M Mapping.ordered_keys r"
    "rm_table ?M r ''a'' = Some \<lparr>vs_data = (''a'', 7), vs_version = 1\<rparr>"
  proof -
    have "rm_table ?M rm_store_new ''a'' = None" by (simp add: rm_table_def rm_store_new_def lookup_empty)
    with mem_models.upsert_eq [OF text_model_ok text_model_storable, of "''views''" "(''a'', 7)"] that
    show thesis by (auto simp: bump_def)
  qed
  define q where "q = queued_new r"
  have q: "qu_inner q = r" "lm_inv (qu_locks q)" "lm_held (qu_locks q) = {}"
    by (simp_all add: q_def queued_new_def)
  have inv: "rm_inv ?M Mapping.ordered_keys (qu_inner q)"
    "rm_table ?M (qu_inner q) ''a'' = Some \<lparr>vs_data = (''a'', 7), vs_version = 1\<rparr>"
    "make_key (md_collection ?M) ''a'' \<notin> lm_held (qu_locks q)"
    using r q by simp_all
  from queued_model_read_modify_write [OF inv(1) q(2) inv(3,2), of "(''a'', 8)"]
  show ?thesis by auto
qed

text \<open>
  A search takes the locks of what it found before it reads it again, and gives back those
  of the models that other threads changed or deleted in between so that they no longer match:
  on return it holds, beside what was held before, exactly the locks of the models it returns,
  each of which matches and is as it is now stored.
\<close>

theorem queued_find_holds_its_results:
  assumes "rm_inv M ord (qu_inner q)" and "lm_inv (qu_locks q)" and "rm_inv M ord (env (qu_inner q))"
    and "\<forall>i v. rm_table M (qu_inner q) i = Some v \<longrightarrow> p (vs_data v) \<longrightarrow>
           make_key (md_collection M) i \<notin> lm_held (qu_locks q)"
  shows "\<exists>rs q'. qm_find_models M (in_memory_models M ord) in_memory_locks env p q = (Ok rs, q') \<and>
    qu_inner q' = env (qu_inner q) \<and>
    set rs = {v. \<exists>i old. rm_table M (qu_inner q) i = Some old \<and> p (vs_data old) \<and>
                 rm_table M (env (qu_inner q)) i = Some v \<and> p (vs_data v)} \<and>
    lm_held (qu_locks q') =
      lm_held (qu_locks q) \<union> {make_key (md_collection M) (md_id M (vs_data v)) | v. v \<in> set rs}"
proof -
  let ?S = "in_memory_models M ord" and ?t = "rm_table M (qu_inner q)" and ?t' = "rm_table M (env (qu_inner q))"
  obtain vs where vs: "rmo_find_models ?S p (qu_inner q) = (Ok vs, qu_inner q)"
    "set vs = {v. \<exists>i. ?t i = Some v \<and> p (vs_data v)}"
    using mem_models.find [OF assms(1), of p] by blast
  note ids = mem_models.stored_id [OF assms(1)] and ids' = mem_models.stored_id [OF assms(3)]
  have free: "qm_key M ` md_id M ` vs_data ` set vs \<inter> lm_held (qu_locks q) = {}"
    using assms(4) ids by (auto simp: vs(2) qm_key_def)
  let ?rs = "List.map_filter (still M ?t' p) vs"
  have sinv: "rm_inv M ord (qu_inner q) \<and> lm_inv (qu_locks q)" using assms(1,2) by simp
  from qmem.find_models_locks [where M = M and ord = ord and q = q and env = env and p = p, OF sinv assms(3) vs(1) free]
  obtain q' where q': "qm_find_models M ?S in_memory_locks env p q = (Ok ?rs, q')" "qu_inner q' = env (qu_inner q)"
    "lm_held (qu_locks q') = lm_held (qu_locks q) \<union> qm_key M ` md_id M ` vs_data ` set vs - stale_keys M ?t' p vs"
    by blast
  have old: "?t (md_id M (vs_data v)) = Some v \<and> p (vs_data v)" if "v \<in> set vs" for v
    using that ids by (auto simp: vs(2))
  have rs: "set ?rs = {v. \<exists>i old. ?t i = Some old \<and> p (vs_data old) \<and> ?t' i = Some v \<and> p (vs_data v)}"
    using ids by (fastforce simp: set_map_filter vs(2) still_def split: option.splits if_splits)
  have kept: "qm_key M ` md_id M ` vs_data ` set vs - stale_keys M ?t' p vs =
      {make_key (md_collection M) (md_id M (vs_data v)) | v. v \<in> set ?rs}"
    (is "?l = ?r")
  proof (intro set_eqI iffI)
    fix k assume "k \<in> ?l"
    then obtain v where v: "v \<in> set vs" "k = qm_key M (md_id M (vs_data v))" "still M ?t' p v \<noteq> None"
      unfolding stale_keys_def by blast
    then obtain c where c: "?t' (md_id M (vs_data v)) = Some c" "p (vs_data c)"
      by (auto simp: still_def split: option.splits if_splits)
    have "c \<in> set ?rs" unfolding rs using old [OF v(1)] c by blast
    moreover have "k = make_key (md_collection M) (md_id M (vs_data c))"
      using v(2) ids' [OF c(1)] by (simp add: qm_key_def)
    ultimately show "k \<in> ?r" by blast
  next
    fix k assume "k \<in> ?r"
    then obtain c where c: "c \<in> set ?rs" "k = make_key (md_collection M) (md_id M (vs_data c))" by blast
    then obtain i v where v: "?t i = Some v" "p (vs_data v)" "?t' i = Some c" "p (vs_data c)" unfolding rs by blast
    have i: "md_id M (vs_data v) = i" "md_id M (vs_data c) = i" using ids [OF v(1)] ids' [OF v(3)] by simp_all
    have "v \<in> set vs" using v(1,2) vs(2) by blast
    moreover have "still M ?t' p w \<noteq> None" if "w \<in> set vs" "qm_key M (md_id M (vs_data w)) = k" for w
      using that c(2) i v(3,4) by (simp add: qm_key_def still_def)
    ultimately show "k \<in> ?l" using c(2) i unfolding stale_keys_def qm_key_def by blast
  qed
  have disj: "lm_held (qu_locks q) \<inter> stale_keys M ?t' p vs = {}"
    using free by (auto simp: stale_keys_def)
  then have "lm_held (qu_locks q') = lm_held (qu_locks q) \<union> {make_key (md_collection M) (md_id M (vs_data v)) | v. v \<in> set ?rs}"
    unfolding q'(3) using kept by blast
  with q'(1,2) rs show ?thesis by blast
qed

theorem queued_find_holds_its_results_witness:
  "\<exists>q rs q'. qm_find_models (text_model ''views'') (in_memory_models (text_model ''views'') Mapping.ordered_keys)
       in_memory_locks (\<lambda>r. snd (rmo_upsert (in_memory_models (text_model ''views'') Mapping.ordered_keys) (''a'', 0) r))
       (\<lambda>m. 5 < snd m) q = (Ok rs, q') \<and>
     rm_table (text_model ''views'') (qu_inner q) ''a'' = Some \<lparr>vs_data = (''a'', 7), vs_version = 1\<rparr> \<and>
     rs = [] \<and> lm_held (qu_locks q') = {}"
proof -
  let ?M = "text_model ''views''" and ?S = "in_memory_models (text_model ''views'') Mapping.ordered_keys"
  let ?env = "\<lambda>r. snd (rmo_upsert ?S (''a'', 0) r)"
  have none: "rm_table ?M rm_store_new i = None" for i by (simp add: rm_table_def rm_store_new_def lookup_empty)
  obtain r where r: "rm_inv ?M Mapping.ordered_keys r"
    "rm_table ?M r = [''a'' \<mapsto> \<lparr>vs_data = (''a'', 7), vs_version = 1\<rparr>]"
    using mem_models.upsert_eq [OF text_model_ok text_model_storable, of "''views''" "(''a'', 7)"] none
    by (auto simp: bump_def fun_eq_iff)
  obtain r' where r': "?env r = r'" "rm_inv ?M Mapping.ordered_keys r'"
    "rm_table ?M r' = [''a'' \<mapsto> \<lparr>vs_data = (''a'', 0), vs_version = 2\<rparr>]"
    using mem_models.upsert_eq [OF r(1) text_model_storable, of "(''a'', 0)"] r(2)
    by (auto simp: bump_def fun_eq_iff)
  define q where "q = queued_new r"
  have q: "qu_inner q = r" "lm_inv (qu_locks q)" "lm_held (qu_locks q) = {}"
    by (simp_all add: q_def queued_new_def)
  have inv: "rm_inv ?M Mapping.ordered_keys (qu_inner q)" "rm_inv ?M Mapping.ordered_keys (?env (qu_inner q))"
    using r r' q by simp_all
  have free: "\<forall>i v. rm_table ?M (qu_inner q) i = Some v \<longrightarrow> 5 < snd (vs_data v) \<longrightarrow>
      make_key (md_collection ?M) i \<notin> lm_held (qu_locks q)" using q(3) by simp
  obtain rs q' where res: "qm_find_models ?M ?S in_memory_locks ?env (\<lambda>m. 5 < snd m) q = (Ok rs, q')"
    "set rs = {v. \<exists>i old. rm_table ?M r i = Some old \<and> 5 < snd (vs_data old) \<and>
       rm_table ?M r' i = Some v \<and> 5 < snd (vs_data v)}"
    "lm_held (qu_locks q') = {make_key (md_collection ?M) (md_id ?M (vs_data v)) | v. v \<in> set rs}"
    using queued_find_holds_its_results [where p = "\<lambda>m. 5 < snd m" and env = ?env, OF inv(1) q(2) inv(2) free] q r'(1)
    by auto
  have "set rs = {}" unfolding res(2) r(2) r'(3) by (auto split: if_splits)
  with res(1,3) q(1) r(2) show ?thesis by (intro exI [of _ q] exI [of _ rs] exI [of _ q']) simp
qed

end
