(* ===== verification/Snapshot.thy ===== *)
theory Snapshot
  imports Aggregate
begin

text \<open>
  Snapshot-aware aggregates (\<open>src/snapshot/snapshottable.rs\<close>, \<open>repository.rs\<close>): hydration from
  a snapshot, and the repository that takes a snapshot when enough events were committed.  The
  contract of a snapshottable aggregate is a locale; its instance is the \<open>Todo\<close> aggregate of
  the snapshot tests, with what \<open>derive(Snapshot)\<close>, \<open>digest\<close> and \<open>aggregate!\<close> generate for it.
\<close>

section \<open>The trait\<close>

text \<open>\<open>sp_serialize\<close> and \<open>sp_deserialize\<close> are \<open>bitcode\<close> at the snapshot type.\<close>

record ('a, 's) snapshottable = "'a aggregate" +
  sp_create_snapshot :: "'a \<Rightarrow> 's"
  sp_restore :: "'s \<Rightarrow> 'a \<Rightarrow> 'a"
  sp_serialize :: "'s \<Rightarrow> string + bytes"
  sp_deserialize :: "bytes \<Rightarrow> string + 's"

section \<open>Hydration from a snapshot\<close>

definition hydrate_from_snapshot ::
    "('a, 's, 'z) snapshottable_scheme \<Rightarrow> entity \<Rightarrow> snapshot_record \<Rightarrow>
     (repository_error, 'a) outcome" where
  "hydrate_from_snapshot A e snapshot =
     (let agg = ag_set_entity A e (ag_new_empty A);
          agg1 = on_entity A (set_snapshot_version (sn_version snapshot)) agg
      in case sp_deserialize A (sn_data snapshot) of
        Inl msg \<Rightarrow> Err (RE_Replay (''snapshot deserialize: '' @ msg))
      | Inr snap \<Rightarrow>
          (let agg2 = sp_restore A snap agg1;
               post = filter (\<lambda>ev. er_sequence ev > sn_version snapshot)
                        (en_events (ag_entity A agg2))
           in case upcast_all A post of
             None \<Rightarrow> Stuck
           | Some events \<Rightarrow> replay_loop A events agg2))"

definition hydrate_with_optional_snapshot ::
    "('a, 's, 'z) snapshottable_scheme \<Rightarrow> entity \<Rightarrow> snapshot_record option \<Rightarrow>
     (repository_error, 'a) outcome" where
  "hydrate_with_optional_snapshot A e snapshot =
     (case snapshot of
        Some snap \<Rightarrow>
          (if sn_version snap \<le> en_version e then hydrate_from_snapshot A e snap else hydrate A e)
      | None \<Rightarrow> hydrate A e)"

section \<open>The repository\<close>

text \<open>
  The repository is used through its operations \<open>R\<close>, its snapshot operations \<open>P\<close> and, behind a
  lock, \<open>Q\<close>.
\<close>

definition sr_get ::
    "('a, 's, 'z) snapshottable_scheme \<Rightarrow> 'r repo_ops \<Rightarrow> 'r snap_ops \<Rightarrow> string \<Rightarrow>
     ('r, repository_error, 'a option) call" where
  "sr_get A R P ident =
     st_bind (op_get_one R ident) (\<lambda>found.
     case found of
       None \<Rightarrow> st_return None
     | Some e \<Rightarrow>
         st_bind (so_get_snapshot P ident) (\<lambda>snapshot.
         st_lift (map_ok Some (hydrate_with_optional_snapshot A e snapshot))))"

definition sr_hydrate ::
    "('a, 's, 'z) snapshottable_scheme \<Rightarrow> 'r snap_ops \<Rightarrow> entity \<Rightarrow> ('r, repository_error, 'a) call" where
  "sr_hydrate A P e =
     st_bind (so_get_snapshot P (en_id e)) (\<lambda>snapshot.
     st_lift (hydrate_with_optional_snapshot A e snapshot))"

definition sr_get_all ::
    "('a, 's, 'z) snapshottable_scheme \<Rightarrow> 'r repo_ops \<Rightarrow> 'r snap_ops \<Rightarrow> string list \<Rightarrow>
     ('r, repository_error, 'a list) call" where
  "sr_get_all A R P ids =
     st_bind (op_get_many R ids) (\<lambda>es. st_collect (sr_hydrate A P) es)"

definition maybe_snapshot ::
    "('a, 's, 'z) snapshottable_scheme \<Rightarrow> 'r snap_ops \<Rightarrow> u64 \<Rightarrow>
     ('r \<times> 'a, repository_error, unit) call" where
  "maybe_snapshot A P frequency s =
     (case s of (r, agg) \<Rightarrow>
        let version = en_version (ag_entity A agg);
            snap_version = en_snapshot_version (ag_entity A agg)
        in if version \<ge> snap_version + frequency
           then (case sp_serialize A (sp_create_snapshot A agg) of
               Inl msg \<Rightarrow> (Err (RE_Replay (''snapshot serialize: '' @ msg)), r, agg)
             | Inr data \<Rightarrow>
                 (case so_save_snapshot P
                    \<lparr>sn_aggregate_id = en_id (ag_entity A agg), sn_version = version, sn_data = data\<rparr> r of
                    (Ok _, r') \<Rightarrow> (Ok (), r', on_entity A (set_snapshot_version version) agg)
                  | (res, r') \<Rightarrow> (res, r', agg)))
           else (Ok (), r, agg))"

definition sr_commit ::
    "('a, 's, 'z) snapshottable_scheme \<Rightarrow> 'r repo_ops \<Rightarrow> 'r snap_ops \<Rightarrow> u64 \<Rightarrow>
     ('r \<times> 'a, repository_error, unit) call" where
  "sr_commit A R P frequency =
     st_bind (ar_commit A R) (\<lambda>_. maybe_snapshot A P frequency)"

fun maybe_snapshot_all ::
    "('a, 's, 'z) snapshottable_scheme \<Rightarrow> 'r snap_ops \<Rightarrow> u64 \<Rightarrow>
     'a list \<Rightarrow> 'r \<Rightarrow> (repository_error, unit) outcome \<times> 'r \<times> 'a list" where
  "maybe_snapshot_all A P frequency [] r = (Ok (), r, [])"
| "maybe_snapshot_all A P frequency (a # as) r =
     (case maybe_snapshot A P frequency (r, a) of
        (Ok _, r', a') \<Rightarrow>
          (case maybe_snapshot_all A P frequency as r' of (res, r'', as') \<Rightarrow> (res, r'', a' # as'))
      | (res, r', a') \<Rightarrow> (res, r', a' # as))"

definition sr_commit_all ::
    "('a, 's, 'z) snapshottable_scheme \<Rightarrow> 'r repo_ops \<Rightarrow> 'r snap_ops \<Rightarrow> u64 \<Rightarrow>
     ('r \<times> 'a list, repository_error, unit) call" where
  "sr_commit_all A R P frequency =
     st_bind (ar_commit_all A R) (\<lambda>_ s. maybe_snapshot_all A P frequency (snd s) (fst s))"

fun sr_matching ::
    "('a, 's, 'z) snapshottable_scheme \<Rightarrow> 'r snap_ops \<Rightarrow> ('a \<Rightarrow> bool) \<Rightarrow> entity list \<Rightarrow>
     ('r, repository_error, 'a list) call" where
  "sr_matching A P p [] r = (Ok [], r)"
| "sr_matching A P p (e # es) r =
     st_bind (sr_hydrate A P e) (\<lambda>a.
     st_bind (sr_matching A P p es) (\<lambda>as.
     st_return (if p a then a # as else as))) r"

definition sr_find ::
    "('a, 's, 'z) snapshottable_scheme \<Rightarrow> 'r repo_ops \<Rightarrow> 'r snap_ops \<Rightarrow> ('a \<Rightarrow> bool) \<Rightarrow>
     ('r, repository_error, 'a list) call" where
  "sr_find A R P p = st_bind (op_find R (\<lambda>_. True)) (sr_matching A P p)"

fun sr_first ::
    "('a, 's, 'z) snapshottable_scheme \<Rightarrow> 'r snap_ops \<Rightarrow> ('a \<Rightarrow> bool) \<Rightarrow> entity list \<Rightarrow>
     ('r, repository_error, 'a option) call" where
  "sr_first A P p [] r = (Ok None, r)"
| "sr_first A P p (e # es) r =
     st_bind (sr_hydrate A P e) (\<lambda>a. if p a then st_return (Some a) else sr_first A P p es) r"

definition sr_find_one ::
    "('a, 's, 'z) snapshottable_scheme \<Rightarrow> 'r repo_ops \<Rightarrow> 'r snap_ops \<Rightarrow> ('a \<Rightarrow> bool) \<Rightarrow>
     ('r, repository_error, 'a option) call" where
  "sr_find_one A R P p = st_bind (op_find R (\<lambda>_. True)) (sr_first A P p)"

definition sr_exists where
  "sr_exists A R P p = st_bind (sr_find_one A R P p) (\<lambda>found. st_return (found \<noteq> None))"

definition sr_count where
  "sr_count A R P p = st_bind (sr_find A R P p) (\<lambda>as. st_return (length as))"

definition sr_abort where
  "sr_abort A Q a = qo_unlock Q (en_id (ag_entity A a))"

definition sr_peek ::
    "('a, 's, 'z) snapshottable_scheme \<Rightarrow> 'r queue_ops \<Rightarrow> 'r snap_ops \<Rightarrow> string \<Rightarrow>
     ('r, repository_error, 'a option) call" where
  "sr_peek A Q P ident =
     st_bind (qo_get_with Q ident no_lock) (\<lambda>found.
     case found of
       None \<Rightarrow> st_return None
     | Some e \<Rightarrow>
         st_bind (so_get_snapshot P ident) (\<lambda>snapshot.
         st_lift (map_ok Some (hydrate_with_optional_snapshot A e snapshot))))"

definition sr_peek_all ::
    "('a, 's, 'z) snapshottable_scheme \<Rightarrow> 'r queue_ops \<Rightarrow> 'r snap_ops \<Rightarrow> string list \<Rightarrow>
     ('r, repository_error, 'a list) call" where
  "sr_peek_all A Q P ids =
     st_bind (qo_get_all_with Q ids no_lock) (\<lambda>es. st_collect (sr_hydrate A P) es)"

section \<open>The contract of a snapshottable aggregate\<close>

text \<open>
  A snapshot of \<open>a\<close> restored into \<open>b\<close> gives all of the state of \<open>a\<close> but its entity, of which
  only the id.  Replay looks at no field of the entity but the replaying flag.
\<close>

lemma entity_update_order:
  "e\<lparr>en_id := j, en_replaying := b, en_snapshot_version := v\<rparr> =
     e\<lparr>en_snapshot_version := v, en_id := j, en_replaying := b\<rparr>"
  by (cases e) simp

lemma upcast_events_append:
  "upcast_events (xs @ ys) us =
     Option.bind (upcast_events xs us) (\<lambda>xs'. map_option (\<lambda>ys'. xs' @ ys') (upcast_events ys us))"
  by (induction xs) (auto simp: map_option_case split: option.splits Option.bind_splits)

lemma upcast_all_append:
  "upcast_all A (xs @ ys) =
     Option.bind (upcast_all A xs) (\<lambda>xs'. map_option (\<lambda>ys'. xs' @ ys') (upcast_all A ys))"
  by (simp add: upcast_all_def upcast_events_append)

lemma filter_after_seq:
  assumes "seq_ok (xs @ ys)" and "length xs < 2 ^ 64"
  shows "filter (\<lambda>ev. er_sequence ev > len_u64 xs) (xs @ ys) = ys"
proof -
  have seq: "unat (er_sequence ((xs @ ys) ! i)) = Suc i" if "i < length (xs @ ys)" for i
    using seq_ok_nth [OF assms(1) that] .
  have "\<not> er_sequence ev > len_u64 xs" if "ev \<in> set xs" for ev
  proof -
    from that obtain i where "i < length xs" "ev = xs ! i" by (auto simp: in_set_conv_nth)
    with seq [of i] assms(2) show ?thesis by (simp add: word_less_nat_alt nth_append)
  qed
  moreover have "er_sequence ev > len_u64 xs" if "ev \<in> set ys" for ev
  proof -
    from that obtain i where "i < length ys" "ev = ys ! i" by (auto simp: in_set_conv_nth)
    with seq [of "length xs + i"] assms(2) show ?thesis by (simp add: word_less_nat_alt nth_append)
  qed
  ultimately show ?thesis by (simp add: filter_empty_conv filter_id_conv)
qed

locale snapshot_laws = aggregate_laws A
  for A :: "('a, 's, 'z) snapshottable_scheme" +
  assumes restore_create:
      "sp_restore A (sp_create_snapshot A a) b =
         ag_set_entity A ((ag_entity A b)\<lparr>en_id := en_id (ag_entity A a)\<rparr>) a"
    and create_any_entity: "en_id f = en_id (ag_entity A a) \<Longrightarrow>
         sp_create_snapshot A (ag_set_entity A f a) = sp_create_snapshot A a"
    and replay_any_entity:
      "en_replaying (ag_entity A a) \<Longrightarrow> en_replaying f \<Longrightarrow> en_id f = en_id (ag_entity A a) \<Longrightarrow>
         ag_replay A ev (ag_set_entity A f a) =
           apsnd (\<lambda>b. ag_set_entity A (f\<lparr>en_id := en_id (ag_entity A b)\<rparr>) b) (ag_replay A ev a)"
begin

lemma apply_events_any_entity:
  "en_replaying (ag_entity A a) \<Longrightarrow> en_replaying f \<Longrightarrow> en_id f = en_id (ag_entity A a) \<Longrightarrow>
     apply_events (ag_replay A) evs (ag_set_entity A f a) =
       apsnd (\<lambda>b. ag_set_entity A (f\<lparr>en_id := en_id (ag_entity A b)\<rparr>) b)
         (apply_events (ag_replay A) evs a)"
proof (induction evs arbitrary: a f)
  case Nil
  have "f\<lparr>en_id := en_id (ag_entity A a)\<rparr> = f" using Nil.prems(3) [symmetric] by simp
  then show ?case by simp
next
  case (Cons ev evs)
  obtain r b where r: "ag_replay A ev a = (r, b)" by (cases "ag_replay A ev a")
  obtain i where i: "ag_entity A b = (ag_entity A a)\<lparr>en_id := i\<rparr>"
    using replay_keeps [OF Cons.prems(1), of ev] r by auto
  let ?f = "f\<lparr>en_id := en_id (ag_entity A b)\<rparr>"
  have step: "ag_replay A ev (ag_set_entity A f a) = (r, ag_set_entity A ?f b)"
    using replay_any_entity [OF Cons.prems, of ev] r by simp
  have "apply_events (ag_replay A) evs (ag_set_entity A ?f b) =
      apsnd (\<lambda>c. ag_set_entity A (?f\<lparr>en_id := en_id (ag_entity A c)\<rparr>) c)
        (apply_events (ag_replay A) evs b)"
    using Cons.prems(1,2) i by (intro Cons.IH) simp_all
  with step r show ?case
    by (cases r) (simp_all add: st_bind_def apsnd_def map_prod_def)
qed

lemma hydrate_prefix:
  assumes "hydrate A e0 = Ok a0" and "en_events e = en_events e0 @ ys" and "en_id e = en_id e0"
  shows "\<exists>b i. ag_entity A b = e\<lparr>en_replaying := True, en_id := i\<rparr> \<and>
      a0 = ag_set_entity A (ag_entity A a0) b \<and> en_id (ag_entity A a0) = i \<and>
      hydrate A e =
        (case upcast_all A ys of None \<Rightarrow> Stuck
         | Some ys' \<Rightarrow>
             (case apply_events (ag_replay A) ys' b of
                (Ok _, c) \<Rightarrow> Ok (on_entity A (set_replaying False) c)
              | (Err err, c) \<Rightarrow> Err (RE_Replay err)
              | (Panic, c) \<Rightarrow> Panic
              | (Stuck, c) \<Rightarrow> Stuck))"
proof -
  let ?new = "ag_new_empty A" and ?p = "set_replaying True e0" and ?r = "set_replaying True e"
  let ?app = "apply_events (ag_replay A)"
  obtain xs' where xs': "upcast_all A (en_events e0) = Some xs'"
    and loop: "replay_loop A xs' (ag_set_entity A e0 ?new) = Ok a0"
    using assms(1) by (auto simp: hydrate_def entity_set split: option.splits)
  have start: "on_entity A (set_replaying True) (ag_set_entity A e0 ?new) = ag_set_entity A ?p ?new"
    by (simp add: on_entity_def entity_set set_set)
  obtain b0 where b0: "?app xs' (ag_set_entity A ?p ?new) = (Ok (), b0)"
    "a0 = on_entity A (set_replaying False) b0"
    using replay_loop_Ok [OF loop] unfolding start by blast
  let ?b = "ag_set_entity A (?r\<lparr>en_id := en_id (ag_entity A b0)\<rparr>) b0"
  have "?app xs' (ag_set_entity A ?r (ag_set_entity A ?p ?new)) = (Ok (), ?b)"
    using apply_events_any_entity [of "ag_set_entity A ?p ?new" ?r xs'] b0(1) assms(3)
    by (simp add: entity_set set_replaying_def)
  then have pre: "?app xs' (ag_set_entity A ?r ?new) = (Ok (), ?b)" by (simp add: set_set)
  have up: "upcast_all A (en_events e) = map_option (\<lambda>ys'. xs' @ ys') (upcast_all A ys)"
    using xs' by (simp add: assms(2) upcast_all_append)
  have "hydrate A e = (case upcast_all A ys of None \<Rightarrow> Stuck
      | Some ys' \<Rightarrow> replay_loop A (xs' @ ys') (ag_set_entity A e ?new))"
    by (simp add: hydrate_def entity_set up split: option.splits)
  also have "\<dots> = (case upcast_all A ys of None \<Rightarrow> Stuck
      | Some ys' \<Rightarrow>
          (case ?app ys' ?b of
             (Ok _, c) \<Rightarrow> Ok (on_entity A (set_replaying False) c)
           | (Err err, c) \<Rightarrow> Err (RE_Replay err) | (Panic, c) \<Rightarrow> Panic | (Stuck, c) \<Rightarrow> Stuck))"
    by (simp add: replay_loop_def on_entity_def entity_set set_set apply_events_append pre
        split: option.splits)
  finally show ?thesis
    using b0(2) by (intro exI [of _ ?b] exI [of _ "en_id (ag_entity A b0)"])
      (simp add: entity_set set_set on_entity_def set_replaying_def)
qed

lemma snapshot_hydration:
  assumes "hydrate A e0 = Ok a0" and "en_events e = en_events e0 @ ys" and "en_id e = en_id e0"
    and "seq_ok (en_events e)" and "length (en_events e0) < 2 ^ 64"
    and "sn_version s = len_u64 (en_events e0)"
    and "sp_deserialize A (sn_data s) = Inr (sp_create_snapshot A a0)"
  shows "hydrate_from_snapshot A e s =
           map_ok (on_entity A (set_snapshot_version (sn_version s))) (hydrate A e)"
proof -
  let ?v = "sn_version s" and ?app = "apply_events (ag_replay A)"
  obtain b i where b: "ag_entity A b = e\<lparr>en_replaying := True, en_id := i\<rparr>"
    and a0: "a0 = ag_set_entity A (ag_entity A a0) b" "en_id (ag_entity A a0) = i"
    and full: "hydrate A e =
        (case upcast_all A ys of None \<Rightarrow> Stuck
         | Some ys' \<Rightarrow>
             (case ?app ys' b of
                (Ok _, c) \<Rightarrow> Ok (on_entity A (set_replaying False) c)
              | (Err err, c) \<Rightarrow> Err (RE_Replay err) | (Panic, c) \<Rightarrow> Panic | (Stuck, c) \<Rightarrow> Stuck))"
    using hydrate_prefix [OF assms(1-3)] by blast
  let ?e = "e\<lparr>en_snapshot_version := ?v, en_id := i\<rparr>"
  let ?f = "?e\<lparr>en_replaying := True\<rparr>"
  have put: "ag_set_entity A x a0 = ag_set_entity A x b" for x
    by (metis a0(1) set_set)
  have agg2: "sp_restore A (sp_create_snapshot A a0)
      (on_entity A (set_snapshot_version ?v) (ag_set_entity A e (ag_new_empty A))) = ag_set_entity A ?e b"
    using a0(2) by (simp add: restore_create put on_entity_def entity_set set_set set_snapshot_version_def)
  have "filter (\<lambda>ev. er_sequence ev > ?v) (en_events e) = ys"
    using filter_after_seq [of "en_events e0" ys] assms(2,4,5,6) by simp
  then have fs: "hydrate_from_snapshot A e s =
      (case upcast_all A ys of None \<Rightarrow> Stuck | Some ys' \<Rightarrow> replay_loop A ys' (ag_set_entity A ?e b))"
    unfolding hydrate_from_snapshot_def Let_def assms(7) sum.case agg2 entity_set by simp
  have "replay_loop A ys' (ag_set_entity A ?e b) =
      map_ok (on_entity A (set_snapshot_version ?v))
        (case ?app ys' b of
           (Ok _, c) \<Rightarrow> Ok (on_entity A (set_replaying False) c)
         | (Err err, c) \<Rightarrow> Err (RE_Replay err) | (Panic, c) \<Rightarrow> Panic | (Stuck, c) \<Rightarrow> Stuck)" for ys'
  proof -
    obtain r c where rc: "?app ys' b = (r, c)" by (cases "?app ys' b")
    obtain j where c: "ag_entity A c = e\<lparr>en_replaying := True, en_id := j\<rparr>"
      using apply_events_keeps [of b ys'] b rc by auto
    have "?app ys' (ag_set_entity A ?f b) = (r, ag_set_entity A (?f\<lparr>en_id := j\<rparr>) c)"
      using apply_events_any_entity [of b ?f ys'] b rc c by simp
    with rc c show ?thesis
      by (cases r) (simp_all add: replay_loop_def on_entity_def entity_set set_set
          set_replaying_def set_snapshot_version_def entity_update_order)
  qed
  with fs show ?thesis by (simp add: full split: option.splits)
qed

end

section \<open>The Todo aggregate\<close>

text \<open>
  \<open>tests/snapshots/aggregate.rs\<close>.  A \<open>#[digest]\<close> method records its event, with its arguments as
  a tuple, before its body runs; \<open>when\<close> guards both.  \<open>bitcode\<close> at the types it is used at is
  the argument \<open>C\<close>.
\<close>

record todo =
  td_entity :: entity
  td_user_id :: string
  td_task :: string
  td_completed :: bool

record todo_snapshot =
  ts_id :: string
  ts_user_id :: string
  ts_task :: string
  ts_completed :: bool

record todo_codec =
  tc_ser_init :: "string \<times> string \<times> string \<Rightarrow> bytes option"
  tc_de_init :: "bytes \<Rightarrow> string + string \<times> string \<times> string"
  tc_ser_unit :: "unit \<Rightarrow> bytes option"
  tc_ser_snap :: "todo_snapshot \<Rightarrow> string + bytes"
  tc_de_snap :: "bytes \<Rightarrow> string + todo_snapshot"

definition todo_new :: todo where
  "todo_new = \<lparr>td_entity = entity_default 0, td_user_id = [], td_task = [], td_completed = False\<rparr>"

definition todo_initialize ::
    "todo_codec \<Rightarrow> system_time \<Rightarrow> string \<Rightarrow> string \<Rightarrow> string \<Rightarrow> todo \<Rightarrow> todo option" where
  "todo_initialize C now ident user task t =
     (case digest (tc_ser_init C) now ''Initialized'' (ident, user, task) (td_entity t) of
        None \<Rightarrow> None
      | Some e \<Rightarrow> Some (t\<lparr>td_entity := set_id ident e, td_user_id := user, td_task := task\<rparr>))"

definition todo_complete :: "todo_codec \<Rightarrow> system_time \<Rightarrow> todo \<Rightarrow> todo option" where
  "todo_complete C now t =
     (if \<not> td_completed t
      then case digest_empty (tc_ser_unit C) now ''Completed'' (td_entity t) of
          None \<Rightarrow> None
        | Some e \<Rightarrow> Some (t\<lparr>td_entity := e, td_completed := True\<rparr>)
      else Some t)"

definition todo_replay :: "todo_codec \<Rightarrow> system_time \<Rightarrow> event_record \<Rightarrow> (todo, string, unit) call" where
  "todo_replay C now ev t =
     (if er_event_name ev = ''Initialized''
      then decode_then (tc_de_init C) (\<lambda>(ident, user, task). todo_initialize C now ident user task) ev t
      else if er_event_name ev = ''Completed'' then run_method (todo_complete C now) t
      else (Err (''Unknown event: '' @ er_event_name ev), t))"

definition todo_create_snapshot :: "todo \<Rightarrow> todo_snapshot" where
  "todo_create_snapshot t =
     \<lparr>ts_id = en_id (td_entity t), ts_user_id = td_user_id t, ts_task = td_task t,
      ts_completed = td_completed t\<rparr>"

definition todo_restore :: "todo_snapshot \<Rightarrow> todo \<Rightarrow> todo" where
  "todo_restore s t =
     (let t' = t\<lparr>td_user_id := ts_user_id s, td_task := ts_task s, td_completed := ts_completed s\<rparr>
      in t'\<lparr>td_entity := set_id (ts_id s) (td_entity t')\<rparr>)"

definition todo_aggregate :: "todo_codec \<Rightarrow> system_time \<Rightarrow> (todo, todo_snapshot) snapshottable" where
  "todo_aggregate C now =
     \<lparr>ag_new_empty = todo_new, ag_entity = td_entity, ag_set_entity = (\<lambda>e t. t\<lparr>td_entity := e\<rparr>),
      ag_replay = todo_replay C now, ag_upcasters = [],
      sp_create_snapshot = todo_create_snapshot, sp_restore = todo_restore,
      sp_serialize = tc_ser_snap C, sp_deserialize = tc_de_snap C\<rparr>"

lemma todo_replay_replaying:
  assumes "en_replaying (td_entity t)"
  shows "todo_replay C now ev t =
     (if er_event_name ev = ''Initialized''
      then case tc_de_init C (er_payload ev) of
          Inl msg \<Rightarrow> (Err (payload_error_display \<lparr>pe_message = msg\<rparr>), t)
        | Inr (ident, user, task) \<Rightarrow>
            (Ok (), t\<lparr>td_entity := (td_entity t)\<lparr>en_id := ident\<rparr>, td_user_id := user, td_task := task\<rparr>)
      else if er_event_name ev = ''Completed'' then (Ok (), t\<lparr>td_completed := True\<rparr>)
      else (Err (''Unknown event: '' @ er_event_name ev), t))"
  using assms
  by (auto simp: todo_replay_def decode_then_def event_record_decode_def run_method_def todo_initialize_def
      todo_complete_def digest_empty_def set_id_def split: sum.splits prod.splits)

interpretation todo: snapshot_laws "todo_aggregate C now" for C now
proof (unfold_locales, goal_cases)
  case (4 t ev)
  then show ?case
    by (auto simp: todo_aggregate_def todo_replay_replaying same_but_id split: sum.splits prod.splits)
next
  case (5 a b)
  then show ?case
    by (cases a; cases b) (simp add: todo_aggregate_def todo_create_snapshot_def todo_restore_def
        set_id_def Let_def)
next
  case (6 f a)
  then show ?case by (simp add: todo_aggregate_def todo_create_snapshot_def)
next
  case (7 t f ev)
  have "f\<lparr>en_id := en_id (td_entity t)\<rparr> = f" using 7(3) [symmetric] by (simp add: todo_aggregate_def)
  with 7 show ?case
    by (auto simp: todo_aggregate_def todo_replay_replaying apsnd_def map_prod_def
        split: sum.splits prod.splits)
qed (simp_all add: todo_aggregate_def)

section \<open>Valid snapshots\<close>

text \<open>
  A stored snapshot is valid when it is the snapshot of what some prefix of the stream
  hydrates to, and carries the length of that prefix.
\<close>

definition snapshot_valid ::
    "('a, 's, 'z) snapshottable_scheme \<Rightarrow> string \<Rightarrow> event_record list \<Rightarrow> snapshot_record \<Rightarrow> bool" where
  "snapshot_valid A ident evs s \<longleftrightarrow>
     (\<exists>e a n. n \<le> length evs \<and> en_events e = take n evs \<and> en_id e = ident \<and>
        hydrate A e = Ok a \<and> unat (sn_version s) = n \<and>
        sp_deserialize A (sn_data s) = Inr (sp_create_snapshot A a))"

definition snapshots_valid ::
    "('a, 's, 'z) snapshottable_scheme \<Rightarrow> streams \<Rightarrow> (string \<Rightarrow> snapshot_record option) \<Rightarrow> bool" where
  "snapshots_valid A t snaps \<longleftrightarrow>
     (\<forall>i s. snaps i = Some s \<longrightarrow> snapshot_valid A i (stream_of t i) s)"

lemma snapshot_valid_extend:
  "snapshot_valid A i evs s \<Longrightarrow> snapshot_valid A i (evs @ new) s"
proof -
  assume "snapshot_valid A i evs s"
  then obtain e a n where "n \<le> length evs" "en_events e = take n evs" "en_id e = i"
    "hydrate A e = Ok a" "unat (sn_version s) = n"
    "sp_deserialize A (sn_data s) = Inr (sp_create_snapshot A a)"
    unfolding snapshot_valid_def by blast
  moreover from this(1,2) have "n \<le> length (evs @ new)" "en_events e = take n (evs @ new)" by auto
  ultimately show ?thesis unfolding snapshot_valid_def by blast
qed

lemma snapshot_valid_hydration:
  assumes "snapshot_laws A" and "snapshot_valid A i evs s" and "en_events e = evs" and "en_id e = i"
    and "seq_ok evs" and "vec_fits evs" and "unat (en_version e) = length evs"
  shows "hydrate_with_optional_snapshot A e (Some s) =
           map_ok (on_entity A (set_snapshot_version (sn_version s))) (hydrate A e)"
proof -
  obtain e0 a n where *: "n \<le> length evs" "en_events e0 = take n evs" "en_id e0 = i"
    "hydrate A e0 = Ok a" "unat (sn_version s) = n"
    "sp_deserialize A (sn_data s) = Inr (sp_create_snapshot A a)"
    using assms(2) unfolding snapshot_valid_def by blast
  have ev: "en_events e = en_events e0 @ drop n evs" using assms(3) *(2) by simp
  have "sn_version s = len_u64 (en_events e0)"
    using *(1,2,5) assms(6) by (subst u64_eq_len_iff) auto
  then have "hydrate_from_snapshot A e s =
      map_ok (on_entity A (set_snapshot_version (sn_version s))) (hydrate A e)"
    using * ev assms by (intro snapshot_laws.snapshot_hydration [OF assms(1), of e0 a _ "drop n evs"]) auto
  moreover have "sn_version s \<le> en_version e"
    using *(1,5) assms(7) by (simp add: word_le_nat_alt)
  ultimately show ?thesis by (simp add: hydrate_with_optional_snapshot_def)
qed

lemma hydrate_entity_state:
  assumes "snapshot_laws A" and "hydrate A e0 = Ok a0" and "en_events e = en_events e0" and "en_id e = en_id e0"
  shows "\<exists>a. hydrate A e = Ok a \<and> sp_create_snapshot A a = sp_create_snapshot A a0"
proof -
  have laws: "aggregate_laws A" using assms(1) by (simp add: snapshot_laws_def)
  obtain b i where b: "ag_entity A b = e\<lparr>en_replaying := True, en_id := i\<rparr>"
    and a0: "a0 = ag_set_entity A (ag_entity A a0) b" "en_id (ag_entity A a0) = i"
    and h: "hydrate A e = Ok (on_entity A (set_replaying False) b)"
    using snapshot_laws.hydrate_prefix [OF assms(1,2), of e "[]"] assms(3,4)
    by (auto simp: upcast_all_def)
  have "sp_create_snapshot A (on_entity A (set_replaying False) b) = sp_create_snapshot A b"
    by (simp add: on_entity_def set_replaying_def snapshot_laws.create_any_entity [OF assms(1)])
  moreover have "sp_create_snapshot A a0 = sp_create_snapshot A b"
    by (subst a0(1)) (simp add: a0(2) b snapshot_laws.create_any_entity [OF assms(1)])
  ultimately show ?thesis using h by auto
qed

lemma map_ok_Some: "map_ok Some (map_ok f x) = map_ok (map_option f) (map_ok Some x)"
  by (cases x) simp_all

lemma hm_commit_snapshots: "hr_snapshots (fst (snd (hm_commit (r, es)))) = hr_snapshots r"
  by (simp add: hm_commit_def split: outcome.split prod.split)

section \<open>Properties\<close>

text \<open>For the witnesses: the bare aggregate, whose snapshot is its id.\<close>

definition bare_snapshottable :: "(entity, string) snapshottable" where
  "bare_snapshottable =
     \<lparr>ag_new_empty = entity_default 0, ag_entity = (\<lambda>a. a), ag_set_entity = (\<lambda>e _. e),
      ag_replay = (\<lambda>ev a. (Ok (), a)), ag_upcasters = [],
      sp_create_snapshot = en_id, sp_restore = (\<lambda>s a. a\<lparr>en_id := s\<rparr>),
      sp_serialize = (\<lambda>s. Inr (map (\<lambda>c. of_nat (of_char c)) s)),
      sp_deserialize = (\<lambda>bs. Inr (map (\<lambda>w. char_of (unat w)) bs))\<rparr>"

lemma bare_fields [simp]:
  "ag_new_empty bare_snapshottable = entity_default 0" "ag_entity bare_snapshottable a = a"
  "ag_set_entity bare_snapshottable e a = e" "ag_replay bare_snapshottable ev a = (Ok (), a)"
  "ag_upcasters bare_snapshottable = []" "sp_create_snapshot bare_snapshottable a = en_id a"
  "sp_restore bare_snapshottable s a = a\<lparr>en_id := s\<rparr>"
  "sp_serialize bare_snapshottable s = Inr (map (\<lambda>c. of_nat (of_char c)) s)"
  "sp_deserialize bare_snapshottable bs = Inr (map (\<lambda>w. char_of (unat w)) bs)"
  by (simp_all add: bare_snapshottable_def)

lemma same_id: "en_id f = i \<Longrightarrow> f\<lparr>en_id := i\<rparr> = f"
  by auto

lemma bare_snapshot_laws: "snapshot_laws bare_snapshottable"
  by unfold_locales (simp_all add: same_but_id same_id)

lemma bare_codec:
  "\<forall>x bs. sp_serialize bare_snapshottable x = Inr bs \<longrightarrow> sp_deserialize bare_snapshottable bs = Inr x"
  by (auto simp: comp_def unat_of_char_u8 intro!: list.map_ident_strong)

lemma char_97: "char_of (97 :: nat) = CHR ''a''"
  by code_simp

lemma bare_hydrate: "hydrate bare_snapshottable e = Ok (e\<lparr>en_replaying := False\<rparr>)"
proof -
  have "apply_events (ag_replay bare_snapshottable) evs a = (Ok (), a)" for evs a
    by (induction evs) simp_all
  then show ?thesis
    by (simp add: hydrate_def upcast_all_def replay_loop_def on_entity_def set_replaying_def)
qed

text \<open>
  C6: Hydration from a snapshot is hydration: an aggregate restored from the snapshot of a
  prefix of its history and fed the events after it is the aggregate hydrated from the whole
  history, errors and upcasters included; only the recorded snapshot version differs.
\<close>

theorem snapshot_hydration_equals_replay:
  assumes "snapshot_laws A" and "hydrate A e0 = Ok a0" and "en_events e = en_events e0 @ ys"
    and "en_id e = en_id e0" and "seq_ok (en_events e)" and "length (en_events e0) < 2 ^ 64"
    and "sn_version s = len_u64 (en_events e0)"
    and "sp_deserialize A (sn_data s) = Inr (sp_create_snapshot A a0)"
  shows "hydrate_from_snapshot A e s =
           map_ok (on_entity A (set_snapshot_version (sn_version s))) (hydrate A e)"
  by (rule snapshot_laws.snapshot_hydration [OF assms])

theorem snapshot_hydration_equals_replay_witness:
  "hydrate_from_snapshot bare_snapshottable
     (entity_from 5 ''a'' [event_record_new ''x'' [] 1 0, event_record_new ''y'' [] 2 0])
     \<lparr>sn_aggregate_id = ''a'', sn_version = 1, sn_data = [97]\<rparr> =
   Ok ((entity_from 5 ''a'' [event_record_new ''x'' [] 1 0, event_record_new ''y'' [] 2 0])
      \<lparr>en_snapshot_version := 1\<rparr>)"
proof -
  let ?x = "event_record_new ''x'' [] 1 0" and ?y = "event_record_new ''y'' [] 2 0"
  let ?e = "entity_from 5 ''a'' [?x, ?y]"
  have "hydrate_from_snapshot bare_snapshottable ?e \<lparr>sn_aggregate_id = ''a'', sn_version = 1, sn_data = [97]\<rparr> =
      map_ok (on_entity bare_snapshottable (set_snapshot_version 1)) (hydrate bare_snapshottable ?e)"
    using snapshot_hydration_equals_replay [OF bare_snapshot_laws bare_hydrate,
      of ?e "entity_from 5 ''a'' [?x]" "[?y]" "\<lparr>sn_aggregate_id = ''a'', sn_version = 1, sn_data = [97]\<rparr>"]
    by (simp add: seq_ok_def event_record_new_def len_u64_def char_97)
  then show ?thesis
    by (simp add: bare_hydrate on_entity_def set_snapshot_version_def
        entity_from_def load_from_history_def set_id_def entity_new_def entity_default_def)
qed

text \<open>
  C7: Snapshots are invisible to readers: over a store whose snapshots are valid, the
  snapshot-aware \<open>get\<close> returns the aggregate the plain typed repository returns, up to the
  snapshot version it records.
\<close>

theorem snapshot_reads_transparent:
  assumes "snapshot_laws A" and "hm_inv ord r" and "streams_ok (hm_streams r)"
    and "ss_inv (hr_snapshots r)"
    and "snapshots_valid A (hm_streams r) (Mapping.lookup (ss_storage (hr_snapshots r)))"
  shows "sr_get A (hashmap_repo now ord) hashmap_snapshots i r =
    (case Mapping.lookup (ss_storage (hr_snapshots r)) i of
       None \<Rightarrow> ar_get A (hashmap_repo now ord) i r
     | Some s \<Rightarrow>
         (map_ok (map_option (on_entity A (set_snapshot_version (sn_version s))))
            (fst (ar_get A (hashmap_repo now ord) i r)), r))"
proof -
  let ?s = "Mapping.lookup (ss_storage (hr_snapshots r)) i"
  have get: "op_get_one (hashmap_repo now ord) i r = (Ok (entity_at now (hm_streams r) i), r)"
    using hm.get_one [OF assms(2)] .
  have snap: "so_get_snapshot hashmap_snapshots i r = (Ok ?s, r)"
    using hm_snaps.get_snap [of r i] assms(4) by simp
  show ?thesis
  proof (cases "hm_streams r i")
    case None
    then show ?thesis
      by (simp add: sr_get_def ar_get_def get entity_at_def split: option.splits)
  next
    case (Some evs)
    then have ok: "seq_ok evs" "vec_fits evs" using assms(3) by (auto simp: streams_ok_def)
    have "hydrate_with_optional_snapshot A (entity_from now i evs) (Some s) =
        map_ok (on_entity A (set_snapshot_version (sn_version s))) (hydrate A (entity_from now i evs))"
      if "?s = Some s" for s
    proof -
      have "snapshot_valid A i (stream_of (hm_streams r) i) s"
        using assms(5) that unfolding snapshots_valid_def by blast
      then have "snapshot_valid A i evs s" using Some by (simp add: stream_of_def)
      then show ?thesis
        using ok by (intro snapshot_valid_hydration [OF assms(1)]) simp_all
    qed
    then show ?thesis
      by (simp add: sr_get_def ar_get_def get snap entity_at_def Some map_ok_Some
          hydrate_with_optional_snapshot_def split: option.splits)
  qed
qed

theorem snapshot_reads_transparent_witness:
  "sr_get bare_snapshottable (hashmap_repo 4 Mapping.ordered_keys) hashmap_snapshots ''a''
     (hm_repo_new\<lparr>hr_events := Mapping.update ''a'' [event_record_new ''Created'' [1] 1 0] Mapping.empty\<rparr>) =
   (Ok (Some (entity_from 4 ''a'' [event_record_new ''Created'' [1] 1 0])),
    hm_repo_new\<lparr>hr_events := Mapping.update ''a'' [event_record_new ''Created'' [1] 1 0] Mapping.empty\<rparr>)"
proof -
  let ?r = "hm_repo_new\<lparr>hr_events := Mapping.update ''a'' [event_record_new ''Created'' [1] 1 0] Mapping.empty\<rparr>"
  have s: "Mapping.lookup (ss_storage (hr_snapshots ?r)) = (\<lambda>_. None)" "ss_inv (hr_snapshots ?r)"
    by (simp_all add: hm_repo_new_def snap_store_new_def ss_inv_def lookup_empty fun_eq_iff)
  have "snapshots_valid bare_snapshottable (hm_streams ?r) (Mapping.lookup (ss_storage (hr_snapshots ?r)))"
    unfolding s(1) by (simp add: snapshots_valid_def)
  from snapshot_reads_transparent [OF bare_snapshot_laws one_event_store(1,2) s(2) this, of 4 "''a''"]
  have "sr_get bare_snapshottable (hashmap_repo 4 Mapping.ordered_keys) hashmap_snapshots ''a'' ?r =
      ar_get bare_snapshottable (hashmap_repo 4 Mapping.ordered_keys) ''a'' ?r"
    unfolding s(1) by simp
  then show ?thesis
    by (simp add: ar_get_def hashmap_repo_def one_event_store(3) bare_hydrate entity_from_def
        load_from_history_def set_id_def entity_new_def entity_default_def)
qed

text \<open>What the second half of a commit does to the snapshots of the in-memory repository.\<close>

lemma maybe_snapshot_effect:
  fixes A :: "('a, 's, 'z) snapshottable_scheme"
  defines "snaps \<equiv> \<lambda>r. Mapping.lookup (ss_storage (hr_snapshots r))"
  assumes laws: "snapshot_laws A" and ss: "ss_inv (hr_snapshots r)" and e: "ag_entity A a = e"
    and freq: "unat (en_snapshot_version e) + unat f < 2 ^ 64"
    and run: "maybe_snapshot A hashmap_snapshots f (r, a) = (Ok (), r', a')"
  shows "if unat (en_snapshot_version e) + unat f \<le> unat (en_version e)
    then \<exists>data. sp_serialize A (sp_create_snapshot A a) = Inr data \<and> hr_events r' = hr_events r \<and>
      snaps r' = (snaps r)(en_id e \<mapsto> \<lparr>sn_aggregate_id = en_id e, sn_version = en_version e, sn_data = data\<rparr>) \<and>
      a' = on_entity A (set_snapshot_version (en_version e)) a
    else r' = r \<and> a' = a"
proof -
  have due: "en_version e \<ge> en_snapshot_version e + f \<longleftrightarrow>
      unat (en_snapshot_version e) + unat f \<le> unat (en_version e)"
    using freq by (simp add: word_le_nat_alt unat_word_ariths)
  show ?thesis
  proof (cases "unat (en_snapshot_version e) + unat f \<le> unat (en_version e)")
    case False
    with run due e show ?thesis by (simp add: maybe_snapshot_def Let_def)
  next
    case True
    with run due e obtain data where data: "sp_serialize A (sp_create_snapshot A a) = Inr data"
      by (auto simp: maybe_snapshot_def Let_def split: sum.splits)
    let ?s = "\<lparr>sn_aggregate_id = en_id e, sn_version = en_version e, sn_data = data\<rparr>"
    have save: "so_save_snapshot hashmap_snapshots ?s r = (Ok (), r')"
      and a': "a' = on_entity A (set_snapshot_version (en_version e)) a"
      using run True due data e by (auto simp: maybe_snapshot_def Let_def split: prod.splits outcome.splits)
    from save ss have "snaps r' = (snaps r)(en_id e \<mapsto> ?s)" "hr_events r' = hr_events r"
      by (auto simp: hashmap_snapshots_def on_snapshots_def save_snapshot_def ss_inv_def snaps_def lookup_update_fun)
    with True data a' show ?thesis by auto
  qed
qed

lemma snapshot_valid_now:
  assumes "hydrate A e = Ok b" and "sp_create_snapshot A b = sp_create_snapshot A a"
    and "\<forall>x bs. sp_serialize A x = Inr bs \<longrightarrow> sp_deserialize A bs = Inr x"
    and "sp_serialize A (sp_create_snapshot A a) = Inr data" and "unat (en_version e) = length (en_events e)"
  shows "snapshot_valid A (en_id e) (en_events e)
    \<lparr>sn_aggregate_id = en_id e, sn_version = en_version e, sn_data = data\<rparr>"
  unfolding snapshot_valid_def
  by (rule exI [of _ e], rule exI [of _ b], rule exI [of _ "length (en_events e)"]) (use assms in simp)

text \<open>
  What a commit stores: the events, and a snapshot exactly when the frequency threshold is
  reached, whose version the aggregate then records.
\<close>

lemma sr_commit_effect:
  fixes A :: "('a, 's, 'z) snapshottable_scheme"
  defines "snaps \<equiv> \<lambda>r. Mapping.lookup (ss_storage (hr_snapshots r))"
  assumes laws: "snapshot_laws A"
    and r: "hm_inv ord r" "ss_inv (hr_snapshots r)"
    and e: "ag_entity A a = e" "entity_wf e" "current (hm_streams r) e"
      "stream_of (hm_streams r) (en_id e) @ uncommitted e = en_events e"
    and freq: "unat (en_snapshot_version e) + unat f < 2 ^ 64"
    and commit: "sr_commit A (hashmap_repo now ord) hashmap_snapshots f (r, a) = (Ok (), r', a')"
  shows "hm_streams r' = (hm_streams r)(en_id e \<mapsto> en_events e) \<and>
      (if unat (en_snapshot_version e) + unat f \<le> length (en_events e)
       then (\<exists>data. sp_serialize A (sp_create_snapshot A a) = Inr data \<and> snaps r' = (snaps r)(en_id e \<mapsto>
               \<lparr>sn_aggregate_id = en_id e, sn_version = en_version e, sn_data = data\<rparr>)) \<and>
            en_snapshot_version (ag_entity A a') = en_version e
       else snaps r' = snaps r \<and> en_snapshot_version (ag_entity A a') = en_snapshot_version e)"
proof -
  have al: "aggregate_laws A" using laws by (simp add: snapshot_laws_def)
  note es = aggregate_laws.entity_set [OF al]
  let ?e = "mark_committed e"
  let ?a = "ag_set_entity A ?e a"
  obtain r1 where r1: "hm_commit (r, [e]) = (Ok (), r1, [?e])" "hm_streams r1 = (hm_streams r)(en_id e \<mapsto> en_events e)"
    using hm.commit [OF r(1), of "[e]" now] e(2-4) by (auto simp: hashmap_repo_def)
  have "ar_commit A (hashmap_repo now ord) (r, a) = (Ok (), r1, ?a)"
    using r1(1) e(1) by (simp add: ar_commit_def hashmap_repo_def)
  then have sr: "maybe_snapshot A hashmap_snapshots f (r1, ?a) = (Ok (), r', a')"
    using commit by (simp add: sr_commit_def)
  have sn1: "hr_snapshots r1 = hr_snapshots r" using hm_commit_snapshots [of r "[e]"] r1(1) by simp
  have cr: "sp_create_snapshot A ?a = sp_create_snapshot A a"
    by (rule snapshot_laws.create_any_entity [OF laws]) (simp add: e(1) mark_committed_def)
  have mc: "en_version ?e = en_version e" "en_id ?e = en_id e" "en_snapshot_version ?e = en_snapshot_version e"
    by (simp_all add: mark_committed_def)
  have n: "unat (en_version e) = length (en_events e)" by (rule entity_wfD(1) [OF e(2)])
  have "ss_inv (hr_snapshots r1)" "ag_entity A ?a = ?e" "unat (en_snapshot_version ?e) + unat f < 2 ^ 64"
    using sn1 r(2) es freq mc by simp_all
  note eff = maybe_snapshot_effect [OF laws this sr, unfolded mc n cr]
  show ?thesis
  proof (cases "unat (en_snapshot_version e) + unat f \<le> length (en_events e)")
    case False
    with eff have "r' = r1" "a' = ?a" by simp_all
    with False r1(2) sn1 show ?thesis by (simp add: snaps_def es mc)
  next
    case True
    with eff have "hr_events r' = hr_events r1" by auto
    then have "hm_streams r' = hm_streams r1" by (simp add: hm_streams_def)
    with True eff r1(2) sn1 show ?thesis by (auto simp: snaps_def on_entity_def es set_snapshot_version_def)
  qed
qed

end
