(* ===== verification/Optimistic.thy ===== *)
theory Optimistic
  imports Hashmap_Repo
begin

text \<open>
  Many clients of one \<open>HashMapRepository\<close> (\<open>src/hashmap_repo/repository.rs\<close>), without locks: each
  reads entities or makes new ones, records events on them and commits what it has in hand, in
  any interleaving with the others.  The repository lives behind one \<open>RwLock\<close>, so a call is one
  step.
\<close>

section \<open>The system\<close>

text \<open>
  Recording an event on an entity is \<open>digest\<close> with the bytes its payload encodes to.  \<open>oc_log\<close> lists what the successful commits stored, in order: the stream, the committed events the
  client had seen of it when it committed, and the events it added.
\<close>

type_synonym commit_entry = "string \<times> event_record list \<times> event_record list"

record optimistic =
  oc_repo :: hm_repo
  oc_hand :: "nat \<Rightarrow> entity list"
  oc_log :: "commit_entry list"

abbreviation oc_streams :: "optimistic \<Rightarrow> streams" where
  "oc_streams s \<equiv> hm_streams (oc_repo s)"

definition committed_part :: "entity \<Rightarrow> event_record list" where
  "committed_part e = take (unat (en_committed_version e)) (en_events e)"

definition entry_of :: "entity \<Rightarrow> commit_entry" where
  "entry_of e = (en_id e, committed_part e, uncommitted e)"

text \<open>
  A client may hold any number of copies of an entity (it can read an id again, or \<open>clone\<close>), and
  it commits any part of what it holds.  The repository does not check that the entities of one
  batch have different ids, and such a batch breaks its streams (\<open>duplicate_batch_renumbers\<close>): the
  batches here have none.
\<close>

inductive oc_step :: "optimistic \<Rightarrow> optimistic \<Rightarrow> bool" where
  oc_read:
    "hm_get_one now i (oc_repo s) = (Ok (Some e), r) \<Longrightarrow>
     oc_step s (s\<lparr>oc_repo := r, oc_hand := (oc_hand s)(t := e # oc_hand s t)\<rparr>)"
| oc_create:
    "oc_step s (s\<lparr>oc_hand := (oc_hand s)(t := entity_with_id i now # oc_hand s t)\<rparr>)"
| oc_record:
    "oc_hand s t = pre @ e # post \<Longrightarrow> Suc (length (en_events e)) < 2 ^ 63 \<Longrightarrow>
     digest (\<lambda>_. Some bs) now name () e = Some e' \<Longrightarrow>
     oc_step s (s\<lparr>oc_hand := (oc_hand s)(t := pre @ e' # post)\<rparr>)"
| oc_commit:
    "oc_hand s t = pre @ batch @ post \<Longrightarrow> distinct (map en_id batch) \<Longrightarrow>
     hm_commit (oc_repo s, batch) = (Ok (), r, es) \<Longrightarrow>
     oc_step s (s\<lparr>oc_repo := r, oc_hand := (oc_hand s)(t := pre @ es @ post),
                      oc_log := oc_log s @ map entry_of batch\<rparr>)"
| oc_conflict:
    "oc_hand s t = pre @ batch @ post \<Longrightarrow>
     hm_commit (oc_repo s, batch) = (res, r, es) \<Longrightarrow> res \<noteq> Ok () \<Longrightarrow>
     oc_step s (s\<lparr>oc_repo := r, oc_hand := (oc_hand s)(t := pre @ es @ post)\<rparr>)"
| oc_keep:
    "set es \<subseteq> set (oc_hand s t) \<Longrightarrow> oc_step s (s\<lparr>oc_hand := (oc_hand s)(t := es)\<rparr>)"

inductive_cases oc_stepE: "oc_step s s'"

definition oc_start :: "hm_repo \<Rightarrow> optimistic" where
  "oc_start r = \<lparr>oc_repo = r, oc_hand = (\<lambda>_. []), oc_log = []\<rparr>"

section \<open>Histories\<close>

text \<open>The events a history adds to one stream, and the histories in which every entry was based on all before it.\<close>

definition added :: "commit_entry list \<Rightarrow> string \<Rightarrow> event_record list" where
  "added l i = concat (map (\<lambda>(j, basis, new). new) (filter (\<lambda>(j, basis, new). j = i) l))"

fun serial_from :: "streams \<Rightarrow> commit_entry list \<Rightarrow> commit_entry list \<Rightarrow> bool" where
  "serial_from t l [] = True"
| "serial_from t l ((i, basis, new) # xs) =
     (basis = stream_of t i @ added l i \<and> serial_from t (l @ [(i, basis, new)]) xs)"

lemma added_simps [simp]:
  "added [] i = []"
  "added (l @ l') i = added l i @ added l' i"
  "added ((j, basis, new) # l) i = (if j = i then new @ added l i else added l i)"
  by (simp_all add: added_def)

lemma serial_append: "serial_from t l (xs @ ys) \<longleftrightarrow> serial_from t l xs \<and> serial_from t (l @ xs) ys"
  by (induction t l xs rule: serial_from.induct) auto

lemma added_entries:
  "added (map entry_of es) i = concat (map uncommitted (filter (\<lambda>e. en_id e = i) es))"
  by (induction es) (auto simp: entry_of_def)

lemma serial_batch:
  assumes "distinct (map en_id es)" and "\<And>e. e \<in> set es \<Longrightarrow> committed_part e = stream_of t (en_id e) @ added l (en_id e)"
  shows "serial_from t l (map entry_of es)"
proof -
  have "serial_from t (l @ map entry_of prev) (map entry_of es)"
    if "distinct (map en_id (prev @ es))" for prev
    using that assms(2)
  proof (induction es arbitrary: prev)
    case Nil
    then show ?case by simp
  next
    case (Cons e es)
    have "filter (\<lambda>e'. en_id e' = en_id e) prev = []"
      using Cons.prems(1) by (auto simp: filter_empty_conv intro: rev_image_eqI)
    then have "added (map entry_of prev) (en_id e) = []" by (simp add: added_entries)
    moreover have "serial_from t (l @ map entry_of (prev @ [e])) (map entry_of es)"
      using Cons.prems by (intro Cons.IH) auto
    ultimately show ?case using Cons.prems(2) [of e] by (simp add: entry_of_def [of e])
  qed
  from this [of "[]"] assms(1) show ?thesis by simp
qed

lemma serial_entry:
  assumes "serial_from t [] (pre @ (i, basis, new) # post)"
  shows "basis = stream_of t i @ added pre i"
  using assms by (simp add: serial_append)

section \<open>The invariant\<close>

text \<open>An entity in hand is well-formed, and what it holds as committed is a prefix of its stream.\<close>

definition in_hand_ok :: "streams \<Rightarrow> entity \<Rightarrow> bool" where
  "in_hand_ok t e \<longleftrightarrow> entity_wf e \<and> vec_fits (en_events e) \<and> prefix (committed_part e) (stream_of t (en_id e))"

definition oc_inv :: "event_order \<Rightarrow> streams \<Rightarrow> optimistic \<Rightarrow> bool" where
  "oc_inv ord t0 s \<longleftrightarrow>
     hm_inv ord (oc_repo s) \<and> streams_ok (oc_streams s) \<and>
     (\<forall>t. \<forall>e \<in> set (oc_hand s t). in_hand_ok (oc_streams s) e) \<and>
     (\<forall>i. stream_of (oc_streams s) i = stream_of t0 i @ added (oc_log s) i) \<and>
     serial_from t0 [] (oc_log s)"

lemma hm_commit_outcome:
  assumes "hm_inv ord r" and "\<forall>e \<in> set es. entity_wf e" and "hm_commit (r, es) = (res, r', es')"
  shows "(res = Ok () \<and> (\<forall>e \<in> set es. current (hm_streams r) e) \<and> es' = map mark_committed es \<and> hm_inv ord r' \<and>
      hm_streams r' = append_all es (hm_streams r)) \<or> (res \<noteq> Ok () \<and> r' = r \<and> es' = es)"
  using hm.commit_cases [OF assms(1,2), of 0] assms(3) by (auto simp: hashmap_repo_def)

lemma committed_part_simps:
  "entity_wf e \<Longrightarrow> committed_part (mark_committed e) = en_events e"
  by (simp add: committed_part_def mark_committed_def entity_wf_def)

lemma current_basis:
  assumes "in_hand_ok t e" and "streams_ok t" and "current t e"
  shows "committed_part e = stream_of t (en_id e)" and "stream_of t (en_id e) @ uncommitted e = en_events e"
proof -
  have "vec_fits (stream_of t (en_id e))" using streams_ok_stream [OF assms(2)] by blast
  then have len: "unat (en_committed_version e) = length (stream_of t (en_id e))"
    using current_length [OF assms(3)] by simp
  have "entity_wf e" "prefix (committed_part e) (stream_of t (en_id e))"
    using assms(1) by (simp_all add: in_hand_ok_def)
  then have "length (committed_part e) = length (stream_of t (en_id e))"
    using len by (simp add: committed_part_def entity_wf_def)
  with \<open>prefix _ _\<close> show p: "committed_part e = stream_of t (en_id e)" by (auto simp: prefix_def)
  show "stream_of t (en_id e) @ uncommitted e = en_events e"
    unfolding p [symmetric] by (simp add: committed_part_def uncommitted_def)
qed

lemma in_hand_mono:
  assumes "in_hand_ok t e" and "\<And>i. prefix (stream_of t i) (stream_of t' i)"
  shows "in_hand_ok t' e"
  using assms by (auto simp: in_hand_ok_def intro: prefix_order.trans)

lemma append_all_grows: "prefix (stream_of t i) (stream_of (append_all es t) i)"
  by (simp add: stream_of_def append_all_apply)

lemma record_in_hand:
  assumes "in_hand_ok t e" and "Suc (length (en_events e)) < 2 ^ 63" and "digest ser now name payload e = Some e'"
  shows "in_hand_ok t e' \<and> en_id e' = en_id e"
proof (cases "en_replaying e")
  case True
  with assms show ?thesis by (simp add: digest_def)
next
  case False
  then obtain bs where e': "e' = push_record (event_record_new name bs (len_u64 (en_events e) + 1) now) now e"
    using assms(3) by (auto simp: digest_def Let_def split: option.splits)
  have wf: "entity_wf e" "vec_fits (en_events e)" using assms(1) by (simp_all add: in_hand_ok_def)
  have "entity_wf e'" unfolding e' by (rule push_record_wf [OF wf]) (simp_all add: event_record_new_def)
  moreover have "length (en_events e') = Suc (length (en_events e))" "committed_part e' = committed_part e" "en_id e' = en_id e"
    using wf by (simp_all add: e' push_record_def Let_def committed_part_def entity_wf_def)
  ultimately show ?thesis using assms(1,2) by (simp add: in_hand_ok_def)
qed

lemma oc_inv_parts:
  assumes "oc_inv ord t0 s"
  shows "hm_inv ord (oc_repo s)" "streams_ok (oc_streams s)"
    "\<And>t e. e \<in> set (oc_hand s t) \<Longrightarrow> in_hand_ok (oc_streams s) e"
    "\<And>i. stream_of (oc_streams s) i = stream_of t0 i @ added (oc_log s) i" "serial_from t0 [] (oc_log s)"
  using assms by (auto simp: oc_inv_def)

text \<open>A change of one hand.\<close>

lemma oc_inv_hand:
  assumes "oc_inv ord t0 s" and "\<And>e. e \<in> set es \<Longrightarrow> in_hand_ok (oc_streams s) e"
  shows "oc_inv ord t0 (s\<lparr>oc_hand := (oc_hand s)(t := es)\<rparr>)"
  using assms by (simp add: oc_inv_def)

lemma batch_streams:
  assumes "streams_ok t" and "distinct (map en_id es)" and "\<And>e. e \<in> set es \<Longrightarrow> in_hand_ok t e \<and> current t e"
  shows "streams_ok (append_all es t)"
    and "e \<in> set es \<Longrightarrow> in_hand_ok (append_all es t) (mark_committed e)"
    and "stream_of (append_all es t) i = stream_of t i @ added (map entry_of es) i"
proof -
  show "streams_ok (append_all es t)"
    using assms(2,3) by (intro append_all_streams_ok [OF assms(1)]) (auto simp: in_hand_ok_def)
  show "in_hand_ok (append_all es t) (mark_committed e)" if e: "e \<in> set es"
  proof -
    have "stream_of t (en_id e) @ uncommitted e = en_events e"
      using current_basis(2) [OF _ assms(1)] assms(3) [OF e] by blast
    then have "stream_of (append_all es t) (en_id e) = en_events e"
      using append_all_distinct [OF assms(2) e, of t] by (simp add: stream_of_def)
    moreover have "entity_wf e" "vec_fits (en_events e)" using assms(3) [OF e] by (simp_all add: in_hand_ok_def)
    ultimately show ?thesis
      by (simp add: in_hand_ok_def mark_committed_wf committed_part_simps) (simp add: mark_committed_def)
  qed
  show "stream_of (append_all es t) i = stream_of t i @ added (map entry_of es) i"
  proof (cases "i \<in> en_id ` set es")
    case True
    then show ?thesis by (auto simp: stream_of_def append_all_apply added_entries)
  next
    case False
    then have "filter (\<lambda>e. en_id e = i) es = []" by (auto simp: filter_empty_conv)
    then have "added (map entry_of es) i = []" by (simp add: added_entries)
    moreover have "stream_of (append_all es t) i = stream_of t i"
      using append_all_other [of es i t] False by (simp add: stream_of_def image_iff) metis
    ultimately show ?thesis by simp
  qed
qed

lemma commit_inv:
  assumes "oc_inv ord t0 s" and "oc_hand s t = pre @ batch @ post" and "distinct (map en_id batch)"
    and "hm_commit (oc_repo s, batch) = (Ok (), r, es)"
  shows "oc_inv ord t0 (s\<lparr>oc_repo := r, oc_hand := (oc_hand s)(t := pre @ es @ post), oc_log := oc_log s @ map entry_of batch\<rparr>)"
proof -
  note p = oc_inv_parts [OF assms(1)]
  let ?t = "oc_streams s"
  have hand: "in_hand_ok ?t e" if "e \<in> set batch" for e using p(3) [of e t] that assms(2) by simp
  then have wf: "\<forall>e \<in> set batch. entity_wf e" by (simp add: in_hand_ok_def)
  from hm_commit_outcome [OF p(1) wf assms(4)] have c: "\<forall>e \<in> set batch. current ?t e" "es = map mark_committed batch"
    "hm_inv ord r" "hm_streams r = append_all batch ?t" by auto
  note b = batch_streams [OF p(2) assms(3), folded c(4)]
  have batch: "in_hand_ok ?t e \<and> current ?t e" if "e \<in> set batch" for e using hand c(1) that by blast
  have old: "in_hand_ok (hm_streams r) e" if "e \<in> set (oc_hand s u)" for e u
    unfolding c(4) by (rule in_hand_mono [OF p(3) [OF that] append_all_grows])
  have "in_hand_ok (hm_streams r) e" if "e \<in> set (((oc_hand s)(t := pre @ es @ post)) u)" for e u
    using that old [of e u] old [of e t] b(2) [OF batch] assms(2) by (auto simp: c(2) split: if_splits)
  moreover have "stream_of (hm_streams r) i = stream_of t0 i @ added (oc_log s @ map entry_of batch) i" for i
    using b(3) [OF batch] p(4) by simp
  moreover have "serial_from t0 [] (oc_log s @ map entry_of batch)"
    using p(5) serial_batch [OF assms(3), of t0 "oc_log s"] current_basis(1) [OF _ p(2)] batch p(4)
    by (simp add: serial_append)
  ultimately show ?thesis using c(3) b(1) [OF batch] by (simp add: oc_inv_def)
qed

lemma oc_step_inv:
  assumes "oc_step s s'" and "oc_inv ord t0 s"
  shows "oc_inv ord t0 s'"
proof -
  note p = oc_inv_parts [OF assms(2)]
  from assms(1) show ?thesis
  proof (cases rule: oc_stepE
      [consumes 1, case_names oc_read oc_create oc_record oc_commit oc_conflict oc_keep])
    case (oc_read now i e r t)
    then have e: "oc_streams s i = Some (en_events e)" "e = entity_from now i (en_events e)" "r = oc_repo s"
      by (auto simp: hm_get_one_def hm_streams_def split: if_splits option.splits)
    have ok: "seq_ok (en_events e)" "vec_fits (en_events e)" using p(2) e(1) by (auto simp: streams_ok_def)
    have "en_id (entity_from now i (en_events e)) = i" "committed_part (entity_from now i (en_events e)) = en_events e"
      using ok(2) by (simp_all add: committed_part_def entity_from_def load_from_history_def set_id_def)
    with e(2) entity_from_wf [OF ok, of now i] have "en_id e = i" "committed_part e = en_events e" "entity_wf e"
      by metis+
    with ok e(1) have "in_hand_ok (oc_streams s) e" by (simp add: in_hand_ok_def stream_of_def)
    with oc_inv_hand [OF assms(2), of "e # oc_hand s t" t] p(3) show ?thesis by (auto simp: oc_read(1) e(3))
  next
    case (oc_create t i now)
    have "in_hand_ok (oc_streams s) (entity_with_id i now)"
      by (simp add: in_hand_ok_def committed_part_def)
        (simp add: entity_with_id_def entity_default_def entity_wf_def)
    with oc_inv_hand [OF assms(2), of "entity_with_id i now # oc_hand s t" t] p(3)
    show ?thesis by (auto simp: oc_create)
  next
    case (oc_record t pre e post bs now name e')
    have "in_hand_ok (oc_streams s) e" using p(3) [of e t] oc_record(2) by simp
    from record_in_hand [OF this _ oc_record(4)] oc_record(3)
    have e': "in_hand_ok (oc_streams s) e'" by simp
    have "in_hand_ok (oc_streams s) x" if "x \<in> set (pre @ e' # post)" for x
      using that e' p(3) [of x t] oc_record(2) by auto
    then show ?thesis unfolding oc_record(1) by (rule oc_inv_hand [OF assms(2)])
  next
    case (oc_commit t pre batch post r es)
    from commit_inv [OF assms(2) oc_commit(2-4)] show ?thesis by (simp add: oc_commit(1))
  next
    case (oc_conflict t pre batch post res r es)
    have "\<forall>e \<in> set batch. entity_wf e" using p(3) [of _ t] oc_conflict(2) by (simp add: in_hand_ok_def)
    from hm_commit_outcome [OF p(1) this oc_conflict(3)] oc_conflict(4)
    have "r = oc_repo s" "pre @ es @ post = oc_hand s t" using oc_conflict(2) by auto
    with assms(2) show ?thesis by (simp add: oc_conflict(1))
  next
    case (oc_keep es t)
    with oc_inv_hand [OF assms(2), of es t] p(3) show ?thesis by auto
  qed
qed

lemma oc_run_inv:
  assumes "oc_step\<^sup>*\<^sup>* s s'" and "oc_inv ord t0 s"
  shows "oc_inv ord t0 s'"
  using assms by (induction rule: rtranclp_induct) (auto intro: oc_step_inv)

lemma oc_start_inv:
  assumes "hm_inv ord r" and "streams_ok (hm_streams r)"
  shows "oc_inv ord (hm_streams r) (oc_start r)"
  using assms by (simp add: oc_inv_def oc_start_def)

section \<open>Serializability\<close>

text \<open>
  C5: Optimistic concurrency is serializable.  However the reads, changes and commits of many
  clients interleave, with any number of copies of an entity in one hand, as long as no batch
  holds two entities of one id (which the repository does not check): every stream is what it was at the start followed by the events of the
  successful commits in their order, nothing lost and nothing else; each successful commit was
  made by a client that had seen of that stream exactly what all commits before it had left; and
  what any client holds as committed is a prefix of what is stored.
\<close>

theorem optimistic_serializable:
  assumes "hm_inv ord r" and "streams_ok (hm_streams r)" and "oc_step\<^sup>*\<^sup>* (oc_start r) s"
  shows "(\<forall>i. stream_of (oc_streams s) i = stream_of (hm_streams r) i @ added (oc_log s) i) \<and>
    (\<forall>pre i basis new post. oc_log s = pre @ (i, basis, new) # post \<longrightarrow>
       basis = stream_of (hm_streams r) i @ added pre i) \<and>
    (\<forall>t. \<forall>e \<in> set (oc_hand s t). prefix (committed_part e) (stream_of (oc_streams s) (en_id e))) \<and>
    streams_ok (oc_streams s)"
proof -
  note p = oc_inv_parts [OF oc_run_inv [OF assms(3) oc_start_inv [OF assms(1,2)]]]
  have "basis = stream_of (hm_streams r) i @ added pre i" if "oc_log s = pre @ (i, basis, new) # post" for pre i basis new post
    by (rule serial_entry) (use p(5) that in simp)
  with p(2-4) show ?thesis by (auto simp: in_hand_ok_def)
qed

theorem optimistic_serializable_witness:
  "\<exists>s. oc_step\<^sup>*\<^sup>* (oc_start hm_repo_new) s \<and> oc_log s \<noteq> [] \<and>
     stream_of (oc_streams s) ''a'' = added (oc_log s) ''a'' \<and> length (stream_of (oc_streams s) ''a'') = 1"
proof -
  let ?fresh = "entity_with_id ''a'' 0"
  let ?e = "push_record (event_record_new ''Created'' [7] 1 5) 5 ?fresh"
  define s1 where "s1 = (oc_start hm_repo_new)\<lparr>oc_hand := (oc_hand (oc_start hm_repo_new))(0 := ?fresh # oc_hand (oc_start hm_repo_new) 0)\<rparr>"
  define s2 where "s2 = s1\<lparr>oc_hand := (oc_hand s1)(0 := [] @ ?e # [])\<rparr>"
  have step1: "oc_step (oc_start hm_repo_new) s1"
    unfolding s1_def by (rule oc_step.oc_create)
  have d: "digest (\<lambda>_. Some [7]) 5 ''Created'' () ?fresh = Some ?e"
    by (simp add: digest_def entity_with_id_def entity_default_def)
  have step2: "oc_step s1 s2"
    unfolding s2_def
    by (rule oc_step.oc_record [OF _ _ d]) (simp_all add: s1_def oc_start_def entity_with_id_def entity_default_def)
  have h2: "oc_hand s2 0 = [?e]" "oc_repo s2 = hm_repo_new" "oc_log s2 = []"
    by (simp_all add: s2_def s1_def oc_start_def)
  have wf: "\<forall>e \<in> set [?e]. entity_wf e"
    using push_record_wf [of ?fresh "event_record_new ''Created'' [7] 1 5" 5]
    by (simp add: event_record_new_def entity_with_id_def entity_default_def entity_wf_def)
  have unc: "uncommitted ?e = en_events ?e" "length (en_events ?e) = 1"
    by (simp_all add: uncommitted_def push_record_def entity_with_id_def entity_default_def Let_def)
  have empty: "hm_streams hm_repo_new = Map.empty" by (simp add: hm_repo_new_def hm_streams_def lookup_empty fun_eq_iff)
  have "\<forall>e \<in> set [?e]. current (hm_streams hm_repo_new) e"
    by (simp add: current_def empty stream_of_def)
      (simp add: push_record_def entity_with_id_def entity_default_def Let_def)
  then obtain r where r: "hm_commit (hm_repo_new, [?e]) = (Ok (), r, [mark_committed ?e])"
    using hm.commit [OF hm_inv_ordered_new wf, of 0] by (auto simp: hashmap_repo_def)
  define s3 where "s3 = s2\<lparr>oc_repo := r, oc_hand := (oc_hand s2)(0 := [] @ [mark_committed ?e] @ []), oc_log := oc_log s2 @ map entry_of [?e]\<rparr>"
  have step3: "oc_step s2 s3" unfolding s3_def by (rule oc_step.oc_commit) (use r h2 in simp_all)
  have run: "oc_step\<^sup>*\<^sup>* (oc_start hm_repo_new) s3" 
    by (rule converse_rtranclp_into_rtranclp [where r = oc_step, OF step1 converse_rtranclp_into_rtranclp [where r = oc_step, OF step2 r_into_rtranclp [where r = oc_step, OF step3]]])
  have log: "oc_log s3 = [entry_of ?e]" by (simp add: s3_def h2)
  have id: "en_id ?e = ''a''" by (simp add: push_record_def entity_with_id_def Let_def)
  have "streams_ok (hm_streams hm_repo_new)" by (simp add: empty streams_ok_def)
  from optimistic_serializable [OF hm_inv_ordered_new this run]
  have "stream_of (oc_streams s3) ''a'' = added (oc_log s3) ''a''"
    by (simp add: empty) (simp add: stream_of_def)
  moreover have "length (added (oc_log s3) ''a'') = 1"
    using unc id by (simp add: log entry_of_def)
  ultimately show ?thesis using run log by (intro exI [of _ s3]) simp
qed

end
