(* ===== verification/Snapshot_System.thy ===== *)
theory Snapshot_System
  imports Snapshot Optimistic
begin

text \<open>
  Many clients of one \<open>SnapshotAggregateRepository\<close> over a \<open>HashMapRepository\<close>, without locks
  (\<open>src/snapshot/repository.rs\<close>).  A \<open>get\<close> is two calls of the store, the stream and then the
  snapshot, and a \<open>commit\<close> is two, the events and then the snapshot: others may commit and take
  snapshots in between, so the snapshot that a client reads can be newer than the events it has
  read, and the one that it stores older than the one that is there.
\<close>

section \<open>Faithful aggregates\<close>

text \<open>
  An aggregate is faithful when hydration of its own entity gives its state, and a stream is
  sound when it hydrates to an aggregate that has the id of the stream.
\<close>

definition faithful :: "('a, 's, 'z) snapshottable_scheme \<Rightarrow> 'a \<Rightarrow> bool" where
  "faithful A a \<longleftrightarrow>
     (\<exists>b. hydrate A (ag_entity A a) = Ok b \<and> en_id (ag_entity A b) = en_id (ag_entity A a) \<and>
        sp_create_snapshot A b = sp_create_snapshot A a)"

definition sound :: "('a, 's, 'z) snapshottable_scheme \<Rightarrow> string \<Rightarrow> event_record list \<Rightarrow> bool" where
  "sound A i evs \<longleftrightarrow>
     (\<exists>e a. en_events e = evs \<and> en_id e = i \<and> hydrate A e = Ok a \<and> en_id (ag_entity A a) = i)"

text \<open>
  The methods of an aggregate, as its clients call them: each records events that replay to what
  it did, and only the one that creates the aggregate sets its id.
\<close>

locale snapshot_methods = snapshot_laws A
  for A :: "('a, 's, 'z) snapshottable_scheme" +
  fixes meth :: "'a \<Rightarrow> 'a \<Rightarrow> bool"
  assumes keeps_faithful: "meth a a' \<Longrightarrow> faithful A a \<Longrightarrow> \<not> en_replaying (ag_entity A a) \<Longrightarrow>
      entity_wf (ag_entity A a) \<Longrightarrow> vec_fits (en_events (ag_entity A a')) \<Longrightarrow>
      faithful A a' \<and> \<not> en_replaying (ag_entity A a') \<and> entity_wf (ag_entity A a') \<and>
      en_committed_version (ag_entity A a') = en_committed_version (ag_entity A a) \<and>
      prefix (en_events (ag_entity A a)) (en_events (ag_entity A a')) \<and>
      (en_events (ag_entity A a) \<noteq> [] \<longrightarrow> en_id (ag_entity A a') = en_id (ag_entity A a))"

lemma hydrated_like:
  assumes "snapshot_laws A" and "hydrate A e0 = Ok a0" and "en_events e = en_events e0" and "en_id e = en_id e0"
  shows "\<exists>a. hydrate A e = Ok a \<and> sp_create_snapshot A a = sp_create_snapshot A a0 \<and>
    ag_entity A a = e\<lparr>en_id := en_id (ag_entity A a0), en_replaying := False\<rparr>"
proof -
  have laws: "aggregate_laws A" using assms(1) by (simp add: snapshot_laws_def)
  obtain a where a: "hydrate A e = Ok a" "sp_create_snapshot A a = sp_create_snapshot A a0"
    using hydrate_entity_state [OF assms] by blast
  obtain b i where b: "ag_entity A b = e\<lparr>en_replaying := True, en_id := i\<rparr>" "en_id (ag_entity A a0) = i"
    "hydrate A e = Ok (on_entity A (set_replaying False) b)"
    using snapshot_laws.hydrate_prefix [OF assms(1,2), of e "[]"] assms(3,4) by (auto simp: upcast_all_def)
  have "a = on_entity A (set_replaying False) b" using a(1) b(3) by simp
  then have "ag_entity A a = set_replaying False (ag_entity A b)"
    by (simp add: on_entity_def aggregate_laws.entity_set [OF laws])
  with a b show ?thesis by (simp add: set_replaying_def)
qed

lemma sound_hydrates:
  assumes "snapshot_laws A" and "sound A i evs" and "en_events e = evs" and "en_id e = i"
  obtains a where "hydrate A e = Ok a" "ag_entity A a = e\<lparr>en_replaying := False\<rparr>"
proof -
  obtain e0 a0 where "en_events e0 = evs" "en_id e0 = i" "hydrate A e0 = Ok a0" "en_id (ag_entity A a0) = i"
    using assms(2) unfolding sound_def by blast
  with hydrated_like [OF assms(1) this(3), of e] assms(3,4) obtain a where
    "hydrate A e = Ok a" "ag_entity A a = e\<lparr>en_id := i, en_replaying := False\<rparr>" by auto
  moreover have "e\<lparr>en_id := i\<rparr> = e" by (rule same_id [OF assms(4)])
  ultimately show thesis using that by simp
qed

text \<open>What hydration keeps of an entity that it does not rename.\<close>

lemma faithful_fields:
  assumes "ag_entity A a = e\<lparr>en_replaying := False\<rparr>"
  shows "en_id (ag_entity A a) = en_id e" "en_events (ag_entity A a) = en_events e"
    "\<not> en_replaying (ag_entity A a)" "in_hand_ok t (ag_entity A a) = in_hand_ok t e"
    "committed_part (ag_entity A a) = committed_part e"
  using assms by (simp_all add: in_hand_ok_def committed_part_def entity_wf_def)

lemma faithful_any_entity:
  assumes "snapshot_laws A" and "faithful A a" and "en_events f = en_events (ag_entity A a)"
    and "en_id f = en_id (ag_entity A a)"
  shows "faithful A (ag_set_entity A f a)"
proof -
  have laws: "aggregate_laws A" using assms(1) by (simp add: snapshot_laws_def)
  obtain b where b: "hydrate A (ag_entity A a) = Ok b" "en_id (ag_entity A b) = en_id (ag_entity A a)"
    "sp_create_snapshot A b = sp_create_snapshot A a" using assms(2) unfolding faithful_def by blast
  from hydrated_like [OF assms(1) b(1) assms(3,4)] obtain c where
    "hydrate A f = Ok c" "sp_create_snapshot A c = sp_create_snapshot A b"
    "en_id (ag_entity A c) = en_id (ag_entity A b)" by auto
  moreover have "sp_create_snapshot A (ag_set_entity A f a) = sp_create_snapshot A a"
    by (rule snapshot_laws.create_any_entity [OF assms(1,4)])
  ultimately show ?thesis
    unfolding faithful_def aggregate_laws.entity_set [OF laws] using b(2,3) assms(4) by metis
qed

lemma faithful_hydrated:
  assumes "snapshot_laws A" and "hydrate A e = Ok a" and "ag_entity A a = e\<lparr>en_replaying := False\<rparr>"
  shows "faithful A a"
  using hydrated_like [OF assms(1,2), of "ag_entity A a"] assms(3) unfolding faithful_def by auto

lemma faithful_sound: "faithful A a \<Longrightarrow> sound A (en_id (ag_entity A a)) (en_events (ag_entity A a))"
  unfolding faithful_def sound_def by blast

lemma faithful_new:
  assumes "snapshot_laws A"
  shows "faithful A (ag_set_entity A (entity_with_id i now) (ag_new_empty A))"
proof (rule faithful_hydrated [OF assms])
  have laws: "aggregate_laws A" using assms by (simp add: snapshot_laws_def)
  note simps = aggregate_laws.entity_set [OF laws] aggregate_laws.set_set [OF laws]
  have f: "en_events (entity_with_id i now) = []"
    "set_replaying False (set_replaying True (entity_with_id i now)) = entity_with_id i now"
    by (simp_all add: entity_with_id_def entity_default_def set_replaying_def)
  show "hydrate A (entity_with_id i now) = Ok (ag_set_entity A (entity_with_id i now) (ag_new_empty A))"
    by (simp add: hydrate_def Let_def simps upcast_all_def replay_loop_def on_entity_def f)
  show "ag_entity A (ag_set_entity A (entity_with_id i now) (ag_new_empty A)) =
      entity_with_id i now\<lparr>en_replaying := False\<rparr>"
    by (simp add: simps) (simp add: entity_with_id_def entity_default_def)
qed

section \<open>The system\<close>

text \<open>
  What a client has in hand: an entity whose snapshot it has not looked up yet, an aggregate it
  works on, or an aggregate whose events it has committed and whose snapshot may be due.
\<close>

datatype 'a snap_client = Idle | Loaded entity | Working 'a | Unsnapped 'a

record 'a snap_system =
  sy_repo :: hm_repo
  sy_client :: "nat \<Rightarrow> 'a snap_client"

abbreviation sy_streams :: "'a snap_system \<Rightarrow> streams" where
  "sy_streams s \<equiv> hm_streams (sy_repo s)"

abbreviation stored_snaps :: "hm_repo \<Rightarrow> string \<Rightarrow> snapshot_record option" where
  "stored_snaps r \<equiv> Mapping.lookup (ss_storage (hr_snapshots r))"

text \<open>
  The ids of the aggregate's type are \<open>mine\<close>.  The last two steps are those of anyone else who
  uses the repository for other things: entities and snapshots with other ids.
\<close>

inductive sy_step ::
    "('a, 's, 'z) snapshottable_scheme \<Rightarrow> ('a \<Rightarrow> 'a \<Rightarrow> bool) \<Rightarrow> (string \<Rightarrow> bool) \<Rightarrow>
     'a snap_system \<Rightarrow> 'a snap_system \<Rightarrow> bool"
  for A meth mine where
  sy_load:
    "sy_client s t = Idle \<Longrightarrow> mine i \<Longrightarrow> hm_get_one now i (sy_repo s) = (Ok (Some e), r) \<Longrightarrow>
     sy_step A meth mine s (s\<lparr>sy_repo := r, sy_client := (sy_client s)(t := Loaded e)\<rparr>)"
| sy_hydrate:
    "sy_client s t = Loaded e \<Longrightarrow>
     so_get_snapshot hashmap_snapshots (en_id e) (sy_repo s) = (Ok snap, r) \<Longrightarrow>
     hydrate_with_optional_snapshot A e snap = Ok a \<Longrightarrow>
     sy_step A meth mine s (s\<lparr>sy_repo := r, sy_client := (sy_client s)(t := Working a)\<rparr>)"
| sy_create:
    "sy_client s t = Idle \<Longrightarrow>
     sy_step A meth mine s (s\<lparr>sy_client := (sy_client s)
       (t := Working (ag_set_entity A (entity_with_id i now) (ag_new_empty A)))\<rparr>)"
| sy_method:
    "sy_client s t = Working a \<Longrightarrow> meth a a' \<Longrightarrow> vec_fits (en_events (ag_entity A a')) \<Longrightarrow>
     sy_step A meth mine s (s\<lparr>sy_client := (sy_client s)(t := Working a')\<rparr>)"
| sy_commit:
    "sy_client s t = Working a \<Longrightarrow> mine (en_id (ag_entity A a)) \<Longrightarrow>
     ar_commit A (hashmap_repo now ord) (sy_repo s, a) = (Ok (), r, a') \<Longrightarrow>
     sy_step A meth mine s (s\<lparr>sy_repo := r, sy_client := (sy_client s)(t := Unsnapped a')\<rparr>)"
| sy_conflict:
    "sy_client s t = Working a \<Longrightarrow>
     ar_commit A (hashmap_repo now ord) (sy_repo s, a) = (res, r, a') \<Longrightarrow> res \<noteq> Ok () \<Longrightarrow>
     sy_step A meth mine s (s\<lparr>sy_repo := r, sy_client := (sy_client s)(t := Working a')\<rparr>)"
| sy_snapshot:
    "sy_client s t = Unsnapped a \<Longrightarrow>
     maybe_snapshot A hashmap_snapshots frequency (sy_repo s, a) = (res, r, a') \<Longrightarrow>
     sy_step A meth mine s (s\<lparr>sy_repo := r, sy_client := (sy_client s)(t := Working a')\<rparr>)"
| sy_forget:
    "sy_step A meth mine s (s\<lparr>sy_client := (sy_client s)(t := Idle)\<rparr>)"
| sy_others:
    "\<forall>e \<in> set es. entity_wf e \<and> vec_fits (en_events e) \<and> \<not> mine (en_id e) \<Longrightarrow>
     distinct (map en_id es) \<Longrightarrow> hm_commit (sy_repo s, es) = (res, r, es') \<Longrightarrow>
     sy_step A meth mine s (s\<lparr>sy_repo := r\<rparr>)"
| sy_other_snapshot:
    "\<not> mine (sn_aggregate_id p) \<Longrightarrow> so_save_snapshot hashmap_snapshots p (sy_repo s) = (res, r) \<Longrightarrow>
     sy_step A meth mine s (s\<lparr>sy_repo := r\<rparr>)"

inductive_cases sy_stepE: "sy_step A meth mine s s'"

section \<open>The invariant\<close>

fun client_ok ::
    "('a, 's, 'z) snapshottable_scheme \<Rightarrow> (string \<Rightarrow> bool) \<Rightarrow> streams \<Rightarrow> 'a snap_client \<Rightarrow> bool" where
  "client_ok A mine t Idle \<longleftrightarrow> True"
| "client_ok A mine t (Loaded e) \<longleftrightarrow>
     in_hand_ok t e \<and> mine (en_id e) \<and> committed_part e = en_events e \<and> sound A (en_id e) (en_events e)"
| "client_ok A mine t (Working a) \<longleftrightarrow>
     in_hand_ok t (ag_entity A a) \<and> faithful A a \<and> \<not> en_replaying (ag_entity A a)"
| "client_ok A mine t (Unsnapped a) \<longleftrightarrow>
     in_hand_ok t (ag_entity A a) \<and> faithful A a \<and> \<not> en_replaying (ag_entity A a) \<and>
     mine (en_id (ag_entity A a)) \<and> committed_part (ag_entity A a) = en_events (ag_entity A a)"

definition store_ok ::
    "('a, 's, 'z) snapshottable_scheme \<Rightarrow> (string \<Rightarrow> bool) \<Rightarrow> event_order \<Rightarrow> hm_repo \<Rightarrow> bool" where
  "store_ok A mine ord r \<longleftrightarrow>
     hm_inv ord r \<and> streams_ok (hm_streams r) \<and> ss_inv (hr_snapshots r) \<and>
     (\<forall>i evs. mine i \<longrightarrow> hm_streams r i = Some evs \<longrightarrow> sound A i evs) \<and>
     (\<forall>i p. mine i \<longrightarrow> stored_snaps r i = Some p \<longrightarrow> snapshot_valid A i (stream_of (hm_streams r) i) p)"

definition sy_inv ::
    "('a, 's, 'z) snapshottable_scheme \<Rightarrow> (string \<Rightarrow> bool) \<Rightarrow> event_order \<Rightarrow> 'a snap_system \<Rightarrow> bool" where
  "sy_inv A mine ord s \<longleftrightarrow>
     store_ok A mine ord (sy_repo s) \<and> (\<forall>t. client_ok A mine (sy_streams s) (sy_client s t))"

lemma client_ok_mono:
  "client_ok A mine t c \<Longrightarrow> (\<And>i. prefix (stream_of t i) (stream_of t' i)) \<Longrightarrow> client_ok A mine t' c"
  by (cases c) (auto intro: in_hand_mono)

lemma sy_inv_update:
  assumes "sy_inv A mine ord s" and "store_ok A mine ord r"
    and "\<And>i. prefix (stream_of (sy_streams s) i) (stream_of (hm_streams r) i)"
    and "client_ok A mine (hm_streams r) c"
  shows "sy_inv A mine ord (s\<lparr>sy_repo := r, sy_client := (sy_client s)(t := c)\<rparr>)"
  using assms client_ok_mono [of A, OF _ assms(3)] by (auto simp: sy_inv_def)

lemma sy_inv_store:
  assumes "sy_inv A mine ord s" and "store_ok A mine ord r"
    and "\<And>i. prefix (stream_of (sy_streams s) i) (stream_of (hm_streams r) i)"
  shows "sy_inv A mine ord (s\<lparr>sy_repo := r\<rparr>)"
  using assms client_ok_mono [of A, OF _ assms(3)] by (auto simp: sy_inv_def)

lemma sy_inv_client:
  assumes "sy_inv A mine ord s" and "client_ok A mine (sy_streams s) c"
  shows "sy_inv A mine ord (s\<lparr>sy_client := (sy_client s)(t := c)\<rparr>)"
  using assms by (simp add: sy_inv_def)

lemma store_parts:
  assumes "store_ok A mine ord r"
  shows "hm_inv ord r" "streams_ok (hm_streams r)" "ss_inv (hr_snapshots r)"
    "\<And>i evs. mine i \<Longrightarrow> hm_streams r i = Some evs \<Longrightarrow> sound A i evs"
    "\<And>i p. mine i \<Longrightarrow> stored_snaps r i = Some p \<Longrightarrow> snapshot_valid A i (stream_of (hm_streams r) i) p"
  using assms by (auto simp: store_ok_def)

lemma snapshot_valid_prefix: "snapshot_valid A i evs p \<Longrightarrow> prefix evs evs' \<Longrightarrow> snapshot_valid A i evs' p"
  by (auto simp: prefix_def snapshot_valid_extend)

text \<open>A change of the streams keeps the snapshots that are there.\<close>

lemma store_grows:
  assumes "store_ok A mine ord r" and "hm_inv ord r'" and "streams_ok (hm_streams r')"
    and "hr_snapshots r' = hr_snapshots r"
    and "\<And>i. prefix (stream_of (hm_streams r) i) (stream_of (hm_streams r') i)"
    and "\<And>i evs. mine i \<Longrightarrow> hm_streams r' i = Some evs \<Longrightarrow> hm_streams r' i = hm_streams r i \<or> sound A i evs"
  shows "store_ok A mine ord r'"
  using assms unfolding store_ok_def by (metis snapshot_valid_prefix)

section \<open>The steps\<close>

text \<open>The race of a \<open>get\<close>: whichever snapshot it finds, it returns the replay of the events it has read.\<close>

lemma raced_hydration:
  assumes "snapshot_laws A" and "in_hand_ok t e" and "committed_part e = en_events e"
    and "sound A (en_id e) (en_events e)"
    and "\<And>p. snap = Some p \<Longrightarrow> snapshot_valid A (en_id e) (stream_of t (en_id e)) p"
  shows "\<exists>b v. hydrate A e = Ok b \<and> ag_entity A b = e\<lparr>en_replaying := False\<rparr> \<and>
    hydrate_with_optional_snapshot A e snap = Ok (on_entity A (set_snapshot_version v) b)"
proof -
  have laws: "aggregate_laws A" using assms(1) by (simp add: snapshot_laws_def)
  obtain b where b: "hydrate A e = Ok b" "ag_entity A b = e\<lparr>en_replaying := False\<rparr>"
    by (rule sound_hydrates [OF assms(1,4) refl refl])
  have "set_snapshot_version (en_snapshot_version e) (ag_entity A b) = ag_entity A b"
    by (simp add: b(2) set_snapshot_version_def)
  then have same: "on_entity A (set_snapshot_version (en_snapshot_version e)) b = b"
    by (simp add: on_entity_def aggregate_laws.set_entity [OF laws])
  show ?thesis
  proof (cases "\<exists>p. snap = Some p \<and> sn_version p \<le> en_version e")
    case False
    then have "hydrate_with_optional_snapshot A e snap = hydrate A e"
      by (auto simp: hydrate_with_optional_snapshot_def split: option.splits)
    with b same show ?thesis by metis
  next
    case True
    then obtain p where p: "snap = Some p" "sn_version p \<le> en_version e" by blast
    have e: "entity_wf e" "vec_fits (en_events e)" "prefix (en_events e) (stream_of t (en_id e))"
      using assms(2,3) by (simp_all add: in_hand_ok_def)
    have n: "unat (en_version e) = length (en_events e)" by (rule entity_wfD(1) [OF e(1)])
    obtain e0 a0 where v: "en_events e0 = take (unat (sn_version p)) (stream_of t (en_id e))"
      "en_id e0 = en_id e" "hydrate A e0 = Ok a0" "sp_deserialize A (sn_data p) = Inr (sp_create_snapshot A a0)"
      using assms(5) [OF p(1)] unfolding snapshot_valid_def by blast
    have le: "unat (sn_version p) \<le> length (en_events e)" using p(2) n by (simp add: word_le_nat_alt)
    then have "take (unat (sn_version p)) (stream_of t (en_id e)) = take (unat (sn_version p)) (en_events e)"
      using e(3) by (auto simp: prefix_def)
    with v le have "snapshot_valid A (en_id e) (en_events e) p" unfolding snapshot_valid_def by metis
    from snapshot_valid_hydration [OF assms(1) this refl refl _ e(2) n] e(1) b
    show ?thesis by (auto simp: p(1) entity_wf_def)
  qed
qed

lemma hydrate_client:
  assumes "snapshot_laws A" and "sy_inv A mine ord s" and "sy_client s t = Loaded e"
    and "hydrate_with_optional_snapshot A e (stored_snaps (sy_repo s) (en_id e)) = Ok a"
  shows "client_ok A mine (sy_streams s) (Working a)"
proof -
  have laws: "aggregate_laws A" using assms(1) by (simp add: snapshot_laws_def)
  have "client_ok A mine (sy_streams s) (Loaded e)" using assms(2,3) by (metis sy_inv_def)
  then have c: "in_hand_ok (sy_streams s) e" "mine (en_id e)" "committed_part e = en_events e"
    "sound A (en_id e) (en_events e)" by simp_all
  have "store_ok A mine ord (sy_repo s)" using assms(2) by (simp add: sy_inv_def)
  from raced_hydration [OF assms(1) c(1,3,4), of "stored_snaps (sy_repo s) (en_id e)"] store_parts(5) [OF this c(2)]
    assms(4) obtain b v where
    b: "hydrate A e = Ok b" "ag_entity A b = e\<lparr>en_replaying := False\<rparr>" "a = on_entity A (set_snapshot_version v) b"
    by auto
  have "a = ag_set_entity A (set_snapshot_version v (ag_entity A b)) b" by (simp add: b(3) on_entity_def)
  with faithful_any_entity [OF assms(1) faithful_hydrated [OF assms(1) b(1,2)], of "set_snapshot_version v (ag_entity A b)"]
  have "faithful A a" by (simp add: set_snapshot_version_def)
  moreover have "ag_entity A a = e\<lparr>en_replaying := False, en_snapshot_version := v\<rparr>"
    by (simp add: b(2,3) on_entity_def aggregate_laws.entity_set [OF laws] set_snapshot_version_def)
  ultimately show ?thesis using c(1) by (simp add: in_hand_ok_def committed_part_def entity_wf_def)
qed

lemma commit_client:
  fixes s :: "'a snap_system"
  assumes "snapshot_laws A" and "sy_inv A mine ord s" and "sy_client s t = Working a"
    and "ar_commit A (hashmap_repo now ord') (sy_repo s, a) = (res, r, a')"
  shows "if res = Ok ()
    then hm_inv ord r \<and> streams_ok (hm_streams r) \<and> hr_snapshots r = hr_snapshots (sy_repo s) \<and>
      hm_streams r = (sy_streams s)(en_id (ag_entity A a) \<mapsto> en_events (ag_entity A a)) \<and>
      prefix (stream_of (sy_streams s) (en_id (ag_entity A a))) (en_events (ag_entity A a)) \<and>
      (mine (en_id (ag_entity A a)) \<longrightarrow> client_ok A mine (hm_streams r) (Unsnapped a'))
    else r = sy_repo s \<and> a' = a"
proof -
  let ?e = "ag_entity A a"
  have laws: "aggregate_laws A" using assms(1) by (simp add: snapshot_laws_def)
  have "client_ok A mine (sy_streams s) (Working a)" using assms(2,3) by (metis sy_inv_def)
  then have c: "in_hand_ok (sy_streams s) ?e" "faithful A a" "\<not> en_replaying ?e" by simp_all
  then have wf: "entity_wf ?e" "vec_fits (en_events ?e)" by (simp_all add: in_hand_ok_def)
  have st: "hm_inv ord (sy_repo s)" "streams_ok (sy_streams s)"
    using assms(2) by (simp_all add: sy_inv_def store_ok_def)
  obtain es where hm: "hm_commit (sy_repo s, [?e]) = (res, r, es)" "a' = ag_set_entity A (hd es) a"
    using assms(4) by (auto simp: ar_commit_def hashmap_repo_def split: prod.splits)
  from hm_commit_outcome [OF st(1) _ hm(1)] wf(1) consider
      (stored) "res = Ok ()" "current (sy_streams s) ?e" "es = [mark_committed ?e]" "hm_inv ord r"
        "hm_streams r = append_all [?e] (sy_streams s)"
    | (refused) "res \<noteq> Ok ()" "r = sy_repo s" "es = [?e]" by auto
  then show ?thesis
  proof cases
    case refused
    then show ?thesis using hm(2) by (simp add: aggregate_laws.set_entity [OF laws])
  next
    case stored
    have basis: "committed_part ?e = stream_of (sy_streams s) (en_id ?e)"
      "stream_of (sy_streams s) (en_id ?e) @ uncommitted ?e = en_events ?e"
      using current_basis [OF c(1) st(2) stored(2)] by blast+
    have r: "hm_streams r = (sy_streams s)(en_id ?e \<mapsto> en_events ?e)" using stored(5) basis(2) by simp
    have "streams_ok (hm_streams r)"
      unfolding stored(5) using wf stored(2) by (intro append_all_streams_ok [OF st(2)]) simp_all
    moreover have "hr_snapshots r = hr_snapshots (sy_repo s)"
      using hm_commit_snapshots [of "sy_repo s" "[?e]"] hm(1) by simp
    moreover have a': "a' = ag_set_entity A (mark_committed ?e) a" using hm(2) stored(3) by simp
    have "faithful A a'"
      unfolding a' by (rule faithful_any_entity [OF assms(1) c(2)]) (simp_all add: mark_committed_def)
    moreover have "ag_entity A a' = mark_committed ?e" by (simp add: a' aggregate_laws.entity_set [OF laws])
    moreover have "in_hand_ok (hm_streams r) (mark_committed ?e)"
      using wf by (simp add: in_hand_ok_def mark_committed_wf committed_part_simps)
        (simp add: r mark_committed_def)
    moreover have "prefix (stream_of (sy_streams s) (en_id ?e)) (en_events ?e)"
      by (rule prefixI [OF basis(2) [symmetric]])
    ultimately show ?thesis
      using stored(1,4) r c(3) committed_part_simps [OF wf(1)] by (simp add: mark_committed_def)
  qed
qed

lemma commit_store:
  assumes "sy_inv A mine ord s" and "faithful A a" and "hm_inv ord r" and "streams_ok (hm_streams r)"
    and "hr_snapshots r = hr_snapshots (sy_repo s)"
    and "hm_streams r = (sy_streams s)(en_id (ag_entity A a) \<mapsto> en_events (ag_entity A a))"
    and "prefix (stream_of (sy_streams s) (en_id (ag_entity A a))) (en_events (ag_entity A a))"
  shows "store_ok A mine ord r \<and> (\<forall>i. prefix (stream_of (sy_streams s) i) (stream_of (hm_streams r) i))"
proof -
  have grows: "prefix (stream_of (sy_streams s) i) (stream_of (hm_streams r) i)" for i
    using assms(7) by (simp add: assms(6) stream_of_def)
  have "store_ok A mine ord (sy_repo s)" using assms(1) by (simp add: sy_inv_def)
  then have "store_ok A mine ord r"
    by (rule store_grows [OF _ assms(3,4,5) grows])
      (use faithful_sound [OF assms(2)] in \<open>auto simp: assms(6) split: if_splits\<close>)
  with grows show ?thesis by blast
qed

lemma maybe_snapshot_cases:
  assumes "ss_inv (hr_snapshots r)" and "maybe_snapshot A hashmap_snapshots f (r, a) = (res, r', a')"
  obtains (kept) "r' = r" "a' = a"
  | (saved) data where "sp_serialize A (sp_create_snapshot A a) = Inr data"
      "stored_snaps r' = (stored_snaps r)(en_id (ag_entity A a) \<mapsto> \<lparr>sn_aggregate_id = en_id (ag_entity A a),
        sn_version = en_version (ag_entity A a), sn_data = data\<rparr>)"
      "r' = r\<lparr>hr_snapshots := hr_snapshots r'\<rparr>" "ss_inv (hr_snapshots r')"
      "a' = on_entity A (set_snapshot_version (en_version (ag_entity A a))) a"
proof (cases "en_snapshot_version (ag_entity A a) + f \<le> en_version (ag_entity A a)")
  case False
  with assms(2) kept show thesis by (simp add: maybe_snapshot_def Let_def)
next
  case True
  show thesis
  proof (cases "sp_serialize A (sp_create_snapshot A a)")
    case (Inl msg)
    with assms(2) True kept show thesis by (simp add: maybe_snapshot_def Let_def)
  next
    case (Inr data)
    let ?p = "\<lparr>sn_aggregate_id = en_id (ag_entity A a), sn_version = en_version (ag_entity A a), sn_data = data\<rparr>"
    obtain r1 where save: "so_save_snapshot hashmap_snapshots ?p r = (Ok (), r1)" "ss_inv (hr_snapshots r1)"
      "stored_snaps r1 = (stored_snaps r)(en_id (ag_entity A a) \<mapsto> ?p)"
      using hm_snaps.save_snap [of r ?p] assms(1) by auto
    have "r1 = r\<lparr>hr_snapshots := hr_snapshots r1\<rparr>"
      using save(1) by (auto simp: hashmap_snapshots_def on_snapshots_def split: prod.splits)
    moreover have "r' = r1" "a' = on_entity A (set_snapshot_version (en_version (ag_entity A a))) a"
      using assms(2) True Inr save(1) by (simp_all add: maybe_snapshot_def Let_def)
    ultimately show thesis using saved [OF Inr] save by simp
  qed
qed

text \<open>The race of a \<open>commit\<close>: the snapshot that is stored late is one of a prefix of the stream.\<close>

lemma snapshot_client:
  assumes "snapshot_laws A" and "\<forall>x bs. sp_serialize A x = Inr bs \<longrightarrow> sp_deserialize A bs = Inr x"
    and "sy_inv A mine ord s" and "sy_client s t = Unsnapped a"
    and "maybe_snapshot A hashmap_snapshots f (sy_repo s, a) = (res, r, a')"
  shows "store_ok A mine ord r \<and> hm_streams r = sy_streams s \<and> client_ok A mine (hm_streams r) (Working a')"
proof -
  have laws: "aggregate_laws A" using assms(1) by (simp add: snapshot_laws_def)
  let ?e = "ag_entity A a"
  have "client_ok A mine (sy_streams s) (Unsnapped a)" using assms(3,4) by (metis sy_inv_def)
  then have c: "in_hand_ok (sy_streams s) ?e" "faithful A a" "\<not> en_replaying ?e" "mine (en_id ?e)"
    "committed_part ?e = en_events ?e" by simp_all
  have st: "store_ok A mine ord (sy_repo s)" using assms(3) by (simp add: sy_inv_def)
  from store_parts(3) [OF st] assms(5) show ?thesis
  proof (cases rule: maybe_snapshot_cases)
    case kept
    with st c show ?thesis by simp
  next
    case (saved data)
    let ?p = "\<lparr>sn_aggregate_id = en_id ?e, sn_version = en_version ?e, sn_data = data\<rparr>"
    have same: "hm_streams r = sy_streams s" "hm_inv ord r \<longleftrightarrow> hm_inv ord (sy_repo s)"
      by (subst saved(3), simp add: hm_streams_def) (subst saved(3), simp add: hm_inv_def)
    obtain b where b: "hydrate A ?e = Ok b" "sp_create_snapshot A b = sp_create_snapshot A a"
      using c(2) unfolding faithful_def by blast
    have wf: "entity_wf ?e" "prefix (en_events ?e) (stream_of (sy_streams s) (en_id ?e))"
      using c(1,5) by (simp_all add: in_hand_ok_def)
    have "snapshot_valid A (en_id ?e) (en_events ?e) ?p"
      by (rule snapshot_valid_now [OF b assms(2) saved(1) entity_wfD(1) [OF wf(1)]])
    then have "snapshot_valid A (en_id ?e) (stream_of (sy_streams s) (en_id ?e)) ?p"
      by (rule snapshot_valid_prefix [OF _ wf(2)])
    then have "store_ok A mine ord r"
      using st saved(2,4) unfolding store_ok_def same by (auto split: if_splits)
    moreover have a': "a' = ag_set_entity A (set_snapshot_version (en_version ?e) ?e) a"
      by (simp add: saved(5) on_entity_def)
    have "faithful A a'"
      unfolding a' by (rule faithful_any_entity [OF assms(1) c(2)]) (simp_all add: set_snapshot_version_def)
    moreover have "ag_entity A a' = set_snapshot_version (en_version ?e) ?e"
      by (simp add: a' aggregate_laws.entity_set [OF laws])
    ultimately show ?thesis
      using c(1,3) same by (simp add: set_snapshot_version_def in_hand_ok_def committed_part_def entity_wf_def)
  qed
qed

lemma others_store:
  assumes "store_ok A mine ord r" and "\<forall>e \<in> set es. entity_wf e \<and> vec_fits (en_events e) \<and> \<not> mine (en_id e)"
    and "distinct (map en_id es)" and "hm_commit (r, es) = (res, r', es')"
  shows "store_ok A mine ord r' \<and> (\<forall>i. prefix (stream_of (hm_streams r) i) (stream_of (hm_streams r') i))"
proof -
  note p = store_parts [OF assms(1)]
  have "\<forall>e \<in> set es. entity_wf e" using assms(2) by blast
  from hm_commit_outcome [OF p(1) this assms(4)] consider
      (stored) "\<forall>e \<in> set es. current (hm_streams r) e" "hm_inv ord r'" "hm_streams r' = append_all es (hm_streams r)"
    | (refused) "r' = r" by blast
  then show ?thesis
  proof cases
    case refused
    with assms(1) show ?thesis by simp
  next
    case stored
    have grows: "prefix (stream_of (hm_streams r) i) (stream_of (hm_streams r') i)" for i
      unfolding stored(3) by (rule append_all_grows)
    have "streams_ok (hm_streams r')"
      unfolding stored(3) using assms(2) stored(1) by (intro append_all_streams_ok [OF p(2) assms(3)]) blast
    moreover have "hr_snapshots r' = hr_snapshots r"
      using hm_commit_snapshots [of r es] assms(4) by simp
    moreover have "hm_streams r' i = hm_streams r i" if "mine i" for i
      unfolding stored(3) using assms(2) that by (intro append_all_other) blast
    ultimately have "store_ok A mine ord r'"
      by (intro store_grows [OF assms(1) stored(2) _ _ grows]) simp_all
    with grows show ?thesis by blast
  qed
qed

lemma other_snapshot_store:
  assumes "store_ok A mine ord r" and "\<not> mine (sn_aggregate_id p)"
    and "so_save_snapshot hashmap_snapshots p r = (res, r')"
  shows "store_ok A mine ord r' \<and> hm_streams r' = hm_streams r"
proof -
  have ss: "ss_inv (hr_snapshots r)" by (rule store_parts(3) [OF assms(1)])
  from hm_snaps.save_snap [OF this, of p] assms(3) have
    s: "ss_inv (hr_snapshots r')" "stored_snaps r' = (stored_snaps r)(sn_aggregate_id p \<mapsto> p)" by auto
  have r': "r' = r\<lparr>hr_snapshots := hr_snapshots r'\<rparr>"
    using assms(3) by (auto simp: hashmap_snapshots_def on_snapshots_def split: prod.splits)
  have same: "hm_streams r' = hm_streams r" "hm_inv ord r' \<longleftrightarrow> hm_inv ord r"
    by (subst r', simp add: hm_streams_def) (subst r', simp add: hm_inv_def)
  have "store_ok A mine ord r'"
    using assms(1,2) s unfolding store_ok_def same by auto
  with same show ?thesis by simp
qed

lemma method_client:
  assumes "snapshot_methods A meth" and "client_ok A mine t (Working a)" and "meth a a'"
    and "vec_fits (en_events (ag_entity A a'))"
  shows "client_ok A mine t (Working a')"
proof -
  let ?e = "ag_entity A a" and ?e' = "ag_entity A a'"
  have c: "in_hand_ok t ?e" "faithful A a" "\<not> en_replaying ?e" using assms(2) by simp_all
  then have wf: "entity_wf ?e" by (simp add: in_hand_ok_def)
  note m = snapshot_methods.keeps_faithful [OF assms(1,3) c(2,3) wf assms(4)]
  have n: "unat (en_committed_version ?e) \<le> length (en_events ?e)" using wf by (simp add: entity_wf_def)
  with m have part: "committed_part ?e' = committed_part ?e"
    by (auto simp: committed_part_def prefix_def)
  have "prefix (committed_part ?e) (stream_of t (en_id ?e'))"
  proof (cases "en_events ?e = []")
    case True
    then show ?thesis by (simp add: committed_part_def)
  next
    case False
    with m c(1) show ?thesis by (simp add: in_hand_ok_def)
  qed
  with m part assms(4) show ?thesis by (simp add: in_hand_ok_def)
qed

lemma sy_step_inv:
  assumes "snapshot_methods A meth" and "\<forall>x bs. sp_serialize A x = Inr bs \<longrightarrow> sp_deserialize A bs = Inr x"
    and "sy_step A meth mine s s'" and "sy_inv A mine ord s"
  shows "sy_inv A mine ord s'"
proof -
  have laws: "snapshot_laws A" using assms(1) by (simp add: snapshot_methods_def)
  have store: "store_ok A mine ord (sy_repo s)" and clients: "\<And>t. client_ok A mine (sy_streams s) (sy_client s t)"
    using assms(4) by (simp_all add: sy_inv_def)
  note p = store_parts [OF store]
  from assms(3) show ?thesis
  proof (cases rule: sy_stepE
      [consumes 1, case_names load hydrated create worked commit conflict snapshot forget others other_snapshot])
    case (load t i now e r)
    then have e: "sy_streams s i = Some (en_events e)" "e = entity_from now i (en_events e)" "r = sy_repo s"
      by (auto simp: hm_get_one_def hm_streams_def split: if_splits option.splits)
    have ok: "seq_ok (en_events e)" "vec_fits (en_events e)" using p(2) e(1) by (auto simp: streams_ok_def)
    have "en_id (entity_from now i (en_events e)) = i" "committed_part (entity_from now i (en_events e)) = en_events e"
      using ok(2) by (simp_all add: committed_part_def entity_from_def load_from_history_def set_id_def)
    with e(2) entity_from_wf [OF ok, of now i] have "en_id e = i" "committed_part e = en_events e" "entity_wf e"
      by metis+
    with ok e(1) p(4) [OF load(3) e(1)] load(3) have "client_ok A mine (sy_streams s) (Loaded e)"
      by (simp add: in_hand_ok_def stream_of_def)
    with sy_inv_client [OF assms(4)] show ?thesis by (simp add: load(1) e(3))
  next
    case (hydrated t e snap r a)
    have r: "r = sy_repo s" "snap = stored_snaps (sy_repo s) (en_id e)"
      using hydrated(3) hm_snaps.get_snap [OF p(3), of "en_id e"] by auto
    from sy_inv_client [OF assms(4) hydrate_client [OF laws assms(4) hydrated(2)]] hydrated(4) r
    show ?thesis by (simp add: hydrated(1))
  next
    case (create t i now)
    have "ag_entity A (ag_set_entity A (entity_with_id i now) (ag_new_empty A)) = entity_with_id i now"
      using laws by (simp add: snapshot_laws_def aggregate_laws.entity_set)
    moreover have "in_hand_ok (sy_streams s) (entity_with_id i now)" "\<not> en_replaying (entity_with_id i now)"
      by (simp_all add: in_hand_ok_def committed_part_def)
        (simp_all add: entity_with_id_def entity_default_def entity_wf_def)
    ultimately show ?thesis
      using faithful_new [OF laws] unfolding create(1) by (intro sy_inv_client [OF assms(4)]) simp
  next
    case (worked t a a')
    with clients [of t] method_client [OF assms(1), of mine "sy_streams s" a a']
    show ?thesis unfolding worked(1) by (intro sy_inv_client [OF assms(4)]) simp
  next
    case (commit t a now ord' r a')
    note c = commit_client [OF laws assms(4) commit(2,4), simplified]
    have "faithful A a" using clients [of t] commit(2) by simp
    with commit_store [OF assms(4), of a r] c have
      "store_ok A mine ord r" "\<And>i. prefix (stream_of (sy_streams s) i) (stream_of (hm_streams r) i)" by blast+
    moreover have "client_ok A mine (hm_streams r) (Unsnapped a')"
      using c commit(3) unfolding client_ok.simps by blast
    ultimately show ?thesis unfolding commit(1) by (intro sy_inv_update [OF assms(4)])
  next
    case (conflict t a now ord' res r a')
    from commit_client [OF laws assms(4) conflict(2,3)] conflict(4) have "r = sy_repo s" "a' = a" by simp_all
    with sy_inv_client [OF assms(4), of "Working a" t] clients [of t] conflict(2)
    show ?thesis by (simp add: conflict(1))
  next
    case (snapshot t a frequency res r a')
    note c = snapshot_client [OF laws assms(2,4) snapshot(2,3)]
    then have "prefix (stream_of (sy_streams s) i) (stream_of (hm_streams r) i)" for i by simp
    with c show ?thesis unfolding snapshot(1) by (blast intro: sy_inv_update [OF assms(4)])
  next
    case (forget t)
    with sy_inv_client [OF assms(4), of Idle t] show ?thesis by simp
  next
    case (others es res r es')
    have "\<forall>e \<in> set es. entity_wf e \<and> vec_fits (en_events e) \<and> \<not> mine (en_id e)" using others(2) by simp
    from others_store [OF store this others(3,4)]
    show ?thesis unfolding others(1) by (intro sy_inv_store [OF assms(4)]) simp_all
  next
    case (other_snapshot p res r)
    from other_snapshot_store [OF store other_snapshot(2,3)]
    show ?thesis unfolding other_snapshot(1) by (intro sy_inv_store [OF assms(4)]) simp_all
  qed
qed

lemma sy_run_inv:
  assumes "(sy_step A meth mine)\<^sup>*\<^sup>* s s'" and "snapshot_methods A meth"
    and "\<forall>x bs. sp_serialize A x = Inr bs \<longrightarrow> sp_deserialize A bs = Inr x" and "sy_inv A mine ord s"
  shows "sy_inv A mine ord s'"
  using assms(1,4) by (induction rule: rtranclp_induct) (auto intro: sy_step_inv [OF assms(2,3)])

definition sy_start :: "hm_repo \<Rightarrow> 'a snap_system" where
  "sy_start r = \<lparr>sy_repo = r, sy_client = (\<lambda>_. Idle)\<rparr>"

lemma sy_start_inv: "store_ok A mine ord r \<Longrightarrow> sy_inv A mine ord (sy_start r)"
  by (simp add: sy_inv_def sy_start_def)

section \<open>The methods of the Todo aggregate\<close>

text \<open>\<open>initialize\<close> on a new aggregate and \<open>complete\<close>, with a codec that reads back what it writes.\<close>

definition todo_meth :: "todo_codec \<Rightarrow> todo \<Rightarrow> todo \<Rightarrow> bool" where
  "todo_meth C t t' \<longleftrightarrow>
     (\<forall>x bs. tc_ser_init C x = Some bs \<longrightarrow> tc_de_init C bs = Inr x) \<and>
     ((en_events (td_entity t) = [] \<and> (\<exists>now i u k. todo_initialize C now i u k t = Some t')) \<or>
      (\<exists>now. todo_complete C now t = Some t'))"

lemma todo_fields [simp]:
  "ag_new_empty (todo_aggregate C now) = todo_new" "ag_entity (todo_aggregate C now) t = td_entity t"
  "ag_set_entity (todo_aggregate C now) e t = t\<lparr>td_entity := e\<rparr>"
  "ag_replay (todo_aggregate C now) = todo_replay C now" "ag_upcasters (todo_aggregate C now) = []"
  "sp_create_snapshot (todo_aggregate C now) = todo_create_snapshot"
  by (simp_all add: todo_aggregate_def)

lemma todo_initialize_faithful:
  assumes "faithful (todo_aggregate C clock) t" and "\<not> en_replaying (td_entity t)" and "en_events (td_entity t) = []"
    and "\<forall>x bs. tc_ser_init C x = Some bs \<longrightarrow> tc_de_init C bs = Inr x"
    and "todo_initialize C now i u k t = Some t'"
  shows "faithful (todo_aggregate C clock) t'"
proof -
  obtain bs where bs: "tc_ser_init C (i, u, k) = Some bs"
    "t' = t\<lparr>td_entity := set_id i (push_record (event_record_new ''Initialized'' bs
        (len_u64 (en_events (td_entity t)) + 1) now) now (td_entity t)), td_user_id := u, td_task := k\<rparr>"
    using assms(2,5) by (auto simp: todo_initialize_def digest_Some_iff split: option.splits)
  have ev: "en_events (td_entity t') = [(event_record_new ''Initialized'' bs (len_u64 (en_events (td_entity t)) + 1) now)
      \<lparr>er_metadata := en_metadata (td_entity t)\<rparr>]"
    using assms(3) by (simp add: bs(2) set_id_def push_record_events event_record_new_def)
  have "td_completed t = False"
    using assms(1,3) by (auto simp: faithful_def hydrate_def upcast_all_def replay_loop_def on_entity_def
        todo_new_def todo_create_snapshot_def set_replaying_def)
  moreover have "en_id (td_entity t') = i" by (simp add: bs(2) set_id_def)
  ultimately show ?thesis
    using bs(1) assms(4)
    by (simp add: faithful_def hydrate_def upcast_all_def replay_loop_def on_entity_def ev
        todo_replay_replaying set_replaying_def event_record_new_def todo_create_snapshot_def)
      (simp add: bs(2) todo_new_def)
qed

lemma todo_complete_faithful:
  assumes "faithful (todo_aggregate C clock) t" and "\<not> en_replaying (td_entity t)"
    and "todo_complete C now t = Some t'"
  shows "faithful (todo_aggregate C clock) t'"
proof (cases "td_completed t")
  case True
  with assms(1,3) show ?thesis by (simp add: todo_complete_def)
next
  case False
  let ?A = "todo_aggregate C clock" and ?e = "td_entity t"
  obtain bs where t': "t' = t\<lparr>td_entity := push_record (event_record_new ''Completed'' bs (len_u64 (en_events ?e) + 1) now) now ?e,
      td_completed := True\<rparr>"
    using assms(2,3) False by (auto simp: todo_complete_def digest_empty_def digest_Some_iff split: option.splits)
  let ?ev = "(event_record_new ''Completed'' bs (len_u64 (en_events ?e) + 1) now)\<lparr>er_metadata := en_metadata ?e\<rparr>"
  have ev: "en_events (td_entity t') = en_events ?e @ [?ev]"
    by (simp add: t' push_record_events event_record_new_def)
  have same: "en_id (td_entity t') = en_id ?e" by (simp add: t')
  obtain b0 where b0: "hydrate ?A ?e = Ok b0" "en_id (td_entity b0) = en_id ?e"
    "todo_create_snapshot b0 = todo_create_snapshot t" using assms(1) by (auto simp: faithful_def)
  obtain b i where b: "td_entity b = (td_entity t')\<lparr>en_replaying := True, en_id := i\<rparr>"
    "b0 = b\<lparr>td_entity := td_entity b0\<rparr>" "en_id (td_entity b0) = i"
    "hydrate ?A (td_entity t') = (case apply_events (todo_replay C clock) [?ev] b of
        (Ok _, c) \<Rightarrow> Ok (on_entity ?A (set_replaying False) c)
      | (Err err, c) \<Rightarrow> Err (RE_Replay err) | (Panic, c) \<Rightarrow> Panic | (Stuck, c) \<Rightarrow> Stuck)"
    using todo.hydrate_prefix [OF b0(1), of "td_entity t'"] ev same by (auto simp: upcast_all_def)
  have "todo_create_snapshot (b\<lparr>td_entity := td_entity b0\<rparr>) = todo_create_snapshot t"
    by (subst b(2) [symmetric]) (rule b0(3))
  then have "td_user_id b = td_user_id t" "td_task b = td_task t" by (simp_all add: todo_create_snapshot_def)
  with b b0(2) same show ?thesis
    by (simp add: faithful_def todo_replay_replaying event_record_new_def on_entity_def todo_create_snapshot_def
        set_replaying_def) (simp add: t')
qed

text \<open>What the two methods share: both digest one event.\<close>

lemma todo_meth_entity:
  assumes "todo_meth C t t'" and "\<not> en_replaying (td_entity t)"
  obtains "t' = t"
  | r now i where "td_entity t' = (push_record r now (td_entity t))\<lparr>en_id := i\<rparr>"
      "er_sequence r = len_u64 (en_events (td_entity t)) + 1" "er_metadata r = Mapping.empty"
      "en_events (td_entity t) \<noteq> [] \<longrightarrow> i = en_id (td_entity t)"
proof -
  consider (i) now i u k where "en_events (td_entity t) = []" "todo_initialize C now i u k t = Some t'"
    | (c) now where "todo_complete C now t = Some t'" using assms(1) unfolding todo_meth_def by blast
  then show thesis
  proof cases
    case i
    with assms(2) obtain bs where "td_entity t' =
        (push_record (event_record_new ''Initialized'' bs (len_u64 (en_events (td_entity t)) + 1) now) now (td_entity t))\<lparr>en_id := i\<rparr>"
      by (auto simp: todo_initialize_def digest_Some_iff set_id_def split: option.splits)
    from that(2) [OF this] i(1) show thesis by (simp add: event_record_new_def)
  next
    case c
    show thesis
    proof (cases "td_completed t")
      case True
      with c that(1) show thesis by (simp add: todo_complete_def)
    next
      case False
      with c assms(2) obtain bs where t': "td_entity t' =
          push_record (event_record_new ''Completed'' bs (len_u64 (en_events (td_entity t)) + 1) now) now (td_entity t)"
        by (auto simp: todo_complete_def digest_empty_def digest_Some_iff split: option.splits)
      moreover have "en_id (td_entity t') = en_id (td_entity t)" by (simp add: t')
      ultimately have "td_entity t' = (push_record (event_record_new ''Completed'' bs
          (len_u64 (en_events (td_entity t)) + 1) now) now (td_entity t))\<lparr>en_id := en_id (td_entity t)\<rparr>" by simp
      from that(2) [OF this] show thesis by (simp add: event_record_new_def)
    qed
  qed
qed

interpretation todo_methods: snapshot_methods "todo_aggregate C clock" "todo_meth C" for C clock
proof (unfold_locales, goal_cases)
  case (1 t t')
  then have t: "faithful (todo_aggregate C clock) t" "\<not> en_replaying (td_entity t)" "entity_wf (td_entity t)"
    "vec_fits (en_events (td_entity t'))" by simp_all
  have "faithful (todo_aggregate C clock) t'"
    using 1(1) todo_initialize_faithful [OF t(1,2)] todo_complete_faithful [OF t(1,2)] unfolding todo_meth_def by blast
  moreover from 1(1) t(2) have "\<not> en_replaying (td_entity t') \<and> entity_wf (td_entity t') \<and>
      en_committed_version (td_entity t') = en_committed_version (td_entity t) \<and>
      prefix (en_events (td_entity t)) (en_events (td_entity t')) \<and>
      (en_events (td_entity t) \<noteq> [] \<longrightarrow> en_id (td_entity t') = en_id (td_entity t))"
  proof (cases rule: todo_meth_entity)
    case (2 r now i)
    have "entity_wf ((push_record r now (td_entity t))\<lparr>en_id := i\<rparr>)"
      using push_record_wf [OF t(3) _ 2(3,2), of now] t(4) 2
      by (simp add: entity_wf_def push_record_events)
    with 2 t(2) show ?thesis by (simp add: push_record_events)
  qed (use t in simp)
  ultimately show ?case by simp
qed

section \<open>What the clients can rely on\<close>

text \<open>
  C9: Snapshots stay invisible when any number of clients use one \<open>SnapshotAggregateRepository\<close>
  without locks, with the events and the snapshot of every \<open>get\<close> and every \<open>commit\<close> read and
  written apart: every stored snapshot is the state after some first events of its stream, a
  client between its two reads gets the replay of the events it has read whichever snapshot it
  then finds, older or newer, and what a client works on is the replay of its own events, of which
  the committed ones are in the store.
\<close>

theorem snapshots_race_free:
  assumes "snapshot_methods A meth" and "\<forall>x bs. sp_serialize A x = Inr bs \<longrightarrow> sp_deserialize A bs = Inr x"
    and "store_ok A mine ord r" and "(sy_step A meth mine)\<^sup>*\<^sup>* (sy_start r) s"
  shows "(\<forall>i p. mine i \<longrightarrow> stored_snaps (sy_repo s) i = Some p \<longrightarrow>
        snapshot_valid A i (stream_of (sy_streams s) i) p) \<and>
    (\<forall>t e. sy_client s t = Loaded e \<longrightarrow>
        (\<exists>b v. hydrate A e = Ok b \<and>
           hydrate_with_optional_snapshot A e (stored_snaps (sy_repo s) (en_id e)) =
             Ok (on_entity A (set_snapshot_version v) b))) \<and>
    (\<forall>t a. sy_client s t = Working a \<longrightarrow>
        (\<exists>b. hydrate A (ag_entity A a) = Ok b \<and> sp_create_snapshot A b = sp_create_snapshot A a) \<and>
        prefix (committed_part (ag_entity A a)) (stream_of (sy_streams s) (en_id (ag_entity A a))))"
proof (intro conjI allI impI)
  have inv: "sy_inv A mine ord s" by (rule sy_run_inv [OF assms(4,1,2) sy_start_inv [OF assms(3)]])
  then have store: "store_ok A mine ord (sy_repo s)" and clients: "\<And>t. client_ok A mine (sy_streams s) (sy_client s t)"
    by (simp_all add: sy_inv_def)
  have laws: "snapshot_laws A" using assms(1) by (simp add: snapshot_methods_def)
  show "snapshot_valid A i (stream_of (sy_streams s) i) p" if "mine i" "stored_snaps (sy_repo s) i = Some p" for i p
    by (rule store_parts(5) [OF store that])
  show "\<exists>b v. hydrate A e = Ok b \<and> hydrate_with_optional_snapshot A e (stored_snaps (sy_repo s) (en_id e)) =
      Ok (on_entity A (set_snapshot_version v) b)" if "sy_client s t = Loaded e" for t e
  proof -
    have "client_ok A mine (sy_streams s) (Loaded e)" using clients [of t] that by simp
    then have c: "in_hand_ok (sy_streams s) e" "mine (en_id e)" "committed_part e = en_events e"
      "sound A (en_id e) (en_events e)" by simp_all
    from raced_hydration [OF laws c(1,3,4) store_parts(5) [OF store c(2)]] show ?thesis by blast
  qed
  show "\<exists>b. hydrate A (ag_entity A a) = Ok b \<and> sp_create_snapshot A b = sp_create_snapshot A a"
    "prefix (committed_part (ag_entity A a)) (stream_of (sy_streams s) (en_id (ag_entity A a)))"
    if "sy_client s t = Working a" for t a
  proof -
    have "client_ok A mine (sy_streams s) (Working a)" using clients [of t] that by simp
    then show "\<exists>b. hydrate A (ag_entity A a) = Ok b \<and> sp_create_snapshot A b = sp_create_snapshot A a"
      "prefix (committed_part (ag_entity A a)) (stream_of (sy_streams s) (en_id (ag_entity A a)))"
      unfolding client_ok.simps faithful_def in_hand_ok_def by blast+
  qed
qed

text \<open>
  Client 1 loads a todo while it is open; client 0 completes it, commits and stores a newer
  snapshot; client 1 then finds that snapshot and hydrates the open todo all the same.
\<close>

definition race_codec :: todo_codec where
  "race_codec =
     \<lparr>tc_ser_init = (\<lambda>x. if x = (''a'', ''u'', ''k'') then Some [1] else None),
      tc_de_init = (\<lambda>_. Inr (''a'', ''u'', ''k'')), tc_ser_unit = (\<lambda>_. Some []),
      tc_ser_snap = (\<lambda>x. if ts_id x = ''a'' \<and> ts_user_id x = ''u'' \<and> ts_task x = ''k''
        then Inr [if ts_completed x then 1 else 0] else Inl ''other''),
      tc_de_snap = (\<lambda>bs. Inr \<lparr>ts_id = ''a'', ts_user_id = ''u'', ts_task = ''k'', ts_completed = (bs = [1])\<rparr>)\<rparr>"

abbreviation race_todo :: "(todo, todo_snapshot) snapshottable" where
  "race_todo \<equiv> todo_aggregate race_codec 0"

text \<open>What each call of the run returns, with the repository and the todo after it.\<close>

definition race_opened :: todo where
  "race_opened = the (todo_initialize race_codec 1 ''a'' ''u'' ''k'' (todo_new\<lparr>td_entity := entity_with_id ''a'' 0\<rparr>))"

definition race_stored :: "(repository_error, unit) outcome \<times> hm_repo \<times> todo" where
  "race_stored = ar_commit race_todo (hashmap_repo 1 Mapping.ordered_keys) (hm_repo_new, race_opened)"

definition race_snapped :: "(repository_error, unit) outcome \<times> hm_repo \<times> todo" where
  "race_snapped = maybe_snapshot race_todo hashmap_snapshots 1 (snd race_stored)"

definition race_loaded :: entity where
  "race_loaded = entity_from 2 ''a'' (the (hm_streams (fst (snd race_snapped)) ''a''))"

definition race_closed :: todo where
  "race_closed = the (todo_complete race_codec 3 (snd (snd race_snapped)))"

definition race_stored2 :: "(repository_error, unit) outcome \<times> hm_repo \<times> todo" where
  "race_stored2 = ar_commit race_todo (hashmap_repo 1 Mapping.ordered_keys) (fst (snd race_snapped), race_closed)"

definition race_snapped2 :: "(repository_error, unit) outcome \<times> hm_repo \<times> todo" where
  "race_snapped2 = maybe_snapshot race_todo hashmap_snapshots 1 (snd race_stored2)"

lemma race_calls:
  "todo_initialize race_codec 1 ''a'' ''u'' ''k'' (todo_new\<lparr>td_entity := entity_with_id ''a'' 0\<rparr>) \<noteq> None"
  "fst race_stored = Ok ()"
  "fst race_snapped = Ok ()"
  "map_option length (hm_streams (fst (snd race_snapped)) ''a'') = Some 1 \<and> \<not> hr_poisoned (fst (snd race_snapped))"
  "todo_complete race_codec 3 (snd (snd race_snapped)) \<noteq> None"
  "fst race_stored2 = Ok ()"
  "fst race_snapped2 = Ok ()"
  subgoal by code_simp
  subgoal by code_simp
  subgoal by code_simp
  subgoal by code_simp
  subgoal by code_simp
  subgoal by code_simp
  subgoal by code_simp
  done

lemma race_find:
  "en_id (td_entity race_opened) = ''a''" "length (en_events (td_entity race_opened)) = 1"
  "en_id (td_entity race_closed) = ''a''" "length (en_events (td_entity race_closed)) = 2"
  "map_option sn_version (stored_snaps (fst (snd race_snapped2)) ''a'') = Some 2" "en_version race_loaded = 1"
  "map_ok td_completed (hydrate race_todo race_loaded) = Ok False"
  subgoal by code_simp
  subgoal by code_simp
  subgoal by code_simp
  subgoal by code_simp
  subgoal by code_simp
  subgoal by code_simp
  subgoal by code_simp
  done

lemma race_laws: "sp_serialize race_todo x = Inr bs \<Longrightarrow> sp_deserialize race_todo bs = Inr x"
  by (cases x) (auto simp: todo_aggregate_def race_codec_def split: if_splits)

lemma race_start: "store_ok A (\<lambda>i. i = ''a'') Mapping.ordered_keys hm_repo_new"
  by (simp add: store_ok_def streams_ok_def)
    (simp add: hm_repo_new_def snap_store_new_def ss_inv_def lookup_empty)

lemma race_methods:
  "todo_meth race_codec (todo_new\<lparr>td_entity := entity_with_id ''a'' 0\<rparr>) race_opened"
  "todo_meth race_codec (snd (snd race_snapped)) race_closed"
proof -
  have codec: "tc_ser_init race_codec x = Some bs \<longrightarrow> tc_de_init race_codec bs = Inr x" for x bs
    by (simp add: race_codec_def)
  have "todo_initialize race_codec 1 ''a'' ''u'' ''k'' (todo_new\<lparr>td_entity := entity_with_id ''a'' 0\<rparr>) = Some race_opened"
    using race_calls(1) unfolding race_opened_def by simp
  moreover have "en_events (td_entity (todo_new\<lparr>td_entity := entity_with_id ''a'' 0\<rparr>)) = []"
    by (simp add: entity_with_id_def entity_default_def)
  ultimately show "todo_meth race_codec (todo_new\<lparr>td_entity := entity_with_id ''a'' 0\<rparr>) race_opened"
    using codec unfolding todo_meth_def by blast
  have "todo_complete race_codec 3 (snd (snd race_snapped)) = Some race_closed"
    using race_calls(5) unfolding race_closed_def by simp
  with codec show "todo_meth race_codec (snd (snd race_snapped)) race_closed" unfolding todo_meth_def by blast
qed

abbreviation race_step :: "todo snap_system \<Rightarrow> todo snap_system \<Rightarrow> bool" where
  "race_step \<equiv> sy_step race_todo (todo_meth race_codec) (\<lambda>i. i = ''a'')"

definition race_state :: "hm_repo \<Rightarrow> todo snap_client \<Rightarrow> todo snap_client \<Rightarrow> todo snap_system" where
  "race_state r c d = \<lparr>sy_repo = r, sy_client = (\<lambda>_. Idle)(0 := c, 1 := d)\<rparr>"

lemma race_state_simps [simp]:
  "sy_repo (race_state r c d) = r" "sy_client (race_state r c d) 0 = c" "sy_client (race_state r c d) (Suc 0) = d"
  "(race_state r c d)\<lparr>sy_client := (sy_client (race_state r c d))(0 := c')\<rparr> = race_state r c' d"
  "(race_state r c d)\<lparr>sy_repo := r', sy_client := (sy_client (race_state r c d))(0 := c')\<rparr> = race_state r' c' d"
  "(race_state r c d)\<lparr>sy_repo := r', sy_client := (sy_client (race_state r c d))(Suc 0 := d')\<rparr> = race_state r' c d'"
  by (auto simp: race_state_def)

lemma race_get: "hm_get_one 2 ''a'' (fst (snd race_snapped)) = (Ok (Some race_loaded), fst (snd race_snapped))"
  using race_calls(4) by (auto simp: hm_get_one_def hm_streams_def race_loaded_def)

lemma race_run:
  "race_step\<^sup>*\<^sup>* (sy_start hm_repo_new) (race_state (fst (snd race_snapped2)) (Working (snd (snd race_snapped2))) (Loaded race_loaded))"
proof -
  let ?t0 = "todo_new\<lparr>td_entity := entity_with_id ''a'' 0\<rparr>"
  have "sy_start hm_repo_new = race_state hm_repo_new Idle Idle"
    by (simp add: sy_start_def race_state_def fun_eq_iff)
  moreover have "race_step (race_state hm_repo_new Idle Idle) (race_state hm_repo_new (Working ?t0) Idle)"
    using sy_create [of "race_state hm_repo_new Idle Idle" 0 race_todo _ _ "''a''" 0] by simp
  moreover have "race_step (race_state hm_repo_new (Working ?t0) Idle) (race_state hm_repo_new (Working race_opened) Idle)"
    using sy_method [of "race_state hm_repo_new (Working ?t0) Idle" 0 ?t0 "todo_meth race_codec" race_opened race_todo]
      race_methods(1) race_find(2) by simp
  moreover have "race_step (race_state hm_repo_new (Working race_opened) Idle)
      (race_state (fst (snd race_stored)) (Unsnapped (snd (snd race_stored))) Idle)"
    using sy_commit [of "race_state hm_repo_new (Working race_opened) Idle" 0 race_opened "\<lambda>i. i = ''a''" race_todo
        1 Mapping.ordered_keys] race_calls(2) race_find(1) by (cases race_stored) (simp add: race_stored_def)
  moreover have "race_step (race_state (fst (snd race_stored)) (Unsnapped (snd (snd race_stored))) Idle)
      (race_state (fst (snd race_snapped)) (Working (snd (snd race_snapped))) Idle)"
    using sy_snapshot [of "race_state (fst (snd race_stored)) (Unsnapped (snd (snd race_stored))) Idle" 0 _ race_todo 1]
    by (cases race_snapped) (simp add: race_snapped_def)
  moreover have "race_step (race_state (fst (snd race_snapped)) (Working (snd (snd race_snapped))) Idle)
      (race_state (fst (snd race_snapped)) (Working (snd (snd race_snapped))) (Loaded race_loaded))"
    using sy_load [of "race_state (fst (snd race_snapped)) (Working (snd (snd race_snapped))) Idle" 1
        "\<lambda>i. i = ''a''" "''a''" 2 race_loaded "fst (snd race_snapped)" race_todo "todo_meth race_codec"] race_get by simp
  moreover have "race_step (race_state (fst (snd race_snapped)) (Working (snd (snd race_snapped))) (Loaded race_loaded))
      (race_state (fst (snd race_snapped)) (Working race_closed) (Loaded race_loaded))"
    using sy_method [of "race_state (fst (snd race_snapped)) (Working (snd (snd race_snapped))) (Loaded race_loaded)" 0
        "snd (snd race_snapped)" "todo_meth race_codec" race_closed race_todo] race_methods(2) race_find(4) by simp
  moreover have "race_step (race_state (fst (snd race_snapped)) (Working race_closed) (Loaded race_loaded))
      (race_state (fst (snd race_stored2)) (Unsnapped (snd (snd race_stored2))) (Loaded race_loaded))"
    using sy_commit [of "race_state (fst (snd race_snapped)) (Working race_closed) (Loaded race_loaded)" 0 race_closed
        "\<lambda>i. i = ''a''" race_todo 1 Mapping.ordered_keys] race_calls(6) race_find(3)
    by (cases race_stored2) (simp add: race_stored2_def)
  moreover have "race_step (race_state (fst (snd race_stored2)) (Unsnapped (snd (snd race_stored2))) (Loaded race_loaded))
      (race_state (fst (snd race_snapped2)) (Working (snd (snd race_snapped2))) (Loaded race_loaded))"
    using sy_snapshot [of "race_state (fst (snd race_stored2)) (Unsnapped (snd (snd race_stored2))) (Loaded race_loaded)" 0 _
        race_todo 1] by (cases race_snapped2) (simp add: race_snapped2_def)
  ultimately show ?thesis by (metis (no_types, lifting) converse_rtranclp_into_rtranclp rtranclp.rtrancl_refl)
qed

theorem snapshots_race_free_witness:
  "\<exists>s p b v. race_step\<^sup>*\<^sup>* (sy_start hm_repo_new) s \<and> sy_client s 1 = Loaded race_loaded \<and>
     stored_snaps (sy_repo s) ''a'' = Some p \<and> en_version race_loaded < sn_version p \<and>
     hydrate race_todo race_loaded = Ok b \<and> \<not> td_completed b \<and>
     hydrate_with_optional_snapshot race_todo race_loaded (Some p) = Ok (on_entity race_todo (set_snapshot_version v) b)"
proof -
  let ?s = "race_state (fst (snd race_snapped2)) (Working (snd (snd race_snapped2))) (Loaded race_loaded)"
  have codec: "\<forall>x bs. sp_serialize race_todo x = Inr bs \<longrightarrow> sp_deserialize race_todo bs = Inr x"
    using race_laws by blast
  have methods: "snapshot_methods race_todo (todo_meth race_codec)" by (rule todo_methods.snapshot_methods_axioms)
  have client: "sy_client ?s 1 = Loaded race_loaded" by simp
  obtain p where p: "stored_snaps (sy_repo ?s) ''a'' = Some p" "sn_version p = 2"
    using race_find(5) by auto
  have "en_id race_loaded = ''a''"
    by (simp add: race_loaded_def entity_from_def load_from_history_def set_id_def)
  with snapshots_race_free [OF methods codec race_start race_run] client p(1) obtain b v where
    b: "hydrate race_todo race_loaded = Ok b"
      "hydrate_with_optional_snapshot race_todo race_loaded (Some p) = Ok (on_entity race_todo (set_snapshot_version v) b)"
    by metis
  moreover have "\<not> td_completed b" using race_find(7) b(1) by simp
  moreover have "en_version race_loaded < sn_version p" by (simp add: race_find(6) p(2))
  ultimately show ?thesis using race_run client p(1) by blast
qed

section \<open>Snapshots of one client\<close>

text \<open>Calls of methods, as long as the events fit in a vector.\<close>

abbreviation worked ::
    "('a, 's, 'z) snapshottable_scheme \<Rightarrow> ('a \<Rightarrow> 'a \<Rightarrow> bool) \<Rightarrow> 'a \<Rightarrow> 'a \<Rightarrow> bool" where
  "worked A meth \<equiv> (\<lambda>x y. meth x y \<and> vec_fits (en_events (ag_entity A y)))\<^sup>*\<^sup>*"

lemma worked_run:
  assumes "worked A meth a a'"
  shows "(sy_step A meth mine)\<^sup>*\<^sup>* \<lparr>sy_repo = r, sy_client = (\<lambda>_. Idle)(0 := Working a)\<rparr>
    \<lparr>sy_repo = r, sy_client = (\<lambda>_. Idle)(0 := Working a')\<rparr>"
  using assms
proof (induction rule: rtranclp_induct)
  case (step x y)
  have "sy_step A meth mine \<lparr>sy_repo = r, sy_client = (\<lambda>_. Idle)(0 := Working x)\<rparr>
      \<lparr>sy_repo = r, sy_client = (\<lambda>_. Idle)(0 := Working y)\<rparr>"
    using sy_method [of "\<lparr>sy_repo = r, sy_client = (\<lambda>_. Idle)(0 := Working x)\<rparr>" 0 x meth y A mine] step(2) by simp
  with step(3) show ?case by (rule rtranclp.rtrancl_into_rtrancl)
qed simp

text \<open>Where a client gets an aggregate from: it makes a new one, or \<open>get\<close> finds it.\<close>

definition obtained ::
    "('a, 's, 'z) snapshottable_scheme \<Rightarrow> (string \<Rightarrow> bool) \<Rightarrow> event_order \<Rightarrow> hm_repo \<Rightarrow> 'a \<Rightarrow> bool" where
  "obtained A mine ord r a \<longleftrightarrow>
     (\<exists>i now. a = ag_set_entity A (entity_with_id i now) (ag_new_empty A)) \<or>
     (\<exists>i now r'. mine i \<and> sr_get A (hashmap_repo now ord) hashmap_snapshots i r = (Ok (Some a), r'))"

lemma obtained_run:
  assumes "obtained A mine ord r a" and "store_ok A mine ord r"
  shows "(sy_step A meth mine)\<^sup>*\<^sup>* (sy_start r) \<lparr>sy_repo = r, sy_client = (\<lambda>_. Idle)(0 := Working a)\<rparr>"
  using assms(1) unfolding obtained_def
proof (elim disjE exE conjE)
  fix i now assume "a = ag_set_entity A (entity_with_id i now) (ag_new_empty A)"
  then show ?thesis using sy_create [of "sy_start r" 0 A meth mine i now] by (auto simp: sy_start_def)
next
  fix i now r' assume i: "mine i" and got: "sr_get A (hashmap_repo now ord) hashmap_snapshots i r = (Ok (Some a), r')"
  then obtain e where e: "hm_get_one now i r = (Ok (Some e), r)"
    by (auto simp: sr_get_def hashmap_repo_def hm_get_one_def st_bind_def split: if_splits option.splits)
  then have id: "en_id e = i" by (auto simp: hm_get_one_def split: if_splits option.splits)
  obtain snap where snap: "so_get_snapshot hashmap_snapshots i r = (Ok snap, r)"
    using hm_snaps.get_snap [OF store_parts(3) [OF assms(2)], of i] by auto
  with got e have "map_ok Some (hydrate_with_optional_snapshot A e snap) = Ok (Some a)"
    by (simp add: sr_get_def hashmap_repo_def)
  then have h: "hydrate_with_optional_snapshot A e snap = Ok a"
    by (cases "hydrate_with_optional_snapshot A e snap") simp_all
  let ?l = "\<lparr>sy_repo = r, sy_client = (\<lambda>_. Idle)(0 := Loaded e)\<rparr> :: 'a snap_system"
  have "sy_step A meth mine (sy_start r) ?l"
    using sy_load [of "sy_start r" 0 mine i now e r A meth] i e by (simp add: sy_start_def)
  moreover have "sy_step A meth mine ?l \<lparr>sy_repo = r, sy_client = (\<lambda>_. Idle)(0 := Working a)\<rparr>"
    using sy_hydrate [of ?l 0 e snap r A a meth mine] snap h id by simp
  ultimately show ?thesis by (blast intro: converse_rtranclp_into_rtranclp)
qed

text \<open>
  C8: A snapshot-aware commit stores valid snapshots.  Take an aggregate that is new or that \<open>get\<close>
  returned from a store in which streams hydrate and snapshots are valid, call any of its methods,
  which record what they do (the laws of \<open>snapshot_methods\<close>), and commit it.  Then the stream of its
  id is its events, a snapshot of the committed state is stored exactly when the frequency threshold
  is reached (\<open>frequency\<close> events since the last snapshot, where the sum does not wrap) and the
  aggregate records its version, and again streams hydrate and snapshots are valid.
\<close>

theorem snapshot_commit_valid:
  assumes "snapshot_methods A meth" and "\<forall>x bs. sp_serialize A x = Inr bs \<longrightarrow> sp_deserialize A bs = Inr x"
    and "store_ok A mine ord r" and "obtained A mine ord r a0" and "worked A meth a0 a" and "mine (en_id (ag_entity A a))"
    and "unat (en_snapshot_version (ag_entity A a)) + unat f < 2 ^ 64"
    and "sr_commit A (hashmap_repo now ord) hashmap_snapshots f (r, a) = (Ok (), r', a')"
  shows "store_ok A mine ord r' \<and>
    hm_streams r' = (hm_streams r)(en_id (ag_entity A a) \<mapsto> en_events (ag_entity A a)) \<and>
    (if unat (en_snapshot_version (ag_entity A a)) + unat f \<le> length (en_events (ag_entity A a))
     then (\<exists>data. sp_deserialize A data = Inr (sp_create_snapshot A a) \<and>
             stored_snaps r' = (stored_snaps r)(en_id (ag_entity A a) \<mapsto>
               \<lparr>sn_aggregate_id = en_id (ag_entity A a), sn_version = en_version (ag_entity A a), sn_data = data\<rparr>)) \<and>
          en_snapshot_version (ag_entity A a') = en_version (ag_entity A a)
     else stored_snaps r' = stored_snaps r \<and>
          en_snapshot_version (ag_entity A a') = en_snapshot_version (ag_entity A a))"
proof -
  let ?e = "ag_entity A a" and ?s = "\<lambda>r c. \<lparr>sy_repo = r, sy_client = (\<lambda>_. Idle)(0 := c)\<rparr> :: 'a snap_system"
  have laws: "snapshot_laws A" using assms(1) by (simp add: snapshot_methods_def)
  have "(sy_step A meth mine)\<^sup>*\<^sup>* (sy_start r) (?s r (Working a))"
    using obtained_run [OF assms(4,3)] worked_run [OF assms(5)] by (rule rtranclp_trans)
  from sy_run_inv [OF this assms(1,2) sy_start_inv [OF assms(3)]]
  have inv: "sy_inv A mine ord (?s r (Working a))" .
  then have "client_ok A mine (sy_streams (?s r (Working a))) (sy_client (?s r (Working a)) 0)"
    unfolding sy_inv_def by blast
  then have "client_ok A mine (hm_streams r) (Working a)" by simp
  then have c: "in_hand_ok (hm_streams r) ?e" "entity_wf ?e" by (simp_all add: in_hand_ok_def)
  obtain r1 a1 where ar: "ar_commit A (hashmap_repo now ord) (r, a) = (Ok (), r1, a1)"
    and ms: "maybe_snapshot A hashmap_snapshots f (r1, a1) = (Ok (), r', a')"
    using assms(8) by (auto simp: sr_commit_def st_bind_Ok_iff)
  note p = store_parts [OF assms(3)]
  obtain es where "hm_commit (r, [?e]) = (Ok (), r1, es)"
    using ar by (auto simp: ar_commit_def hashmap_repo_def split: prod.splits)
  with hm_commit_outcome [OF p(1), of "[?e]"] c(2) have cur: "current (hm_streams r) ?e" by auto
  have "sy_step A meth mine (?s r (Working a)) (?s r1 (Unsnapped a1))"
    using sy_commit [of "?s r (Working a)" 0 a mine A now ord r1 a1 meth] assms(6) ar by simp
  moreover have "sy_step A meth mine (?s r1 (Unsnapped a1)) (?s r' (Working a'))"
    using sy_snapshot [of "?s r1 (Unsnapped a1)" 0 a1 A f "Ok ()" r' a' meth mine] ms by simp
  ultimately have "(sy_step A meth mine)\<^sup>*\<^sup>* (?s r (Working a)) (?s r' (Working a'))" by simp
  from sy_run_inv [OF this assms(1,2) inv] have st: "store_ok A mine ord r'" by (simp add: sy_inv_def)
  note eff = sr_commit_effect [OF laws p(1,3) refl c(2) cur current_basis(2) [OF c(1) p(2) cur] assms(7,8)]
  show ?thesis
  proof (cases "unat (en_snapshot_version ?e) + unat f \<le> length (en_events ?e)")
    case False
    with eff st show ?thesis by simp
  next
    case True
    with eff obtain data where "sp_serialize A (sp_create_snapshot A a) = Inr data"
      "stored_snaps r' = (stored_snaps r)(en_id ?e \<mapsto> \<lparr>sn_aggregate_id = en_id ?e, sn_version = en_version ?e, sn_data = data\<rparr>)"
      by auto
    moreover from this(1) have "sp_deserialize A data = Inr (sp_create_snapshot A a)" using assms(2) by blast
    ultimately show ?thesis using True eff st unfolding if_P [OF True] by blast
  qed
qed

theorem snapshot_commit_valid_witness:
  "\<exists>r' a' p. sr_commit race_todo (hashmap_repo 1 Mapping.ordered_keys) hashmap_snapshots 1 (hm_repo_new, race_opened) =
      (Ok (), r', a') \<and> stored_snaps r' ''a'' = Some p \<and> sn_version p = 1 \<and> en_snapshot_version (td_entity a') = 1"
proof -
  let ?t0 = "todo_new\<lparr>td_entity := entity_with_id ''a'' 0\<rparr>"
  obtain r' a' where c: "race_snapped = (Ok (), r', a')" using race_calls(3) by (metis prod.collapse)
  moreover obtain r1 a1 where "race_stored = (Ok (), r1, a1)" using race_calls(2) by (metis prod.collapse)
  ultimately have sr: "sr_commit race_todo (hashmap_repo 1 Mapping.ordered_keys) hashmap_snapshots 1 (hm_repo_new, race_opened) =
      (Ok (), r', a')" by (simp add: sr_commit_def race_snapped_def race_stored_def)
  have got: "obtained race_todo (\<lambda>i. i = ''a'') Mapping.ordered_keys hm_repo_new ?t0"
    unfolding obtained_def by (intro disjI1 exI [of _ "''a''"] exI [of _ 0]) simp
  have codec: "\<forall>x bs. sp_serialize race_todo x = Inr bs \<longrightarrow> sp_deserialize race_todo bs = Inr x"
    using race_laws by blast
  have work: "worked race_todo (todo_meth race_codec) ?t0 race_opened"
    using race_methods(1) race_find(2) by (intro r_into_rtranclp) simp
  have v: "en_snapshot_version (td_entity race_opened) = 0" "en_version (td_entity race_opened) = 1" by code_simp+
  from snapshot_commit_valid [OF todo_methods.snapshot_methods_axioms codec race_start got work _ _ sr] race_find(1,2) v
  show ?thesis using sr by auto
qed

end
