(* ===== verification/Stack.thy ===== *)
theory Stack
  imports Snapshot
begin

text \<open>
  The stack of the README, \<open>HashMapRepository::new().queued().aggregate().with_snapshots(n)\<close>
  (\<open>src/queued_repo/repository.rs\<close>, \<open>src/aggregate/aggregate.rs\<close>, \<open>src/snapshot/repository.rs\<close>):
  the typed operations over the locking repository are those over the repository inside it, with
  a lock taken before or released after.
\<close>

section \<open>Calls that pass through the queue\<close>

text \<open>
  The typed repositories look at their store through its operations only, so a call that passes
  each of them on to the inner repository is the call of the inner repository.
\<close>

lemma pass_bind [intro]:
  "f = q_inner f' \<Longrightarrow> (\<And>a. g a = q_inner (g' a)) \<Longrightarrow> st_bind f g = q_inner (st_bind f' g')"
  by (simp add: fun_eq_iff q_inner_def st_bind_def split: prod.splits outcome.splits)

lemma pass_return [intro]: "st_return a = q_inner (st_return a)"
  by (simp add: fun_eq_iff q_inner_def)

lemma pass_lift [intro]: "st_lift res = q_inner (st_lift res)"
  by (simp add: fun_eq_iff q_inner_def)

lemma pass_option [intro]:
  "n = q_inner n' \<Longrightarrow> (\<And>a. g a = q_inner (g' a)) \<Longrightarrow>
   (case x of None \<Rightarrow> n | Some a \<Rightarrow> g a) = q_inner (case x of None \<Rightarrow> n' | Some a \<Rightarrow> g' a)"
  by (simp split: option.split)

lemma pass_collect [intro]: "(\<And>x. f x = q_inner (f' x)) \<Longrightarrow> st_collect f xs = q_inner (st_collect f' xs)"
proof (induction xs)
  case Nil
  then show ?case by (simp add: fun_eq_iff q_inner_def)
next
  case (Cons x xs)
  then have "st_bind (f x) (\<lambda>a. st_bind (st_collect f xs) (\<lambda>as. st_return (a # as))) =
      q_inner (st_bind (f' x) (\<lambda>a. st_bind (st_collect f' xs) (\<lambda>as. st_return (a # as))))" by blast
  then show ?case by (simp add: fun_eq_iff q_inner_def)
qed

lemma pass_hydrate: "sr_hydrate A (queued_snapshots P) e = q_inner (sr_hydrate A P e)"
  unfolding sr_hydrate_def queued_snapshots_def snap_ops.simps by blast

text \<open>A \<open>peek\<close> takes no lock; a \<open>get\<close> takes the lock, then reads.\<close>

definition q_take :: "('m, 'h) lock_ops \<Rightarrow> string \<Rightarrow> (('r, 'm) queued, repository_error, unit) call" where
  "q_take L i = st_bind (q_ensure_lock L i) (\<lambda>h. q_locks (lo_lock L h))"

lemma st_bind_assoc: "st_bind (st_bind m f) g = st_bind m (\<lambda>a. st_bind (f a) g)"
  by (simp add: fun_eq_iff st_bind_def split: prod.splits outcome.splits)

lemma queued_gets:
  "op_get_one (queued_repo R L env) i = st_bind (q_take L i) (\<lambda>_. q_inner (op_get_one R i))"
  "op_get_many (queued_repo R L env) ids = st_bind (q_lock_ids_in_order L ids) (\<lambda>_. q_inner (op_get_many R ids))"
  "op_commit (queued_repo R L env) = q_commit R L"
  by (simp_all add: queued_repo_def q_get_one_def q_get_many_def q_take_def st_bind_assoc)

lemma stack_reads:
  "sr_peek A (queued_ops R L) (queued_snapshots P) i = q_inner (sr_get A R P i)"
  "sr_peek_all A (queued_ops R L) (queued_snapshots P) ids = q_inner (sr_get_all A R P ids)"
  "sr_get A (queued_repo R L env) (queued_snapshots P) i = st_bind (q_take L i) (\<lambda>_. q_inner (sr_get A R P i))"
  "sr_get_all A (queued_repo R L env) (queued_snapshots P) ids =
     st_bind (q_lock_ids_in_order L ids) (\<lambda>_. q_inner (sr_get_all A R P ids))"
  "ar_get B (queued_repo R L env) i = st_bind (q_take L i) (\<lambda>_. q_inner (ar_get B R i))"
proof -
  have snap: "so_get_snapshot (queued_snapshots P) i = q_inner (so_get_snapshot P i)" for i
    by (simp add: queued_snapshots_def)
  have found: "st_bind (q_inner (op_get_one R i)) (\<lambda>found. case found of None \<Rightarrow> st_return None
      | Some e \<Rightarrow> st_bind (so_get_snapshot (queued_snapshots P) i)
          (\<lambda>snapshot. st_lift (map_ok Some (hydrate_with_optional_snapshot A e snapshot)))) = q_inner (sr_get A R P i)" for i
    unfolding sr_get_def snap by blast
  have all: "st_bind (q_inner (op_get_many R ids)) (st_collect (sr_hydrate A (queued_snapshots P))) =
      q_inner (sr_get_all A R P ids)" for ids
    unfolding sr_get_all_def using pass_hydrate [of A P] by blast
  show "sr_peek A (queued_ops R L) (queued_snapshots P) i = q_inner (sr_get A R P i)"
    using found by (simp add: sr_peek_def queued_ops_def q_get_with_def no_lock_def)
  show "sr_peek_all A (queued_ops R L) (queued_snapshots P) ids = q_inner (sr_get_all A R P ids)"
    using all by (simp add: sr_peek_all_def queued_ops_def q_get_all_with_def no_lock_def)
  show "sr_get A (queued_repo R L env) (queued_snapshots P) i = st_bind (q_take L i) (\<lambda>_. q_inner (sr_get A R P i))"
    unfolding sr_get_def [of A "queued_repo R L env"] queued_gets st_bind_assoc found ..
  show "sr_get_all A (queued_repo R L env) (queued_snapshots P) ids =
      st_bind (q_lock_ids_in_order L ids) (\<lambda>_. q_inner (sr_get_all A R P ids))"
    unfolding sr_get_all_def [of A "queued_repo R L env"] queued_gets st_bind_assoc all ..
  have plain: "st_bind (q_inner (op_get_one R i)) (\<lambda>found. case found of None \<Rightarrow> st_return None
      | Some e \<Rightarrow> st_lift (map_ok Some (hydrate B e))) = q_inner (ar_get B R i)"
    unfolding ar_get_def by blast
  show "ar_get B (queued_repo R L env) i = st_bind (q_take L i) (\<lambda>_. q_inner (ar_get B R i))"
    unfolding ar_get_def [of B "queued_repo R L env"] queued_gets st_bind_assoc plain ..
qed

section \<open>The locks\<close>

context lock_service
begin

lemma take_free:
  assumes "inv (qu_locks q)" and "i \<notin> held (qu_locks q)"
  shows "\<exists>m. q_take L i q = (Ok (), q\<lparr>qu_locks := m\<rparr>) \<and> inv m \<and> held m = insert i (held (qu_locks q))"
proof -
  obtain m where m: "lo_get_lock L i (qu_locks q) = (Ok (handle i), m)" "inv m" "held m = held (qu_locks q)"
    using get_lock [OF assms(1)] by blast
  from lock_free [OF m(2), of i] m assms(2) show ?thesis by (auto simp: q_take_def q_ensure_lock_def q_locks_def)
qed

lemma take_held:
  assumes "inv (qu_locks q)" and "i \<in> held (qu_locks q)"
  shows "\<exists>m. q_take L i q = (Stuck, q\<lparr>qu_locks := m\<rparr>) \<and> inv m \<and> held m = held (qu_locks q)"
proof -
  obtain m where m: "lo_get_lock L i (qu_locks q) = (Ok (handle i), m)" "inv m" "held m = held (qu_locks q)"
    using get_lock [OF assms(1)] by blast
  from lock_held [OF m(2), of i] m assms(2) show ?thesis by (auto simp: q_take_def q_ensure_lock_def q_locks_def)
qed

text \<open>A commit of one entity: the lock goes when the inner commit succeeds, and only then.\<close>

lemma commit_one:
  assumes "inv (qu_locks q)" and "op_commit R (qu_inner q, [e]) = (res, r, es)"
  shows "\<exists>m. q_commit R L (q, [e]) = (res, \<lparr>qu_inner = r, qu_locks = m\<rparr>, es) \<and> inv m \<and>
    held m = (if is_ok res then held (qu_locks q) - {en_id e} else held (qu_locks q))"
proof -
  obtain m where m: "lo_get_lock L (en_id e) (qu_locks q) = (Ok (handle (en_id e)), m)" "inv m" "held m = held (qu_locks q)"
    using get_lock [OF assms(1)] by blast
  obtain m' where m': "lo_unlock L (handle (en_id e)) m = (Ok (), m')" "inv m'" "held m' = held m - {en_id e}"
    using unlock [OF m(2)] by blast
  show ?thesis
    using m m' assms(2)
    by (cases q; cases res) (auto simp: q_commit_def q_ensure_lock_def q_locks_def)
qed

end

section \<open>The stack\<close>

lemma stack_maybe_snapshot:
  assumes "maybe_snapshot A P f (qu_inner q, a) = (res, r, a')"
  shows "maybe_snapshot A (queued_snapshots P) f (q, a) = (res, q\<lparr>qu_inner := r\<rparr>, a')"
  using assms
  by (cases q) (auto simp: maybe_snapshot_def Let_def queued_snapshots_def q_inner_def
      split: if_splits sum.splits prod.splits outcome.splits)

lemma stack_commit:
  assumes "lm_inv (qu_locks q)" and "sr_commit A R P f (qu_inner q, a) = (res, r, a')"
  shows "\<exists>m. sr_commit A (queued_repo R in_memory_locks env) (queued_snapshots P) f (q, a) =
      (res, \<lparr>qu_inner = r, qu_locks = m\<rparr>, a') \<and> lm_inv m \<and>
    lm_held m = (if is_ok (fst (op_commit R (qu_inner q, [ag_entity A a])))
      then lm_held (qu_locks q) - {en_id (ag_entity A a)} else lm_held (qu_locks q))"
proof -
  obtain res1 r1 es where c: "op_commit R (qu_inner q, [ag_entity A a]) = (res1, r1, es)"
    by (cases "op_commit R (qu_inner q, [ag_entity A a])") auto
  obtain m where m: "q_commit R in_memory_locks (q, [ag_entity A a]) = (res1, \<lparr>qu_inner = r1, qu_locks = m\<rparr>, es)"
    "lm_inv m" "lm_held m = (if is_ok res1 then lm_held (qu_locks q) - {en_id (ag_entity A a)} else lm_held (qu_locks q))"
    using mem_locks.commit_one [OF assms(1) c] by blast
  have q: "ar_commit A (queued_repo R in_memory_locks env) (q, a) =
      (res1, \<lparr>qu_inner = r1, qu_locks = m\<rparr>, ag_set_entity A (hd es) a)"
    "ar_commit A R (qu_inner q, a) = (res1, r1, ag_set_entity A (hd es) a)"
    by (simp_all add: ar_commit_def queued_gets m(1) c)
  show ?thesis
  proof (cases res1)
    case (Ok u)
    with assms(2) q(2) have "maybe_snapshot A P f (qu_inner \<lparr>qu_inner = r1, qu_locks = m\<rparr>, ag_set_entity A (hd es) a) =
        (res, r, a')" by (simp add: sr_commit_def)
    from stack_maybe_snapshot [OF this] show ?thesis using Ok q(1) m(2,3) c by (auto simp: sr_commit_def)
  qed (use assms(2) q m(2,3) c in \<open>auto simp: sr_commit_def\<close>)
qed

text \<open>
  C12: The stack of a snapshot repository over a queued repository behaves as the snapshot
  repository alone, and the queue only adds locks.  A \<open>get\<close> of an id that is locked waits and
  changes nothing; a \<open>get\<close> of a free id returns what the inner \<open>get\<close> returns, be it an aggregate, nothing
  or an error, and leaves the id locked; a \<open>peek\<close> is the inner \<open>get\<close> and no lock; a \<open>commit\<close> is the
  inner \<open>commit\<close>, snapshot included, and frees the id if and only if the events were stored.
\<close>

theorem queued_snapshot_stack:
  assumes "lm_inv (qu_locks q)"
  shows "(i \<in> lm_held (qu_locks q) \<longrightarrow>
      (\<exists>m. sr_get A (queued_repo R in_memory_locks env) (queued_snapshots P) i q = (Stuck, q\<lparr>qu_locks := m\<rparr>) \<and>
         lm_inv m \<and> lm_held m = lm_held (qu_locks q))) \<and>
    (i \<notin> lm_held (qu_locks q) \<longrightarrow>
      (\<exists>m. sr_get A (queued_repo R in_memory_locks env) (queued_snapshots P) i q =
           (case sr_get A R P i (qu_inner q) of (res, r) \<Rightarrow> (res, \<lparr>qu_inner = r, qu_locks = m\<rparr>)) \<and>
         lm_inv m \<and> lm_held m = insert i (lm_held (qu_locks q)))) \<and>
    sr_peek A (queued_ops R in_memory_locks) (queued_snapshots P) i q =
      (case sr_get A R P i (qu_inner q) of (res, r) \<Rightarrow> (res, q\<lparr>qu_inner := r\<rparr>)) \<and>
    (\<exists>m. sr_commit A (queued_repo R in_memory_locks env) (queued_snapshots P) f (q, a) =
         (case sr_commit A R P f (qu_inner q, a) of (res, r, a') \<Rightarrow> (res, \<lparr>qu_inner = r, qu_locks = m\<rparr>, a')) \<and>
       lm_inv m \<and>
       lm_held m = (if is_ok (fst (op_commit R (qu_inner q, [ag_entity A a])))
         then lm_held (qu_locks q) - {en_id (ag_entity A a)} else lm_held (qu_locks q)))"
proof (intro conjI impI)
  show "sr_peek A (queued_ops R in_memory_locks) (queued_snapshots P) i q =
      (case sr_get A R P i (qu_inner q) of (res, r) \<Rightarrow> (res, q\<lparr>qu_inner := r\<rparr>))"
    by (simp add: stack_reads q_inner_def)
  show "\<exists>m. sr_get A (queued_repo R in_memory_locks env) (queued_snapshots P) i q = (Stuck, q\<lparr>qu_locks := m\<rparr>) \<and>
      lm_inv m \<and> lm_held m = lm_held (qu_locks q)" if "i \<in> lm_held (qu_locks q)"
    using mem_locks.take_held [OF assms that] by (auto simp: stack_reads)
  show "\<exists>m. sr_get A (queued_repo R in_memory_locks env) (queued_snapshots P) i q =
        (case sr_get A R P i (qu_inner q) of (res, r) \<Rightarrow> (res, \<lparr>qu_inner = r, qu_locks = m\<rparr>)) \<and>
      lm_inv m \<and> lm_held m = insert i (lm_held (qu_locks q))" if "i \<notin> lm_held (qu_locks q)"
    using mem_locks.take_free [OF assms that] by (cases q) (auto simp: stack_reads q_inner_def)
  obtain res r a' where c: "sr_commit A R P f (qu_inner q, a) = (res, r, a')" by (metis prod_cases3)
  from stack_commit [OF assms c] show "\<exists>m. sr_commit A (queued_repo R in_memory_locks env) (queued_snapshots P) f (q, a) =
      (case sr_commit A R P f (qu_inner q, a) of (res, r, a') \<Rightarrow> (res, \<lparr>qu_inner = r, qu_locks = m\<rparr>, a')) \<and>
    lm_inv m \<and> lm_held m = (if is_ok (fst (op_commit R (qu_inner q, [ag_entity A a])))
      then lm_held (qu_locks q) - {en_id (ag_entity A a)} else lm_held (qu_locks q))" by (simp add: c)
qed

theorem queued_snapshot_stack_witness:
  "\<exists>q1 q2. sr_get bare_snapshottable (queued_repo (hashmap_repo 4 Mapping.ordered_keys) in_memory_locks (\<lambda>r. r))
       (queued_snapshots hashmap_snapshots) ''a'' (queued_new hm_repo_new) = (Ok None, q1) \<and>
     lm_held (qu_locks q1) = {''a''} \<and>
     sr_get bare_snapshottable (queued_repo (hashmap_repo 4 Mapping.ordered_keys) in_memory_locks (\<lambda>r. r))
       (queued_snapshots hashmap_snapshots) ''a'' q1 = (Stuck, q2)"
proof -
  let ?q = "queued_new hm_repo_new" and ?R = "hashmap_repo 4 Mapping.ordered_keys"
    and ?e = "entity_with_id ''a'' 4"
  have q: "lm_inv (qu_locks ?q)" "lm_held (qu_locks ?q) = {}" "qu_inner ?q = hm_repo_new"
    by (simp_all add: queued_new_def lm_inv_def lm_held_def lock_manager_new_def lookup_empty)
  have inner: "sr_get bare_snapshottable ?R hashmap_snapshots ''a'' hm_repo_new = (Ok None, hm_repo_new)"
    by (simp add: sr_get_def hashmap_repo_def hm_get_one_def hm_repo_new_def lookup_empty)
  obtain m where m: "sr_get bare_snapshottable (queued_repo ?R in_memory_locks (\<lambda>r. r)) (queued_snapshots hashmap_snapshots)
      ''a'' ?q = (Ok None, \<lparr>qu_inner = hm_repo_new, qu_locks = m\<rparr>)" "lm_inv m" "lm_held m = {''a''}"
    using queued_snapshot_stack [OF q(1), of "''a''" bare_snapshottable ?R "\<lambda>r. r" hashmap_snapshots 1 ?e] q(2,3) inner
    by auto
  from queued_snapshot_stack [of "\<lparr>qu_inner = hm_repo_new, qu_locks = m\<rparr>" "''a''" bare_snapshottable ?R "\<lambda>r. r"
      hashmap_snapshots 1 ?e] m show ?thesis by auto
qed

text \<open>
  A typed \<open>get\<close> whose replay fails returns an error and no aggregate; the lock of the id stays
  taken, and \<open>abort\<close> needs an aggregate: the next \<open>get\<close> waits for ever.
\<close>

theorem failed_get_keeps_lock:
  assumes "hm_inv ord (qu_inner q)" and "lm_inv (qu_locks q)" and "i \<notin> lm_held (qu_locks q)"
    and "hm_streams (qu_inner q) i = Some evs" and "hydrate A (entity_from now i evs) = Err err"
  shows "\<exists>q' q''. ar_get A (queued_repo (hashmap_repo now ord) in_memory_locks env) i q = (Err err, q') \<and>
    qu_inner q' = qu_inner q \<and> i \<in> lm_held (qu_locks q') \<and>
    ar_get A (queued_repo (hashmap_repo now ord) in_memory_locks env) i q' = (Stuck, q'')"
proof -
  let ?R = "hashmap_repo now ord"
  have "ar_get A ?R i (qu_inner q) = (Err err, qu_inner q)"
    using hm.get_one [OF assms(1), of now i] assms(4,5) by (simp add: ar_get_def entity_at_def)
  moreover obtain m where m: "q_take in_memory_locks i q = (Ok (), q\<lparr>qu_locks := m\<rparr>)" "lm_inv m"
    "lm_held m = insert i (lm_held (qu_locks q))" using mem_locks.take_free [OF assms(2,3)] by blast
  ultimately have "ar_get A (queued_repo ?R in_memory_locks env) i q = (Err err, q\<lparr>qu_locks := m\<rparr>)"
    by (simp add: stack_reads q_inner_def)
  moreover obtain m' where "q_take in_memory_locks i (q\<lparr>qu_locks := m\<rparr>) = (Stuck, q\<lparr>qu_locks := m'\<rparr>)"
    using mem_locks.take_held [of "q\<lparr>qu_locks := m\<rparr>" i] m(2,3) by auto
  then have "ar_get A (queued_repo ?R in_memory_locks env) i (q\<lparr>qu_locks := m\<rparr>) = (Stuck, q\<lparr>qu_locks := m'\<rparr>)"
    by (simp add: stack_reads)
  ultimately show ?thesis using m(3) by auto
qed

text \<open>
  A \<open>commit\<close> whose snapshot cannot be encoded returns an error although its events are stored: with
  the queue, the id is free again.
\<close>

theorem snapshot_error_after_commit:
  assumes "lm_inv (qu_locks q)" and "ar_commit A R (qu_inner q, a) = (Ok (), r, a')"
    and "en_snapshot_version (ag_entity A a') + f \<le> en_version (ag_entity A a')"
    and "sp_serialize A (sp_create_snapshot A a') = Inl msg"
  shows "\<exists>m. sr_commit A (queued_repo R in_memory_locks env) (queued_snapshots P) f (q, a) =
      (Err (RE_Replay (''snapshot serialize: '' @ msg)), \<lparr>qu_inner = r, qu_locks = m\<rparr>, a') \<and>
    en_id (ag_entity A a) \<notin> lm_held m"
proof -
  have "sr_commit A R P f (qu_inner q, a) = (Err (RE_Replay (''snapshot serialize: '' @ msg)), r, a')"
    using assms(2-4) by (simp add: sr_commit_def maybe_snapshot_def Let_def)
  from stack_commit [OF assms(1) this, of env] assms(2) show ?thesis
    by (auto simp: ar_commit_def split: prod.splits if_splits)
qed

end
