(* ===== verification/Outbox_Message.thy ===== *)
theory Outbox_Message
  imports Snapshot
begin

text \<open>
  The event-sourced outbox message (\<open>src/outbox/message.rs\<close>): its constructors and commands,
  with the events the \<open>digest\<close> attribute records, and its replay.  A method that panics is
  \<open>None\<close>.
\<close>

section \<open>State\<close>

datatype outbox_status = Pending | InFlight | Published | Failed

record outbox_message =
  om_entity :: entity
  om_event_type :: string
  om_payload :: bytes
  om_status :: outbox_status
  om_created_at :: system_time
  om_attempts :: u32
  om_last_error :: "string option"
  om_worker_id :: "string option"
  om_leased_until :: "system_time option"
  om_destination :: "string option"
  om_metadata :: metadata

definition outbox_message_new :: "system_time \<Rightarrow> outbox_message" where
  "outbox_message_new now =
     \<lparr>om_entity = entity_default now, om_event_type = [], om_payload = [], om_status = Pending,
      om_created_at = unix_epoch, om_attempts = 0, om_last_error = None, om_worker_id = None,
      om_leased_until = None, om_destination = None, om_metadata = Mapping.empty\<rparr>"

definition is_pending :: "outbox_message \<Rightarrow> bool" where
  "is_pending m \<longleftrightarrow> om_status m = Pending"

definition is_in_flight :: "outbox_message \<Rightarrow> bool" where
  "is_in_flight m \<longleftrightarrow> om_status m = InFlight"

definition is_published :: "outbox_message \<Rightarrow> bool" where
  "is_published m \<longleftrightarrow> om_status m = Published"

definition is_failed :: "outbox_message \<Rightarrow> bool" where
  "is_failed m \<longleftrightarrow> om_status m = Failed"

definition can_fail :: "outbox_message \<Rightarrow> bool" where
  "can_fail m \<longleftrightarrow> om_status m \<noteq> Published \<and> om_status m \<noteq> Failed"

definition om_id :: "outbox_message \<Rightarrow> string" where
  "om_id m = en_id (om_entity m)"

definition id_prefix :: string where
  "id_prefix = ''outbox:''"

definition normalize_id :: "string \<Rightarrow> string" where
  "normalize_id ident = (if prefix id_prefix ident then ident else id_prefix @ ident)"

section \<open>Commands\<close>

text \<open>\<open>bitcode\<close> at the tuples of arguments that the commands record.\<close>

type_synonym created_args = "string \<times> string \<times> bytes \<times> string option \<times> metadata"

record outbox_codec =
  oc_ser_created :: "created_args \<Rightarrow> bytes option"
  oc_de_created :: "bytes \<Rightarrow> string + created_args"
  oc_ser_claimed :: "string \<times> u64 \<Rightarrow> bytes option"
  oc_de_claimed :: "bytes \<Rightarrow> string + (string \<times> u64)"
  oc_ser_unit :: "unit \<Rightarrow> bytes option"
  oc_ser_error :: "string \<Rightarrow> bytes option"
  oc_de_error :: "bytes \<Rightarrow> string + string"

definition initialize ::
    "outbox_codec \<Rightarrow> system_time \<Rightarrow> string \<Rightarrow> string \<Rightarrow> bytes \<Rightarrow> string option \<Rightarrow> metadata \<Rightarrow>
     outbox_message \<Rightarrow> outbox_message option" where
  "initialize C now ident event_type payload destination md m =
     (case digest (oc_ser_created C) now ''MessageCreated''
         (ident, event_type, payload, destination, md) (om_entity m) of
        None \<Rightarrow> None
      | Some e \<Rightarrow>
          Some (m\<lparr>om_entity := set_id (normalize_id ident) e, om_event_type := event_type,
                  om_payload := payload, om_destination := destination, om_metadata := md,
                  om_status := Pending, om_created_at := now\<rparr>))"

text \<open>
  \<open>SystemTime + Duration\<close> panics when the seconds no longer fit in 63 bits.
\<close>

definition system_time_add :: "system_time \<Rightarrow> duration \<Rightarrow> system_time option" where
  "system_time_add t d =
     (if t + int d < 2 ^ 63 * 1000000000 then Some (t + int d) else None)"

definition claim :: "outbox_codec \<Rightarrow> system_time \<Rightarrow> string \<Rightarrow> u64 \<Rightarrow> outbox_message \<Rightarrow>
    outbox_message option" where
  "claim C now worker until_secs m =
     (if is_pending m
      then case digest (oc_ser_claimed C) now ''MessageClaimed'' (worker, until_secs) (om_entity m) of
          None \<Rightarrow> None
        | Some e \<Rightarrow>
            (case system_time_add unix_epoch (duration_from_secs until_secs) of
               None \<Rightarrow> None
             | Some until_time \<Rightarrow>
                 Some (m\<lparr>om_entity := e, om_status := InFlight, om_attempts := om_attempts m + 1,
                         om_worker_id := Some worker, om_leased_until := Some until_time\<rparr>))
      else Some m)"

definition claim_for :: "outbox_codec \<Rightarrow> system_time \<Rightarrow> string \<Rightarrow> duration \<Rightarrow> outbox_message \<Rightarrow>
    outbox_message option" where
  "claim_for C now worker lease m =
     (case system_time_add now lease of
        None \<Rightarrow> None
      | Some until \<Rightarrow>
          (let until_secs = duration_as_secs (nat (until - unix_epoch))
           in claim C now worker until_secs m))"

definition complete :: "outbox_codec \<Rightarrow> system_time \<Rightarrow> outbox_message \<Rightarrow> outbox_message option" where
  "complete C now m =
     (if is_in_flight m
      then case digest_empty (oc_ser_unit C) now ''MessagePublished'' (om_entity m) of
          None \<Rightarrow> None
        | Some e \<Rightarrow>
            Some (m\<lparr>om_entity := e, om_status := Published, om_worker_id := None,
                    om_leased_until := None\<rparr>)
      else Some m)"

definition release :: "outbox_codec \<Rightarrow> system_time \<Rightarrow> string \<Rightarrow> outbox_message \<Rightarrow>
    outbox_message option" where
  "release C now err m =
     (if is_in_flight m
      then case digest (oc_ser_error C) now ''MessageReleased'' err (om_entity m) of
          None \<Rightarrow> None
        | Some e \<Rightarrow>
            Some (m\<lparr>om_entity := e, om_status := Pending,
                    om_last_error := (if err = [] then None else Some err),
                    om_worker_id := None, om_leased_until := None\<rparr>)
      else Some m)"

definition fail :: "outbox_codec \<Rightarrow> system_time \<Rightarrow> string \<Rightarrow> outbox_message \<Rightarrow>
    outbox_message option" where
  "fail C now err m =
     (if can_fail m
      then case digest (oc_ser_error C) now ''MessageFailed'' err (om_entity m) of
          None \<Rightarrow> None
        | Some e \<Rightarrow>
            Some (m\<lparr>om_entity := e, om_status := Failed,
                    om_last_error := (if err = [] then None else Some err),
                    om_worker_id := None, om_leased_until := None\<rparr>)
      else Some m)"

definition om_set_meta :: "string \<Rightarrow> string \<Rightarrow> outbox_message \<Rightarrow> outbox_message" where
  "om_set_meta key val m = m\<lparr>om_metadata := Mapping.update key val (om_metadata m)\<rparr>"

definition om_set_correlation_id :: "string \<Rightarrow> outbox_message \<Rightarrow> outbox_message" where
  "om_set_correlation_id ident m = om_set_meta ''correlation_id'' ident m"

definition om_set_causation_id :: "string \<Rightarrow> outbox_message \<Rightarrow> outbox_message" where
  "om_set_causation_id ident m = om_set_meta ''causation_id'' ident m"

definition om_meta :: "outbox_message \<Rightarrow> string \<Rightarrow> string option" where
  "om_meta m key = Mapping.lookup (om_metadata m) key"

definition om_correlation_id :: "outbox_message \<Rightarrow> string option" where
  "om_correlation_id m = om_meta m ''correlation_id''"

definition om_causation_id :: "outbox_message \<Rightarrow> string option" where
  "om_causation_id m = om_meta m ''causation_id''"

definition into_entity :: "outbox_message \<Rightarrow> entity" where
  "into_entity m = om_entity m"

section \<open>Constructors\<close>

text \<open>\<open>ser\<close> is \<open>bitcode::serialize\<close> at the payload type, with the error that \<open>?\<close> passes on.\<close>

definition create where
  "create C now ident event_type payload =
     initialize C now ident event_type payload None Mapping.empty (outbox_message_new now)"

definition create_to where
  "create_to C now ident event_type destination payload =
     initialize C now ident event_type payload (Some destination) Mapping.empty (outbox_message_new now)"

definition create_with_metadata where
  "create_with_metadata C now ident event_type payload md =
     initialize C now ident event_type payload None md (outbox_message_new now)"

definition encode_with :: "('p \<Rightarrow> string + bytes) \<Rightarrow> 'p \<Rightarrow> (bytes \<Rightarrow> outbox_message option) \<Rightarrow>
    (string, outbox_message) outcome" where
  "encode_with ser p f = (case ser p of Inl err \<Rightarrow> Err err | Inr bs \<Rightarrow> or_panic (f bs))"

definition encode where
  "encode C now ser ident event_type p = encode_with ser p (create C now ident event_type)"

definition encode_to where
  "encode_to C now ser ident event_type destination p =
     encode_with ser p (create_to C now ident event_type destination)"

definition encode_with_metadata where
  "encode_with_metadata C now ser ident event_type p md =
     encode_with ser p (\<lambda>bs. create_with_metadata C now ident event_type bs md)"

definition encode_for_entity where
  "encode_for_entity C now ser ident event_type p e =
     encode_with ser p (\<lambda>bs. create_with_metadata C now ident event_type bs (en_metadata e))"

definition domain_event ::
    "('a, 's, 'z) snapshottable_scheme \<Rightarrow> outbox_codec \<Rightarrow> system_time \<Rightarrow> string \<Rightarrow> 'a \<Rightarrow>
     (string, outbox_message) outcome" where
  "domain_event A C now event_type agg =
     (let e = ag_entity A agg;
          ident = en_id e @ '':'' @ event_type @ '':'' @ show_u64 (en_version e)
      in encode_with (sp_serialize A) (sp_create_snapshot A agg)
           (\<lambda>bs. create_with_metadata C now ident event_type bs (en_metadata e)))"

definition om_decode :: "(bytes \<Rightarrow> string + 'a) \<Rightarrow> outbox_message \<Rightarrow> string + 'a" where
  "om_decode deser m = deser (om_payload m)"

section \<open>Replay\<close>

definition outbox_replay ::
    "outbox_codec \<Rightarrow> system_time \<Rightarrow> event_record \<Rightarrow> (outbox_message, string, unit) call" where
  "outbox_replay C now ev m =
     (if er_event_name ev = ''MessageCreated''
      then decode_then (oc_de_created C)
             (\<lambda>(ident, event_type, payload, destination, md).
                initialize C now ident event_type payload destination md) ev m
      else if er_event_name ev = ''MessageClaimed''
      then decode_then (oc_de_claimed C) (\<lambda>(worker, until_secs). claim C now worker until_secs) ev m
      else if er_event_name ev = ''MessagePublished'' then run_method (complete C now) m
      else if er_event_name ev = ''MessageReleased'' then decode_then (oc_de_error C) (release C now) ev m
      else if er_event_name ev = ''MessageFailed'' then decode_then (oc_de_error C) (fail C now) ev m
      else (Err (''Unknown event: '' @ er_event_name ev), m))"

definition outbox_aggregate :: "outbox_codec \<Rightarrow> system_time \<Rightarrow> outbox_message aggregate" where
  "outbox_aggregate C now =
     \<lparr>ag_new_empty = outbox_message_new now, ag_entity = om_entity,
      ag_set_entity = (\<lambda>e m. m\<lparr>om_entity := e\<rparr>), ag_replay = outbox_replay C now,
      ag_upcasters = []\<rparr>"

text \<open>What replaying one event does to a message whose entity is replaying.\<close>

fun close_message :: "outbox_status \<Rightarrow> string option \<Rightarrow> outbox_message \<Rightarrow> outbox_message" where
  "close_message st err m =
     m\<lparr>om_status := st, om_last_error := err, om_worker_id := None, om_leased_until := None\<rparr>"

lemma method_replaying:
  assumes "en_replaying (om_entity m)"
  shows "initialize C now ident event_type payload destination md m =
           Some (m\<lparr>om_entity := (om_entity m)\<lparr>en_id := normalize_id ident\<rparr>, om_event_type := event_type,
                  om_payload := payload, om_destination := destination, om_metadata := md,
                  om_status := Pending, om_created_at := now\<rparr>)"
    and "claim C now worker until_secs m =
           (if is_pending m
            then map_option (\<lambda>t. m\<lparr>om_status := InFlight, om_attempts := om_attempts m + 1,
                   om_worker_id := Some worker, om_leased_until := Some t\<rparr>)
                 (system_time_add unix_epoch (duration_from_secs until_secs))
            else Some m)"
    and "complete C now m =
           (if is_in_flight m then Some (close_message Published (om_last_error m) m) else Some m)"
    and "release C now err m =
           (if is_in_flight m
            then Some (close_message Pending (if err = [] then None else Some err) m) else Some m)"
    and "fail C now err m =
           (if can_fail m
            then Some (close_message Failed (if err = [] then None else Some err) m) else Some m)"
  using assms
  by (simp_all add: initialize_def claim_def complete_def release_def fail_def digest_empty_def
      set_id_def split: option.splits)

lemma other_id: "\<exists>i. e\<lparr>en_id := j\<rparr> = e\<lparr>en_id := i\<rparr>"
  by blast

lemma run_method_entity:
  assumes "\<And>a'. f a = Some a' \<Longrightarrow> \<exists>i. om_entity a' = (om_entity a)\<lparr>en_id := i\<rparr>"
  shows "\<exists>i. om_entity (snd (run_method f a)) = (om_entity a)\<lparr>en_id := i\<rparr>"
  using assms by (auto simp: run_method_def same_but_id split: option.split)

lemma decode_then_entity:
  assumes "\<And>x a'. f x a = Some a' \<Longrightarrow> \<exists>i. om_entity a' = (om_entity a)\<lparr>en_id := i\<rparr>"
  shows "\<exists>i. om_entity (snd (decode_then de f ev a)) = (om_entity a)\<lparr>en_id := i\<rparr>"
  using assms run_method_entity [of "f x" a for x]
  by (auto simp: decode_then_def same_but_id split: outcome.split)

interpretation outbox: aggregate_laws "outbox_aggregate C now" for C now
proof (unfold_locales, goal_cases)
  case (4 m ev)
  then have "en_replaying (om_entity m)" by (simp add: outbox_aggregate_def)
  note r = method_replaying [OF this]
  have "\<exists>i. om_entity (snd (outbox_replay C now ev m)) = (om_entity m)\<lparr>en_id := i\<rparr>"
    unfolding outbox_replay_def
    by (auto simp: r same_but_id other_id intro!: decode_then_entity run_method_entity
        split: if_splits option.splits prod.splits)
  then show ?case by (simp add: outbox_aggregate_def)
qed (simp_all add: outbox_aggregate_def)

section \<open>Histories\<close>

datatype om_cmd =
    OC_Claim system_time string u64
  | OC_Complete system_time
  | OC_Release system_time string
  | OC_Fail system_time string

fun om_exec :: "outbox_codec \<Rightarrow> om_cmd \<Rightarrow> outbox_message \<Rightarrow> outbox_message option" where
  "om_exec C (OC_Claim now worker until_secs) m = claim C now worker until_secs m"
| "om_exec C (OC_Complete now) m = complete C now m"
| "om_exec C (OC_Release now err) m = release C now err m"
| "om_exec C (OC_Fail now err) m = fail C now err m"

fun om_run :: "outbox_codec \<Rightarrow> om_cmd list \<Rightarrow> outbox_message \<Rightarrow> outbox_message option" where
  "om_run C [] m = Some m"
| "om_run C (c # cs) m = (case om_exec C c m of None \<Rightarrow> None | Some m' \<Rightarrow> om_run C cs m')"

fun om_edge :: "outbox_status \<Rightarrow> outbox_status \<Rightarrow> bool" where
  "om_edge Pending InFlight = True"
| "om_edge InFlight Published = True"
| "om_edge InFlight Pending = True"
| "om_edge Pending Failed = True"
| "om_edge InFlight Failed = True"
| "om_edge _ _ = False"

definition om_wf :: "outbox_message \<Rightarrow> bool" where
  "om_wf m \<longleftrightarrow>
     entity_wf (om_entity m) \<and> \<not> en_replaying (om_entity m) \<and> prefix id_prefix (om_id m) \<and>
     (om_status m = InFlight \<longleftrightarrow> om_worker_id m \<noteq> None) \<and>
     (om_status m = InFlight \<longleftrightarrow> om_leased_until m \<noteq> None)"

definition oc_ok :: "outbox_codec \<Rightarrow> bool" where
  "oc_ok C \<longleftrightarrow>
     (\<forall>x bs. oc_ser_created C x = Some bs \<longrightarrow> oc_de_created C bs = Inr x) \<and>
     (\<forall>x bs. oc_ser_claimed C x = Some bs \<longrightarrow> oc_de_claimed C bs = Inr x) \<and>
     (\<forall>x bs. oc_ser_error C x = Some bs \<longrightarrow> oc_de_error C bs = Inr x)"

lemma prefix_normalize_id [simp]: "prefix id_prefix (normalize_id i)"
  by (simp add: normalize_id_def)

lemma normalize_id_idem [simp]: "normalize_id (normalize_id i) = normalize_id i"
  by (simp add: normalize_id_def)

text \<open>The event a digest records.\<close>

lemma digest_event:
  assumes "digest ser now name p e = Some e'" and "\<not> en_replaying e"
  shows "\<exists>bs r. ser p = Some bs \<and> en_events e' = en_events e @ [r] \<and> er_event_name r = name \<and>
      er_payload r = bs \<and> en_id e' = en_id e \<and> \<not> en_replaying e' \<and>
      en_committed_version e' = en_committed_version e"
proof -
  obtain bs where bs: "ser p = Some bs"
    "e' = push_record (event_record_new name bs (len_u64 (en_events e) + 1) now) now e"
    using assms by (auto simp: digest_Some_iff)
  have "en_events e' = en_events e @
      [(event_record_new name bs (len_u64 (en_events e) + 1) now)\<lparr>er_metadata := en_metadata e\<rparr>]"
    unfolding bs(2) by (rule push_record_events) (simp add: event_record_new_def)
  with bs assms(2) show ?thesis by (simp add: event_record_new_def)
qed

text \<open>
  One command: nothing happens, or the status moves along an edge and one event is recorded,
  whose replay does the same to any copy of the message.
\<close>

definition om_moved :: "outbox_codec \<Rightarrow> outbox_message \<Rightarrow> outbox_message \<Rightarrow> bool" where
  "om_moved C m m' \<longleftrightarrow>
     om_edge (om_status m) (om_status m') \<and> om_wf m' \<and> om_id m' = om_id m \<and>
     om_attempts m' = om_attempts m + (if om_status m' = InFlight then 1 else 0) \<and>
     en_committed_version (om_entity m') = en_committed_version (om_entity m) \<and>
     om_event_type m' = om_event_type m \<and> om_payload m' = om_payload m \<and>
     om_destination m' = om_destination m \<and> om_metadata m' = om_metadata m \<and>
     (\<exists>r. en_events (om_entity m') = en_events (om_entity m) @ [r] \<and>
        (er_event_name r = ''MessageClaimed'' \<longleftrightarrow> om_status m' = InFlight) \<and>
        (oc_ok C \<longrightarrow> (\<forall>t E. en_replaying E \<longrightarrow>
           outbox_replay C t r (m\<lparr>om_entity := E, om_created_at := t\<rparr>) =
             (Ok (), m'\<lparr>om_entity := E, om_created_at := t\<rparr>))))"

lemmas replay_simps =
  outbox_replay_def decode_then_def event_record_decode_def run_method_def method_replaying
  is_pending_def is_in_flight_def can_fail_def

lemma claim_moves:
  assumes "claim C now w u m = Some m'" and "is_pending m" and "om_wf m"
    and "vec_fits (en_events (om_entity m))"
  shows "om_moved C m m'"
proof -
  obtain e t where e: "digest (oc_ser_claimed C) now ''MessageClaimed'' (w, u) (om_entity m) = Some e"
    and t: "system_time_add unix_epoch (duration_from_secs u) = Some t"
    and m': "m' = m\<lparr>om_entity := e, om_status := InFlight, om_attempts := om_attempts m + 1,
        om_worker_id := Some w, om_leased_until := Some t\<rparr>"
    using assms(1,2) by (auto simp: claim_def split: option.splits)
  obtain bs r where r: "oc_ser_claimed C (w, u) = Some bs" "en_events e = en_events (om_entity m) @ [r]"
    "er_event_name r = ''MessageClaimed''" "er_payload r = bs" "en_id e = en_id (om_entity m)"
    "\<not> en_replaying e" "en_committed_version e = en_committed_version (om_entity m)"
    using digest_event [OF e] assms(3) unfolding om_wf_def by blast
  have "outbox_replay C t' r (m\<lparr>om_entity := E, om_created_at := t'\<rparr>) =
      (Ok (), m'\<lparr>om_entity := E, om_created_at := t'\<rparr>)" if "oc_ok C" "en_replaying E" for t' E
    using that r t assms(2) by (simp add: replay_simps oc_ok_def m')
  then show ?thesis
    using assms(2,3) r(2,3,5-7) digest_wf [OF _ assms(4) e]
    by (auto simp: om_moved_def m' is_pending_def om_wf_def om_id_def)
qed

lemma complete_moves:
  assumes "complete C now m = Some m'" and "is_in_flight m" and "om_wf m"
    and "vec_fits (en_events (om_entity m))"
  shows "om_moved C m m'"
proof -
  obtain e where e: "digest (oc_ser_unit C) now ''MessagePublished'' () (om_entity m) = Some e"
    and m': "m' = m\<lparr>om_entity := e, om_status := Published, om_worker_id := None,
        om_leased_until := None\<rparr>"
    using assms(1,2) by (auto simp: complete_def digest_empty_def split: option.splits)
  obtain r where r: "en_events e = en_events (om_entity m) @ [r]"
    "er_event_name r = ''MessagePublished''" "en_id e = en_id (om_entity m)"
    "\<not> en_replaying e" "en_committed_version e = en_committed_version (om_entity m)"
    using digest_event [OF e] assms(3) unfolding om_wf_def by blast
  have "outbox_replay C t' r (m\<lparr>om_entity := E, om_created_at := t'\<rparr>) =
      (Ok (), m'\<lparr>om_entity := E, om_created_at := t'\<rparr>)" if "en_replaying E" for t' E
    using that r assms(2) by (simp add: replay_simps m')
  then show ?thesis
    using assms(2,3) r digest_wf [OF _ assms(4) e]
    by (auto simp: om_moved_def m' is_in_flight_def om_wf_def om_id_def)
qed

lemma release_moves:
  assumes "release C now err m = Some m'" and "is_in_flight m" and "om_wf m"
    and "vec_fits (en_events (om_entity m))"
  shows "om_moved C m m'"
proof -
  obtain e where e: "digest (oc_ser_error C) now ''MessageReleased'' err (om_entity m) = Some e"
    and m': "m' = m\<lparr>om_entity := e, om_status := Pending,
        om_last_error := (if err = [] then None else Some err), om_worker_id := None,
        om_leased_until := None\<rparr>"
    using assms(1,2) by (auto simp: release_def split: option.splits)
  obtain bs r where r: "oc_ser_error C err = Some bs" "en_events e = en_events (om_entity m) @ [r]"
    "er_event_name r = ''MessageReleased''" "er_payload r = bs" "en_id e = en_id (om_entity m)"
    "\<not> en_replaying e" "en_committed_version e = en_committed_version (om_entity m)"
    using digest_event [OF e] assms(3) unfolding om_wf_def by blast
  have "outbox_replay C t' r (m\<lparr>om_entity := E, om_created_at := t'\<rparr>) =
      (Ok (), m'\<lparr>om_entity := E, om_created_at := t'\<rparr>)" if "oc_ok C" "en_replaying E" for t' E
    using that r assms(2) by (simp add: replay_simps oc_ok_def m')
  then show ?thesis
    using assms(2,3) r(2,3,5-7) digest_wf [OF _ assms(4) e]
    by (auto simp: om_moved_def m' is_in_flight_def om_wf_def om_id_def)
qed

lemma fail_moves:
  assumes "fail C now err m = Some m'" and "can_fail m" and "om_wf m"
    and "vec_fits (en_events (om_entity m))"
  shows "om_moved C m m'"
proof -
  obtain e where e: "digest (oc_ser_error C) now ''MessageFailed'' err (om_entity m) = Some e"
    and m': "m' = m\<lparr>om_entity := e, om_status := Failed,
        om_last_error := (if err = [] then None else Some err), om_worker_id := None,
        om_leased_until := None\<rparr>"
    using assms(1,2) by (auto simp: fail_def split: option.splits)
  obtain bs r where r: "oc_ser_error C err = Some bs" "en_events e = en_events (om_entity m) @ [r]"
    "er_event_name r = ''MessageFailed''" "er_payload r = bs" "en_id e = en_id (om_entity m)"
    "\<not> en_replaying e" "en_committed_version e = en_committed_version (om_entity m)"
    using digest_event [OF e] assms(3) unfolding om_wf_def by blast
  have "outbox_replay C t' r (m\<lparr>om_entity := E, om_created_at := t'\<rparr>) =
      (Ok (), m'\<lparr>om_entity := E, om_created_at := t'\<rparr>)" if "oc_ok C" "en_replaying E" for t' E
    using that r assms(2) by (simp add: replay_simps oc_ok_def m')
  moreover have "om_status m = Pending \<or> om_status m = InFlight"
    using assms(2) by (cases "om_status m") (simp_all add: can_fail_def)
  ultimately show ?thesis
    using assms(3) r(2,3,5-7) digest_wf [OF _ assms(4) e]
    by (auto simp: om_moved_def m' om_wf_def om_id_def)
qed

lemma om_exec_step:
  assumes "om_exec C c m = Some m'" and "om_wf m" and "vec_fits (en_events (om_entity m))"
  shows "m' = m \<or> om_moved C m m'"
proof (cases c)
  case (OC_Claim now w u)
  with assms show ?thesis
    by (cases "is_pending m") (auto simp: claim_moves, simp add: claim_def)
next
  case (OC_Complete now)
  with assms show ?thesis
    by (cases "is_in_flight m") (auto simp: complete_moves, simp add: complete_def)
next
  case (OC_Release now err)
  with assms show ?thesis
    by (cases "is_in_flight m") (auto simp: release_moves, simp add: release_def)
next
  case (OC_Fail now err)
  with assms show ?thesis
    by (cases "can_fail m") (auto simp: fail_moves, simp add: fail_def)
qed

text \<open>The events of a message replay to the message, into whatever entity.\<close>

definition om_faithful :: "outbox_codec \<Rightarrow> outbox_message \<Rightarrow> bool" where
  "om_faithful C m \<longleftrightarrow>
     (\<forall>t E. en_replaying E \<longrightarrow>
        apply_events (outbox_replay C t) (en_events (om_entity m)) ((outbox_message_new t)\<lparr>om_entity := E\<rparr>) =
          (Ok (), m\<lparr>om_entity := E\<lparr>en_id := om_id m\<rparr>, om_created_at := t\<rparr>))"

definition claim_count :: "outbox_message \<Rightarrow> nat" where
  "claim_count m =
     length (filter (\<lambda>r. er_event_name r = ''MessageClaimed'') (en_events (om_entity m)))"

definition om_good :: "outbox_codec \<Rightarrow> outbox_message \<Rightarrow> bool" where
  "om_good C m \<longleftrightarrow>
     om_wf m \<and> om_attempts m = of_nat (claim_count m) \<and> (oc_ok C \<longrightarrow> om_faithful C m)"

lemma om_moved_good:
  assumes "om_good C m" and "om_moved C m m'"
  shows "om_good C m'"
proof -
  obtain r where r: "en_events (om_entity m') = en_events (om_entity m) @ [r]"
    "er_event_name r = ''MessageClaimed'' \<longleftrightarrow> om_status m' = InFlight"
    and rep: "oc_ok C \<Longrightarrow> en_replaying E \<Longrightarrow> outbox_replay C t r (m\<lparr>om_entity := E, om_created_at := t\<rparr>) =
         (Ok (), m'\<lparr>om_entity := E, om_created_at := t\<rparr>)" for E t
    using assms(2) unfolding om_moved_def by blast
  have m': "om_wf m'" "om_id m' = om_id m"
    "om_attempts m' = om_attempts m + (if om_status m' = InFlight then 1 else 0)"
    using assms(2) by (simp_all add: om_moved_def)
  have "om_faithful C m'" if "oc_ok C"
    unfolding om_faithful_def
  proof (intro allI impI)
    fix t and E :: entity
    assume E: "en_replaying E"
    have "apply_events (outbox_replay C t) (en_events (om_entity m)) ((outbox_message_new t)\<lparr>om_entity := E\<rparr>) =
        (Ok (), m\<lparr>om_entity := E\<lparr>en_id := om_id m\<rparr>, om_created_at := t\<rparr>)"
      using assms(1) that E unfolding om_good_def om_faithful_def by blast
    then show "apply_events (outbox_replay C t) (en_events (om_entity m')) ((outbox_message_new t)\<lparr>om_entity := E\<rparr>) =
        (Ok (), m'\<lparr>om_entity := E\<lparr>en_id := om_id m'\<rparr>, om_created_at := t\<rparr>)"
      using rep [OF that, of "E\<lparr>en_id := om_id m\<rparr>" t] E
      by (simp add: r(1) apply_events_append m'(2))
  qed
  then show ?thesis
    using assms(1) r m' by (auto simp: om_good_def claim_count_def)
qed

lemma initialize_good:
  assumes "initialize C now ident event_type payload dest md (outbox_message_new now) = Some m"
  shows "om_good C m" and "om_id m = normalize_id ident" and "om_status m = Pending"
    and "length (en_events (om_entity m)) = 1"
    and "om_event_type m = event_type" "om_payload m = payload" "om_destination m = dest"
      "om_metadata m = md" "en_committed_version (om_entity m) = 0"
proof -
  obtain e where e: "digest (oc_ser_created C) now ''MessageCreated'' (ident, event_type, payload, dest, md)
      (entity_default now) = Some e"
    and m: "m = (outbox_message_new now)\<lparr>om_entity := set_id (normalize_id ident) e,
        om_event_type := event_type, om_payload := payload, om_destination := dest,
        om_metadata := md, om_status := Pending, om_created_at := now\<rparr>"
    using assms by (auto simp: initialize_def outbox_message_new_def split: option.splits)
  have nr: "\<not> en_replaying (entity_default now)" by (simp add: entity_default_def)
  obtain bs r where r: "oc_ser_created C (ident, event_type, payload, dest, md) = Some bs"
    "en_events e = [r]" "er_event_name r = ''MessageCreated''" "er_payload r = bs"
    "\<not> en_replaying e" "en_committed_version e = 0"
    using digest_event [OF e nr] by (auto simp: entity_default_def)
  have wf: "entity_wf e" using digest_wf [OF entity_wf_default _ e] by (simp add: entity_default_def)
  show "om_good C m"
    using r wf unfolding om_good_def om_faithful_def
    by (auto simp: m set_id_def om_wf_def om_id_def claim_count_def outbox_message_new_def
        replay_simps oc_ok_def)
  show "om_id m = normalize_id ident" "om_status m = Pending"
    "length (en_events (om_entity m)) = 1" "om_event_type m = event_type" "om_payload m = payload"
    "om_destination m = dest" "om_metadata m = md" "en_committed_version (om_entity m) = 0"
    using r by (simp_all add: m om_id_def set_id_def)
qed

lemma om_run_good:
  "om_run C cs m = Some m' \<Longrightarrow> om_good C m \<Longrightarrow>
     length (en_events (om_entity m)) + length cs < 2 ^ 63 \<Longrightarrow>
     om_good C m' \<and> om_id m' = om_id m \<and> om_event_type m' = om_event_type m \<and>
     om_payload m' = om_payload m \<and> om_destination m' = om_destination m \<and>
     om_metadata m' = om_metadata m"
proof (induction cs arbitrary: m)
  case Nil
  then show ?case by simp
next
  case (Cons c cs)
  then obtain m1 where m1: "om_exec C c m = Some m1" "om_run C cs m1 = Some m'"
    by (auto split: option.splits)
  have "m1 = m \<or> om_moved C m m1"
    using om_exec_step [OF m1(1)] Cons.prems(2,3) by (simp add: om_good_def)
  then show ?case
  proof
    assume "m1 = m"
    with Cons.IH [OF m1(2)] Cons.prems(2,3) show ?thesis by simp
  next
    assume mv: "om_moved C m m1"
    have "om_good C m1" by (rule om_moved_good [OF Cons.prems(2) mv])
    moreover have "length (en_events (om_entity m1)) + length cs < 2 ^ 63"
      using mv Cons.prems(3) by (auto simp: om_moved_def)
    ultimately show ?thesis using Cons.IH [OF m1(2)] mv by (auto simp: om_moved_def)
  qed
qed

lemma om_exec_terminal:
  "om_status m = Published \<or> om_status m = Failed \<Longrightarrow> om_exec C c m = Some m"
  by (cases c) (auto simp: claim_def complete_def release_def fail_def is_pending_def
      is_in_flight_def can_fail_def)

lemma om_run_terminal:
  "om_status m = Published \<or> om_status m = Failed \<Longrightarrow> om_run C cs m = Some m"
  by (induction cs) (simp_all add: om_exec_terminal)

lemma om_good_hydrate:
  assumes "om_good C m" and "oc_ok C"
  shows "hydrate (outbox_aggregate C t) (entity_from t (om_id m) (en_events (om_entity m))) =
           Ok (m\<lparr>om_entity := entity_from t (om_id m) (en_events (om_entity m)), om_created_at := t\<rparr>)"
proof -
  let ?e = "entity_from t (om_id m) (en_events (om_entity m))"
  have "om_faithful C m" using assms by (simp add: om_good_def)
  then have "apply_events (outbox_replay C t) (en_events (om_entity m))
      ((outbox_message_new t)\<lparr>om_entity := set_replaying True ?e\<rparr>) =
      (Ok (), m\<lparr>om_entity := (set_replaying True ?e)\<lparr>en_id := om_id m\<rparr>, om_created_at := t\<rparr>)"
    unfolding om_faithful_def by (simp add: set_replaying_def)
  moreover have "(set_replaying False ((set_replaying True ?e)\<lparr>en_id := om_id m\<rparr>)) = ?e"
    by (simp add: set_replaying_def entity_from_def load_from_history_def set_id_def entity_new_def
        entity_default_def)
  ultimately show ?thesis
    by (simp add: hydrate_def upcast_all_def replay_loop_def on_entity_def outbox_aggregate_def)
qed

lemma om_good_reload:
  assumes "om_good C m" and "vec_fits (en_events (om_entity m))"
  shows "om_good C (m\<lparr>om_entity := entity_from t (om_id m) (en_events (om_entity m)), om_created_at := t'\<rparr>)"
  using assms entity_wfD(3) [of "om_entity m"]
  by (auto simp: om_good_def om_wf_def om_id_def claim_count_def om_faithful_def entity_from_wf)

section \<open>Properties\<close>

text \<open>For the witnesses: a codec for one message, one worker and one error text.\<close>

definition sample_codec :: outbox_codec where
  "sample_codec =
     (let created = (''m1'', ''Created'', [1], None, Mapping.empty)
      in \<lparr>oc_ser_created = (\<lambda>x. if x = created then Some [] else None),
          oc_de_created = (\<lambda>_. Inr created),
          oc_ser_claimed = (\<lambda>x. if x = (''w'', 60) then Some [] else None),
          oc_de_claimed = (\<lambda>_. Inr (''w'', 60)),
          oc_ser_unit = (\<lambda>_. Some []),
          oc_ser_error = (\<lambda>x. if x = ''down'' then Some [] else None),
          oc_de_error = (\<lambda>_. Inr ''down'')\<rparr>)"

lemma sample_codec_fields [simp]:
  "oc_ser_created sample_codec x = (if x = (''m1'', ''Created'', [1], None, Mapping.empty) then Some [] else None)"
  "oc_de_created sample_codec bs = Inr (''m1'', ''Created'', [1], None, Mapping.empty)"
  "oc_ser_claimed sample_codec y = (if y = (''w'', 60) then Some [] else None)"
  "oc_de_claimed sample_codec bs = Inr (''w'', 60)"
  "oc_ser_unit sample_codec u = Some []"
  "oc_ser_error sample_codec z = (if z = ''down'' then Some [] else None)"
  "oc_de_error sample_codec bs = Inr ''down''"
  by (simp_all add: sample_codec_def Let_def)

lemma sample_codec_ok: "oc_ok sample_codec"
  by (simp add: oc_ok_def)

lemma digest_records:
  assumes "\<not> en_replaying e" and "ser p = Some bs"
  shows "\<exists>e'. digest ser now name p e = Some e' \<and> \<not> en_replaying e'"
  using assms by (simp add: digest_def)

lemma sample_claim:
  assumes "om_status m = Pending" and "\<not> en_replaying (om_entity m)"
  shows "\<exists>m'. claim sample_codec now ''w'' 60 m = Some m' \<and> om_status m' = InFlight \<and>
              \<not> en_replaying (om_entity m')"
  using assms by (simp add: claim_def is_pending_def digest_def system_time_add_def
      duration_from_secs_def)

lemma sample_release:
  assumes "om_status m = InFlight" and "\<not> en_replaying (om_entity m)"
  shows "\<exists>m'. release sample_codec now ''down'' m = Some m' \<and> om_status m' = Pending \<and>
              \<not> en_replaying (om_entity m')"
  using assms by (simp add: release_def is_in_flight_def digest_def)

lemma sample_complete:
  assumes "om_status m = InFlight" and "\<not> en_replaying (om_entity m)"
  shows "\<exists>m'. complete sample_codec now m = Some m' \<and> om_status m' = Published"
  using assms by (simp add: complete_def is_in_flight_def digest_empty_def digest_def)

lemma sample_initialize:
  "\<exists>m. initialize sample_codec 5 ''m1'' ''Created'' [1] None Mapping.empty (outbox_message_new 5) = Some m"
  by (simp add: initialize_def digest_def outbox_message_new_def entity_default_def)

lemma sample_run:
  "\<exists>m0 m. initialize sample_codec 5 ''m1'' ''Created'' [1] None Mapping.empty (outbox_message_new 5) = Some m0 \<and>
     om_run sample_codec [OC_Claim 6 ''w'' 60, OC_Release 7 ''down'', OC_Claim 8 ''w'' 60, OC_Complete 9] m0 = Some m \<and>
     om_status m = Published"
proof -
  obtain m0 where m0: "initialize sample_codec 5 ''m1'' ''Created'' [1] None Mapping.empty (outbox_message_new 5) = Some m0"
    using sample_initialize by blast
  then have p: "om_status m0 = Pending" "\<not> en_replaying (om_entity m0)"
    using initialize_good [OF m0] by (simp_all add: om_good_def om_wf_def)
  from sample_claim [OF p, of 6] obtain m1 where m1: "claim sample_codec 6 ''w'' 60 m0 = Some m1"
    "om_status m1 = InFlight" "\<not> en_replaying (om_entity m1)" by blast
  from sample_release [OF m1(2,3), of 7] obtain m2 where m2: "release sample_codec 7 ''down'' m1 = Some m2"
    "om_status m2 = Pending" "\<not> en_replaying (om_entity m2)" by blast
  from sample_claim [OF m2(2,3), of 8] obtain m3 where m3: "claim sample_codec 8 ''w'' 60 m2 = Some m3"
    "om_status m3 = InFlight" "\<not> en_replaying (om_entity m3)" by blast
  from sample_complete [OF m3(2,3), of 9] m0 m1(1) m2(1) m3(1) show ?thesis by auto
qed

text \<open>
  \<open>initialize\<close> is a command like the others, but has no guard: called again it makes a message of
  any status pending, with new contents, and keeps its attempts, its worker and its lease.
\<close>

lemma initialize_again_resets:
  assumes "\<not> en_replaying (om_entity m)" and "oc_ser_created C (ident, event_type, payload, dest, md) = Some bs"
  shows "\<exists>m'. initialize C now ident event_type payload dest md m = Some m' \<and> om_status m' = Pending \<and>
    om_id m' = normalize_id ident \<and> om_event_type m' = event_type \<and> om_payload m' = payload \<and>
    om_attempts m' = om_attempts m \<and> om_worker_id m' = om_worker_id m \<and> om_leased_until m' = om_leased_until m"
  using digest_records [where ser = "oc_ser_created C" and now = now and name = "''MessageCreated''", OF assms(1,2)]
  by (auto simp: initialize_def om_id_def set_id_def)

text \<open>
  C23: The life of an outbox message.  Whatever sequence of claims, completions, releases and
  failures it is given after its creation: its events are numbered from 1, exactly an in-flight
  message has a worker and a lease, its attempts are the claims in its history (modulo the width of
  the counter), what it carries never changes, and once published or failed none of the four changes
  it.  (The fifth command, \<open>initialize\<close>, is the creation; it is public and unguarded, so calling it
  again resets even a published message: \<open>initialize_again_resets\<close>.)
\<close>

theorem outbox_message_lifecycle:
  assumes "initialize C now ident event_type payload dest md (outbox_message_new now) = Some m0"
    and "om_run C cs m0 = Some m" and "length cs + 1 < 2 ^ 63"
  shows "entity_wf (om_entity m) \<and> om_id m = normalize_id ident \<and>
      (om_status m = InFlight \<longleftrightarrow> om_worker_id m \<noteq> None) \<and>
      (om_status m = InFlight \<longleftrightarrow> om_leased_until m \<noteq> None) \<and>
      om_attempts m = of_nat (claim_count m) \<and>
      om_event_type m = event_type \<and> om_payload m = payload \<and> om_destination m = dest \<and>
      om_metadata m = md \<and>
      (om_status m = Published \<or> om_status m = Failed \<longrightarrow> (\<forall>ds. om_run C ds m = Some m))"
  using om_run_good [OF assms(2) initialize_good(1) [OF assms(1)]] initialize_good [OF assms(1)]
    assms(3) om_run_terminal [of m C]
  by (auto simp: om_good_def om_wf_def)

theorem outbox_message_lifecycle_witness:
  "\<exists>m. om_status m = Published \<and> om_id m = ''outbox:m1'' \<and> om_attempts m = of_nat (claim_count m) \<and>
     om_run sample_codec [OC_Claim 10 ''w'' 60, OC_Fail 11 ''down''] m = Some m"
proof -
  obtain m0 m where m: "initialize sample_codec 5 ''m1'' ''Created'' [1] None Mapping.empty (outbox_message_new 5) = Some m0"
    "om_run sample_codec [OC_Claim 6 ''w'' 60, OC_Release 7 ''down'', OC_Claim 8 ''w'' 60, OC_Complete 9] m0 = Some m"
    "om_status m = Published"
    using sample_run by blast
  from outbox_message_lifecycle [OF m(1,2)] m(3)
  have "om_id m = ''outbox:m1''" "om_attempts m = of_nat (claim_count m)" "\<forall>ds. om_run sample_codec ds m = Some m"
    by (simp_all add: normalize_id_def id_prefix_def)
  with m(3) show ?thesis by blast
qed

text \<open>
  An outbox message is what its events say: hydrating the stored stream of a message, after
  any commands, gives the message back with every field, but for the creation time, which
  hydration sets to its own time.
\<close>

theorem outbox_message_roundtrip:
  assumes "initialize C now ident event_type payload dest md (outbox_message_new now) = Some m0"
    and "om_run C cs m0 = Some m" and "length cs + 1 < 2 ^ 63" and "oc_ok C"
  shows "hydrate (outbox_aggregate C t) (entity_from t (om_id m) (en_events (om_entity m))) =
           Ok (m\<lparr>om_entity := entity_from t (om_id m) (en_events (om_entity m)), om_created_at := t\<rparr>)"
  using om_run_good [OF assms(2) initialize_good(1) [OF assms(1)]] initialize_good(4) [OF assms(1)]
    assms(3,4) by (intro om_good_hydrate) auto

theorem outbox_message_roundtrip_witness:
  "\<exists>m. om_status m = Published \<and>
     hydrate (outbox_aggregate sample_codec 20) (entity_from 20 (om_id m) (en_events (om_entity m))) =
       Ok (m\<lparr>om_entity := entity_from 20 (om_id m) (en_events (om_entity m)), om_created_at := 20\<rparr>)"
proof -
  obtain m0 m where m: "initialize sample_codec 5 ''m1'' ''Created'' [1] None Mapping.empty (outbox_message_new 5) = Some m0"
    "om_run sample_codec [OC_Claim 6 ''w'' 60, OC_Release 7 ''down'', OC_Claim 8 ''w'' 60, OC_Complete 9] m0 = Some m"
    "om_status m = Published"
    using sample_run by blast
  from outbox_message_roundtrip [OF m(1,2) _ sample_codec_ok, of 20] m(3) show ?thesis by auto
qed

text \<open>
  The status moves along five edges only (pending to in flight or failed, in flight to
  published, pending or failed).  A command whose guard fails changes nothing; any other
  records exactly one event, keeps the message well formed, and counts an attempt exactly
  when it is a claim.
\<close>

theorem outbox_state_machine:
  assumes "om_exec C c m = Some m'" and "om_wf m" and "vec_fits (en_events (om_entity m))"
  shows "m' = m \<or>
    (om_edge (om_status m) (om_status m') \<and> om_wf m' \<and> om_id m' = om_id m \<and>
     (\<exists>r. en_events (om_entity m') = en_events (om_entity m) @ [r]) \<and>
     om_attempts m' = om_attempts m + (if om_status m' = InFlight then 1 else 0) \<and>
     (case c of OC_Claim now w u \<Rightarrow> om_status m = Pending \<and> om_status m' = InFlight
      | OC_Complete now \<Rightarrow> om_status m = InFlight \<and> om_status m' = Published
      | OC_Release now err \<Rightarrow> om_status m = InFlight \<and> om_status m' = Pending
      | OC_Fail now err \<Rightarrow> om_status m \<in> {Pending, InFlight} \<and> om_status m' = Failed))"
proof (cases "m' = m")
  case False
  then have mv: "om_moved C m m'" using om_exec_step [OF assms] by simp
  moreover have "case c of OC_Claim now w u \<Rightarrow> om_status m = Pending \<and> om_status m' = InFlight
      | OC_Complete now \<Rightarrow> om_status m = InFlight \<and> om_status m' = Published
      | OC_Release now err \<Rightarrow> om_status m = InFlight \<and> om_status m' = Pending
      | OC_Fail now err \<Rightarrow> om_status m \<in> {Pending, InFlight} \<and> om_status m' = Failed"
    using assms(1) False
    by (cases c; cases "om_status m")
      (auto simp: claim_def complete_def release_def fail_def is_pending_def is_in_flight_def
        can_fail_def digest_empty_def split: option.splits)
  ultimately show ?thesis by (auto simp: om_moved_def)
qed simp

theorem outbox_state_machine_witness:
  "\<exists>m m'. om_exec sample_codec (OC_Claim 6 ''w'' 60) m = Some m' \<and> om_wf m' \<and> om_status m' = InFlight"
proof -
  obtain m where m: "initialize sample_codec 5 ''m1'' ''Created'' [1] None Mapping.empty (outbox_message_new 5) = Some m"
    using sample_run by blast
  have wf: "om_wf m" "vec_fits (en_events (om_entity m))" "om_status m = Pending"
    using initialize_good [OF m] by (simp_all add: om_good_def)
  then obtain m' where m': "om_exec sample_codec (OC_Claim 6 ''w'' 60) m = Some m'" "om_status m' = InFlight"
    using sample_claim [of m 6] by (auto simp: om_wf_def)
  from outbox_state_machine [OF m'(1) wf(1,2)] m' wf(3) show ?thesis by auto
qed

end
