(* ===== verification/Commit_Builder.thy ===== *)
theory Commit_Builder
  imports Outbox_Message
begin

text \<open>
  The commit builder (\<open>src/commit_builder/mod.rs\<close>): read models, outbox messages and aggregates
  collected in any order and written with one call.
\<close>

section \<open>The builder\<close>

record queued_model =
  qe_key :: string
  qe_bytes :: bytes

record commit_builder =
  cb_entities :: "entity list"
  cb_models :: "queued_model list"

definition commit_builder_new :: commit_builder where
  "commit_builder_new = \<lparr>cb_entities = [], cb_models = []\<rparr>"

text \<open>\<open>None\<close> is the panic of a model that does not serialize.\<close>

definition cb_readmodel :: "'d read_model \<Rightarrow> 'd \<Rightarrow> commit_builder \<Rightarrow> commit_builder option" where
  "cb_readmodel M model b =
     (case md_to_vec M model of
        Inl _ \<Rightarrow> None
      | Inr bs \<Rightarrow>
          Some (b\<lparr>cb_models := cb_models b @
            [\<lparr>qe_key = md_collection M @ '':'' @ md_id M model, qe_bytes = bs\<rparr>]\<rparr>))"

definition cb_outbox :: "outbox_message \<Rightarrow> commit_builder \<Rightarrow> commit_builder" where
  "cb_outbox msg b = b\<lparr>cb_entities := cb_entities b @ [into_entity msg]\<rparr>"

definition repo_readmodel :: "'d read_model \<Rightarrow> 'd \<Rightarrow> commit_builder option" where
  "repo_readmodel M model = cb_readmodel M model commit_builder_new"

definition repo_outbox :: "outbox_message \<Rightarrow> commit_builder" where
  "repo_outbox msg = cb_outbox msg commit_builder_new"

section \<open>Committing\<close>

text \<open>\<open>up\<close> is the \<open>upsert_raw\<close> of the repository; its errors are converted by \<open>?\<close>.\<close>

fun write_models ::
    "(string \<Rightarrow> bytes \<Rightarrow> ('r, read_model_error, unit) call) \<Rightarrow> queued_model list \<Rightarrow>
     ('r, repository_error, unit) call" where
  "write_models up [] = st_return ()"
| "write_models up (m # ms) =
     st_bind (st_map_err repository_error_from_read_model (up (qe_key m) (qe_bytes m)))
       (\<lambda>_. write_models up ms)"

definition cb_commit_many ::
    "'r repo_ops \<Rightarrow> (string \<Rightarrow> bytes \<Rightarrow> ('r, read_model_error, unit) call) \<Rightarrow> commit_builder \<Rightarrow>
     ('r \<times> entity list, repository_error, unit) call" where
  "cb_commit_many R up b s =
     (case s of (r, es) \<Rightarrow>
        (case op_commit R (r, cb_entities b @ es) of
           (res, r', es') \<Rightarrow>
             (let own = drop (length (cb_entities b)) es' in
              case res of
                Ok _ \<Rightarrow> (case write_models up (cb_models b) r' of (res', r'') \<Rightarrow> (res', r'', own))
              | _ \<Rightarrow> (res, r', own))))"

definition cb_commit ::
    "('a, 'z) aggregate_scheme \<Rightarrow> 'r repo_ops \<Rightarrow> (string \<Rightarrow> bytes \<Rightarrow> ('r, read_model_error, unit) call) \<Rightarrow>
     commit_builder \<Rightarrow> ('r \<times> 'a, repository_error, unit) call" where
  "cb_commit A R up b s =
     (case s of (r, a) \<Rightarrow>
        (case op_commit R (r, cb_entities b @ [ag_entity A a]) of
           (res, r', es') \<Rightarrow>
             (let a' = ag_set_entity A (last es') a in
              case res of
                Ok _ \<Rightarrow> (case write_models up (cb_models b) r' of (res', r'') \<Rightarrow> (res', r'', a'))
              | _ \<Rightarrow> (res, r', a'))))"

definition cb_commit_all ::
    "'r repo_ops \<Rightarrow> (string \<Rightarrow> bytes \<Rightarrow> ('r, read_model_error, unit) call) \<Rightarrow> commit_builder \<Rightarrow>
     ('r, repository_error, unit) call" where
  "cb_commit_all R up b r =
     (if cb_entities b \<noteq> []
      then case op_commit R (r, cb_entities b) of
          (Ok _, r', _) \<Rightarrow> write_models up (cb_models b) r'
        | (res, r', _) \<Rightarrow> (res, r')
      else write_models up (cb_models b) r)"

definition hashmap_upsert_raw :: "string \<Rightarrow> bytes \<Rightarrow> (hm_repo, read_model_error, unit) call" where
  "hashmap_upsert_raw key bs = on_models (upsert_raw key bs)"

section \<open>What it does to the in-memory repository\<close>

definition put_raw :: "queued_model \<Rightarrow> rm_store \<Rightarrow> rm_store" where
  "put_raw m s = put_model (qe_key m) (qe_bytes m) (next_version s (qe_key m)) s"

lemma hashmap_upsert_raw_eq:
  "hashmap_upsert_raw (qe_key m) (qe_bytes m) r =
     (if rm_poisoned (hr_models r) then (Err rm_poison_error, r)
      else (Ok (), r\<lparr>hr_models := put_raw m (hr_models r)\<rparr>))"
  by (simp add: hashmap_upsert_raw_def on_models_def upsert_raw_def save_raw_def put_raw_def st_bind_def)

lemma put_raw_poisoned [simp]: "rm_poisoned (put_raw m s) = rm_poisoned s"
  by (simp add: put_raw_def put_model_def)

lemma write_models_Ok:
  assumes "\<not> rm_poisoned (hr_models r)"
  shows "write_models hashmap_upsert_raw ms r = (Ok (), r\<lparr>hr_models := fold put_raw ms (hr_models r)\<rparr>)"
  using assms
  by (induction ms arbitrary: r) (simp_all add: hashmap_upsert_raw_eq st_map_err_def)

lemma write_models_poisoned:
  assumes "rm_poisoned (hr_models r)" and "ms \<noteq> []"
  shows "write_models hashmap_upsert_raw ms r = (Err (repository_error_from_read_model rm_poison_error), r)"
  using assms by (cases ms) (simp_all add: hashmap_upsert_raw_eq st_map_err_def)

lemma hm_commit_models: "hm_commit (r, es) = (res, r', es') \<Longrightarrow> hr_models r' = hr_models r"
  by (auto simp: hm_commit_def split: if_splits outcome.splits prod.splits)

text \<open>
  C28: What one builder commit does.  When some entity, of the aggregate or of an outbox
  message, is not current, the call fails and nothing is written.  Otherwise the events of all of
  them are appended, and then the queued read models are saved one after the other, each with
  the next version of its key.  The two are not one transaction: when the read-model store
  refuses, the call returns its error with all the events committed.
\<close>

theorem builder_commit_outcome:
  assumes "hm_inv ord r" and "\<forall>e \<in> set (cb_entities b @ [ag_entity A a]). entity_wf e"
  shows "if \<exists>e \<in> set (cb_entities b @ [ag_entity A a]). \<not> current (hm_streams r) e
    then \<exists>err. cb_commit A (hashmap_repo now ord) hashmap_upsert_raw b (r, a) =
           (Err err, r, ag_set_entity A (ag_entity A a) a)
    else \<exists>res r'. cb_commit A (hashmap_repo now ord) hashmap_upsert_raw b (r, a) =
             (res, r', ag_set_entity A (mark_committed (ag_entity A a)) a) \<and>
           hm_inv ord r' \<and> hm_streams r' = append_all (cb_entities b @ [ag_entity A a]) (hm_streams r) \<and>
           (if rm_poisoned (hr_models r) \<and> cb_models b \<noteq> []
            then res = Err (repository_error_from_read_model rm_poison_error) \<and> hr_models r' = hr_models r
            else res = Ok () \<and> hr_models r' = fold put_raw (cb_models b) (hr_models r))"
proof -
  let ?es = "cb_entities b @ [ag_entity A a]"
  from hm.commit_cases [OF assms, of now] consider
      (ok) r1 where "\<forall>e \<in> set ?es. current (hm_streams r) e"
        "op_commit (hashmap_repo now ord) (r, ?es) = (Ok (), r1, map mark_committed ?es)" "hm_inv ord r1"
        "hm_streams r1 = append_all ?es (hm_streams r)"
    | (stale) err where "\<exists>e \<in> set ?es. \<not> current (hm_streams r) e"
        "op_commit (hashmap_repo now ord) (r, ?es) = (Err err, r, ?es)"
    by blast
  then show ?thesis
  proof cases
    case stale
    then show ?thesis by (simp add: cb_commit_def)
  next
    case ok
    have models: "hr_models r1 = hr_models r"
      using ok(2) hm_commit_models by (auto simp: hashmap_repo_def)
    have inv: "hm_inv ord (r1\<lparr>hr_models := s\<rparr>)" "hm_streams (r1\<lparr>hr_models := s\<rparr>) = hm_streams r1" for s
      using ok(3) by (simp_all add: hm_inv_def hm_streams_def)
    let ?run = "cb_commit A (hashmap_repo now ord) hashmap_upsert_raw b (r, a)"
    let ?a = "ag_set_entity A (mark_committed (ag_entity A a)) a"
    show ?thesis
    proof (cases "rm_poisoned (hr_models r) \<and> cb_models b \<noteq> []")
      case True
      then have "?run = (Err (repository_error_from_read_model rm_poison_error), r1, ?a)"
        using ok(2) write_models_poisoned [of r1 "cb_models b"] models by (simp add: cb_commit_def)
      with True ok(1,3,4) models show ?thesis by simp
    next
      case False
      then have "write_models hashmap_upsert_raw (cb_models b) r1 =
          (Ok (), r1\<lparr>hr_models := fold put_raw (cb_models b) (hr_models r1)\<rparr>)"
        using models write_models_Ok [of r1 "cb_models b"] by (cases "cb_models b") auto
      then have "?run = (Ok (), r1\<lparr>hr_models := fold put_raw (cb_models b) (hr_models r1)\<rparr>, ?a)"
        using ok(2) by (simp add: cb_commit_def)
      with False ok(1,4) inv models show ?thesis by auto
    qed
  qed
qed

text \<open>For the witness: one view and one aggregate, both new.\<close>

theorem builder_commit_outcome_witness:
  "\<exists>b r'. repo_readmodel (text_model ''views'') (''a'', 7) = Some b \<and>
     cb_commit bare_aggregate (hashmap_repo 0 Mapping.ordered_keys) hashmap_upsert_raw b
       (hm_repo_new, entity_with_id ''a'' 0) = (Ok (), r', mark_committed (entity_with_id ''a'' 0)) \<and>
     rm_table (text_model ''views'') (hr_models r') ''a'' = Some \<lparr>vs_data = (''a'', 7), vs_version = 1\<rparr>"
proof -
  let ?M = "text_model ''views''"
  have ag [simp]: "ag_entity bare_aggregate x = x" "ag_set_entity bare_aggregate e x = e" for x e
    by (simp_all add: bare_aggregate_def)
  obtain bs where enc: "md_to_vec ?M (''a'', 7) = Inr bs"
    using text_model_storable [of "''views''" "(''a'', 7)"] unfolding rm_storable_def by blast
  have "codec_ok ?M" using text_model_ok unfolding rm_inv_def by blast
  with enc have bs: "md_to_vec ?M (''a'', 7) = Inr bs" "md_from_slice ?M bs = Inr (''a'', 7)"
    unfolding codec_ok_def by blast+
  define b where "b = commit_builder_new\<lparr>cb_models := [\<lparr>qe_key = ''views:a'', qe_bytes = bs\<rparr>]\<rparr>"
  have b: "repo_readmodel ?M (''a'', 7) = Some b"
    using bs by (simp add: repo_readmodel_def cb_readmodel_def b_def commit_builder_new_def)
  have wf: "\<forall>e \<in> set (cb_entities b @ [ag_entity bare_aggregate (entity_with_id ''a'' 0)]). entity_wf e"
    by (simp add: b_def commit_builder_new_def)
  have cur: "current (hm_streams hm_repo_new) (entity_with_id ''a'' 0)"
    by (simp add: current_def stream_of_def) (simp add: entity_with_id_def entity_default_def)
  have np: "\<not> rm_poisoned (hr_models hm_repo_new)" by (simp add: hm_repo_new_def rm_store_new_def)
  from builder_commit_outcome [OF hm_inv_ordered_new wf, of 0] cur np
  obtain r' where r': "cb_commit bare_aggregate (hashmap_repo 0 Mapping.ordered_keys) hashmap_upsert_raw b
       (hm_repo_new, entity_with_id ''a'' 0) = (Ok (), r', mark_committed (entity_with_id ''a'' 0))"
    "hr_models r' = fold put_raw (cb_models b) (hr_models hm_repo_new)"
    by (auto simp: b_def commit_builder_new_def)
  have "rm_table ?M (hr_models r') ''a'' = Some \<lparr>vs_data = (''a'', 7), vs_version = 1\<rparr>"
    using bs(2) by (simp add: r'(2) b_def commit_builder_new_def put_raw_def put_model_def rm_table_def make_key_def
        next_version_def hm_repo_new_def rm_store_new_def lookup_empty lookup_update')
  with b r'(1) show ?thesis by blast
qed

end
