(* ===== verification/Outbox_Store.thy ===== *)
theory Outbox_Store
  imports Outbox_Message
begin

text \<open>
  Outbox messages in the repository (\<open>src/outbox/commit.rs\<close>, \<open>src/outbox_worker/repository_ext.rs\<close>,
  the outbox commit of \<open>src/snapshot/repository.rs\<close>): committing a message with an aggregate,
  and finding, claiming, completing, releasing and failing stored messages.
\<close>

section \<open>Commit with an aggregate\<close>

definition outbox_commit ::
    "('a, 'z) aggregate_scheme \<Rightarrow> 'r repo_ops \<Rightarrow>
     ('r \<times> 'a \<times> outbox_message, repository_error, unit) call" where
  "outbox_commit A R s =
     (case s of (r, a, m) \<Rightarrow>
        (case op_commit R (r, [ag_entity A a, om_entity m]) of
           (res, r', es) \<Rightarrow> (res, r', ag_set_entity A (es ! 0) a, m\<lparr>om_entity := es ! 1\<rparr>)))"

definition snapshot_outbox_commit ::
    "('a, 's, 'z) snapshottable_scheme \<Rightarrow> 'r repo_ops \<Rightarrow> 'r snap_ops \<Rightarrow> u64 \<Rightarrow>
     ('r \<times> 'a \<times> outbox_message, repository_error, unit) call" where
  "snapshot_outbox_commit A R P frequency =
     st_bind (outbox_commit A R) (\<lambda>_ s.
       case s of (r, a, m) \<Rightarrow>
         (case maybe_snapshot A P frequency (r, a) of (res, r', a') \<Rightarrow> (res, r', a', m)))"

section \<open>Stored messages\<close>

definition stored_message ::
    "outbox_codec \<Rightarrow> system_time \<Rightarrow> string \<Rightarrow> event_record list \<Rightarrow>
     (repository_error, outbox_message) outcome" where
  "stored_message C now ident events =
     hydrate (outbox_aggregate C now) (load_from_history events (entity_with_id ident now))"

fun by_status_loop ::
    "outbox_codec \<Rightarrow> system_time \<Rightarrow> outbox_status \<Rightarrow> (string \<times> event_record list) list \<Rightarrow>
     (repository_error, outbox_message list) outcome" where
  "by_status_loop C now st [] = Ok []"
| "by_status_loop C now st ((ident, events) # rest) =
     (if \<not> prefix id_prefix ident then by_status_loop C now st rest
      else outcome_bind (stored_message C now ident events) (\<lambda>m.
           outcome_bind (by_status_loop C now st rest) (\<lambda>ms.
           Ok (if om_status m = st then m # ms else ms))))"

definition messages_by_status ::
    "outbox_codec \<Rightarrow> system_time \<Rightarrow> event_order \<Rightarrow> outbox_status \<Rightarrow>
     (hm_repo, repository_error, outbox_message list) call" where
  "messages_by_status C now ord st r =
     (if hr_poisoned r then (Err (RE_LockPoisoned ''read''), r)
      else (by_status_loop C now st (hm_iter (hr_events r) (ord (hr_events r))), r))"

definition messages_pending ::
    "outbox_codec \<Rightarrow> system_time \<Rightarrow> event_order \<Rightarrow>
     (hm_repo, repository_error, outbox_message list) call" where
  "messages_pending C now ord = messages_by_status C now ord Pending"

text \<open>
  The loop of \<open>claim_outbox_messages\<close> writes as it goes: what it has claimed stays claimed when
  a later message makes it fail.  The bound is tested after an outbox stream was looked at.
\<close>

fun claim_loop ::
    "outbox_codec \<Rightarrow> system_time \<Rightarrow> string \<Rightarrow> nat \<Rightarrow> duration \<Rightarrow>
     (string \<times> event_record list) list \<Rightarrow> outbox_message list \<Rightarrow>
     (string, event_record list) mapping \<Rightarrow>
     (repository_error, outbox_message list) outcome \<times> (string, event_record list) mapping" where
  "claim_loop C now worker maxn lease [] claimed store = (Ok claimed, store)"
| "claim_loop C now worker maxn lease ((ident, events) # rest) claimed store =
     (if \<not> prefix id_prefix ident then claim_loop C now worker maxn lease rest claimed store
      else case stored_message C now ident events of
        Ok m \<Rightarrow>
          (if is_pending m
           then case claim_for C now worker lease m of
               None \<Rightarrow> (Panic, store)
             | Some m' \<Rightarrow>
                 (let store' = Mapping.update ident (en_events (om_entity m')) store;
                      claimed' = claimed @ [m'\<lparr>om_entity := mark_committed (om_entity m')\<rparr>]
                  in if length claimed' \<ge> maxn then (Ok claimed', store')
                     else claim_loop C now worker maxn lease rest claimed' store')
           else if length claimed \<ge> maxn then (Ok claimed, store)
           else claim_loop C now worker maxn lease rest claimed store)
      | Err err \<Rightarrow> (Err err, store)
      | Panic \<Rightarrow> (Panic, store)
      | Stuck \<Rightarrow> (Stuck, store))"

definition under_write_lock ::
    "((string, event_record list) mapping \<Rightarrow>
       (repository_error, 'a) outcome \<times> (string, event_record list) mapping) \<Rightarrow>
     (hm_repo, repository_error, 'a) call" where
  "under_write_lock f r =
     (if hr_poisoned r then (Err (RE_LockPoisoned ''write''), r)
      else case f (hr_events r) of
        (res, store) \<Rightarrow> (res, r\<lparr>hr_events := store, hr_poisoned := (res = Panic)\<rparr>))"

definition claim_outbox_messages ::
    "outbox_codec \<Rightarrow> system_time \<Rightarrow> event_order \<Rightarrow> string \<Rightarrow> nat \<Rightarrow> duration \<Rightarrow>
     (hm_repo, repository_error, outbox_message list) call" where
  "claim_outbox_messages C now ord worker maxn lease =
     under_write_lock (\<lambda>m. claim_loop C now worker maxn lease (hm_iter m (ord m)) [] m)"

definition complete_outbox_message ::
    "outbox_codec \<Rightarrow> system_time \<Rightarrow> string \<Rightarrow> (hm_repo, repository_error, unit) call" where
  "complete_outbox_message C now message_id =
     under_write_lock (\<lambda>store.
       let ident = normalize_id message_id
       in case Mapping.lookup store ident of
         None \<Rightarrow> (Ok (), store)
       | Some events \<Rightarrow>
           (case stored_message C now ident events of
              Ok m \<Rightarrow>
                (if is_in_flight m
                 then case complete C now m of
                     None \<Rightarrow> (Panic, store)
                   | Some m' \<Rightarrow> (Ok (), Mapping.update ident (en_events (om_entity m')) store)
                 else (Ok (), store))
            | Err err \<Rightarrow> (Err err, store)
            | Panic \<Rightarrow> (Panic, store)
            | Stuck \<Rightarrow> (Stuck, store)))"

definition release_outbox_message ::
    "outbox_codec \<Rightarrow> system_time \<Rightarrow> string \<Rightarrow> string \<Rightarrow> (hm_repo, repository_error, unit) call" where
  "release_outbox_message C now message_id err =
     under_write_lock (\<lambda>store.
       let ident = normalize_id message_id
       in case Mapping.lookup store ident of
         None \<Rightarrow> (Ok (), store)
       | Some events \<Rightarrow>
           (case stored_message C now ident events of
              Ok m \<Rightarrow>
                (if is_in_flight m
                 then case release C now err m of
                     None \<Rightarrow> (Panic, store)
                   | Some m' \<Rightarrow> (Ok (), Mapping.update ident (en_events (om_entity m')) store)
                 else (Ok (), store))
            | Err e \<Rightarrow> (Err e, store)
            | Panic \<Rightarrow> (Panic, store)
            | Stuck \<Rightarrow> (Stuck, store)))"

definition fail_outbox_message ::
    "outbox_codec \<Rightarrow> system_time \<Rightarrow> string \<Rightarrow> string \<Rightarrow> (hm_repo, repository_error, unit) call" where
  "fail_outbox_message C now message_id err =
     under_write_lock (\<lambda>store.
       let ident = normalize_id message_id
       in case Mapping.lookup store ident of
         None \<Rightarrow> (Ok (), store)
       | Some events \<Rightarrow>
           (case stored_message C now ident events of
              Ok m \<Rightarrow>
                (case fail C now err m of
                   None \<Rightarrow> (Panic, store)
                 | Some m' \<Rightarrow> (Ok (), Mapping.update ident (en_events (om_entity m')) store))
            | Err e \<Rightarrow> (Err e, store)
            | Panic \<Rightarrow> (Panic, store)
            | Stuck \<Rightarrow> (Stuck, store)))"

section \<open>Stores of good messages\<close>

text \<open>
  Every stream with an outbox id is the history of a message made by its constructors and
  commands.
\<close>

definition box_ok :: "outbox_codec \<Rightarrow> streams \<Rightarrow> bool" where
  "box_ok C t \<longleftrightarrow>
     (\<forall>i evs. t i = Some evs \<longrightarrow> prefix id_prefix i \<longrightarrow>
        vec_fits evs \<and> (\<exists>m. om_good C m \<and> om_id m = i \<and> en_events (om_entity m) = evs))"

text \<open>The messages of a store, as they are read at one time.\<close>

definition box :: "outbox_codec \<Rightarrow> system_time \<Rightarrow> streams \<Rightarrow> string \<Rightarrow> outbox_message option" where
  "box C now t i =
     (if prefix id_prefix i
      then case t i of
          None \<Rightarrow> None
        | Some evs \<Rightarrow> (case stored_message C now i evs of Ok m \<Rightarrow> Some m | _ \<Rightarrow> None)
      else None)"

lemma stored_message_eq: "stored_message C now i evs = hydrate (outbox_aggregate C now) (entity_from now i evs)"
proof -
  have "load_from_history evs (entity_with_id i now) = entity_from now i evs"
    by (simp add: entity_from_def entity_with_id_def set_id_def entity_new_def)
  then show ?thesis by (simp add: stored_message_def)
qed

definition room :: "nat \<Rightarrow> streams \<Rightarrow> bool" where
  "room n t \<longleftrightarrow> (\<forall>i evs. t i = Some evs \<longrightarrow> length evs + n < 2 ^ 63)"

lemma box_ok_stored:
  assumes "box_ok C t" and "oc_ok C" and "t i = Some evs" and "prefix id_prefix i"
  obtains m where "stored_message C now i evs = Ok m" "om_good C m" "om_id m = i"
    "om_entity m = entity_from now i evs" "box C now t i = Some m" "vec_fits evs"
proof -
  obtain m where m: "om_good C m" "om_id m = i" "en_events (om_entity m) = evs" "vec_fits evs"
    using assms unfolding box_ok_def by blast
  let ?m = "m\<lparr>om_entity := entity_from now i evs, om_created_at := now\<rparr>"
  have s: "stored_message C now i evs = Ok ?m"
    using om_good_hydrate [OF m(1) assms(2), of now] m(2,3) by (simp add: stored_message_eq)
  have g: "om_good C ?m" using om_good_reload [OF m(1), of now now] m by simp
  show ?thesis
    using m(4) by (intro that [OF s g]) (simp_all add: om_id_def box_def assms(3,4) s)
qed

lemma box_Some_iff:
  assumes "box_ok C t" and "oc_ok C"
  shows "box C now t i = Some m \<longleftrightarrow>
    prefix id_prefix i \<and> (\<exists>evs. t i = Some evs \<and> stored_message C now i evs = Ok m)"
proof (cases "prefix id_prefix i \<and> t i \<noteq> None")
  case True
  then obtain evs where evs: "t i = Some evs" "prefix id_prefix i" by blast
  obtain m' where "stored_message C now i evs = Ok m'" "box C now t i = Some m'"
    by (rule box_ok_stored [OF assms evs, of now])
  with evs show ?thesis by auto
next
  case False
  then show ?thesis by (auto simp: box_def)
qed

section \<open>Claiming\<close>

text \<open>What a claim makes of one entry of the store.\<close>

definition claimed_of ::
    "outbox_codec \<Rightarrow> system_time \<Rightarrow> string \<Rightarrow> duration \<Rightarrow> string \<times> event_record list \<Rightarrow>
     outbox_message option" where
  "claimed_of C now worker lease kv =
     (if prefix id_prefix (fst kv)
      then case stored_message C now (fst kv) (snd kv) of
          Ok m \<Rightarrow>
            (if is_pending m
             then map_option (\<lambda>m'. m'\<lparr>om_entity := mark_committed (om_entity m')\<rparr>)
                    (claim_for C now worker lease m)
             else None)
        | _ \<Rightarrow> None
      else None)"

definition save_all ::
    "outbox_message list \<Rightarrow> (string, event_record list) mapping \<Rightarrow> (string, event_record list) mapping" where
  "save_all cs store = fold (\<lambda>c. Mapping.update (om_id c) (en_events (om_entity c))) cs store"

definition claims_work :: "outbox_codec \<Rightarrow> system_time \<Rightarrow> string \<Rightarrow> duration \<Rightarrow> bool" where
  "claims_work C now worker lease \<longleftrightarrow>
     oc_ok C \<and>
     (case system_time_add now lease of
        None \<Rightarrow> False
      | Some until \<Rightarrow>
          oc_ser_claimed C (worker, duration_as_secs (nat (until - unix_epoch))) \<noteq> None)"

lemma claim_time:
  assumes "system_time_add now lease = Some until"
  shows "system_time_add unix_epoch (duration_from_secs (duration_as_secs (nat (until - unix_epoch)))) \<noteq> None"
proof -
  let ?n = "nat until div 1000000000"
  have "int ?n * 1000000000 < 2 ^ 63 * 1000000000"
    using assms by (auto simp: system_time_add_def split: if_splits)
  moreover have "unat (of_nat ?n :: u64) \<le> ?n" by (simp add: unat_of_nat)
  ultimately have "int (unat (of_nat ?n :: u64) * 1000000000) < 2 ^ 63 * 1000000000" by linarith
  then show ?thesis
    by (simp add: system_time_add_def duration_from_secs_def duration_as_secs_def)
qed

lemma claim_for_good:
  assumes "om_good C m" and "is_pending m" and "claims_work C now worker lease"
    and "Suc (length (en_events (om_entity m))) < 2 ^ 63"
  shows "\<exists>m'. claim_for C now worker lease m = Some m' \<and> om_good C m' \<and> om_moved C m m' \<and>
      om_status m' = InFlight \<and> om_worker_id m' = Some worker"
proof -
  obtain until where u: "system_time_add now lease = Some until"
    using assms(3) by (auto simp: claims_work_def split: option.splits)
  let ?u = "duration_as_secs (nat (until - unix_epoch))"
  have wf: "om_wf m" using assms(1) by (simp add: om_good_def)
  then have nr: "\<not> en_replaying (om_entity m)" by (simp add: om_wf_def)
  obtain bs where bs: "oc_ser_claimed C (worker, ?u) = Some bs"
    using assms(3) u by (auto simp: claims_work_def)
  obtain t where t: "system_time_add unix_epoch (duration_from_secs ?u) = Some t"
    using claim_time [OF u] by blast
  obtain m' where m': "claim C now worker ?u m = Some m'" "om_status m' = InFlight"
    "om_worker_id m' = Some worker"
  proof -
    obtain e where "digest (oc_ser_claimed C) now ''MessageClaimed'' (worker, ?u) (om_entity m) = Some e"
      using digest_records [where ser = "oc_ser_claimed C" and now = now, OF nr bs] by blast
    with assms(2) t show thesis by (intro that) (auto simp: claim_def)
  qed
  have mv: "om_moved C m m'" using claim_moves [OF m'(1) assms(2) wf] assms(4) by simp
  with om_moved_good [OF assms(1) mv] m' u show ?thesis by (simp add: claim_for_def Let_def)
qed

lemma claim_loop_eq:
  assumes "claims_work C now worker lease" and "length claimed < maxn"
    and "\<forall>(i, evs) \<in> set kvs. prefix id_prefix i \<longrightarrow> Suc (length evs) < 2 ^ 63 \<and>
           (\<exists>m. om_good C m \<and> om_id m = i \<and> en_events (om_entity m) = evs)"
  shows "claim_loop C now worker maxn lease kvs claimed store =
    (let new = take (maxn - length claimed) (List.map_filter (claimed_of C now worker lease) kvs)
     in (Ok (claimed @ new), save_all new store))"
  using assms(2,3)
proof (induction kvs arbitrary: claimed store)
  case Nil
  then show ?case by (simp add: map_filter_simps save_all_def)
next
  case (Cons kv kvs)
  obtain i evs where kv: "kv = (i, evs)" by (cases kv)
  have rest: "\<forall>(i, evs) \<in> set kvs. prefix id_prefix i \<longrightarrow> Suc (length evs) < 2 ^ 63 \<and>
      (\<exists>m. om_good C m \<and> om_id m = i \<and> en_events (om_entity m) = evs)"
    using Cons.prems(2) by simp
  show ?case
  proof (cases "prefix id_prefix i")
    case False
    then show ?thesis
      using Cons.IH [OF Cons.prems(1) rest] by (simp add: kv map_filter_simps claimed_of_def)
  next
    case True
    with Cons.prems(2) kv obtain m where m: "om_good C m" "om_id m = i" "en_events (om_entity m) = evs"
      and len: "Suc (length evs) < 2 ^ 63" by auto
    let ?m = "m\<lparr>om_entity := entity_from now i evs, om_created_at := now\<rparr>"
    have s: "stored_message C now i evs = Ok ?m"
      using om_good_hydrate [OF m(1), of now] assms(1) m(2,3) by (simp add: stored_message_eq claims_work_def)
    have g: "om_good C ?m" using om_good_reload [OF m(1), of now now] m len by simp
    show ?thesis
    proof (cases "is_pending ?m")
      case False
      then show ?thesis
        using Cons.IH [OF Cons.prems(1) rest] Cons.prems(1) True s
        by (simp add: kv map_filter_simps claimed_of_def)
    next
      case pend: True
      obtain m' where m': "claim_for C now worker lease ?m = Some m'" "om_moved C ?m m'"
        using claim_for_good [OF g pend assms(1)] len by auto
      let ?c = "m'\<lparr>om_entity := mark_committed (om_entity m')\<rparr>"
      have c: "claimed_of C now worker lease kv = Some ?c"
        using True s pend m'(1) by (simp add: claimed_of_def kv)
      have id: "om_id ?c = i" "en_events (om_entity ?c) = en_events (om_entity m')"
        using m'(2) by (auto simp: om_moved_def om_id_def mark_committed_def)
      let ?store = "Mapping.update i (en_events (om_entity m')) store"
      have step: "claim_loop C now worker maxn lease (kv # kvs) claimed store =
          (if length (claimed @ [?c]) \<ge> maxn then (Ok (claimed @ [?c]), ?store)
           else claim_loop C now worker maxn lease kvs (claimed @ [?c]) ?store)"
        using True s pend m'(1) by (simp add: kv Let_def)
      have save: "save_all (?c # cs) store = save_all cs ?store" for cs
        by (simp only: save_all_def fold.simps comp_def id)
      have filter: "List.map_filter (claimed_of C now worker lease) (kv # kvs) =
          ?c # List.map_filter (claimed_of C now worker lease) kvs"
        by (simp add: map_filter_simps c)
      show ?thesis
      proof (cases "length (claimed @ [?c]) \<ge> maxn")
        case True
        with Cons.prems(1) have "maxn - length claimed = 1" by simp
        then have new: "take (maxn - length claimed) (?c # xs) = [?c]" for xs by simp
        from True show ?thesis by (simp only: step filter Let_def new save) (simp add: save_all_def)
      next
        case False
        then have "length (claimed @ [?c]) < maxn" by simp
        note IH = Cons.IH [OF this rest, of ?store]
        have "take (maxn - length claimed) (?c # xs) = ?c # take (maxn - length (claimed @ [?c])) xs" for xs
        proof -
          have "maxn - length claimed = Suc (maxn - length (claimed @ [?c]))" using Cons.prems(1) by simp
          then show ?thesis by simp
        qed
        with False show ?thesis by (simp only: step filter IH Let_def save) simp
      qed
    qed
  qed
qed

text \<open>With bound 0 the loop ends at the first outbox stream, claimed or not.\<close>

lemma claim_loop_zero:
  assumes "claims_work C now worker lease"
    and "\<forall>(i, evs) \<in> set kvs. prefix id_prefix i \<longrightarrow> Suc (length evs) < 2 ^ 63 \<and>
           (\<exists>m. om_good C m \<and> om_id m = i \<and> en_events (om_entity m) = evs)"
  shows "\<exists>n. claim_loop C now worker 0 lease kvs [] store =
    (let new = List.map_filter (claimed_of C now worker lease) (take n kvs) in (Ok new, save_all new store)) \<and>
    length (List.map_filter (claimed_of C now worker lease) (take n kvs)) \<le> 1"
  using assms(2)
proof (induction kvs)
  case Nil
  then show ?case by (simp add: map_filter_simps save_all_def)
next
  case (Cons kv kvs)
  obtain i evs where kv: "kv = (i, evs)" by (cases kv)
  let ?f = "claimed_of C now worker lease"
  show ?case
  proof (cases "prefix id_prefix i")
    case False
    with Cons obtain n where n: "claim_loop C now worker 0 lease kvs [] store =
        (let new = List.map_filter ?f (take n kvs) in (Ok new, save_all new store))"
      "length (List.map_filter ?f (take n kvs)) \<le> 1" by auto
    moreover have "?f kv = None" using False by (simp add: kv claimed_of_def)
    ultimately show ?thesis
      using False by (intro exI [of _ "Suc n"]) (simp add: kv map_filter_simps)
  next
    case True
    then have "claim_loop C now worker 0 lease (kv # kvs) [] store = claim_loop C now worker 1 lease [kv] [] store"
      by (simp add: kv Let_def split: outcome.splits option.splits)
    also have "\<dots> = (let new = take 1 (List.map_filter ?f [kv]) in (Ok new, save_all new store))"
      using claim_loop_eq [OF assms(1), of "[]" 1 "[kv]" store] Cons.prems by simp
    also have "take 1 (List.map_filter ?f [kv]) = List.map_filter ?f [kv]"
      by (simp add: map_filter_simps split: option.split)
    finally show ?thesis
      by (intro exI [of _ 1]) (simp add: map_filter_simps split: option.split)
  qed
qed

lemma claimed_of_spec:
  assumes "claimed_of C now worker lease (i, evs) = Some c" and "box_ok C t" and "t i = Some evs"
    and "claims_work C now worker lease" and "room 1 t"
  obtains m m' where "prefix id_prefix i" "stored_message C now i evs = Ok m" "om_status m = Pending"
    "om_moved C m m'" "om_good C m'" "c = m'\<lparr>om_entity := mark_committed (om_entity m')\<rparr>"
    "om_status m' = InFlight" "om_worker_id m' = Some worker" "om_id m' = i" "box C now t i = Some m"
    "om_entity m = entity_from now i evs"
proof -
  have p: "prefix id_prefix i" using assms(1) by (auto simp: claimed_of_def split: if_splits)
  have ok: "oc_ok C" using assms(4) by (simp add: claims_work_def)
  obtain m where m: "stored_message C now i evs = Ok m" "om_good C m" "om_id m = i"
    "om_entity m = entity_from now i evs" "box C now t i = Some m"
    by (rule box_ok_stored [OF assms(2) ok assms(3) p])
  have pend: "is_pending m"
    using assms(1) p m(1) by (simp add: claimed_of_def split: if_splits)
  have "Suc (length (en_events (om_entity m))) < 2 ^ 63"
    using assms(3,5) m(4) by (auto simp: room_def)
  from claim_for_good [OF m(2) pend assms(4) this]
  obtain m' where m': "claim_for C now worker lease m = Some m'" "om_good C m'" "om_moved C m m'"
    "om_status m' = InFlight" "om_worker_id m' = Some worker" by blast
  show thesis
    using assms(1) p pend m m' by (intro that [of m m']) (auto simp: claimed_of_def is_pending_def om_moved_def)
qed

lemma ids_of_claimed:
  assumes "\<And>kv c. kv \<in> set kvs \<Longrightarrow> f kv = Some c \<Longrightarrow> om_id c = fst kv"
  shows "map om_id (List.map_filter f kvs) = map fst (filter (\<lambda>kv. f kv \<noteq> None) kvs)"
  using assms by (induction kvs) (auto simp: map_filter_simps split: option.splits)

lemma in_map_filter: "c \<in> set (List.map_filter f kvs) \<longleftrightarrow> (\<exists>kv \<in> set kvs. f kv = Some c)"
  by (induction kvs) (auto simp: map_filter_simps split: option.splits)

lemma lookup_save_all:
  assumes "distinct (map om_id cs)"
  shows "Mapping.lookup (save_all cs store) i =
    (case find (\<lambda>c. om_id c = i) cs of
       Some c \<Rightarrow> Some (en_events (om_entity c)) | None \<Rightarrow> Mapping.lookup store i)"
  using assms
proof (induction cs arbitrary: store)
  case Nil
  then show ?case by (simp add: save_all_def)
next
  case (Cons c cs)
  have "find (\<lambda>c. om_id c = i) cs = None" if "om_id c = i"
    using Cons.prems that by (simp add: find_None_iff) (metis image_eqI)
  with Cons.IH [of "Mapping.update (om_id c) (en_events (om_entity c)) store"] Cons.prems
  show ?case by (auto simp: save_all_def lookup_update' split: option.splits)
qed

lemma finite_save_all: "finite (Mapping.keys store) \<Longrightarrow> finite (Mapping.keys (save_all cs store))"
  by (induction cs arbitrary: store) (auto simp: save_all_def)

lemma hm_iter_stream: "hm_inv ord r \<Longrightarrow>
    (i, evs) \<in> set (hm_iter (hr_events r) (ord (hr_events r))) \<longleftrightarrow> hm_streams r i = Some evs"
  by (simp add: hm_inv_def hm_streams_def set_hm_iter_iteration)

lemma claim_result_any:
  assumes "hm_inv ord r" and "box_ok C (hm_streams r)" and "room 1 (hm_streams r)"
    and "claims_work C now worker lease"
  shows "\<exists>cs r'. claim_outbox_messages C now ord worker maxn lease r = (Ok cs, r') \<and>
      (0 < maxn \<longrightarrow> cs = take maxn (List.map_filter (claimed_of C now worker lease)
             (hm_iter (hr_events r) (ord (hr_events r))))) \<and>
      set cs \<subseteq> set (List.map_filter (claimed_of C now worker lease) (hm_iter (hr_events r) (ord (hr_events r)))) \<and>
      length cs \<le> max 1 maxn \<and>
      hr_events r' = save_all cs (hr_events r) \<and> hm_inv ord r' \<and> distinct (map om_id cs)"
proof -
  let ?kvs = "hm_iter (hr_events r) (ord (hr_events r))"
  let ?f = "claimed_of C now worker lease"
  have it: "(i, evs) \<in> set ?kvs \<longleftrightarrow> hm_streams r i = Some evs" for i evs
    by (rule hm_iter_stream [OF assms(1)])
  have good: "\<forall>(i, evs) \<in> set ?kvs. prefix id_prefix i \<longrightarrow> Suc (length evs) < 2 ^ 63 \<and>
      (\<exists>m. om_good C m \<and> om_id m = i \<and> en_events (om_entity m) = evs)"
    using assms(2,3) by (auto simp: it box_ok_def room_def)
  have map_ids: "map om_id (List.map_filter ?f kvs) = map fst (filter (\<lambda>kv. ?f kv \<noteq> None) kvs)"
    if "set kvs \<subseteq> set ?kvs" for kvs
  proof (rule ids_of_claimed)
    fix kv c assume kv: "kv \<in> set kvs" "?f kv = Some c"
    obtain i evs where [simp]: "kv = (i, evs)" by (cases kv)
    show "om_id c = fst kv"
      by (rule claimed_of_spec [OF kv(2) [simplified] assms(2) _ assms(4,3)])
        (use kv(1) it that in \<open>auto simp: om_id_def mark_committed_def\<close>)
  qed
  have "distinct (map fst ?kvs)"
    using assms(1) by (simp add: hm_inv_def map_fst_hm_iter_iteration) (simp add: iteration_def)
  then have ids: "distinct (map om_id (List.map_filter ?f (take n ?kvs)))" for n
    using distinct_map_filter_List [of fst "take n ?kvs"] map_ids [OF set_take_subset [of n ?kvs]]
    by (simp flip: take_map)
  have "\<exists>cs. claim_loop C now worker maxn lease ?kvs [] (hr_events r) = (Ok cs, save_all cs (hr_events r)) \<and>
      (0 < maxn \<longrightarrow> cs = take maxn (List.map_filter ?f ?kvs)) \<and> set cs \<subseteq> set (List.map_filter ?f ?kvs) \<and>
      length cs \<le> max 1 maxn \<and> distinct (map om_id cs)"
  proof (cases maxn)
    case 0
    obtain n where "claim_loop C now worker 0 lease ?kvs [] (hr_events r) =
        (let new = List.map_filter ?f (take n ?kvs) in (Ok new, save_all new (hr_events r)))"
      "length (List.map_filter ?f (take n ?kvs)) \<le> 1"
      using claim_loop_zero [OF assms(4) good] by blast
    with 0 ids [of n] show ?thesis
      by (auto simp: Let_def in_map_filter dest!: in_set_takeD)
  next
    case (Suc k)
    have "distinct (take maxn (map om_id (List.map_filter ?f ?kvs)))"
      using ids [of "length ?kvs"] by simp
    with claim_loop_eq [OF assms(4) _ good, of "[]" maxn "hr_events r"] Suc show ?thesis
      by (auto simp: Let_def take_map dest: in_set_takeD)
  qed
  then show ?thesis
    using assms(1) by (auto simp: claim_outbox_messages_def under_write_lock_def hm_inv_def finite_save_all)
qed

lemma claim_result:
  assumes "hm_inv ord r" and "box_ok C (hm_streams r)" and "room 1 (hm_streams r)"
    and "claims_work C now worker lease" and "0 < maxn"
  shows "\<exists>cs r'. claim_outbox_messages C now ord worker maxn lease r = (Ok cs, r') \<and>
      cs = take maxn (List.map_filter (claimed_of C now worker lease)
             (hm_iter (hr_events r) (ord (hr_events r)))) \<and>
      hr_events r' = save_all cs (hr_events r) \<and> hm_inv ord r' \<and> distinct (map om_id cs)"
  using claim_result_any [OF assms(1-4), of maxn] assms(5) by blast

lemma take_claimed: "cs = take n xs \<Longrightarrow> set cs \<subseteq> set xs"
  by (simp add: set_take_subset)

lemma streams_after_claims:
  assumes "hr_events r' = save_all cs (hr_events r)" and "distinct (map om_id cs)"
  shows "i \<notin> om_id ` set cs \<Longrightarrow> hm_streams r' i = hm_streams r i"
    and "c \<in> set cs \<Longrightarrow> hm_streams r' (om_id c) = Some (en_events (om_entity c))"
proof -
  assume "i \<notin> om_id ` set cs"
  then have "find (\<lambda>c. om_id c = i) cs = None" by (auto simp: find_None_iff)
  then show "hm_streams r' i = hm_streams r i"
    by (simp add: hm_streams_def assms(1) lookup_save_all [OF assms(2)])
next
  assume c: "c \<in> set cs"
  then have "find (\<lambda>d. om_id d = om_id c) cs = Some c"
    using assms(2) by (induction cs) auto
  then show "hm_streams r' (om_id c) = Some (en_events (om_entity c))"
    by (simp add: hm_streams_def assms(1) lookup_save_all [OF assms(2)])
qed

text \<open>What one claimed message is, before and after.\<close>

definition claimed_from ::
    "outbox_codec \<Rightarrow> system_time \<Rightarrow> string \<Rightarrow> streams \<Rightarrow> outbox_message \<Rightarrow> bool" where
  "claimed_from C now worker t c \<longleftrightarrow>
     (\<exists>m. box C now t (om_id c) = Some m \<and> om_status m = Pending \<and>
        om_status c = InFlight \<and> om_worker_id c = Some worker \<and>
        om_attempts c = om_attempts m + 1 \<and> om_payload c = om_payload m \<and>
        om_event_type c = om_event_type m \<and> om_destination c = om_destination m \<and>
        (\<exists>ev. en_events (om_entity c) = en_events (om_entity m) @ [ev]))"

lemma claim_effect:
  assumes "hm_inv ord r" and "box_ok C (hm_streams r)" and "room 1 (hm_streams r)"
    and "claims_work C now worker lease"
    and "set cs \<subseteq> set (List.map_filter (claimed_of C now worker lease)
             (hm_iter (hr_events r) (ord (hr_events r))))"
    and "c \<in> set cs"
  shows "claimed_from C now worker (hm_streams r) c"
    and "\<exists>m. om_good C m \<and> om_id m = om_id c \<and> en_events (om_entity m) = en_events (om_entity c) \<and>
           vec_fits (en_events (om_entity c)) \<and> prefix id_prefix (om_id c) \<and>
           om_status m = InFlight \<and> om_worker_id m = Some worker"
proof -
  obtain i evs where kv: "(i, evs) \<in> set (hm_iter (hr_events r) (ord (hr_events r)))"
    "claimed_of C now worker lease (i, evs) = Some c"
    using subsetD [OF assms(5,6)] unfolding in_map_filter by (auto elim!: bexE)
  have t: "hm_streams r i = Some evs" using kv(1) hm_iter_stream [OF assms(1)] by blast
  obtain m m' where m: "prefix id_prefix i" "om_status m = Pending" "om_moved C m m'" "om_good C m'"
    "c = m'\<lparr>om_entity := mark_committed (om_entity m')\<rparr>" "om_status m' = InFlight"
    "om_worker_id m' = Some worker" "om_id m' = i" "box C now (hm_streams r) i = Some m"
    "om_entity m = entity_from now i evs"
    by (rule claimed_of_spec [OF kv(2) assms(2) t assms(4,3)])
  have c: "om_id c = i" "en_events (om_entity c) = en_events (om_entity m')"
    using m(5,8) by (simp_all add: om_id_def mark_committed_def)
  have "\<exists>ev. en_events (om_entity m') = en_events (om_entity m) @ [ev]"
    using m(3) by (auto simp: om_moved_def)
  then obtain ev where ev: "en_events (om_entity c) = evs @ [ev]" "en_events (om_entity m) = evs"
    using m(10) c by auto
  show "claimed_from C now worker (hm_streams r) c"
    using m c ev by (auto simp: claimed_from_def om_moved_def)
  show "\<exists>m. om_good C m \<and> om_id m = om_id c \<and> en_events (om_entity m) = en_events (om_entity c) \<and>
      vec_fits (en_events (om_entity c)) \<and> prefix id_prefix (om_id c) \<and>
      om_status m = InFlight \<and> om_worker_id m = Some worker"
    using m c ev assms(3) t by (intro exI [of _ m']) (auto simp: room_def)
qed

text \<open>A stored message reads the same at any time, but for its creation time.\<close>

lemma box_good:
  assumes "oc_ok C" and "om_good C m" and "t (om_id m) = Some (en_events (om_entity m))"
    and "prefix id_prefix (om_id m)"
  shows "box C now t (om_id m) =
    Some (m\<lparr>om_entity := entity_from now (om_id m) (en_events (om_entity m)), om_created_at := now\<rparr>)"
  using om_good_hydrate [OF assms(2,1), of now] assms(3,4) by (simp add: box_def stored_message_eq)

lemma box_ok_update:
  assumes "box_ok C t" and "om_good C m" and "vec_fits (en_events (om_entity m))"
  shows "box_ok C (t(om_id m \<mapsto> en_events (om_entity m)))"
  using assms by (auto simp: box_ok_def)

lemma claim_box_ok:
  assumes "hm_inv ord r" and "box_ok C (hm_streams r)" and "room 1 (hm_streams r)"
    and "claims_work C now worker lease"
    and "set cs \<subseteq> set (List.map_filter (claimed_of C now worker lease)
             (hm_iter (hr_events r) (ord (hr_events r))))"
    and "hr_events r' = save_all cs (hr_events r)" and "distinct (map om_id cs)"
  shows "box_ok C (hm_streams r')"
  unfolding box_ok_def
proof (intro allI impI)
  note eff = claim_effect [OF assms(1-5)]
  note after = streams_after_claims [OF assms(6,7)]
  fix i evs assume i: "hm_streams r' i = Some evs" "prefix id_prefix i"
  show "vec_fits evs \<and> (\<exists>m. om_good C m \<and> om_id m = i \<and> en_events (om_entity m) = evs)"
  proof (cases "i \<in> om_id ` set cs")
    case True
    then show ?thesis using eff(2) after(2) i by fastforce
  next
    case False
    then show ?thesis using after(1) i assms(2) unfolding box_ok_def by metis
  qed
qed

lemma claim_leaves_none:
  assumes "hm_inv ord r" and "box_ok C (hm_streams r)" and "room 1 (hm_streams r)"
    and "claims_work C now worker lease"
    and "cs = take maxn (List.map_filter (claimed_of C now worker lease)
             (hm_iter (hr_events r) (ord (hr_events r))))"
    and "hr_events r' = save_all cs (hr_events r)" and "distinct (map om_id cs)"
    and "length cs < maxn" and "box C now (hm_streams r') i = Some m"
  shows "om_status m \<noteq> Pending"
proof -
  have ok: "oc_ok C" using assms(4) by (simp add: claims_work_def)
  note good = claim_box_ok [OF assms(1-4) take_claimed [OF assms(5)] assms(6,7)]
  note eff = claim_effect [OF assms(1-4) take_claimed [OF assms(5)]]
  note after = streams_after_claims [OF assms(6,7)]
  show ?thesis
  proof (cases "i \<in> om_id ` set cs")
    case True
    then obtain c m' where c: "c \<in> set cs" "om_id c = i" "om_good C m'" "om_id m' = i"
      "en_events (om_entity m') = en_events (om_entity c)" "om_status m' = InFlight" "prefix id_prefix i"
      using eff(2) by blast
    have "box C now (hm_streams r') (om_id m') = Some (m'\<lparr>om_entity := entity_from now (om_id m') (en_events (om_entity m')),
        om_created_at := now\<rparr>)"
      using after(2) [OF c(1)] c by (intro box_good [OF ok]) auto
    with assms(9) c show ?thesis by auto
  next
    case False
    let ?f = "claimed_of C now worker lease"
    from assms(9) obtain evs where evs: "hm_streams r i = Some evs" "prefix id_prefix i"
      "stored_message C now i evs = Ok m"
      using after(1) [OF False] box_Some_iff [OF good ok] by auto
    have m: "om_good C m" "om_entity m = entity_from now i evs"
      by (rule box_ok_stored [OF assms(2) ok evs(1,2), of now], use evs(3) in simp)+
    show ?thesis
    proof
      assume p: "om_status m = Pending"
      obtain m' where m': "claim_for C now worker lease m = Some m'" "om_id m' = om_id m"
        using claim_for_good [OF m(1) _ assms(4)] assms(3) evs(1) m(2) p
        by (auto simp: is_pending_def room_def om_moved_def)
      have f: "?f (i, evs) = Some (m'\<lparr>om_entity := mark_committed (om_entity m')\<rparr>)"
        using evs m' p by (simp add: claimed_of_def is_pending_def)
      have "(i, evs) \<in> set (hm_iter (hr_events r) (ord (hr_events r)))"
        using hm_iter_stream [OF assms(1)] evs(1) by blast
      with f have "m'\<lparr>om_entity := mark_committed (om_entity m')\<rparr> \<in> set cs"
        using assms(5,8) by (simp add: in_map_filter) blast
      moreover have "om_id (m'\<lparr>om_entity := mark_committed (om_entity m')\<rparr>) = i"
        using m'(2) m(2) by (simp add: om_id_def mark_committed_def)
      ultimately show False using False by (metis image_eqI)
    qed
  qed
qed


text \<open>For the witnesses: a repository with one pending message.\<close>

lemma single_box:
  assumes "oc_ok C" and "om_good C m" and "om_status m = Pending" and "length (en_events (om_entity m)) = 1"
  shows "\<exists>r. hm_inv Mapping.ordered_keys r \<and> box_ok C (hm_streams r) \<and> room 2 (hm_streams r) \<and>
     (\<forall>now. \<exists>m'. box C now (hm_streams r) (om_id m) = Some m' \<and> om_status m' = Pending) \<and>
     (\<forall>now i m'. box C now (hm_streams r) i = Some m' \<longrightarrow> om_status m' = Pending)"
proof -
  define r where "r = hm_repo_new\<lparr>hr_events := Mapping.update (om_id m) (en_events (om_entity m)) Mapping.empty\<rparr>"
  have t: "hm_streams r = [om_id m \<mapsto> en_events (om_entity m)]"
    by (simp add: r_def hm_streams_def lookup_update_fun lookup_empty fun_eq_iff)
  have p: "prefix id_prefix (om_id m)" using assms(2) by (simp add: om_good_def om_wf_def)
  have "hm_inv Mapping.ordered_keys r"
    using hm_inv_ordered_new by (simp add: hm_inv_def r_def hm_repo_new_def)
  moreover have ok: "box_ok C (hm_streams r)"
    using assms by (auto simp: box_ok_def t)
  moreover have "room 2 (hm_streams r)" using assms(4) by (simp add: room_def t)
  moreover have one: "\<exists>m'. box C now (hm_streams r) (om_id m) = Some m' \<and> om_status m' = Pending" for now
    using box_good [OF assms(1,2), of "hm_streams r" now] assms(3) p by (simp add: t)
  moreover have "om_status m' = Pending" if "box C now (hm_streams r) i = Some m'" for now i m'
    using one [of now] that by (cases "i = om_id m") (auto simp: box_def t split: if_splits)
  ultimately show ?thesis by blast
qed

lemma sample_box:
  "\<exists>r. hm_inv Mapping.ordered_keys r \<and> box_ok sample_codec (hm_streams r) \<and> room 2 (hm_streams r) \<and>
     (\<forall>now. \<exists>m. box sample_codec now (hm_streams r) ''outbox:m1'' = Some m \<and> om_status m = Pending)"
proof -
  obtain m where init: "initialize sample_codec 5 ''m1'' ''Created'' [1] None Mapping.empty (outbox_message_new 5) = Some m"
    using sample_initialize by blast
  have "om_id m = ''outbox:m1''"
    using initialize_good [OF init] by (simp add: normalize_id_def id_prefix_def)
  with single_box [OF sample_codec_ok, of m] initialize_good [OF init] show ?thesis by auto
qed

lemma sample_claims_work: "claims_work sample_codec 0 ''w'' 60000000000"
  by (simp add: claims_work_def sample_codec_ok system_time_add_def duration_as_secs_def)

lemma room_mono: "room n t \<Longrightarrow> m \<le> n \<Longrightarrow> room m t"
  by (force simp: room_def)


lemma room_step:
  assumes "room (Suc n) (hm_streams r)" and "distinct (map om_id cs)"
    and "\<forall>c \<in> set cs. claimed_from C now worker (hm_streams r) c"
    and "\<forall>c \<in> set cs. hm_streams r' (om_id c) = Some (en_events (om_entity c))"
    and "\<forall>i. i \<notin> om_id ` set cs \<longrightarrow> hm_streams r' i = hm_streams r i"
    and "box_ok C (hm_streams r)" and "oc_ok C"
  shows "room n (hm_streams r')"
  unfolding room_def
proof (intro allI impI)
  fix i evs assume i: "hm_streams r' i = Some evs"
  show "length evs + n < 2 ^ 63"
  proof (cases "i \<in> om_id ` set cs")
    case True
    then obtain c where c: "c \<in> set cs" "i = om_id c" by blast
    then obtain m ev where m: "box C now (hm_streams r) i = Some m" "evs = en_events (om_entity m) @ [ev]"
      using assms(3,4) i unfolding claimed_from_def by fastforce
    then obtain evs0 where evs0: "hm_streams r i = Some evs0" "prefix id_prefix i" "stored_message C now i evs0 = Ok m"
      using box_Some_iff [OF assms(6,7)] by blast
    have "om_entity m = entity_from now i evs0"
      by (rule box_ok_stored [OF assms(6,7) evs0(1,2), of now]) (use evs0(3) in simp)
    then show ?thesis using assms(1) evs0(1) m(2) by (auto simp: room_def)
  next
    case False
    then have "hm_streams r i = Some evs" using assms(5) i by simp
    then show ?thesis using assms(1) unfolding room_def by fastforce
  qed
qed

text \<open>
  No message is claimed twice.  When two workers claim one after the other, what the second
  gets is disjoint from what the first got, and every message of the first is still stored as
  in flight for the first.
\<close>

theorem claims_are_exclusive:
  assumes "hm_inv ord r" and "box_ok C (hm_streams r)" and "room 2 (hm_streams r)"
    and "claims_work C now1 w1 lease1" and "claims_work C now2 w2 lease2" and "0 < n1" and "0 < n2"
    and "claim_outbox_messages C now1 ord w1 n1 lease1 r = (Ok cs1, r1)"
    and "claim_outbox_messages C now2 ord w2 n2 lease2 r1 = (Ok cs2, r2)"
  shows "om_id ` set cs1 \<inter> om_id ` set cs2 = {} \<and>
    (\<forall>c \<in> set cs1. \<exists>m. box C now (hm_streams r2) (om_id c) = Some m \<and> om_status m = InFlight \<and>
       om_worker_id m = Some w1)"
proof -
  have ok: "oc_ok C" using assms(4) by (simp add: claims_work_def)
  have r1: "room 1 (hm_streams r)" using room_mono [OF assms(3)] by simp
  from claim_result [OF assms(1,2) r1 assms(4,6)] assms(8)
  have c1: "cs1 = take n1 (List.map_filter (claimed_of C now1 w1 lease1) (hm_iter (hr_events r) (ord (hr_events r))))"
    "hr_events r1 = save_all cs1 (hr_events r)" "hm_inv ord r1" "distinct (map om_id cs1)" by auto
  note run1 = assms(1,2) r1 assms(4) take_claimed [OF c1(1)]
  note eff1 = claim_effect [OF run1] and after1 = streams_after_claims [OF c1(2,4)]
  have ok1: "box_ok C (hm_streams r1)" by (rule claim_box_ok [OF run1 c1(2,4)])
  have r2: "room 1 (hm_streams r1)"
    using room_step [of 1 r cs1 C now1 w1 r1] assms(2,3) c1(4) eff1(1) after1 ok
    by (simp add: numeral_2_eq_2)
  from claim_result [OF c1(3) ok1 r2 assms(5,7)] assms(9)
  have c2: "cs2 = take n2 (List.map_filter (claimed_of C now2 w2 lease2) (hm_iter (hr_events r1) (ord (hr_events r1))))"
    "hr_events r2 = save_all cs2 (hr_events r1)" "distinct (map om_id cs2)" by auto
  note eff2 = claim_effect [OF c1(3) ok1 r2 assms(5) take_claimed [OF c2(1)]] and after2 = streams_after_claims [OF c2(2,3)]
  have held: "\<exists>m. box C t (hm_streams r1) (om_id c) = Some m \<and> om_status m = InFlight \<and> om_worker_id m = Some w1"
    if c: "c \<in> set cs1" for c t
  proof -
    obtain m where m: "om_good C m" "om_id m = om_id c" "en_events (om_entity m) = en_events (om_entity c)"
      "prefix id_prefix (om_id c)" "om_status m = InFlight" "om_worker_id m = Some w1"
      using eff1(2) [OF c] by blast
    with box_good [OF ok m(1), of "hm_streams r1" t] after1(2) [OF c] show ?thesis by simp
  qed
  have "om_id c1 \<noteq> om_id c2" if c: "c1 \<in> set cs1" "c2 \<in> set cs2" for c1 c2
  proof
    assume "om_id c1 = om_id c2"
    then show False using held [OF c(1), of now2] eff2(1) [OF c(2)] by (auto simp: claimed_from_def)
  qed
  then have disj: "om_id ` set cs1 \<inter> om_id ` set cs2 = {}" by auto
  have "box C now (hm_streams r2) (om_id c) = box C now (hm_streams r1) (om_id c)" if "c \<in> set cs1" for c
  proof -
    have "om_id c \<notin> om_id ` set cs2" using disj that by blast
    then show ?thesis using after2(1) [of "om_id c"] by (simp add: box_def)
  qed
  with disj held show ?thesis by simp
qed

theorem claims_are_exclusive_witness:
  "\<exists>r cs1 r1 cs2 r2. claim_outbox_messages sample_codec 0 Mapping.ordered_keys ''w'' 5 60000000000 r = (Ok cs1, r1) \<and>
     claim_outbox_messages sample_codec 0 Mapping.ordered_keys ''w'' 3 60000000000 r1 = (Ok cs2, r2) \<and>
     om_id ` set cs1 \<inter> om_id ` set cs2 = {}"
proof -
  obtain r where r: "hm_inv Mapping.ordered_keys r" "box_ok sample_codec (hm_streams r)"
    "room 2 (hm_streams r)"
    using sample_box by blast
  have r1: "room 1 (hm_streams r)" using room_mono [OF r(3)] by simp
  obtain cs1 r1 where c1: "claim_outbox_messages sample_codec 0 Mapping.ordered_keys ''w'' 5 60000000000 r = (Ok cs1, r1)"
    "cs1 = take 5 (List.map_filter (claimed_of sample_codec 0 ''w'' 60000000000)
       (hm_iter (hr_events r) (Mapping.ordered_keys (hr_events r))))"
    "hr_events r1 = save_all cs1 (hr_events r)" "hm_inv Mapping.ordered_keys r1" "distinct (map om_id cs1)"
    using claim_result [OF r(1,2) r1 sample_claims_work, of 5] by auto
  note run1 = r(1,2) r1 sample_claims_work take_claimed [OF c1(2)]
  have "room 1 (hm_streams r1)"
    using room_step [of 1 r cs1 sample_codec 0 "''w''" r1] r claim_effect(1) [OF run1] c1(5)
      streams_after_claims [OF c1(3,5)] sample_codec_ok by (simp add: numeral_2_eq_2)
  then obtain cs2 r2 where c2: "claim_outbox_messages sample_codec 0 Mapping.ordered_keys ''w'' 3 60000000000 r1 = (Ok cs2, r2)"
    using claim_result [OF c1(4) claim_box_ok [OF run1 c1(3,5)] _ sample_claims_work, of 3] by auto
  from claims_are_exclusive [OF r sample_claims_work sample_claims_work _ _ c1(1) c2]
  have "om_id ` set cs1 \<inter> om_id ` set cs2 = {}" by simp
  with c1(1) c2 show ?thesis by blast
qed

section \<open>Completing, releasing and failing\<close>

text \<open>A call that leaves the message with this id as \<open>m\<close> and the rest of the store alone.\<close>

definition settles ::
    "outbox_codec \<Rightarrow> event_order \<Rightarrow> hm_repo \<Rightarrow> string \<Rightarrow> outbox_message \<Rightarrow>
     (repository_error, unit) outcome \<times> hm_repo \<Rightarrow> bool" where
  "settles C ord r i m res \<longleftrightarrow>
     (\<exists>r'. res = (Ok (), r') \<and> hm_inv ord r' \<and> box_ok C (hm_streams r') \<and>
        (\<forall>j. j \<noteq> i \<longrightarrow> hm_streams r' j = hm_streams r j) \<and>
        (\<forall>now. \<exists>m'. box C now (hm_streams r') i = Some m' \<and> om_status m' = om_status m \<and>
           om_worker_id m' = om_worker_id m \<and> om_last_error m' = om_last_error m \<and>
           om_attempts m' = om_attempts m \<and> om_payload m' = om_payload m \<and>
           om_event_type m' = om_event_type m))"

lemma settles_update:
  assumes "hm_inv ord r" and "box_ok C (hm_streams r)" and "oc_ok C"
    and "om_good C m" and "prefix id_prefix (om_id m)" and "vec_fits (en_events (om_entity m))"
    and "f (hr_events r) = (Ok (), Mapping.update (om_id m) (en_events (om_entity m)) (hr_events r))"
  shows "settles C ord r (om_id m) m (under_write_lock f r)"
proof -
  define r' where "r' = r\<lparr>hr_events := Mapping.update (om_id m) (en_events (om_entity m)) (hr_events r)\<rparr>"
  have run: "under_write_lock f r = (Ok (), r')"
    using assms(1,7) by (simp add: under_write_lock_def hm_inv_def r'_def)
  have t: "hm_streams r' = (hm_streams r)(om_id m \<mapsto> en_events (om_entity m))"
    by (simp add: hm_streams_def r'_def lookup_update_fun)
  have "hm_inv ord r'" using assms(1) by (simp add: hm_inv_def r'_def)
  with run t box_ok_update [OF assms(2,4,6)] box_good [OF assms(3,4) _ assms(5), of "hm_streams r'"]
  show ?thesis by (auto simp: settles_def)
qed

lemma settles_same:
  assumes "hm_inv ord r" and "box_ok C (hm_streams r)" and "oc_ok C"
    and "box C now (hm_streams r) i = Some m" and "f (hr_events r) = (Ok (), hr_events r)"
  shows "settles C ord r i m (under_write_lock f r)"
proof -
  have run: "under_write_lock f r = (Ok (), r)"
    using assms(1,5) by (simp add: under_write_lock_def hm_inv_def)
  obtain evs where evs: "hm_streams r i = Some evs" "prefix id_prefix i" "stored_message C now i evs = Ok m"
    using assms(4) box_Some_iff [OF assms(2,3)] by blast
  have m: "om_good C m \<and> om_entity m = entity_from now i evs"
    by (rule box_ok_stored [OF assms(2,3) evs(1,2), of now]) (use evs(3) in simp)
  then have "om_id m = i" "en_events (om_entity m) = evs" by (simp_all add: om_id_def)
  then have "box C t (hm_streams r) i = Some (m\<lparr>om_entity := entity_from t i evs, om_created_at := t\<rparr>)" for t
    using box_good [OF assms(3), of m "hm_streams r" t] m evs by simp
  with run assms(1,2) show ?thesis by (simp add: settles_def)
qed

lemma moved_settles:
  assumes "hm_inv ord r" and "box_ok C (hm_streams r)" and "oc_ok C"
    and "Suc (length (stream_of (hm_streams r) i)) < 2 ^ 63" and "om_good C m" and "om_moved C m m'" and "om_id m = i" and "prefix id_prefix i"
    and "hm_streams r i = Some (en_events (om_entity m))"
    and "f (hr_events r) = (Ok (), Mapping.update i (en_events (om_entity m')) (hr_events r))"
  shows "settles C ord r i m' (under_write_lock f r)"
proof -
  have "om_id m' = i" "\<exists>ev. en_events (om_entity m') = en_events (om_entity m) @ [ev]"
    using assms(6,7) by (auto simp: om_moved_def)
  moreover from this have "vec_fits (en_events (om_entity m'))"
    using assms(4,9) by (auto simp: stream_of_def)
  ultimately show ?thesis
    using settles_update [OF assms(1-3) om_moved_good [OF assms(5,6)], of f] assms(8,10) by simp
qed

lemma settles_cong:
  "settles C ord r i m res \<Longrightarrow> om_status m' = om_status m \<Longrightarrow> om_worker_id m' = om_worker_id m \<Longrightarrow>
     om_last_error m' = om_last_error m \<Longrightarrow> om_attempts m' = om_attempts m \<Longrightarrow>
     om_payload m' = om_payload m \<Longrightarrow> om_event_type m' = om_event_type m \<Longrightarrow> settles C ord r i m' res"
  by (simp add: settles_def)

lemma box_facts:
  assumes "box_ok C (hm_streams r)" and "oc_ok C" and "box C now (hm_streams r) i = Some m"
  obtains evs where "Mapping.lookup (hr_events r) i = Some evs" "stored_message C now i evs = Ok m"
    "om_good C m" "om_id m = i" "om_wf m" "vec_fits (en_events (om_entity m))"
    "\<not> en_replaying (om_entity m)" "hm_streams r i = Some (en_events (om_entity m))"
    "Mapping.update i (en_events (om_entity m)) (hr_events r) = hr_events r" "prefix id_prefix i"
proof -
  obtain evs where evs: "hm_streams r i = Some evs" "prefix id_prefix i" "stored_message C now i evs = Ok m"
    using assms(3) box_Some_iff [OF assms(1,2)] by blast
  have good: "om_good C m" "om_id m = i" "om_entity m = entity_from now i evs" "vec_fits evs"
    by (rule box_ok_stored [OF assms(1,2) evs(1,2), of now], use evs(3) in simp)+
  have lk: "Mapping.lookup (hr_events r) i = Some evs" using evs(1) by (simp add: hm_streams_def)
  then have "Mapping.update i evs (hr_events r) = hr_events r"
    by (intro mapping_eqI) (auto simp: lookup_update')
  moreover have wf: "om_wf m" using good(1) by (simp add: om_good_def)
  moreover have "\<not> en_replaying (om_entity m)" using wf by (simp add: om_wf_def)
  ultimately show thesis
    by (intro that [OF lk evs(3) good(1,2) wf]) (use good(3,4) evs in simp_all)
qed

lemma complete_settles:
  assumes "hm_inv ord r" and "box_ok C (hm_streams r)"
    and "Suc (length (stream_of (hm_streams r) (normalize_id i))) < 2 ^ 63" and "oc_ok C"
    and "oc_ser_unit C () \<noteq> None" and "box C now (hm_streams r) (normalize_id i) = Some m"
  shows "settles C ord r (normalize_id i)
      (if om_status m = InFlight then m\<lparr>om_status := Published, om_worker_id := None\<rparr> else m)
      (complete_outbox_message C now i r)"
proof (rule box_facts [OF assms(2,4,6)])
  fix evs
  assume m: "Mapping.lookup (hr_events r) (normalize_id i) = Some evs"
    "stored_message C now (normalize_id i) evs = Ok m" "om_good C m" "om_id m = normalize_id i" "om_wf m"
    "vec_fits (en_events (om_entity m))" "\<not> en_replaying (om_entity m)"
    "hm_streams r (normalize_id i) = Some (en_events (om_entity m))"
  show ?thesis
  proof (cases "is_in_flight m")
    case True
    obtain bs where "oc_ser_unit C () = Some bs" using assms(5) by blast
    then obtain e where e: "digest_empty (oc_ser_unit C) now ''MessagePublished'' (om_entity m) = Some e"
      using digest_records [where ser = "oc_ser_unit C" and now = now, OF m(7)] by (metis digest_empty_def)
    let ?m = "m\<lparr>om_entity := e, om_status := Published, om_worker_id := None, om_leased_until := None\<rparr>"
    have c: "complete C now m = Some ?m" using True e by (simp add: complete_def)
    show ?thesis
      unfolding complete_outbox_message_def
      by (rule settles_cong [OF moved_settles [OF assms(1,2,4,3) m(3) complete_moves [OF c True m(5,6)] m(4) _ m(8)]])
        (use True m(1,2) c in \<open>simp_all add: is_in_flight_def\<close>)
  next
    case False
    show ?thesis
      unfolding complete_outbox_message_def
      by (rule settles_cong [OF settles_same [OF assms(1,2,4,6)]])
        (use False m(1,2) in \<open>simp_all add: is_in_flight_def\<close>)
  qed
qed

lemma release_settles:
  assumes "hm_inv ord r" and "box_ok C (hm_streams r)"
    and "Suc (length (stream_of (hm_streams r) (normalize_id i))) < 2 ^ 63" and "oc_ok C"
    and "oc_ser_error C err \<noteq> None" and "box C now (hm_streams r) (normalize_id i) = Some m"
  shows "settles C ord r (normalize_id i)
      (if om_status m = InFlight
       then m\<lparr>om_status := Pending, om_worker_id := None,
              om_last_error := (if err = [] then None else Some err)\<rparr> else m)
      (release_outbox_message C now i err r)"
proof (rule box_facts [OF assms(2,4,6)])
  fix evs
  assume m: "Mapping.lookup (hr_events r) (normalize_id i) = Some evs"
    "stored_message C now (normalize_id i) evs = Ok m" "om_good C m" "om_id m = normalize_id i" "om_wf m"
    "vec_fits (en_events (om_entity m))" "\<not> en_replaying (om_entity m)"
    "hm_streams r (normalize_id i) = Some (en_events (om_entity m))"
  show ?thesis
  proof (cases "is_in_flight m")
    case True
    obtain bs where "oc_ser_error C err = Some bs" using assms(5) by blast
    then obtain e where e: "digest (oc_ser_error C) now ''MessageReleased'' err (om_entity m) = Some e"
      using digest_records [where ser = "oc_ser_error C" and now = now, OF m(7)] by metis
    let ?m = "m\<lparr>om_entity := e, om_status := Pending, om_last_error := (if err = [] then None else Some err),
        om_worker_id := None, om_leased_until := None\<rparr>"
    have c: "release C now err m = Some ?m" using True e by (simp add: release_def)
    show ?thesis
      unfolding release_outbox_message_def
      by (rule settles_cong [OF moved_settles [OF assms(1,2,4,3) m(3) release_moves [OF c True m(5,6)] m(4) _ m(8)]])
        (use True m(1,2) c in \<open>simp_all add: is_in_flight_def\<close>)
  next
    case False
    show ?thesis
      unfolding release_outbox_message_def
      by (rule settles_cong [OF settles_same [OF assms(1,2,4,6)]])
        (use False m(1,2) in \<open>simp_all add: is_in_flight_def\<close>)
  qed
qed

lemma fail_settles:
  assumes "hm_inv ord r" and "box_ok C (hm_streams r)"
    and "Suc (length (stream_of (hm_streams r) (normalize_id i))) < 2 ^ 63" and "oc_ok C"
    and "oc_ser_error C err \<noteq> None" and "box C now (hm_streams r) (normalize_id i) = Some m"
  shows "settles C ord r (normalize_id i)
      (if om_status m \<in> {Pending, InFlight}
       then m\<lparr>om_status := Failed, om_worker_id := None,
              om_last_error := (if err = [] then None else Some err)\<rparr> else m)
      (fail_outbox_message C now i err r)"
proof (rule box_facts [OF assms(2,4,6)])
  fix evs
  assume m: "Mapping.lookup (hr_events r) (normalize_id i) = Some evs"
    "stored_message C now (normalize_id i) evs = Ok m" "om_good C m" "om_id m = normalize_id i" "om_wf m"
    "vec_fits (en_events (om_entity m))" "\<not> en_replaying (om_entity m)"
    "hm_streams r (normalize_id i) = Some (en_events (om_entity m))"
    "Mapping.update (normalize_id i) (en_events (om_entity m)) (hr_events r) = hr_events r"
  have st: "can_fail m \<longleftrightarrow> om_status m \<in> {Pending, InFlight}"
    by (cases "om_status m") (simp_all add: can_fail_def)
  show ?thesis
  proof (cases "can_fail m")
    case True
    obtain bs where "oc_ser_error C err = Some bs" using assms(5) by blast
    then obtain e where e: "digest (oc_ser_error C) now ''MessageFailed'' err (om_entity m) = Some e"
      using digest_records [where ser = "oc_ser_error C" and now = now, OF m(7)] by metis
    let ?m = "m\<lparr>om_entity := e, om_status := Failed, om_last_error := (if err = [] then None else Some err),
        om_worker_id := None, om_leased_until := None\<rparr>"
    have c: "fail C now err m = Some ?m" using True e by (simp add: fail_def)
    show ?thesis
      unfolding fail_outbox_message_def
      by (rule settles_cong [OF moved_settles [OF assms(1,2,4,3) m(3) fail_moves [OF c True m(5,6)] m(4) _ m(8)]])
        (use True st m(1,2) c in simp_all)
  next
    case False
    show ?thesis
      unfolding fail_outbox_message_def
      by (rule settles_cong [OF settles_same [OF assms(1,2,4,6)]])
        (use False st m(1,2,9) in \<open>simp_all add: fail_def\<close>)
  qed
qed



section \<open>A message committed with its aggregate\<close>

text \<open>
  C17: The outbox commit is one commit of two streams.  Either the new events of the aggregate
  and those of the message are both appended and both entities are marked committed, or one of
  the two entities is stale, the call returns its conflict, and neither stream, and nothing else,
  has changed.  When the aggregate's id is not a message id and a well-made message holds what the
  store had of it (a new message, or one read from it) and its new events, the message is then in
  the store with what it carries, and the store stays one of well-made messages.
\<close>

theorem outbox_commit_atomic:
  assumes "hm_inv ord r" and "entity_wf (ag_entity A a)" and "entity_wf (om_entity m)"
  shows "(\<exists>r'. outbox_commit A (hashmap_repo now ord) (r, a, m) =
         (Ok (), r', ag_set_entity A (mark_committed (ag_entity A a)) a,
          m\<lparr>om_entity := mark_committed (om_entity m)\<rparr>) \<and>
       hm_inv ord r' \<and>
       (let s = (hm_streams r)(en_id (ag_entity A a) \<mapsto>
              stream_of (hm_streams r) (en_id (ag_entity A a)) @ uncommitted (ag_entity A a))
        in hm_streams r' = s(om_id m \<mapsto> stream_of s (om_id m) @ uncommitted (om_entity m))) \<and>
       (om_good C m \<and> oc_ok C \<and> box_ok C (hm_streams r) \<and> vec_fits (en_events (om_entity m)) \<and>
        \<not> prefix id_prefix (en_id (ag_entity A a)) \<and>
        stream_of (hm_streams r) (om_id m) =
          take (unat (en_committed_version (om_entity m))) (en_events (om_entity m)) \<longrightarrow>
          box_ok C (hm_streams r') \<and>
          box C t (hm_streams r') (om_id m) = Some (m\<lparr>om_created_at := t,
            om_entity := entity_from t (om_id m) (en_events (om_entity m))\<rparr>))) \<or>
    (\<exists>e \<in> {ag_entity A a, om_entity m}. \<not> current (hm_streams r) e \<and>
       outbox_commit A (hashmap_repo now ord) (r, a, m) =
         (Err (conflict_of (hm_streams r) e), r, ag_set_entity A (ag_entity A a) a, m))"
proof -
  let ?e = "ag_entity A a" and ?o = "om_entity m"
  have "\<forall>e \<in> set [?e, ?o]. entity_wf e" using assms(2,3) by simp
  from hm.commit_cases [OF assms(1) this, of now]
  consider (ok) r' where "op_commit (hashmap_repo now ord) (r, [?e, ?o]) = (Ok (), r', map mark_committed [?e, ?o])"
      "hm_inv ord r'" "hm_streams r' = append_all [?e, ?o] (hm_streams r)"
    | (failed) e where "e \<in> {?e, ?o}" "\<not> current (hm_streams r) e"
      "op_commit (hashmap_repo now ord) (r, [?e, ?o]) = (Err (conflict_of (hm_streams r) e), r, [?e, ?o])"
    by auto
  then show ?thesis
  proof cases
    case ok
    let ?s = "(hm_streams r)(en_id ?e \<mapsto> stream_of (hm_streams r) (en_id ?e) @ uncommitted ?e)"
    have t: "hm_streams r' = ?s(om_id m \<mapsto> stream_of ?s (om_id m) @ uncommitted ?o)"
      using ok(3) by (simp add: om_id_def)
    have "box_ok C (hm_streams r') \<and> box C t (hm_streams r') (om_id m) = Some (m\<lparr>om_created_at := t,
            om_entity := entity_from t (om_id m) (en_events ?o)\<rparr>)"
      if good: "om_good C m" "oc_ok C" "box_ok C (hm_streams r)" "vec_fits (en_events ?o)"
        "\<not> prefix id_prefix (en_id ?e)"
        "stream_of (hm_streams r) (om_id m) = take (unat (en_committed_version ?o)) (en_events ?o)"
    proof -
      have p: "prefix id_prefix (om_id m)" using good(1) by (simp add: om_good_def om_wf_def)
      with good(5) have "en_id ?e \<noteq> om_id m" by auto
      then have "stream_of ?s (om_id m) @ uncommitted ?o = en_events ?o"
        using good(6) by (simp add: uncommitted_def stream_of_def)
      then have t': "hm_streams r' = ?s(om_id m \<mapsto> en_events ?o)" using t by (simp only:)
      have "box_ok C ?s" using good(3,5) by (auto simp: box_ok_def)
      then have "box_ok C (hm_streams r')" unfolding t' by (rule box_ok_update [OF _ good(1,4)])
      then show ?thesis using box_good [OF good(2,1) _ p, of "hm_streams r'" t] by (simp add: t')
    qed
    moreover have "outbox_commit A (hashmap_repo now ord) (r, a, m) =
        (Ok (), r', ag_set_entity A (mark_committed ?e) a, m\<lparr>om_entity := mark_committed ?o\<rparr>)"
      using ok(1) by (simp add: outbox_commit_def)
    ultimately show ?thesis using ok(2) t unfolding Let_def by blast
  next
    case failed
    then show ?thesis by (auto simp: outbox_commit_def)
  qed
qed

theorem outbox_commit_atomic_witness:
  "\<exists>m r' a' m'. outbox_commit bare_aggregate (hashmap_repo 0 Mapping.ordered_keys)
       (hm_repo_new, push_record (event_record_new ''e1'' [7] 1 5) 5 (entity_with_id ''a'' 0), m) = (Ok (), r', a', m') \<and>
     (\<exists>m2. box sample_codec 9 (hm_streams r') ''outbox:m1'' = Some m2 \<and> om_status m2 = Pending)"
proof -
  let ?a = "push_record (event_record_new ''e1'' [7] 1 5) 5 (entity_with_id ''a'' 0)"
  obtain m where init: "initialize sample_codec 5 ''m1'' ''Created'' [1] None Mapping.empty (outbox_message_new 5) = Some m"
    using sample_initialize by blast
  note m = initialize_good [OF init]
  have idm: "om_id m = ''outbox:m1''" using m(2) by (simp add: normalize_id_def id_prefix_def)
  have ag [simp]: "ag_entity bare_aggregate a = a" for a by (simp add: bare_aggregate_def)
  have "entity_wf ?a"
    by (rule push_record_wf)
      (simp_all add: event_record_new_def entity_with_id_def entity_default_def entity_wf_def)
  then have wf: "entity_wf (ag_entity bare_aggregate ?a)" by simp
  have ida: "\<not> prefix id_prefix (en_id (ag_entity bare_aggregate ?a))"
    by (simp add: push_record_def entity_with_id_def id_prefix_def Let_def)
  have box: "box_ok sample_codec (hm_streams hm_repo_new)" by (simp add: box_ok_def)
  have cur: "\<forall>e \<in> set [?a, om_entity m]. current (hm_streams hm_repo_new) e"
    using m(9) by (simp add: current_def stream_of_def) (simp add: entity_with_id_def entity_default_def)
  have wfm: "entity_wf (om_entity m)" using m(1) by (simp add: om_good_def om_wf_def)
  have "\<exists>r'. op_commit (hashmap_repo 0 Mapping.ordered_keys) (hm_repo_new, [?a, om_entity m]) =
      (Ok (), r', map mark_committed [?a, om_entity m])"
    using hm.commit_cases [OF hm_inv_ordered_new, of "[?a, om_entity m]" 0] cur wf wfm by auto
  then have "fst (outbox_commit bare_aggregate (hashmap_repo 0 Mapping.ordered_keys) (hm_repo_new, ?a, m)) = Ok ()"
    by (auto simp: outbox_commit_def)
  have pre: "om_good sample_codec m \<and> oc_ok sample_codec \<and> box_ok sample_codec (hm_streams hm_repo_new) \<and>
      vec_fits (en_events (om_entity m)) \<and> \<not> prefix id_prefix (en_id (ag_entity bare_aggregate ?a)) \<and>
      stream_of (hm_streams hm_repo_new) (om_id m) =
        take (unat (en_committed_version (om_entity m))) (en_events (om_entity m))"
    using m(1,4) ida box cur sample_codec_ok by (simp add: current_def stream_of_def)
  show ?thesis
    using outbox_commit_atomic [OF hm_inv_ordered_new wf wfm, of 0 sample_codec 9]
  proof (elim disjE exE conjE bexE)
    fix r'
    assume run: "outbox_commit bare_aggregate (hashmap_repo 0 Mapping.ordered_keys) (hm_repo_new, ?a, m) =
        (Ok (), r', ag_set_entity bare_aggregate (mark_committed (ag_entity bare_aggregate ?a)) ?a,
         m\<lparr>om_entity := mark_committed (om_entity m)\<rparr>)"
      and "om_good sample_codec m \<and> oc_ok sample_codec \<and> box_ok sample_codec (hm_streams hm_repo_new) \<and>
        vec_fits (en_events (om_entity m)) \<and> \<not> prefix id_prefix (en_id (ag_entity bare_aggregate ?a)) \<and>
        stream_of (hm_streams hm_repo_new) (om_id m) =
          take (unat (en_committed_version (om_entity m))) (en_events (om_entity m)) \<longrightarrow>
        box_ok sample_codec (hm_streams r') \<and>
          box sample_codec 9 (hm_streams r') (om_id m) = Some (m\<lparr>om_created_at := 9,
            om_entity := entity_from 9 (om_id m) (en_events (om_entity m))\<rparr>)"
    with pre have "box sample_codec 9 (hm_streams r') (om_id m) = Some (m\<lparr>om_created_at := 9,
            om_entity := entity_from 9 (om_id m) (en_events (om_entity m))\<rparr>)" by blast
    then have "\<exists>m2. box sample_codec 9 (hm_streams r') ''outbox:m1'' = Some m2 \<and> om_status m2 = Pending"
      using m(3) unfolding idm by simp
    with run show ?thesis by blast
  qed (use \<open>fst _ = Ok ()\<close> in auto)
qed

end
