(* ===== verification/Bus_Event.thy ===== *)
theory Bus_Event
  imports Prelude
begin

text \<open>
  What travels on the bus (\<open>src/bus/publisher.rs\<close>): the event, its metadata and its payload
  encodings, the publish error, and the default \<open>publish_batch\<close> of the \<open>Publisher\<close> trait.
  Serialization (bitcode, JSON) is a parameter.  A Rust string is the list of its UTF-8 bytes,
  as characters.
\<close>

section \<open>UTF-8\<close>

text \<open>
  What the standard library says of the first character of a byte sequence: how many bytes it
  reads, and whether they are a well-formed character.  Of an ill-formed sequence it reads the
  longest part that begins a character, and at least one byte.
\<close>

definition continuation :: "u8 \<Rightarrow> bool" where
  "continuation b \<longleftrightarrow> 0x80 \<le> b \<and> b \<le> 0xBF"

definition second_byte_ok :: "u8 \<Rightarrow> u8 \<Rightarrow> bool" where
  "second_byte_ok b1 b2 \<longleftrightarrow>
     (if b1 = 0xE0 then 0xA0 \<le> b2 \<and> b2 \<le> 0xBF
      else if b1 = 0xED then 0x80 \<le> b2 \<and> b2 \<le> 0x9F
      else if b1 = 0xF0 then 0x90 \<le> b2 \<and> b2 \<le> 0xBF
      else if b1 = 0xF4 then 0x80 \<le> b2 \<and> b2 \<le> 0x8F
      else continuation b2)"

definition utf8_width :: "u8 \<Rightarrow> nat" where
  "utf8_width b =
     (if b \<le> 0x7F then 1 else if 0xC2 \<le> b \<and> b \<le> 0xDF then 2
      else if 0xE0 \<le> b \<and> b \<le> 0xEF then 3 else if 0xF0 \<le> b \<and> b \<le> 0xF4 then 4 else 0)"

fun utf8_first :: "bytes \<Rightarrow> nat \<times> bool" where
  "utf8_first [] = (0, False)"
| "utf8_first (b1 # rest) =
     (let w = utf8_width b1 in
      if w = 0 then (1, False)
      else if w = 1 then (1, True)
      else case rest of
        [] \<Rightarrow> (1, False)
      | b2 # rest2 \<Rightarrow>
          if \<not> second_byte_ok b1 b2 then (1, False)
          else if w = 2 then (2, True)
          else (case rest2 of
            [] \<Rightarrow> (2, False)
          | b3 # rest3 \<Rightarrow>
              if \<not> continuation b3 then (2, False)
              else if w = 3 then (3, True)
              else (case rest3 of
                [] \<Rightarrow> (3, False)
              | b4 # _ \<Rightarrow> if continuation b4 then (4, True) else (3, False))))"

lemma utf8_first_pos: "bs \<noteq> [] \<Longrightarrow> 0 < fst (utf8_first bs)"
  by (cases bs) (auto simp: Let_def split: list.splits)

lemma utf8_first_shorter: "bs \<noteq> [] \<Longrightarrow> (n, ok) = utf8_first bs \<Longrightarrow> length (drop n bs) < length bs"
  using utf8_first_pos [of bs] by (cases "utf8_first bs") simp

function utf8_valid :: "bytes \<Rightarrow> bool" where
  "utf8_valid bs =
     (if bs = [] then True
      else case utf8_first bs of (n, ok) \<Rightarrow> ok \<and> utf8_valid (drop n bs))"
  by pat_completeness auto
termination
  by (relation "measure length") (simp_all only: wf_measure in_measure, rule utf8_first_shorter)

function utf8_lossy :: "bytes \<Rightarrow> bytes" where
  "utf8_lossy bs =
     (if bs = [] then []
      else case utf8_first bs of (n, ok) \<Rightarrow>
        (if ok then take n bs else [0xEF, 0xBF, 0xBD]) @ utf8_lossy (drop n bs))"
  by pat_completeness auto
termination
  by (relation "measure length") (simp_all only: wf_measure in_measure, rule utf8_first_shorter)

declare utf8_valid.simps [simp del] utf8_lossy.simps [simp del]

definition string_bytes :: "string \<Rightarrow> bytes" where
  "string_bytes = map (\<lambda>c. of_nat (of_char c :: nat))"

definition bytes_string :: "bytes \<Rightarrow> string" where
  "bytes_string = map (\<lambda>b. char_of (unat b))"

definition from_utf8 :: "bytes \<Rightarrow> string option" where
  "from_utf8 bs = (if utf8_valid bs then Some (bytes_string bs) else None)"

definition from_utf8_lossy :: "bytes \<Rightarrow> string" where
  "from_utf8_lossy bs = bytes_string (utf8_lossy bs)"

lemma bytes_string_bytes [simp]: "bytes_string (string_bytes s) = s"
proof -
  have "char_of (unat (of_nat (of_char c :: nat) :: u8)) = c" for c :: char
    by (simp add: unat_of_nat)
  then have "(\<lambda>c. char_of (unat (of_nat (of_char c :: nat) :: u8))) = (\<lambda>c. c)" by blast
  then show ?thesis by (simp add: bytes_string_def string_bytes_def comp_def)
qed

text \<open>A valid sequence is its own lossy reading.\<close>

lemma lossy_valid: "utf8_valid bs \<Longrightarrow> utf8_lossy bs = bs"
proof (induction bs rule: utf8_lossy.induct)
  case (1 bs)
  show ?case
  proof (cases "bs = []")
    case True
    then show ?thesis by (simp add: utf8_lossy.simps)
  next
    case False
    obtain n ok where f: "utf8_first bs = (n, ok)" by (cases "utf8_first bs")
    with False 1(2) have ok: "ok" "utf8_valid (drop n bs)"
      by (subst (asm) (1) utf8_valid.simps; simp)+
    with False f 1(1) [OF False f [symmetric]] show ?thesis
      by (subst utf8_lossy.simps) simp
  qed
qed

section \<open>Events\<close>

record bus_event =
  be_id :: string
  be_event_type :: string
  be_payload :: bytes
  be_metadata :: "(string \<times> string) list option"

definition bus_event_new :: "string \<Rightarrow> string \<Rightarrow> bytes \<Rightarrow> bus_event" where
  "bus_event_new ident event_type payload =
     \<lparr>be_id = ident, be_event_type = event_type, be_payload = payload, be_metadata = None\<rparr>"

definition bus_event_encode ::
    "('p \<Rightarrow> 'x + bytes) \<Rightarrow> string \<Rightarrow> string \<Rightarrow> 'p \<Rightarrow> 'x + bus_event" where
  "bus_event_encode serialize ident event_type payload =
     (case serialize payload of
        Inl err \<Rightarrow> Inl err
      | Inr bs \<Rightarrow> Inr (bus_event_new ident event_type bs))"

definition bus_event_decode :: "(bytes \<Rightarrow> 'x + 'p) \<Rightarrow> bus_event \<Rightarrow> 'x + 'p" where
  "bus_event_decode deserialize e = deserialize (be_payload e)"

definition bus_event_json_encode ::
    "('p \<Rightarrow> 'x + bytes) \<Rightarrow> string \<Rightarrow> string \<Rightarrow> 'p \<Rightarrow> 'x + bus_event" where
  "bus_event_json_encode to_vec ident event_type payload =
     (case to_vec payload of
        Inl err \<Rightarrow> Inl err
      | Inr bs \<Rightarrow> Inr (bus_event_new ident event_type bs))"

definition bus_event_json_decode :: "(bytes \<Rightarrow> 'x + 'p) \<Rightarrow> bus_event \<Rightarrow> 'x + 'p" where
  "bus_event_json_decode from_slice e = from_slice (be_payload e)"

definition with_string_payload :: "string \<Rightarrow> string \<Rightarrow> string \<Rightarrow> bus_event" where
  "with_string_payload ident event_type payload =
     bus_event_new ident event_type (string_bytes payload)"

definition with_metadata :: "string \<Rightarrow> string \<Rightarrow> bus_event \<Rightarrow> bus_event" where
  "with_metadata key v e =
     e\<lparr>be_metadata := Some ((case be_metadata e of None \<Rightarrow> [] | Some md \<Rightarrow> md) @ [(key, v)])\<rparr>"

definition bus_event_meta :: "bus_event \<Rightarrow> string \<Rightarrow> string option" where
  "bus_event_meta e key =
     (case be_metadata e of
        None \<Rightarrow> None
      | Some md \<Rightarrow> map_option snd (find (\<lambda>kv. fst kv = key) md))"

definition bus_event_correlation_id :: "bus_event \<Rightarrow> string option" where
  "bus_event_correlation_id e = bus_event_meta e ''correlation_id''"

definition bus_event_causation_id :: "bus_event \<Rightarrow> string option" where
  "bus_event_causation_id e = bus_event_meta e ''causation_id''"

definition bus_event_payload_str :: "bus_event \<Rightarrow> string option" where
  "bus_event_payload_str e = from_utf8 (be_payload e)"

section \<open>Errors and the publisher interface\<close>

text \<open>\<open>PE_Other\<close> holds the text of the boxed error, which is what its display prints.\<close>

datatype publish_error =
    PE_ConnectionFailed string
  | PE_SerializationFailed string
  | PE_Rejected string
  | PE_Timeout
  | PE_Other string

fun publish_error_display :: "publish_error \<Rightarrow> string" where
  "publish_error_display (PE_ConnectionFailed msg) = ''Connection failed: '' @ msg"
| "publish_error_display (PE_SerializationFailed msg) = ''Serialization failed: '' @ msg"
| "publish_error_display (PE_Rejected msg) = ''Event rejected: '' @ msg"
| "publish_error_display PE_Timeout = ''Publish timeout''"
| "publish_error_display (PE_Other e) = ''Publish error: '' @ e"

fun publish_error_source :: "publish_error \<Rightarrow> string option" where
  "publish_error_source (PE_Other e) = Some e"
| "publish_error_source _ = None"

record 's pub_ops =
  pub_publish :: "bus_event \<Rightarrow> ('s, publish_error, unit) call"
  pub_publish_batch :: "bus_event list \<Rightarrow> ('s, publish_error, unit) call"

text \<open>The default \<open>publish_batch\<close>: one after the other, up to the first error.\<close>

fun publish_batch_default ::
    "(bus_event \<Rightarrow> ('s, publish_error, unit) call) \<Rightarrow> bus_event list \<Rightarrow> ('s, publish_error, unit) call" where
  "publish_batch_default publish [] = st_return ()"
| "publish_batch_default publish (e # es) =
     st_bind (publish e) (\<lambda>_. publish_batch_default publish es)"

end
