(* ===== verification/In_Memory_Queue.thy ===== *)
theory In_Memory_Queue
  imports Bus_Event
begin

text \<open>
  The in-memory bus (\<open>src/bus/in_memory_queue.rs\<close>, \<open>src/bus/bus.rs\<close> and the traits of
  \<open>src/bus\<close>): a shared log with one read position per subscriber (fan-out), named queues whose
  listeners share one position (point-to-point), the filtered receiver and the bus that wraps
  a publisher and a subscriber.
\<close>

section \<open>State\<close>

text \<open>
  The clones of a queue share everything; a subscriber made with \<open>new_subscriber\<close> shares the
  log and the named queues and has a read position and acknowledgements of its own.  The state
  holds what is shared and the positions and acknowledgements of all subscribers; a handle is
  an index of these.  No operation can panic while it holds one of the locks, so none is ever
  poisoned.
\<close>

record p2p_queue =
  pq_messages :: "bus_event list"
  pq_position :: nat

definition p2p_queue_default :: p2p_queue where
  "p2p_queue_default = \<lparr>pq_messages = [], pq_position = 0\<rparr>"

record queue_state =
  iq_log :: "bus_event list"
  iq_positions :: "nat list"
  iq_acked :: "string list list"
  iq_queues :: "(string, p2p_queue) mapping"

definition in_memory_queue_new :: queue_state where
  "in_memory_queue_new =
     \<lparr>iq_log = [], iq_positions = [0], iq_acked = [[]], iq_queues = Mapping.empty\<rparr>"

section \<open>Operations without waiting\<close>

definition iq_events :: "queue_state \<Rightarrow> bus_event list" where
  "iq_events q = iq_log q"

definition iq_event_types :: "queue_state \<Rightarrow> string list" where
  "iq_event_types q = map be_event_type (iq_log q)"

definition iq_len :: "queue_state \<Rightarrow> nat" where
  "iq_len q = length (iq_log q)"

definition iq_is_empty :: "queue_state \<Rightarrow> bool" where
  "iq_is_empty q \<longleftrightarrow> iq_log q = []"

definition iq_find_by_type :: "string \<Rightarrow> queue_state \<Rightarrow> bus_event option" where
  "iq_find_by_type event_type q = find (\<lambda>e. be_event_type e = event_type) (iq_log q)"

definition iq_find_all_by_type :: "string \<Rightarrow> queue_state \<Rightarrow> bus_event list" where
  "iq_find_all_by_type event_type q = filter (\<lambda>e. be_event_type e = event_type) (iq_log q)"

definition iq_reset_position :: "nat \<Rightarrow> queue_state \<Rightarrow> queue_state" where
  "iq_reset_position h q = q\<lparr>iq_positions := (iq_positions q)[h := 0]\<rparr>"

definition iq_current_position :: "nat \<Rightarrow> queue_state \<Rightarrow> nat" where
  "iq_current_position h q = iq_positions q ! h"

definition iq_acknowledged :: "nat \<Rightarrow> queue_state \<Rightarrow> string list" where
  "iq_acknowledged h q = iq_acked q ! h"

definition iq_clear :: "nat \<Rightarrow> queue_state \<Rightarrow> queue_state" where
  "iq_clear h q =
     q\<lparr>iq_log := [], iq_positions := (iq_positions q)[h := 0], iq_acked := (iq_acked q)[h := []]\<rparr>"

definition iq_publish :: "bus_event \<Rightarrow> queue_state \<Rightarrow> queue_state" where
  "iq_publish e q = q\<lparr>iq_log := iq_log q @ [e]\<rparr>"

definition iq_publish_batch :: "bus_event list \<Rightarrow> queue_state \<Rightarrow> queue_state" where
  "iq_publish_batch es q = q\<lparr>iq_log := iq_log q @ es\<rparr>"

definition iq_ack :: "nat \<Rightarrow> string \<Rightarrow> queue_state \<Rightarrow> queue_state" where
  "iq_ack h event_id q = q\<lparr>iq_acked := (iq_acked q)[h := iq_acked q ! h @ [event_id]]\<rparr>"

definition iq_nack :: "nat \<Rightarrow> string \<Rightarrow> string \<Rightarrow> queue_state \<Rightarrow> queue_state" where
  "iq_nack h event_id reason q = q"

definition iq_new_subscriber :: "queue_state \<Rightarrow> nat \<times> queue_state" where
  "iq_new_subscriber q =
     (length (iq_positions q),
      q\<lparr>iq_positions := iq_positions q @ [0], iq_acked := iq_acked q @ [[]]\<rparr>)"

definition iq_send :: "string \<Rightarrow> bus_event \<Rightarrow> queue_state \<Rightarrow> queue_state" where
  "iq_send name e q =
     (let pq = (case Mapping.lookup (iq_queues q) name of None \<Rightarrow> p2p_queue_default | Some pq \<Rightarrow> pq)
      in q\<lparr>iq_queues := Mapping.update name (pq\<lparr>pq_messages := pq_messages pq @ [e]\<rparr>) (iq_queues q)\<rparr>)"

text \<open>The critical sections of \<open>poll\<close> and \<open>listen\<close>: take the next event, when there is one.\<close>

definition take_event :: "nat \<Rightarrow> queue_state \<Rightarrow> bus_event option \<times> queue_state" where
  "take_event h q =
     (let pos = iq_positions q ! h
      in if pos < length (iq_log q)
         then (Some (iq_log q ! pos), q\<lparr>iq_positions := (iq_positions q)[h := pos + 1]\<rparr>)
         else (None, q))"

definition take_message :: "string \<Rightarrow> queue_state \<Rightarrow> bus_event option \<times> queue_state" where
  "take_message name q =
     (case Mapping.lookup (iq_queues q) name of
        None \<Rightarrow> (None, q)
      | Some pq \<Rightarrow>
          (if pq_position pq < length (pq_messages pq)
           then (Some (pq_messages pq ! pq_position pq),
                 q\<lparr>iq_queues := Mapping.update name (pq\<lparr>pq_position := pq_position pq + 1\<rparr>) (iq_queues q)\<rparr>)
           else (None, q)))"

section \<open>Waiting\<close>

text \<open>
  What other threads do between two steps of a waiting call, each action under the locks of
  the queue, and what the clock (in nanoseconds) then shows.  A call uses one tick for each of
  its readings of the clock; when no tick is left it is still waiting.
\<close>

datatype bus_cmd =
    BC_Publish bus_event
  | BC_Publish_Batch "bus_event list"
  | BC_Send string bus_event
  | BC_Take nat
  | BC_Take_Message string
  | BC_Ack nat string
  | BC_New_Subscriber
  | BC_Reset nat
  | BC_Clear nat

fun bus_exec :: "bus_cmd \<Rightarrow> queue_state \<Rightarrow> queue_state" where
  "bus_exec (BC_Publish e) q = iq_publish e q"
| "bus_exec (BC_Publish_Batch es) q = iq_publish_batch es q"
| "bus_exec (BC_Send name e) q = iq_send name e q"
| "bus_exec (BC_Take h) q = snd (take_event h q)"
| "bus_exec (BC_Take_Message name) q = snd (take_message name q)"
| "bus_exec (BC_Ack h i) q = iq_ack h i q"
| "bus_exec BC_New_Subscriber q = snd (iq_new_subscriber q)"
| "bus_exec (BC_Reset h) q = iq_reset_position h q"
| "bus_exec (BC_Clear h) q = iq_clear h q"

definition bus_run :: "bus_cmd list \<Rightarrow> queue_state \<Rightarrow> queue_state" where
  "bus_run = fold bus_exec"

record tick =
  tk_others :: "bus_cmd list"
  tk_now :: nat

type_synonym queue_world = "queue_state \<times> tick list"

fun wait_loop ::
    "(queue_state \<Rightarrow> bus_event option \<times> queue_state) \<Rightarrow> nat \<Rightarrow> tick list \<Rightarrow> queue_state \<Rightarrow>
     (publish_error, bus_event option) outcome \<times> queue_world" where
  "wait_loop take_next deadline [] q =
     (case take_next q of (Some e, q') \<Rightarrow> (Ok (Some e), q', []) | (None, q') \<Rightarrow> (Stuck, q', []))"
| "wait_loop take_next deadline (t # ts) q =
     (case take_next q of
        (Some e, q') \<Rightarrow> (Ok (Some e), q', t # ts)
      | (None, q') \<Rightarrow>
          (let q'' = bus_run (tk_others t) q'
           in if tk_now t \<ge> deadline then (Ok None, q'', ts)
              else wait_loop take_next deadline ts q''))"

definition wait_until ::
    "(queue_state \<Rightarrow> bus_event option \<times> queue_state) \<Rightarrow> u64 \<Rightarrow>
     (queue_world, publish_error, bus_event option) call" where
  "wait_until take_next timeout_ms w =
     (case snd w of
        [] \<Rightarrow> (Stuck, w)
      | t # ts \<Rightarrow>
          wait_loop take_next (tk_now t + unat timeout_ms * 1000000) ts
            (bus_run (tk_others t) (fst w)))"

definition iq_poll :: "nat \<Rightarrow> u64 \<Rightarrow> (queue_world, publish_error, bus_event option) call" where
  "iq_poll h timeout_ms = wait_until (take_event h) timeout_ms"

definition iq_listen :: "string \<Rightarrow> u64 \<Rightarrow> (queue_world, publish_error, bus_event option) call" where
  "iq_listen name timeout_ms = wait_until (take_message name) timeout_ms"

section \<open>The interfaces\<close>

record 's sub_ops =
  sub_poll :: "u64 \<Rightarrow> ('s, publish_error, bus_event option) call"
  sub_ack :: "string \<Rightarrow> ('s, publish_error, unit) call"
  sub_nack :: "string \<Rightarrow> string \<Rightarrow> ('s, publish_error, unit) call"

record 's sender_ops =
  snd_send :: "string \<Rightarrow> bus_event \<Rightarrow> ('s, publish_error, unit) call"

record 's listener_ops =
  lst_listen :: "string \<Rightarrow> u64 \<Rightarrow> ('s, publish_error, bus_event option) call"

definition on_queue :: "(queue_state \<Rightarrow> queue_state) \<Rightarrow> (queue_world, publish_error, unit) call" where
  "on_queue f w = (Ok (), f (fst w), snd w)"

definition in_memory_publisher :: "queue_world pub_ops" where
  "in_memory_publisher =
     \<lparr>pub_publish = (\<lambda>e. on_queue (iq_publish e)),
      pub_publish_batch = (\<lambda>es. on_queue (iq_publish_batch es))\<rparr>"

definition in_memory_subscriber :: "nat \<Rightarrow> queue_world sub_ops" where
  "in_memory_subscriber h =
     \<lparr>sub_poll = iq_poll h, sub_ack = (\<lambda>i. on_queue (iq_ack h i)),
      sub_nack = (\<lambda>i reason. on_queue (iq_nack h i reason))\<rparr>"

definition in_memory_sender :: "queue_world sender_ops" where
  "in_memory_sender = \<lparr>snd_send = (\<lambda>name e. on_queue (iq_send name e))\<rparr>"

definition in_memory_listener :: "queue_world listener_ops" where
  "in_memory_listener = \<lparr>lst_listen = iq_listen\<rparr>"

definition in_memory_new_subscriber :: "(queue_world, publish_error, queue_world sub_ops) call" where
  "in_memory_new_subscriber w =
     (case iq_new_subscriber (fst w) of (h, q) \<Rightarrow> (Ok (in_memory_subscriber h), q, snd w))"

section \<open>The filtered receiver\<close>

record 's event_receiver =
  er_subscriber :: "'s sub_ops"
  er_event_types :: "string set"

definition event_receiver_new :: "'s sub_ops \<Rightarrow> string list \<Rightarrow> 's event_receiver" where
  "event_receiver_new S event_types = \<lparr>er_subscriber = S, er_event_types = set event_types\<rparr>"

text \<open>\<open>clocks\<close> are the readings of \<open>Instant::now\<close> in this function, in nanoseconds.\<close>

fun recv_loop ::
    "'s event_receiver \<Rightarrow> nat \<Rightarrow> nat list \<Rightarrow> ('s, publish_error, bus_event option) call" where
  "recv_loop E deadline [] s = (Stuck, s)"
| "recv_loop E deadline (now # clocks) s =
     (let remaining = deadline - now in
      if remaining = 0 then (Ok None, s)
      else case sub_poll (er_subscriber E) (of_nat (remaining div 1000000)) s of
        (Ok (Some e), s') \<Rightarrow>
          (if be_event_type e \<in> er_event_types E then (Ok (Some e), s')
           else recv_loop E deadline clocks s')
      | (Ok None, s') \<Rightarrow> (Ok None, s')
      | (Err err, s') \<Rightarrow> (Err err, s')
      | (Panic, s') \<Rightarrow> (Panic, s')
      | (Stuck, s') \<Rightarrow> (Stuck, s'))"

definition recv ::
    "'s event_receiver \<Rightarrow> u64 \<Rightarrow> nat list \<Rightarrow> ('s, publish_error, bus_event option) call" where
  "recv E timeout_ms clocks s =
     (case clocks of
        [] \<Rightarrow> (Stuck, s)
      | start # rest \<Rightarrow> recv_loop E (start + unat timeout_ms * 1000000) rest s)"

definition try_recv :: "'s event_receiver \<Rightarrow> nat list \<Rightarrow> ('s, publish_error, bus_event option) call" where
  "try_recv E = recv E 0"

definition receiver_ack :: "'s event_receiver \<Rightarrow> string \<Rightarrow> ('s, publish_error, unit) call" where
  "receiver_ack E = sub_ack (er_subscriber E)"

definition iq_subscribe :: "string list \<Rightarrow> (queue_world, publish_error, queue_world event_receiver) call" where
  "iq_subscribe event_types =
     st_bind in_memory_new_subscriber (\<lambda>S. st_return (event_receiver_new S event_types))"

section \<open>The bus\<close>

record 's bus =
  bus_publisher :: "'s pub_ops"
  bus_sender :: "'s sender_ops"
  bus_subscriber :: "'s sub_ops"
  bus_listener :: "'s listener_ops"

definition bus_publish :: "'s bus \<Rightarrow> bus_event \<Rightarrow> ('s, publish_error, unit) call" where
  "bus_publish B e = pub_publish (bus_publisher B) e"

definition bus_publish_batch :: "'s bus \<Rightarrow> bus_event list \<Rightarrow> ('s, publish_error, unit) call" where
  "bus_publish_batch B es = pub_publish_batch (bus_publisher B) es"

definition bus_poll :: "'s bus \<Rightarrow> u64 \<Rightarrow> ('s, publish_error, bus_event option) call" where
  "bus_poll B timeout_ms = sub_poll (bus_subscriber B) timeout_ms"

definition bus_ack :: "'s bus \<Rightarrow> string \<Rightarrow> ('s, publish_error, unit) call" where
  "bus_ack B event_id = sub_ack (bus_subscriber B) event_id"

definition bus_nack :: "'s bus \<Rightarrow> string \<Rightarrow> string \<Rightarrow> ('s, publish_error, unit) call" where
  "bus_nack B event_id reason = sub_nack (bus_subscriber B) event_id reason"

definition bus_send :: "'s bus \<Rightarrow> string \<Rightarrow> bus_event \<Rightarrow> ('s, publish_error, unit) call" where
  "bus_send B name e = snd_send (bus_sender B) name e"

definition bus_listen :: "'s bus \<Rightarrow> string \<Rightarrow> u64 \<Rightarrow> ('s, publish_error, bus_event option) call" where
  "bus_listen B name timeout_ms = lst_listen (bus_listener B) name timeout_ms"

definition bus_subscribe ::
    "('s, publish_error, 's sub_ops) call \<Rightarrow> string list \<Rightarrow> ('s, publish_error, 's event_receiver) call" where
  "bus_subscribe new_subscriber event_types =
     st_bind new_subscriber (\<lambda>S. st_return (event_receiver_new S event_types))"

definition bus_from_queue :: "nat \<Rightarrow> queue_world bus" where
  "bus_from_queue h =
     \<lparr>bus_publisher = in_memory_publisher, bus_sender = in_memory_sender,
      bus_subscriber = in_memory_subscriber h, bus_listener = in_memory_listener\<rparr>"

section \<open>What is delivered\<close>

fun received :: "nat \<Rightarrow> bus_cmd list \<Rightarrow> queue_state \<Rightarrow> bus_event list" where
  "received h [] q = []"
| "received h (c # cs) q =
     (if c = BC_Take h then (case fst (take_event h q) of Some e \<Rightarrow> [e] | None \<Rightarrow> []) else []) @
     received h cs (bus_exec c q)"

fun listened :: "string \<Rightarrow> bus_cmd list \<Rightarrow> queue_state \<Rightarrow> bus_event list" where
  "listened name [] q = []"
| "listened name (c # cs) q =
     (if c = BC_Take_Message name
      then (case fst (take_message name q) of Some e \<Rightarrow> [e] | None \<Rightarrow> []) else []) @
     listened name cs (bus_exec c q)"

fun published :: "bus_cmd list \<Rightarrow> bus_event list" where
  "published [] = []"
| "published (BC_Publish e # cs) = e # published cs"
| "published (BC_Publish_Batch es # cs) = es @ published cs"
| "published (_ # cs) = published cs"

fun sent :: "string \<Rightarrow> bus_cmd list \<Rightarrow> bus_event list" where
  "sent name [] = []"
| "sent name (BC_Send n e # cs) = (if n = name then e # sent name cs else sent name cs)"
| "sent name (_ # cs) = sent name cs"

fun rewinds :: "nat \<Rightarrow> bus_cmd \<Rightarrow> bool" where
  "rewinds h (BC_Reset h') \<longleftrightarrow> h' = h"
| "rewinds h (BC_Clear h') \<longleftrightarrow> True"
| "rewinds h _ \<longleftrightarrow> False"

definition handle_ok :: "nat \<Rightarrow> queue_state \<Rightarrow> bool" where
  "handle_ok h q \<longleftrightarrow>
     h < length (iq_positions q) \<and> iq_positions q ! h \<le> length (iq_log q)"

definition pending :: "nat \<Rightarrow> queue_state \<Rightarrow> bus_event list" where
  "pending h q = drop (iq_positions q ! h) (iq_log q)"

definition p2p_pending :: "string \<Rightarrow> queue_state \<Rightarrow> bus_event list" where
  "p2p_pending name q =
     (case Mapping.lookup (iq_queues q) name of
        None \<Rightarrow> [] | Some pq \<Rightarrow> drop (pq_position pq) (pq_messages pq))"

definition queues_ok :: "queue_state \<Rightarrow> bool" where
  "queues_ok q \<longleftrightarrow>
     (\<forall>name pq. Mapping.lookup (iq_queues q) name = Some pq \<longrightarrow> pq_position pq \<le> length (pq_messages pq))"

lemmas bus_ops = iq_publish_def iq_publish_batch_def iq_send_def iq_ack_def iq_new_subscriber_def
  iq_reset_position_def iq_clear_def

lemma bus_run_simps [simp]:
  "bus_run [] q = q"
  "bus_run (c # cs) q = bus_run cs (bus_exec c q)"
  "bus_run (cs @ ds) q = bus_run ds (bus_run cs q)"
  by (simp_all add: bus_run_def)

lemma take_event_effect:
  assumes "handle_ok h q"
  shows "pending h q =
      (case fst (take_event h q) of Some e \<Rightarrow> [e] | None \<Rightarrow> []) @ pending h (snd (take_event h q))"
    and "handle_ok h (snd (take_event h q))"
    and "iq_log (snd (take_event h q)) = iq_log q"
  using assms
  by (auto simp: take_event_def pending_def handle_ok_def Let_def Cons_nth_drop_Suc)

lemma other_exec:
  assumes "handle_ok h q" and "\<not> rewinds h c" and "c \<noteq> BC_Take h"
  shows "handle_ok h (bus_exec c q) \<and> pending h (bus_exec c q) = pending h q @ published [c]"
  using assms
  by (cases c) (auto simp: handle_ok_def pending_def bus_ops Let_def take_event_def take_message_def
      nth_append nth_list_update split: option.split)

lemma received_pending:
  assumes "handle_ok h q" and "\<forall>c \<in> set cs. \<not> rewinds h c"
  shows "handle_ok h (bus_run cs q) \<and>
    pending h q @ published cs = received h cs q @ pending h (bus_run cs q)"
  using assms
proof (induction cs arbitrary: q)
  case Nil
  then show ?case by simp
next
  case (Cons c cs)
  show ?case
  proof (cases "c = BC_Take h")
    case True
    have "handle_ok h (bus_exec c q)" using take_event_effect(2) [OF Cons.prems(1)] True by simp
    from Cons.IH [OF this] Cons.prems(2) take_event_effect(1) [OF Cons.prems(1)] True
    show ?thesis by simp
  next
    case False
    have o: "handle_ok h (bus_exec c q)" "pending h (bus_exec c q) = pending h q @ published [c]"
      using other_exec [OF Cons.prems(1) _ False] Cons.prems(2) by simp_all
    have "published (c # cs) = published [c] @ published cs" by (cases c) simp_all
    with Cons.IH [OF o(1)] Cons.prems(2) o(2) False show ?thesis by simp
  qed
qed

lemma log_run:
  assumes "\<forall>c \<in> set cs. \<forall>h. c \<noteq> BC_Clear h"
  shows "iq_log (bus_run cs q) = iq_log q @ published cs"
  using assms
proof (induction cs arbitrary: q)
  case (Cons c cs)
  then show ?case
    by (cases c) (auto simp: bus_ops Let_def take_event_def take_message_def split: option.split)
qed simp

lemma p2p_exec:
  assumes "queues_ok q"
  shows "queues_ok (bus_exec c q) \<and>
    p2p_pending name q @ sent name [c] =
      listened name [c] q @ p2p_pending name (bus_exec c q)"
  using assms
  by (cases c) (auto simp: queues_ok_def p2p_pending_def bus_ops Let_def take_event_def take_message_def
      p2p_queue_default_def lookup_update' Cons_nth_drop_Suc intro: le_SucI split: option.split)

lemma listened_pending:
  assumes "queues_ok q"
  shows "queues_ok (bus_run cs q) \<and>
    p2p_pending name q @ sent name cs = listened name cs q @ p2p_pending name (bus_run cs q)"
  using assms
proof (induction cs arbitrary: q)
  case Nil
  then show ?case by simp
next
  case (Cons c cs)
  have c: "queues_ok (bus_exec c q)"
    "p2p_pending name q @ sent name [c] = listened name [c] q @ p2p_pending name (bus_exec c q)"
    using p2p_exec [OF Cons.prems] by blast+
  have s: "sent name (c # cs) = sent name [c] @ sent name cs" by (cases c) simp_all
  have "p2p_pending name q @ sent name (c # cs) =
      (listened name [c] q @ p2p_pending name (bus_exec c q)) @ sent name cs"
    unfolding s using c(2) by (metis append.assoc)
  with Cons.IH [OF c(1)] show ?case by simp
qed

section \<open>Waiting calls as sequences of actions\<close>

definition others_in :: "tick list \<Rightarrow> bus_cmd list" where
  "others_in ts = concat (map tk_others ts)"

definition leaves_empty :: "(queue_state \<Rightarrow> bus_event option \<times> queue_state) \<Rightarrow> bool" where
  "leaves_empty take_next \<longleftrightarrow> (\<forall>q. fst (take_next q) = None \<longrightarrow> snd (take_next q) = q)"

lemma leaves_empty_takes: "leaves_empty (take_event h)" "leaves_empty (take_message name)"
  by (auto simp: leaves_empty_def take_event_def take_message_def Let_def split: option.split)

lemma wait_loop_cases:
  assumes "leaves_empty take_next" and "wait_loop take_next deadline ts q = (res, q', ts')"
  shows "\<exists>pre. ts = pre @ ts' \<and>
    (case res of
       Ok (Some e) \<Rightarrow>
         take_next (bus_run (others_in pre) q) = (Some e, q') \<and> (\<forall>t \<in> set pre. tk_now t < deadline)
     | Ok None \<Rightarrow>
         q' = bus_run (others_in pre) q \<and>
         (\<exists>before t. pre = before @ [t] \<and> tk_now t \<ge> deadline \<and> (\<forall>t \<in> set before. tk_now t < deadline) \<and>
            fst (take_next (bus_run (others_in before) q)) = None)
     | Stuck \<Rightarrow>
         ts' = [] \<and> q' = bus_run (others_in pre) q \<and> fst (take_next q') = None \<and>
         (\<forall>t \<in> set pre. tk_now t < deadline)
     | _ \<Rightarrow> False)"
  using assms(2)
proof (induction ts arbitrary: q)
  case Nil
  obtain r q1 where t: "take_next q = (r, q1)" by (cases "take_next q")
  with assms(1) have "r = None \<Longrightarrow> q1 = q" unfolding leaves_empty_def by (metis fst_conv snd_conv)
  with Nil t show ?case by (cases r) (auto simp: others_in_def)
next
  case (Cons t ts)
  obtain r q1 where tk: "take_next q = (r, q1)" by (cases "take_next q")
  show ?case
  proof (cases r)
    case (Some e)
    with Cons.prems tk show ?thesis by (intro exI [of _ "[]"]) (auto simp: others_in_def)
  next
    case None
    with tk assms(1) have q1: "q1 = q" unfolding leaves_empty_def by (metis fst_conv snd_conv)
    show ?thesis
    proof (cases "tk_now t \<ge> deadline")
      case True
      with Cons.prems tk None q1 show ?thesis
        by (intro exI [of _ "[t]"]) (auto simp: others_in_def Let_def)
    next
      case False
      with Cons.prems tk None q1
      have "wait_loop take_next deadline ts (bus_run (tk_others t) q) = (res, q', ts')"
        by (simp add: Let_def)
      from Cons.IH [OF this] obtain pre where pre: "ts = pre @ ts'" and
        r: "case res of
           Ok (Some e) \<Rightarrow>
             take_next (bus_run (others_in pre) (bus_run (tk_others t) q)) = (Some e, q') \<and>
             (\<forall>t \<in> set pre. tk_now t < deadline)
         | Ok None \<Rightarrow>
             q' = bus_run (others_in pre) (bus_run (tk_others t) q) \<and>
             (\<exists>before t'. pre = before @ [t'] \<and> tk_now t' \<ge> deadline \<and> (\<forall>t \<in> set before. tk_now t < deadline) \<and>
                fst (take_next (bus_run (others_in before) (bus_run (tk_others t) q))) = None)
         | Stuck \<Rightarrow>
             ts' = [] \<and> q' = bus_run (others_in pre) (bus_run (tk_others t) q) \<and> fst (take_next q') = None \<and>
             (\<forall>t \<in> set pre. tk_now t < deadline)
         | _ \<Rightarrow> False" by blast
      have "\<exists>before' t''. t # pre = before' @ [t''] \<and> deadline \<le> tk_now t'' \<and> (\<forall>t \<in> set before'. tk_now t < deadline) \<and>
          fst (take_next (bus_run (others_in before') q)) = None" if "res = Ok None"
      proof -
        from that r obtain before t' where b: "pre = before @ [t']" "tk_now t' \<ge> deadline"
          "\<forall>t \<in> set before. tk_now t < deadline"
          "fst (take_next (bus_run (others_in before) (bus_run (tk_others t) q))) = None" by auto
        with False show ?thesis
          by (intro exI [of _ "t # before"] exI [of _ t']) (simp add: others_in_def)
      qed
      with r pre False show ?thesis
        by (intro exI [of _ "t # pre"])
          (auto simp: others_in_def split: outcome.splits option.splits)
    qed
  qed
qed

definition quiet :: "nat \<Rightarrow> bus_cmd list \<Rightarrow> bool" where
  "quiet h cs \<longleftrightarrow> (\<forall>c \<in> set cs. \<not> rewinds h c \<and> c \<noteq> BC_Take h)"

lemma quiet_append [simp]: "quiet h (cs @ ds) \<longleftrightarrow> quiet h cs \<and> quiet h ds"
  by (auto simp: quiet_def)

lemma quiet_run:
  assumes "handle_ok h q" and "quiet h cs"
  shows "handle_ok h (bus_run cs q) \<and> pending h (bus_run cs q) = pending h q @ published cs"
proof -
  have "received h cs q = []" using assms(2) by (induction cs arbitrary: q) (auto simp: quiet_def)
  with received_pending [OF assms(1), of cs] assms(2) show ?thesis by (simp add: quiet_def)
qed

text \<open>A handle has a position and a list of acknowledgements.\<close>

definition handle_live :: "nat \<Rightarrow> queue_state \<Rightarrow> bool" where
  "handle_live h q \<longleftrightarrow> handle_ok h q \<and> h < length (iq_acked q)"

lemma acked_length_run: "length (iq_acked q) \<le> length (iq_acked (bus_run cs q))"
proof (induction cs arbitrary: q)
  case (Cons c cs)
  have "length (iq_acked q) \<le> length (iq_acked (bus_exec c q))"
    by (cases c) (auto simp: bus_ops Let_def take_event_def take_message_def split: option.split)
  with Cons [of "bus_exec c q"] show ?case by simp
qed simp

lemma quiet_run_live:
  "handle_live h q \<Longrightarrow> quiet h cs \<Longrightarrow>
    handle_live h (bus_run cs q) \<and> (\<exists>more. pending h (bus_run cs q) = pending h q @ more)"
  using quiet_run [of h q cs] acked_length_run [of q cs] by (auto simp: handle_live_def)

lemma take_event_live:
  assumes "handle_live h q"
  shows "handle_live h (snd (take_event h q)) \<and>
    pending h q = (case fst (take_event h q) of Some e \<Rightarrow> [e] | None \<Rightarrow> []) @ pending h (snd (take_event h q))"
  using assms take_event_effect [of h q]
  by (auto simp: handle_live_def) (simp add: take_event_def Let_def)

definition quiet_world :: "nat \<Rightarrow> queue_world \<Rightarrow> bool" where
  "quiet_world h w \<longleftrightarrow> handle_live h (fst w) \<and> (\<forall>t \<in> set (snd w). quiet h (tk_others t))"

lemma quiet_others: "\<forall>t \<in> set ts. quiet h (tk_others t) \<Longrightarrow> quiet h (others_in ts)"
  by (auto simp: others_in_def quiet_def)

lemma poll_result:
  assumes "iq_poll h ms w = (res, w')"
  obtains (no_clock) "snd w = []" "res = Stuck" "w' = w"
    | (event) e t pre where "res = Ok (Some e)" "snd w = t # pre @ snd w'"
        "take_event h (bus_run (others_in (t # pre)) (fst w)) = (Some e, fst w')"
        "\<forall>t' \<in> set pre. tk_now t' < tk_now t + unat ms * 1000000"
    | (timeout) t before t' where "res = Ok None" "snd w = t # before @ t' # snd w'"
        "fst w' = bus_run (others_in (t # before @ [t'])) (fst w)"
        "tk_now t' \<ge> tk_now t + unat ms * 1000000"
        "fst (take_event h (bus_run (others_in (t # before)) (fst w))) = None"
    | (waiting) t pre where "res = Stuck" "snd w = t # pre" "snd w' = []"
        "\<forall>t' \<in> set pre. tk_now t' < tk_now t + unat ms * 1000000"
proof (cases "snd w")
  case Nil
  with assms show thesis by (intro no_clock) (simp_all add: iq_poll_def wait_until_def)
next
  case (Cons t ts)
  let ?d = "tk_now t + unat ms * 1000000"
  let ?q = "bus_run (tk_others t) (fst w)"
  have run: "wait_loop (take_event h) ?d ts ?q = (res, fst w', snd w')"
    using assms Cons by (simp add: iq_poll_def wait_until_def)
  have o: "bus_run (others_in (t # xs)) (fst w) = bus_run (others_in xs) ?q" for xs
    by (simp add: others_in_def)
  from wait_loop_cases [OF leaves_empty_takes(1) run] obtain pre where pre: "ts = pre @ snd w'" and r: "case res of
       Ok (Some e) \<Rightarrow>
         take_event h (bus_run (others_in pre) ?q) = (Some e, fst w') \<and> (\<forall>t \<in> set pre. tk_now t < ?d)
     | Ok None \<Rightarrow>
         fst w' = bus_run (others_in pre) ?q \<and>
         (\<exists>before t. pre = before @ [t] \<and> tk_now t \<ge> ?d \<and> (\<forall>t \<in> set before. tk_now t < ?d) \<and>
            fst (take_event h (bus_run (others_in before) ?q)) = None)
     | Stuck \<Rightarrow>
         snd w' = [] \<and> fst w' = bus_run (others_in pre) ?q \<and> fst (take_event h (fst w')) = None \<and>
         (\<forall>t \<in> set pre. tk_now t < ?d)
     | _ \<Rightarrow> False" by blast
  consider e where "res = Ok (Some e)" | "res = Ok None" | "res = Stuck"
    using r by (auto split: outcome.splits option.splits)
  then show thesis
  proof cases
    case 1
    with r pre Cons show thesis by (intro event [of e t pre]) (simp_all add: o)
  next
    case 2
    with r obtain before t' where b: "pre = before @ [t']" "tk_now t' \<ge> ?d"
      "fst (take_event h (bus_run (others_in before) ?q)) = None"
      "fst w' = bus_run (others_in pre) ?q" by auto
    with 2 pre Cons show thesis by (intro timeout [of t before t']) (simp_all add: o)
  next
    case 3
    with r pre Cons show thesis by (intro waiting [of t pre]) simp_all
  qed
qed

section \<open>Sources of events\<close>

text \<open>
  What the receiver relies on: a poll gives the next pending event, in order, and loses none;
  more may arrive while it waits.
\<close>

locale event_source =
  fixes poll :: "u64 \<Rightarrow> ('s, publish_error, bus_event option) call"
    and inv :: "'s \<Rightarrow> bool"
    and waiting :: "'s \<Rightarrow> bus_event list"
  assumes poll_some: "inv s \<Longrightarrow> poll ms s = (Ok (Some e), s') \<Longrightarrow>
      inv s' \<and> (\<exists>more. waiting s @ more = e # waiting s')"
    and poll_none: "inv s \<Longrightarrow> poll ms s = (Ok None, s') \<Longrightarrow>
      inv s' \<and> (\<exists>more. waiting s' = waiting s @ more)"
begin

lemma recv_loop_result:
  assumes "inv s" and "sub_poll (er_subscriber E) = poll"
    and "recv_loop E deadline clocks s = (Ok r, s')"
  shows "inv s' \<and>
    (\<exists>skipped more. waiting s @ more = skipped @ (case r of Some e \<Rightarrow> [e] | None \<Rightarrow> []) @ waiting s' \<and>
       (\<forall>x \<in> set skipped. be_event_type x \<notin> er_event_types E) \<and>
       (\<forall>e. r = Some e \<longrightarrow> be_event_type e \<in> er_event_types E))"
  using assms(1,3)
proof (induction clocks arbitrary: s)
  case (Cons now clocks)
  show ?case
  proof (cases "deadline - now = 0")
    case True
    with Cons.prems have "r = None" "s' = s" by (simp_all add: Let_def)
    with Cons.prems(1) show ?thesis by (intro conjI exI [of _ "[]"]) simp_all
  next
    case False
    obtain pr s1 where p: "poll (of_nat ((deadline - now) div 1000000)) s = (pr, s1)" by force
    with Cons.prems(2) False consider (got) e where "pr = Ok (Some e)" | (timeout) "pr = Ok None"
      by (auto simp: assms(2) Let_def split: outcome.splits option.splits)
    then show ?thesis
    proof cases
      case timeout
      with p timeout poll_none [OF Cons.prems(1), of _ s1] obtain more where "inv s1" "waiting s1 = waiting s @ more" by blast
      moreover have "r = None" "s' = s1" using Cons.prems(2) False p timeout by (simp_all add: assms(2) Let_def)
      ultimately show ?thesis by (intro conjI exI [of _ "[]"] exI [of _ more]) simp_all
    next
      case (got e)
      with p poll_some [OF Cons.prems(1), of _ e s1] obtain more
        where w: "inv s1" "waiting s @ more = e # waiting s1" by blast
      show ?thesis
      proof (cases "be_event_type e \<in> er_event_types E")
        case True
        then have "r = Some e" "s' = s1"
          using Cons.prems(2) False p got by (simp_all add: assms(2) Let_def)
        with w True show ?thesis by (intro conjI exI [of _ "[]"] exI [of _ more]) simp_all
      next
        case no: False
        then have "recv_loop E deadline clocks s1 = (Ok r, s')"
          using Cons.prems(2) False p got by (simp add: assms(2) Let_def)
        from Cons.IH [OF w(1) this] obtain skipped more2 where
          r: "inv s'" "waiting s1 @ more2 = skipped @ (case r of Some e \<Rightarrow> [e] | None \<Rightarrow> []) @ waiting s'"
          "\<forall>x \<in> set skipped. be_event_type x \<notin> er_event_types E"
          "\<forall>e. r = Some e \<longrightarrow> be_event_type e \<in> er_event_types E" by blast
        have "waiting s @ (more @ more2) = (e # skipped) @ (case r of Some e \<Rightarrow> [e] | None \<Rightarrow> []) @ waiting s'"
          using w(2) r(2) by (metis append.assoc append_Cons)
        with r(1,3,4) no show ?thesis by (intro conjI exI [of _ "e # skipped"] exI [of _ "more @ more2"]) simp_all
      qed
    qed
  qed
qed simp

lemma recv_result:
  assumes "inv s" and "sub_poll (er_subscriber E) = poll" and "recv E ms clocks s = (Ok r, s')"
  shows "inv s' \<and>
    (\<exists>skipped more. waiting s @ more = skipped @ (case r of Some e \<Rightarrow> [e] | None \<Rightarrow> []) @ waiting s' \<and>
       (\<forall>x \<in> set skipped. be_event_type x \<notin> er_event_types E) \<and>
       (\<forall>e. r = Some e \<longrightarrow> be_event_type e \<in> er_event_types E))"
  using assms(3) recv_loop_result [OF assms(1,2)]
  by (cases clocks) (simp_all add: recv_def)

end

text \<open>
  A waiting call on any way of taking is such a source, as long as what others do in between
  only adds to what is waiting.
\<close>

lemma wait_until_gives:
  assumes "leaves_empty take_next"
    and taking: "\<And>q. ok q \<Longrightarrow> ok (snd (take_next q)) \<and>
      waiting q = (case fst (take_next q) of Some e \<Rightarrow> [e] | None \<Rightarrow> []) @ waiting (snd (take_next q))"
    and others: "\<And>q cs. ok q \<Longrightarrow> calm cs \<Longrightarrow>
      ok (bus_run cs q) \<and> (\<exists>more. waiting (bus_run cs q) = waiting q @ more)"
    and calm: "\<And>ts. \<forall>t \<in> set ts. calm (tk_others t) \<Longrightarrow> calm (others_in ts)"
    and w: "ok (fst w)" "\<forall>t \<in> set (snd w). calm (tk_others t)"
    and run: "wait_until take_next ms w = (Ok r, w')"
  shows "(ok (fst w') \<and> (\<forall>t \<in> set (snd w'). calm (tk_others t))) \<and>
    (\<exists>more. waiting (fst w) @ more = (case r of Some e \<Rightarrow> [e] | None \<Rightarrow> []) @ waiting (fst w'))"
proof -
  from run obtain t ts where ts: "snd w = t # ts" by (cases "snd w") (simp_all add: wait_until_def)
  let ?q = "bus_run (tk_others t) (fst w)"
  from run ts have "wait_loop take_next (tk_now t + unat ms * 1000000) ts ?q = (Ok r, fst w', snd w')"
    by (simp add: wait_until_def)
  from wait_loop_cases [OF assms(1) this] obtain pre where pre: "ts = pre @ snd w'"
    and r: "case r of Some e \<Rightarrow> take_next (bus_run (others_in pre) ?q) = (Some e, fst w')
      | None \<Rightarrow> fst w' = bus_run (others_in pre) ?q"
    by (auto split: option.splits)
  let ?p = "bus_run (others_in (t # pre)) (fst w)"
  have "calm (others_in (t # pre))" using w(2) ts pre by (intro calm) auto
  from others [OF w(1) this] obtain more where
    p: "ok ?p" "waiting ?p = waiting (fst w) @ more" by blast
  have "?p = bus_run (others_in pre) ?q" by (simp add: others_in_def)
  with r taking [OF p(1)] p have "ok (fst w')"
    "waiting (fst w) @ more = (case r of Some e \<Rightarrow> [e] | None \<Rightarrow> []) @ waiting (fst w')"
    by (cases r; simp)+
  with w(2) ts pre show ?thesis by auto
qed

lemma wait_until_source:
  assumes "leaves_empty take_next"
    and "\<And>q. ok q \<Longrightarrow> ok (snd (take_next q)) \<and>
      waiting q = (case fst (take_next q) of Some e \<Rightarrow> [e] | None \<Rightarrow> []) @ waiting (snd (take_next q))"
    and "\<And>q cs. ok q \<Longrightarrow> calm cs \<Longrightarrow>
      ok (bus_run cs q) \<and> (\<exists>more. waiting (bus_run cs q) = waiting q @ more)"
    and "\<And>ts. \<forall>t \<in> set ts. calm (tk_others t) \<Longrightarrow> calm (others_in ts)"
  shows "event_source (wait_until take_next)
    (\<lambda>w. ok (fst w) \<and> (\<forall>t \<in> set (snd w). calm (tk_others t))) (\<lambda>w. waiting (fst w))"
proof
  have gives: "(ok (fst w') \<and> (\<forall>t \<in> set (snd w'). calm (tk_others t))) \<and>
      (\<exists>more. waiting (fst w) @ more = (case r of Some e \<Rightarrow> [e] | None \<Rightarrow> []) @ waiting (fst w'))"
    if "ok (fst w)" "\<forall>t \<in> set (snd w). calm (tk_others t)" "wait_until take_next ms w = (Ok r, w')"
    for w ms r w'
    by (rule wait_until_gives [where ok = ok and waiting = waiting and calm = calm, OF assms that])
  fix w :: queue_world and ms w'
  assume w: "ok (fst w) \<and> (\<forall>t \<in> set (snd w). calm (tk_others t))"
  show "(ok (fst w') \<and> (\<forall>t \<in> set (snd w'). calm (tk_others t))) \<and>
      (\<exists>more. waiting (fst w) @ more = e # waiting (fst w'))"
    if "wait_until take_next ms w = (Ok (Some e), w')" for e
    using gives [OF _ _ that] w by simp
  show "(ok (fst w') \<and> (\<forall>t \<in> set (snd w'). calm (tk_others t))) \<and>
      (\<exists>more. waiting (fst w') = waiting (fst w) @ more)"
    if "wait_until take_next ms w = (Ok None, w')"
    using gives [OF _ _ that] w by (simp add: eq_commute)
qed

interpretation iq: event_source "iq_poll h" "quiet_world h" "\<lambda>w. pending h (fst w)" for h
  unfolding iq_poll_def quiet_world_def [abs_def]
  by (rule wait_until_source [where ok = "handle_live h" and waiting = "pending h" and calm = "quiet h",
        OF leaves_empty_takes(1) take_event_live quiet_run_live quiet_others])

text \<open>A listener that is alone on its queue.\<close>

definition sole_listener :: "string \<Rightarrow> bus_cmd list \<Rightarrow> bool" where
  "sole_listener name cs \<longleftrightarrow> BC_Take_Message name \<notin> set cs"

definition sole_world :: "string \<Rightarrow> queue_world \<Rightarrow> bool" where
  "sole_world name w \<longleftrightarrow> queues_ok (fst w) \<and> (\<forall>t \<in> set (snd w). sole_listener name (tk_others t))"

lemma take_message_effect:
  assumes "queues_ok q"
  shows "queues_ok (snd (take_message name q)) \<and>
    p2p_pending name q =
      (case fst (take_message name q) of Some e \<Rightarrow> [e] | None \<Rightarrow> []) @
      p2p_pending name (snd (take_message name q))"
  using p2p_exec [OF assms, of "BC_Take_Message name" name] by simp

lemma sole_run:
  assumes "queues_ok q" and "sole_listener name cs"
  shows "queues_ok (bus_run cs q) \<and> (\<exists>more. p2p_pending name (bus_run cs q) = p2p_pending name q @ more)"
proof -
  have "listened name cs q = []"
    using assms(2) by (induction cs arbitrary: q) (auto simp: sole_listener_def)
  with listened_pending [OF assms(1), of cs name] show ?thesis by (metis append_Nil)
qed

lemma sole_others: "\<forall>t \<in> set ts. sole_listener name (tk_others t) \<Longrightarrow> sole_listener name (others_in ts)"
  by (auto simp: sole_listener_def others_in_def)

interpretation lq: event_source "iq_listen name" "sole_world name" "\<lambda>w. p2p_pending name (fst w)" for name
  unfolding iq_listen_def sole_world_def [abs_def]
  by (rule wait_until_source [where ok = queues_ok and waiting = "p2p_pending name" and calm = "sole_listener name",
        OF leaves_empty_takes(2) take_message_effect sole_run sole_others])

section \<open>Properties\<close>

text \<open>
  C24: Fan-out.  However publishers, other subscribers, listeners and the subscriber itself
  interleave, a new subscriber receives the log from its beginning, in order, each event
  exactly once: what it has received and what it still has to read together are all that was
  ever published, as long as its position is not reset and the log not cleared.
\<close>

theorem bus_fanout_delivery:
  assumes "iq_new_subscriber q = (h, q0)" and "\<forall>c \<in> set cs. \<not> rewinds h c"
  shows "iq_log (bus_run cs q0) = iq_log q @ published cs \<and>
    received h cs q0 @ pending h (bus_run cs q0) = iq_log q @ published cs"
proof -
  have h: "handle_ok h q0" "pending h q0 = iq_log q" "iq_log q0 = iq_log q"
    using assms(1) by (auto simp: iq_new_subscriber_def handle_ok_def pending_def)
  have "\<forall>c \<in> set cs. \<forall>h. c \<noteq> BC_Clear h" using assms(2) by auto
  from log_run [OF this, of q0] received_pending [OF h(1) assms(2)] h(2,3) show ?thesis by simp
qed

theorem bus_fanout_delivery_witness:
  "let e1 = bus_event_new ''1'' ''A'' []; e2 = bus_event_new ''2'' ''B'' [];
       cs = [BC_Publish e1, BC_Take 0, BC_Take 1, BC_Publish e2, BC_Take 1];
       q0 = snd (iq_new_subscriber in_memory_queue_new)
   in received 1 cs q0 @ pending 1 (bus_run cs q0) = [e1, e2] \<and> received 1 cs q0 = [e1, e2]"
proof -
  let ?e1 = "bus_event_new ''1'' ''A'' []" and ?e2 = "bus_event_new ''2'' ''B'' []"
  let ?cs = "[BC_Publish ?e1, BC_Take 0, BC_Take 1, BC_Publish ?e2, BC_Take 1]"
  obtain q0 where q0: "iq_new_subscriber in_memory_queue_new = (1, q0)"
    by (simp add: iq_new_subscriber_def in_memory_queue_new_def)
  have "received 1 ?cs q0 = [?e1, ?e2]"
    using q0 by (auto simp: iq_new_subscriber_def in_memory_queue_new_def take_event_def iq_publish_def Let_def)
  with bus_fanout_delivery [OF q0, of ?cs] q0 show ?thesis
    by (simp add: Let_def) (simp add: in_memory_queue_new_def)
qed

text \<open>
  C25: Point-to-point.  The listeners of a named queue share one position: whatever the
  interleaving, the messages they have taken, in the order of taking, followed by those still
  waiting, are the ones that were waiting and those sent since, so each message is taken by
  exactly one listener, in the order sent.
\<close>

theorem bus_point_to_point_delivery:
  assumes "queues_ok q"
  shows "queues_ok (bus_run cs q) \<and>
    listened name cs q @ p2p_pending name (bus_run cs q) = p2p_pending name q @ sent name cs"
  using listened_pending [OF assms] by auto

theorem bus_point_to_point_delivery_witness:
  "let e1 = bus_event_new ''1'' ''A'' []; e2 = bus_event_new ''2'' ''B'' [];
       cs = [BC_Send ''jobs'' e1, BC_Send ''jobs'' e2, BC_Take_Message ''jobs'', BC_Take_Message ''other'']
   in listened ''jobs'' cs in_memory_queue_new @ p2p_pending ''jobs'' (bus_run cs in_memory_queue_new) = [e1, e2]"
proof -
  have "queues_ok in_memory_queue_new" by (simp add: queues_ok_def in_memory_queue_new_def lookup_empty)
  from bus_point_to_point_delivery [OF this, of _ "''jobs''"] show ?thesis
    by (simp add: Let_def p2p_pending_def) (simp add: in_memory_queue_new_def lookup_empty)
qed

text \<open>
  \<open>poll\<close> is a waiting call: it returns the next event as soon as one is there when it
  looks, otherwise it looks again until its clock has passed the deadline, and then returns
  nothing, having taken nothing.  It has not returned only while the clock is before the
  deadline.
\<close>

theorem poll_outcome:
  assumes "iq_poll h ms (q, t # ts) = (res, q', ts')"
  shows "(\<exists>e pre. res = Ok (Some e) \<and> ts = pre @ ts' \<and>
       take_event h (bus_run (others_in (t # pre)) q) = (Some e, q')) \<or>
    (\<exists>before t'. res = Ok None \<and> ts = before @ t' # ts' \<and> tk_now t' \<ge> tk_now t + unat ms * 1000000 \<and>
       fst (take_event h (bus_run (others_in (t # before)) q)) = None \<and>
       q' = bus_run (others_in (t # before @ [t'])) q) \<or>
    (res = Stuck \<and> ts' = [] \<and> (\<forall>t' \<in> set ts. tk_now t' < tk_now t + unat ms * 1000000))"
  using assms by (cases rule: poll_result) auto

theorem poll_outcome_witness:
  "\<exists>q' ts'. iq_poll 0 1 (in_memory_queue_new,
      [\<lparr>tk_others = [], tk_now = 5\<rparr>, \<lparr>tk_others = [BC_Publish (bus_event_new ''1'' ''A'' [])], tk_now = 9\<rparr>,
       \<lparr>tk_others = [], tk_now = 2000000\<rparr>]) = (Ok (Some (bus_event_new ''1'' ''A'' [])), q', ts')"
proof -
  let ?t = "\<lparr>tk_others = [], tk_now = 5\<rparr>" and
    ?ts = "[\<lparr>tk_others = [BC_Publish (bus_event_new ''1'' ''A'' [])], tk_now = 9\<rparr>, \<lparr>tk_others = [], tk_now = 2000000\<rparr>]"
  obtain res q' ts' where p: "iq_poll 0 1 (in_memory_queue_new, ?t # ?ts) = (res, q', ts')"
    by (cases "iq_poll 0 1 (in_memory_queue_new, ?t # ?ts)")
  then have r: "res = Ok (Some (bus_event_new ''1'' ''A'' []))"
    by (auto simp: iq_poll_def wait_until_def take_event_def in_memory_queue_new_def iq_publish_def Let_def)
  from poll_outcome [OF p] p r show ?thesis by simp
qed

text \<open>
  The filtered receiver.  What \<open>recv\<close> returns is the first event of a subscribed type that
  was waiting or arrived meanwhile; the events it reads past are all of other types, and what
  is left to read afterwards is everything behind, in order.
\<close>

theorem recv_delivers_next_match:
  assumes "quiet_world h w"
    and "recv (event_receiver_new (in_memory_subscriber h) types) ms clocks w = (Ok r, w')"
  shows "\<exists>skipped more.
    pending h (fst w) @ more = skipped @ (case r of Some e \<Rightarrow> [e] | None \<Rightarrow> []) @ pending h (fst w') \<and>
    (\<forall>x \<in> set skipped. be_event_type x \<notin> set types) \<and>
    (\<forall>e. r = Some e \<longrightarrow> be_event_type e \<in> set types)"
  using iq.recv_result [OF assms(1) _ assms(2)]
  by (simp add: event_receiver_new_def in_memory_subscriber_def)

theorem recv_delivers_next_match_witness:
  "\<exists>w'. recv (event_receiver_new (in_memory_subscriber 0) [''B'']) 1 [0, 1, 2]
      (bus_run [BC_Publish (bus_event_new ''1'' ''A'' []), BC_Publish (bus_event_new ''2'' ''B'' [])] in_memory_queue_new,
       [\<lparr>tk_others = [], tk_now = 1\<rparr>, \<lparr>tk_others = [], tk_now = 2\<rparr>]) =
     (Ok (Some (bus_event_new ''2'' ''B'' [])), w') \<and> pending 0 (fst w') = []"
proof -
  let ?q = "bus_run [BC_Publish (bus_event_new ''1'' ''A'' []), BC_Publish (bus_event_new ''2'' ''B'' [])] in_memory_queue_new"
  let ?w = "(?q, [\<lparr>tk_others = [], tk_now = 1\<rparr>, \<lparr>tk_others = [], tk_now = 2\<rparr>])"
  let ?E = "event_receiver_new (in_memory_subscriber 0) [''B'']"
  have quiet: "quiet_world 0 ?w"
    by (simp add: quiet_world_def quiet_def handle_live_def handle_ok_def iq_publish_def in_memory_queue_new_def)
  obtain w' where r: "recv ?E 1 [0, 1, 2] ?w = (Ok (Some (bus_event_new ''2'' ''B'' [])), w')"
    by (simp add: recv_def event_receiver_new_def in_memory_subscriber_def iq_poll_def wait_until_def
        take_event_def iq_publish_def in_memory_queue_new_def bus_event_new_def Let_def)
  then have "pending 0 (fst w') = []"
    by (auto simp: recv_def event_receiver_new_def in_memory_subscriber_def iq_poll_def wait_until_def
        take_event_def iq_publish_def in_memory_queue_new_def bus_event_new_def Let_def pending_def)
  with recv_delivers_next_match [OF quiet r] r show ?thesis by blast
qed

text \<open>
  \<open>try_recv\<close> never receives.  It is \<open>recv\<close> with no time: the deadline is the first clock
  reading, so with a clock that does not go back it returns nothing without looking at the
  subscriber, even when a matching event is waiting.
\<close>

theorem try_recv_never_receives:
  assumes "start \<le> now"
  shows "try_recv E (start # now # clocks) s = (Ok None, s)"
  using assms by (simp add: try_recv_def recv_def)

theorem try_recv_never_receives_witness:
  "let w = (bus_run [BC_Publish (bus_event_new ''1'' ''A'' [])] in_memory_queue_new, [])
   in pending 0 (fst w) = [bus_event_new ''1'' ''A'' []] \<and>
      try_recv (event_receiver_new (in_memory_subscriber 0) [''A'']) [3, 3] w = (Ok None, w)"
  using try_recv_never_receives [of 3 3]
  by (simp add: Let_def pending_def iq_publish_def in_memory_queue_new_def)

text \<open>
  The two ways to publish many.  The batch operation of the in-memory queue does what the
  default of the trait does, publishing the events one after the other.
\<close>

theorem publish_batch_is_sequential:
  "pub_publish_batch in_memory_publisher es w =
     publish_batch_default (pub_publish in_memory_publisher) es w"
proof (induction es arbitrary: w)
  case Nil
  then show ?case by (cases w) (simp add: in_memory_publisher_def on_queue_def iq_publish_batch_def)
next
  case (Cons e es)
  have "pub_publish in_memory_publisher e w = (Ok (), iq_publish e (fst w), snd w)"
    by (simp add: in_memory_publisher_def on_queue_def)
  then have "publish_batch_default (pub_publish in_memory_publisher) (e # es) w =
      pub_publish_batch in_memory_publisher es (iq_publish e (fst w), snd w)"
    by (simp add: Cons.IH)
  moreover have "pub_publish_batch in_memory_publisher xs v = (Ok (), iq_publish_batch xs (fst v), snd v)" for xs v
    by (simp add: in_memory_publisher_def on_queue_def)
  ultimately show ?case by (simp only:) (simp add: iq_publish_def iq_publish_batch_def)
qed

end
