(* ===== verification/Outbox_Worker.thy ===== *)
theory Outbox_Worker
  imports Outbox_Store In_Memory_Queue
begin

text \<open>
  Draining the outbox (\<open>src/outbox_worker/publisher.rs\<close>, \<open>worker.rs\<close>, \<open>thread.rs\<close>): the
  publishers, the worker that processes loaded messages, and the background thread that claims
  messages from a repository and publishes them to a bus.
\<close>

section \<open>Publishers\<close>

text \<open>\<open>ob_display\<close> is the \<open>Display\<close> of the publisher's error type.\<close>

record ('p, 'e) outbox_publisher =
  ob_publish :: "string \<Rightarrow> bytes \<Rightarrow> metadata \<Rightarrow> ('p, 'e, unit) call"
  ob_display :: "'e \<Rightarrow> string"

datatype log_publisher_error = BufferPoisoned

fun log_publisher_error_display :: "log_publisher_error \<Rightarrow> string" where
  "log_publisher_error_display BufferPoisoned = ''log publisher buffer poisoned''"

text \<open>
  \<open>lp_buffer\<close> is the shared buffer with its poison flag, when there is one; \<open>lp_stdout\<close> what was
  printed.
\<close>

record log_publisher =
  lp_buffer :: "(bool \<times> string list) option"
  lp_stdout :: "string list"

definition log_publisher_new :: log_publisher where
  "log_publisher_new = \<lparr>lp_buffer = None, lp_stdout = []\<rparr>"

definition log_publisher_with_buffer :: "bool \<times> string list \<Rightarrow> log_publisher" where
  "log_publisher_with_buffer buffer = \<lparr>lp_buffer = Some buffer, lp_stdout = []\<rparr>"

text \<open>\<open>debug\<close> is the \<open>Debug\<close> text of a hash map, whose order of entries is not determined.\<close>

definition log_publish ::
    "(metadata \<Rightarrow> string) \<Rightarrow> string \<Rightarrow> bytes \<Rightarrow> metadata \<Rightarrow> (log_publisher, log_publisher_error, unit) call" where
  "log_publish debug event_type payload md p =
     (let payload_str = from_utf8_lossy payload;
          meta_str = (if Mapping.is_empty md then [] else '' meta='' @ debug md);
          line = ''[OUTBOX] '' @ event_type @ '' '' @ payload_str @ meta_str
      in case lp_buffer p of
           Some (poisoned, lines) \<Rightarrow>
             (if poisoned then (Err BufferPoisoned, p)
              else (Ok (), p\<lparr>lp_buffer := Some (poisoned, lines @ [line])\<rparr>))
         | None \<Rightarrow> (Ok (), p\<lparr>lp_stdout := lp_stdout p @ [line]\<rparr>))"

definition log_outbox_publisher ::
    "(metadata \<Rightarrow> string) \<Rightarrow> (log_publisher, log_publisher_error) outbox_publisher" where
  "log_outbox_publisher debug =
     \<lparr>ob_publish = log_publish debug, ob_display = log_publisher_error_display\<rparr>"

text \<open>The emitter is an external crate: \<open>emit\<close> is what its \<open>emit\<close> does.\<close>

definition local_emitter_publish ::
    "(string \<Rightarrow> string \<Rightarrow> 'em \<Rightarrow> 'em) \<Rightarrow> string \<Rightarrow> bytes \<Rightarrow> metadata \<Rightarrow> ('em, 'e, unit) call" where
  "local_emitter_publish emit event_type payload md em =
     (let payload_str = from_utf8_lossy payload in (Ok (), emit event_type payload_str em))"

text \<open>The payload of a message as text.\<close>

definition om_payload_str :: "outbox_message \<Rightarrow> string option" where
  "om_payload_str m = from_utf8 (om_payload m)"

section \<open>The worker\<close>

record drain_result =
  dr_claimed :: nat
  dr_completed :: nat
  dr_released :: nat
  dr_failed :: nat

definition drain_result_default :: drain_result where
  "drain_result_default = \<lparr>dr_claimed = 0, dr_completed = 0, dr_released = 0, dr_failed = 0\<rparr>"

record process_one_result =
  po_did_work :: bool
  po_completed :: bool
  po_released :: bool
  po_failed :: bool

definition process_one_result_default :: process_one_result where
  "process_one_result_default =
     \<lparr>po_did_work = False, po_completed = False, po_released = False, po_failed = False\<rparr>"

record 'p outbox_worker =
  ow_publisher :: 'p
  ow_worker_id :: string
  ow_batch_size :: nat
  ow_lease :: duration
  ow_max_attempts :: u32

text \<open>\<open>pid\<close> is the process id.\<close>

definition outbox_worker_new :: "nat \<Rightarrow> 'p \<Rightarrow> 'p outbox_worker" where
  "outbox_worker_new pid publisher =
     \<lparr>ow_publisher = publisher, ow_worker_id = ''worker-'' @ show_nat pid, ow_batch_size = 10,
      ow_lease = duration_from_secs 60, ow_max_attempts = 3\<rparr>"

definition with_worker_id :: "string \<Rightarrow> 'p outbox_worker \<Rightarrow> 'p outbox_worker" where
  "with_worker_id i w = w\<lparr>ow_worker_id := i\<rparr>"

definition with_batch_size :: "nat \<Rightarrow> 'p outbox_worker \<Rightarrow> 'p outbox_worker" where
  "with_batch_size n w = w\<lparr>ow_batch_size := n\<rparr>"

definition with_lease :: "duration \<Rightarrow> 'p outbox_worker \<Rightarrow> 'p outbox_worker" where
  "with_lease lease w = w\<lparr>ow_lease := lease\<rparr>"

definition with_max_attempts :: "u32 \<Rightarrow> 'p outbox_worker \<Rightarrow> 'p outbox_worker" where
  "with_max_attempts mx w = w\<lparr>ow_max_attempts := mx\<rparr>"

text \<open>The worker, its publisher and the message are changed in place.\<close>

definition publish_message ::
    "outbox_codec \<Rightarrow> ('p, 'e) outbox_publisher \<Rightarrow> system_time \<Rightarrow>
     ('p outbox_worker \<times> outbox_message, unit, process_one_result) call" where
  "publish_message C P now s =
     (case s of (w, m) \<Rightarrow>
        (case ob_publish P (om_event_type m) (om_payload m) (om_metadata m) (ow_publisher w) of
           (Ok _, p) \<Rightarrow>
             (let w' = w\<lparr>ow_publisher := p\<rparr> in
              case complete C now m of
                None \<Rightarrow> (Panic, w', m)
              | Some m' \<Rightarrow>
                  (Ok (process_one_result_default\<lparr>po_did_work := True, po_completed := True\<rparr>), w', m'))
         | (Err err, p) \<Rightarrow>
             (let w' = w\<lparr>ow_publisher := p\<rparr>; error_msg = ob_display P err in
              if ow_max_attempts w \<le> om_attempts m
              then case fail C now error_msg m of
                  None \<Rightarrow> (Panic, w', m)
                | Some m' \<Rightarrow>
                    (Ok (process_one_result_default\<lparr>po_did_work := True, po_failed := True\<rparr>), w', m')
              else case release C now error_msg m of
                  None \<Rightarrow> (Panic, w', m)
                | Some m' \<Rightarrow>
                    (Ok (process_one_result_default\<lparr>po_did_work := True, po_released := True\<rparr>), w', m'))
         | (Panic, p) \<Rightarrow> (Panic, w\<lparr>ow_publisher := p\<rparr>, m)
         | (Stuck, p) \<Rightarrow> (Stuck, w\<lparr>ow_publisher := p\<rparr>, m)))"

definition process_message ::
    "outbox_codec \<Rightarrow> ('p, 'e) outbox_publisher \<Rightarrow> system_time \<Rightarrow>
     ('p outbox_worker \<times> outbox_message, unit, process_one_result) call" where
  "process_message C P now s =
     (case s of (w, m) \<Rightarrow>
        if is_published m \<or> is_failed m then (Ok process_one_result_default, w, m)
        else
          case (if is_pending m then claim_for C now (ow_worker_id w) (ow_lease w) m else Some m) of
            None \<Rightarrow> (Panic, w, m)
          | Some m' \<Rightarrow>
              if \<not> is_in_flight m' then (Ok process_one_result_default, w, m')
              else publish_message C P now (w, m'))"

definition count_result :: "process_one_result \<Rightarrow> drain_result \<Rightarrow> drain_result" where
  "count_result p d =
     \<lparr>dr_claimed = dr_claimed d + (if po_did_work p then 1 else 0),
      dr_completed = dr_completed d + (if po_completed p then 1 else 0),
      dr_released = dr_released d + (if po_released p then 1 else 0),
      dr_failed = dr_failed d + (if po_failed p then 1 else 0)\<rparr>"

fun batch_loop ::
    "outbox_codec \<Rightarrow> ('p, 'e) outbox_publisher \<Rightarrow> system_time \<Rightarrow> nat \<Rightarrow> drain_result \<Rightarrow>
     ('p outbox_worker \<times> outbox_message list, unit, drain_result) call" where
  "batch_loop C P now n d (w, []) = (Ok d, w, [])"
| "batch_loop C P now 0 d (w, ms) = (Ok d, w, ms)"
| "batch_loop C P now (Suc n) d (w, m # ms) =
     (case process_message C P now (w, m) of
        (Ok p, w', m') \<Rightarrow>
          (case batch_loop C P now n (count_result p d) (w', ms) of (r, w'', ms') \<Rightarrow> (r, w'', m' # ms'))
      | (Err err, w', m') \<Rightarrow> (Err err, w', m' # ms)
      | (Panic, w', m') \<Rightarrow> (Panic, w', m' # ms)
      | (Stuck, w', m') \<Rightarrow> (Stuck, w', m' # ms))"

definition process_batch ::
    "outbox_codec \<Rightarrow> ('p, 'e) outbox_publisher \<Rightarrow> system_time \<Rightarrow>
     ('p outbox_worker \<times> outbox_message list, unit, drain_result) call" where
  "process_batch C P now s = batch_loop C P now (ow_batch_size (fst s)) drain_result_default s"

section \<open>The thread\<close>

record 'r outbox_ops =
  oo_by_status :: "outbox_status \<Rightarrow> ('r, repository_error, outbox_message list) call"
  oo_claim :: "string \<Rightarrow> nat \<Rightarrow> duration \<Rightarrow> ('r, repository_error, outbox_message list) call"
  oo_complete :: "string \<Rightarrow> ('r, repository_error, unit) call"
  oo_release :: "string \<Rightarrow> string \<Rightarrow> ('r, repository_error, unit) call"
  oo_fail :: "string \<Rightarrow> string \<Rightarrow> ('r, repository_error, unit) call"

definition hashmap_outbox :: "outbox_codec \<Rightarrow> event_order \<Rightarrow> system_time \<Rightarrow> hm_repo outbox_ops" where
  "hashmap_outbox C ord now =
     \<lparr>oo_by_status = messages_by_status C now ord, oo_claim = claim_outbox_messages C now ord,
      oo_complete = complete_outbox_message C now, oo_release = release_outbox_message C now,
      oo_fail = fail_outbox_message C now\<rparr>"

record worker_stats =
  ws_published :: nat
  ws_failed :: nat
  ws_polls :: nat

definition worker_stats_default :: worker_stats where
  "worker_stats_default = \<lparr>ws_published = 0, ws_failed = 0, ws_polls = 0\<rparr>"

text \<open>The event for a message; \<open>mord\<close> is the iteration order of its metadata.\<close>

definition message_event :: "(metadata \<Rightarrow> string list) \<Rightarrow> outbox_message \<Rightarrow> bus_event" where
  "message_event mord m =
     fold (\<lambda>(k, v). with_metadata k v) (hm_iter (om_metadata m) (mord (om_metadata m)))
       (bus_event_new (om_id m) (om_event_type m) (om_payload m))"

text \<open>Where a message goes: always published, or sent to its destination when it has one.\<close>

definition fan_out :: "'s pub_ops \<Rightarrow> outbox_message \<Rightarrow> bus_event \<Rightarrow> ('s, publish_error, unit) call" where
  "fan_out P m e = pub_publish P e"

definition routed ::
    "'s pub_ops \<Rightarrow> 's sender_ops \<Rightarrow> outbox_message \<Rightarrow> bus_event \<Rightarrow> ('s, publish_error, unit) call" where
  "routed P S m e = (case om_destination m of Some dest \<Rightarrow> snd_send S dest e | None \<Rightarrow> pub_publish P e)"

definition deliver ::
    "'r outbox_ops \<Rightarrow> (outbox_message \<Rightarrow> bus_event \<Rightarrow> ('s, publish_error, unit) call) \<Rightarrow>
     (metadata \<Rightarrow> string list) \<Rightarrow> outbox_message \<Rightarrow> worker_stats \<Rightarrow>
     ('r \<times> 's, unit, worker_stats) call" where
  "deliver B out mord m stats rs =
     (case rs of (r, s) \<Rightarrow>
        (case out m (message_event mord m) s of
           (Ok _, s') \<Rightarrow>
             (case oo_complete B (om_id m) r of
                (Ok _, r') \<Rightarrow> (Ok (stats\<lparr>ws_published := ws_published stats + 1\<rparr>), r', s')
              | (Err _, r') \<Rightarrow> (Ok stats, r', s')
              | (Panic, r') \<Rightarrow> (Panic, r', s')
              | (Stuck, r') \<Rightarrow> (Stuck, r', s'))
         | (Err _, s') \<Rightarrow>
             (case oo_release B (om_id m) ''publish failed'' r of
                (Panic, r') \<Rightarrow> (Panic, r', s')
              | (Stuck, r') \<Rightarrow> (Stuck, r', s')
              | (_, r') \<Rightarrow> (Ok (stats\<lparr>ws_failed := ws_failed stats + 1\<rparr>), r', s'))
         | (Panic, s') \<Rightarrow> (Panic, r, s')
         | (Stuck, s') \<Rightarrow> (Stuck, r, s')))"

fun deliver_all ::
    "'r outbox_ops \<Rightarrow> (outbox_message \<Rightarrow> bus_event \<Rightarrow> ('s, publish_error, unit) call) \<Rightarrow>
     (metadata \<Rightarrow> string list) \<Rightarrow> outbox_message list \<Rightarrow> worker_stats \<Rightarrow>
     ('r \<times> 's, unit, worker_stats) call" where
  "deliver_all B out mord [] stats = st_return stats"
| "deliver_all B out mord (m # ms) stats =
     st_bind (deliver B out mord m stats) (\<lambda>stats'. deliver_all B out mord ms stats')"

definition worker_poll ::
    "'r outbox_ops \<Rightarrow> (outbox_message \<Rightarrow> bus_event \<Rightarrow> ('s, publish_error, unit) call) \<Rightarrow>
     (metadata \<Rightarrow> string list) \<Rightarrow> string \<Rightarrow> worker_stats \<Rightarrow> ('r \<times> 's, unit, worker_stats) call" where
  "worker_poll B out mord worker stats rs =
     (let stats' = stats\<lparr>ws_polls := ws_polls stats + 1\<rparr>; lease = duration_from_secs 60 in
      case oo_claim B worker 100 lease (fst rs) of
        (Ok messages, r) \<Rightarrow> deliver_all B out mord messages stats' (r, snd rs)
      | (Err _, r) \<Rightarrow> (Ok stats', r, snd rs)
      | (Panic, r) \<Rightarrow> (Panic, r, snd rs)
      | (Stuck, r) \<Rightarrow> (Stuck, r, snd rs))"

text \<open>
  One entry of the schedule per turn of the loop: whether the stop signal (or a dropped handle)
  is seen, the clock, and what other threads did to the repository and the bus meanwhile.  At
  the end of the schedule the thread is still running.
\<close>

record ('r, 's) turn =
  tn_others :: "'r \<times> 's \<Rightarrow> 'r \<times> 's"
  tn_stop :: bool
  tn_now :: system_time

fun worker_thread ::
    "(system_time \<Rightarrow> 'r outbox_ops) \<Rightarrow> (outbox_message \<Rightarrow> bus_event \<Rightarrow> ('s, publish_error, unit) call) \<Rightarrow>
     (metadata \<Rightarrow> string list) \<Rightarrow> string \<Rightarrow> ('r, 's) turn list \<Rightarrow> worker_stats \<Rightarrow>
     ('r \<times> 's, unit, worker_stats) call" where
  "worker_thread B out mord worker [] stats = st_lift Stuck"
| "worker_thread B out mord worker (t # ts) stats =
     (\<lambda>rs. let rs' = tn_others t rs in
        if tn_stop t then (Ok stats, rs')
        else st_bind (worker_poll (B (tn_now t)) out mord worker stats)
               (\<lambda>stats'. worker_thread B out mord worker ts stats') rs')"

definition spawn_with_id where
  "spawn_with_id B P mord worker turns = worker_thread B (fan_out P) mord worker turns worker_stats_default"

definition spawn where
  "spawn B P mord turns = spawn_with_id B P mord ''outbox-worker'' turns"

definition spawn_routed_with_id where
  "spawn_routed_with_id B P S mord worker turns =
     worker_thread B (routed P S) mord worker turns worker_stats_default"

definition spawn_routed where
  "spawn_routed B P S mord turns = spawn_routed_with_id B P S mord ''outbox-worker'' turns"

text \<open>\<open>stop\<close> joins the thread; of a thread that panicked it returns empty statistics.\<close>

definition thread_stop :: "(unit, worker_stats) outcome \<Rightarrow> worker_stats" where
  "thread_stop joined = (case joined of Ok stats \<Rightarrow> stats | _ \<Rightarrow> worker_stats_default)"

lemma fold_with_metadata:
  "fold (\<lambda>(k, v). with_metadata k v) kvs e =
     (if kvs = [] then e
      else e\<lparr>be_metadata := Some ((case be_metadata e of None \<Rightarrow> [] | Some md \<Rightarrow> md) @ kvs)\<rparr>)"
  by (induction kvs arbitrary: e) (auto simp: with_metadata_def)

lemma message_event_fields [simp]:
  "be_id (message_event mord m) = om_id m"
  "be_event_type (message_event mord m) = om_event_type m"
  "be_payload (message_event mord m) = om_payload m"
  by (simp_all add: message_event_def fold_with_metadata bus_event_new_def)

lemma message_event_metadata:
  "be_metadata (message_event mord m) =
     (let kvs = hm_iter (om_metadata m) (mord (om_metadata m)) in if kvs = [] then None else Some kvs)"
  by (simp add: message_event_def fold_with_metadata bus_event_new_def Let_def)

section \<open>Processing one message\<close>

definition worker_ok :: "outbox_codec \<Rightarrow> ('p, 'e) outbox_publisher \<Rightarrow> system_time \<Rightarrow> 'p outbox_worker \<Rightarrow> bool" where
  "worker_ok C P now w \<longleftrightarrow>
     claims_work C now (ow_worker_id w) (ow_lease w) \<and> oc_ser_unit C () \<noteq> None \<and>
     (\<forall>err. oc_ser_error C err \<noteq> None) \<and>
     (\<forall>ty pl md p. fst (ob_publish P ty pl md p) \<noteq> Panic \<and> fst (ob_publish P ty pl md p) \<noteq> Stuck)"

lemma in_flight_settles:
  assumes "om_good C m" and "om_status m = InFlight" and "Suc (length (en_events (om_entity m))) < 2 ^ 63"
  shows "oc_ser_unit C () \<noteq> None \<Longrightarrow>
      \<exists>m'. complete C now m = Some m' \<and> om_moved C m m' \<and> om_status m' = Published \<and> om_last_error m' = om_last_error m"
    and "oc_ser_error C err \<noteq> None \<Longrightarrow>
      \<exists>m'. release C now err m = Some m' \<and> om_moved C m m' \<and> om_status m' = Pending \<and>
           om_last_error m' = (if err = [] then None else Some err)"
    and "oc_ser_error C err \<noteq> None \<Longrightarrow>
      \<exists>m'. fail C now err m = Some m' \<and> om_moved C m m' \<and> om_status m' = Failed \<and>
           om_last_error m' = (if err = [] then None else Some err)"
proof -
  have wf: "om_wf m" "vec_fits (en_events (om_entity m))" using assms(1,3) by (simp_all add: om_good_def)
  have nr: "\<not> en_replaying (om_entity m)" using wf(1) by (simp add: om_wf_def)
  have fl: "is_in_flight m" "can_fail m" using assms(2) by (simp_all add: is_in_flight_def can_fail_def)
  note dig = digest_records [where now = now, OF nr]
  show "\<exists>m'. complete C now m = Some m' \<and> om_moved C m m' \<and> om_status m' = Published \<and> om_last_error m' = om_last_error m"
    if "oc_ser_unit C () \<noteq> None"
  proof -
    from that obtain bs where bs: "oc_ser_unit C () = Some bs" by blast
    obtain e where "digest_empty (oc_ser_unit C) now ''MessagePublished'' (om_entity m) = Some e"
      using dig [where ser = "oc_ser_unit C", OF bs] by (metis digest_empty_def)
    then obtain m' where m': "complete C now m = Some m'" "om_status m' = Published" "om_last_error m' = om_last_error m"
      using fl by (simp add: complete_def)
    with complete_moves [OF m'(1) fl(1) wf] show ?thesis by blast
  qed
  show "\<exists>m'. release C now err m = Some m' \<and> om_moved C m m' \<and> om_status m' = Pending \<and>
           om_last_error m' = (if err = [] then None else Some err)"
    if "oc_ser_error C err \<noteq> None"
  proof -
    from that obtain bs where bs: "oc_ser_error C err = Some bs" by blast
    obtain e where "digest (oc_ser_error C) now ''MessageReleased'' err (om_entity m) = Some e"
      using dig [where ser = "oc_ser_error C", OF bs] by blast
    then obtain m' where m': "release C now err m = Some m'" "om_status m' = Pending"
      "om_last_error m' = (if err = [] then None else Some err)"
      using fl by (simp add: release_def)
    with release_moves [OF m'(1) fl(1) wf] show ?thesis by blast
  qed
  show "\<exists>m'. fail C now err m = Some m' \<and> om_moved C m m' \<and> om_status m' = Failed \<and>
           om_last_error m' = (if err = [] then None else Some err)"
    if "oc_ser_error C err \<noteq> None"
  proof -
    from that obtain bs where bs: "oc_ser_error C err = Some bs" by blast
    obtain e where "digest (oc_ser_error C) now ''MessageFailed'' err (om_entity m) = Some e"
      using dig [where ser = "oc_ser_error C", OF bs] by blast
    then obtain m' where m': "fail C now err m = Some m'" "om_status m' = Failed"
      "om_last_error m' = (if err = [] then None else Some err)"
      using fl by (simp add: fail_def)
    with fail_moves [OF m'(1) fl(2) wf] show ?thesis by blast
  qed
qed

lemma moved_facts:
  assumes "om_moved C m m'"
  shows "om_id m' = om_id m" "om_event_type m' = om_event_type m" "om_payload m' = om_payload m"
    "om_metadata m' = om_metadata m" "om_destination m' = om_destination m"
    "length (en_events (om_entity m')) = Suc (length (en_events (om_entity m)))"
    "om_attempts m' = om_attempts m + (if om_status m' = InFlight then 1 else 0)"
  using assms by (auto simp: om_moved_def)

lemma publish_message_spec:
  assumes "om_good C m" and "om_status m = InFlight" and "worker_ok C P now w"
    and "Suc (length (en_events (om_entity m))) < 2 ^ 63"
  shows "\<exists>r m'. publish_message C P now (w, m) =
      (Ok r, w\<lparr>ow_publisher := snd (ob_publish P (om_event_type m) (om_payload m) (om_metadata m) (ow_publisher w))\<rparr>, m') \<and>
    om_moved C m m' \<and>
    (case fst (ob_publish P (om_event_type m) (om_payload m) (om_metadata m) (ow_publisher w)) of
       Err err \<Rightarrow>
         om_last_error m' = (if ob_display P err = [] then None else Some (ob_display P err)) \<and>
         (if ow_max_attempts w \<le> om_attempts m
          then om_status m' = Failed \<and> r = process_one_result_default\<lparr>po_did_work := True, po_failed := True\<rparr>
          else om_status m' = Pending \<and> r = process_one_result_default\<lparr>po_did_work := True, po_released := True\<rparr>)
     | _ \<Rightarrow> om_status m' = Published \<and> r = process_one_result_default\<lparr>po_did_work := True, po_completed := True\<rparr>)"
proof -
  obtain pr p where pub: "ob_publish P (om_event_type m) (om_payload m) (om_metadata m) (ow_publisher w) = (pr, p)"
    by force
  have ser: "oc_ser_unit C () \<noteq> None" "\<And>err. oc_ser_error C err \<noteq> None"
    using assms(3) by (simp_all add: worker_ok_def)
  have "pr \<noteq> Panic" "pr \<noteq> Stuck" using assms(3) pub unfolding worker_ok_def by (metis fst_conv)+
  then consider "pr = Ok ()" | err where "pr = Err err" by (cases pr) auto
  then show ?thesis
  proof cases
    case 1
    with in_flight_settles(1) [OF assms(1,2,4) ser(1), of now] pub show ?thesis
      by (auto simp: publish_message_def Let_def)
  next
    case (2 err)
    show ?thesis
    proof (cases "ow_max_attempts w \<le> om_attempts m")
      case True
      with 2 in_flight_settles(3) [OF assms(1,2,4) ser(2), of now "ob_display P err"] pub show ?thesis
        by (auto simp: publish_message_def Let_def)
    next
      case False
      with 2 in_flight_settles(2) [OF assms(1,2,4) ser(2), of now "ob_display P err"] pub show ?thesis
        by (auto simp: publish_message_def Let_def)
    qed
  qed
qed

text \<open>The message as the publisher sees it: claimed first, when it was pending.\<close>

lemma process_message_claims:
  assumes "om_good C m" and "om_status m \<in> {Pending, InFlight}" and "worker_ok C P now w"
    and "length (en_events (om_entity m)) + 2 < 2 ^ 63"
  shows "\<exists>m1. process_message C P now (w, m) = publish_message C P now (w, m1) \<and>
      om_good C m1 \<and> om_status m1 = InFlight \<and>
      Suc (length (en_events (om_entity m1))) < 2 ^ 63 \<and>
      length (en_events (om_entity m1)) \<le> Suc (length (en_events (om_entity m))) \<and>
      om_id m1 = om_id m \<and> om_event_type m1 = om_event_type m \<and> om_payload m1 = om_payload m \<and>
      om_metadata m1 = om_metadata m \<and>
      om_attempts m1 = om_attempts m + (if om_status m = Pending then 1 else 0)"
proof (cases "om_status m = Pending")
  case True
  then have pend: "is_pending m" "\<not> is_published m" "\<not> is_failed m"
    by (simp_all add: is_pending_def is_published_def is_failed_def)
  have "claims_work C now (ow_worker_id w) (ow_lease w)" using assms(3) by (simp add: worker_ok_def)
  from claim_for_good [OF assms(1) pend(1) this] assms(4)
  obtain m1 where m1: "claim_for C now (ow_worker_id w) (ow_lease w) m = Some m1" "om_good C m1"
    "om_moved C m m1" "om_status m1 = InFlight" by auto
  have "process_message C P now (w, m) = publish_message C P now (w, m1)"
    using pend m1 by (simp add: process_message_def is_in_flight_def)
  with m1 moved_facts [OF m1(3)] assms(4) True show ?thesis by (intro exI [of _ m1]) simp
next
  case False
  then have fl: "om_status m = InFlight" using assms(2) by simp
  then have "process_message C P now (w, m) = publish_message C P now (w, m)"
    by (simp add: process_message_def is_pending_def is_published_def is_failed_def is_in_flight_def)
  with fl assms(1,4) show ?thesis by (intro exI [of _ m]) simp
qed

text \<open>
  What the worker does with one message.  A published or failed one is left alone, and
  the publisher is not called.  A pending one is claimed (one more attempt) and it or an
  in-flight one is given to the publisher once: if that succeeds it is published, otherwise the
  error is recorded and it is failed when its attempts have reached the maximum and pending
  again when not.
\<close>

theorem process_message_outcome:
  assumes "om_good C m" and "worker_ok C P now w" and "length (en_events (om_entity m)) + 2 < 2 ^ 63"
  shows "if om_status m \<in> {Pending, InFlight}
    then let (pr, p) = ob_publish P (om_event_type m) (om_payload m) (om_metadata m) (ow_publisher w);
             attempts = om_attempts m + (if om_status m = Pending then 1 else 0)
         in \<exists>r m'. process_message C P now (w, m) = (Ok r, w\<lparr>ow_publisher := p\<rparr>, m') \<and>
              om_good C m' \<and> om_id m' = om_id m \<and> om_attempts m' = attempts \<and> om_payload m' = om_payload m \<and>
              (case pr of
                 Err err \<Rightarrow>
                   om_last_error m' = (if ob_display P err = [] then None else Some (ob_display P err)) \<and>
                   (if ow_max_attempts w \<le> attempts
                    then om_status m' = Failed \<and> po_failed r else om_status m' = Pending \<and> po_released r)
               | _ \<Rightarrow> om_status m' = Published \<and> po_completed r)
    else process_message C P now (w, m) = (Ok process_one_result_default, w, m)"
proof (cases "om_status m \<in> {Pending, InFlight}")
  case False
  then show ?thesis
    by (cases "om_status m") (simp_all add: process_message_def is_published_def is_failed_def)
next
  case True
  obtain m1 where m1: "process_message C P now (w, m) = publish_message C P now (w, m1)"
    "om_good C m1" "om_status m1 = InFlight" "Suc (length (en_events (om_entity m1))) < 2 ^ 63"
    "om_id m1 = om_id m" "om_event_type m1 = om_event_type m" "om_payload m1 = om_payload m"
    "om_metadata m1 = om_metadata m" "om_attempts m1 = om_attempts m + (if om_status m = Pending then 1 else 0)"
    using process_message_claims [OF assms(1) True assms(2,3)] by blast
  obtain pr p where pub: "ob_publish P (om_event_type m) (om_payload m) (om_metadata m) (ow_publisher w) = (pr, p)"
    by force
  from publish_message_spec [OF m1(2,3) assms(2) m1(4)] pub m1
  obtain r m' where r: "process_message C P now (w, m) = (Ok r, w\<lparr>ow_publisher := p\<rparr>, m')" "om_moved C m1 m'" and
    c: "case pr of
       Err err \<Rightarrow>
         om_last_error m' = (if ob_display P err = [] then None else Some (ob_display P err)) \<and>
         (if ow_max_attempts w \<le> om_attempts m1
          then om_status m' = Failed \<and> r = process_one_result_default\<lparr>po_did_work := True, po_failed := True\<rparr>
          else om_status m' = Pending \<and> r = process_one_result_default\<lparr>po_did_work := True, po_released := True\<rparr>)
     | _ \<Rightarrow> om_status m' = Published \<and> r = process_one_result_default\<lparr>po_did_work := True, po_completed := True\<rparr>"
    by auto
  have st: "om_status m' \<noteq> InFlight" using c by (auto split: outcome.splits if_splits)
  have good: "om_good C m'" by (rule om_moved_good [OF m1(2) r(2)])
  have "om_attempts m' = om_attempts m1" using moved_facts(7) [OF r(2)] st by simp
  moreover have "om_id m' = om_id m" "om_payload m' = om_payload m"
    using moved_facts [OF r(2)] m1 by simp_all
  moreover have "case pr of
                 Err err \<Rightarrow>
                   om_last_error m' = (if ob_display P err = [] then None else Some (ob_display P err)) \<and>
                   (if ow_max_attempts w \<le> om_attempts m1
                    then om_status m' = Failed \<and> po_failed r else om_status m' = Pending \<and> po_released r)
               | _ \<Rightarrow> om_status m' = Published \<and> po_completed r"
    using c by (auto split: outcome.splits if_splits)
  ultimately show ?thesis
    unfolding if_P [OF True] pub Let_def prod.case m1(9) [symmetric]
    using r(1) good by (intro exI [of _ r] exI [of _ m']) simp
qed

text \<open>For the witnesses: a codec that encodes everything, and a publisher that is always down.\<close>

definition down_publisher :: "(nat, string) outbox_publisher" where
  "down_publisher = \<lparr>ob_publish = (\<lambda>_ _ _ n. (Err ''down'', Suc n)), ob_display = (\<lambda>e. e)\<rparr>"

definition sample_worker :: "nat outbox_worker" where
  "sample_worker = with_max_attempts 2 (with_worker_id ''w'' (outbox_worker_new 1 0))"

definition sample_publisher_codec :: outbox_codec where
  "sample_publisher_codec =
     sample_codec\<lparr>oc_ser_error := (\<lambda>e. Some (string_bytes e)), oc_de_error := (\<lambda>bs. Inr (bytes_string bs))\<rparr>"

lemma sample_publisher_codec_fields [simp]:
  "oc_ser_created sample_publisher_codec = oc_ser_created sample_codec"
  "oc_de_created sample_publisher_codec = oc_de_created sample_codec"
  "oc_ser_claimed sample_publisher_codec = oc_ser_claimed sample_codec"
  "oc_de_claimed sample_publisher_codec = oc_de_claimed sample_codec"
  "oc_ser_unit sample_publisher_codec = oc_ser_unit sample_codec"
  "oc_ser_error sample_publisher_codec err = Some (string_bytes err)"
  "oc_de_error sample_publisher_codec bs = Inr (bytes_string bs)"
  by (simp_all add: sample_publisher_codec_def)

lemma sample_publisher_codec_ok: "oc_ok sample_publisher_codec"
  by (auto simp: oc_ok_def)

lemma sample_publisher_claims: "claims_work sample_publisher_codec 0 ''w'' 60000000000"
  by (simp add: claims_work_def sample_publisher_codec_ok system_time_add_def duration_as_secs_def)

lemma sample_worker_ok: "worker_ok sample_publisher_codec down_publisher 0 sample_worker"
  using sample_publisher_claims
  by (simp add: worker_ok_def sample_worker_def with_max_attempts_def with_worker_id_def outbox_worker_new_def
      duration_from_secs_def down_publisher_def)

lemma sample_publisher_message:
  "\<exists>m. om_good sample_publisher_codec m \<and> om_status m = Pending \<and> om_attempts m = 0 \<and>
     length (en_events (om_entity m)) = 1"
proof -
  obtain m where init: "initialize sample_publisher_codec 5 ''m1'' ''Created'' [1] None Mapping.empty (outbox_message_new 5) = Some m"
    by (simp add: initialize_def digest_def outbox_message_new_def entity_default_def)
  then have "om_attempts m = 0" by (auto simp: initialize_def outbox_message_new_def split: option.splits)
  with initialize_good [OF init] show ?thesis by blast
qed

theorem process_message_outcome_witness:
  "\<exists>m r m'. om_status m = Pending \<and>
     process_message sample_publisher_codec down_publisher 0 (sample_worker, m) =
       (Ok r, sample_worker\<lparr>ow_publisher := 1\<rparr>, m') \<and>
     om_status m' = Pending \<and> om_last_error m' = Some ''down'' \<and> po_released r"
proof -
  obtain m where m: "om_good sample_publisher_codec m" "om_status m = Pending" "om_attempts m = 0"
    "length (en_events (om_entity m)) = 1" using sample_publisher_message by blast
  have w: "ow_max_attempts sample_worker = 2" "ow_publisher sample_worker = 0"
    by (simp_all add: sample_worker_def with_max_attempts_def with_worker_id_def outbox_worker_new_def)
  have "\<not> (2 :: u32) \<le> 1" by (simp add: word_le_nat_alt)
  with process_message_outcome [OF m(1) sample_worker_ok] m w
  obtain r m' where "process_message sample_publisher_codec down_publisher 0 (sample_worker, m) =
       (Ok r, sample_worker\<lparr>ow_publisher := 1\<rparr>, m')"
     "om_status m' = Pending" "om_last_error m' = Some ''down''" "po_released r"
    by (auto simp: down_publisher_def Let_def)
  with m(2) show ?thesis by blast
qed

section \<open>Retries\<close>

text \<open>The same message handed to the worker again and again.\<close>

fun process_repeatedly ::
    "outbox_codec \<Rightarrow> ('p, 'e) outbox_publisher \<Rightarrow> system_time list \<Rightarrow>
     'p outbox_worker \<times> outbox_message \<Rightarrow> 'p outbox_worker \<times> outbox_message" where
  "process_repeatedly C P [] s = s"
| "process_repeatedly C P (now # nows) s =
     process_repeatedly C P nows (snd (process_message C P now s))"

lemma process_terminal:
  assumes "om_status m \<in> {Published, Failed}"
  shows "process_repeatedly C P nows (w, m) = (w, m)"
  using assms by (induction nows) (auto simp: process_message_def is_published_def is_failed_def)

lemma process_pending:
  assumes "om_good C m" and "om_status m = Pending" and "om_attempts m < max 1 (ow_max_attempts w)"
    and "\<forall>now \<in> set nows. worker_ok C P now w"
    and "length (en_events (om_entity m)) + 2 * length nows < 2 ^ 63"
    and "process_repeatedly C P nows (w, m) = (w', m')"
  shows "unat (om_attempts m') \<le> unat (max 1 (ow_max_attempts w)) \<and>
    (om_status m' \<in> {Published, Failed} \<or>
     (om_status m' = Pending \<and> unat (om_attempts m') = unat (om_attempts m) + length nows \<and>
      om_attempts m' < max 1 (ow_max_attempts w)))"
  using assms
proof (induction nows arbitrary: w m)
  case Nil
  then show ?case by (auto simp: word_less_nat_alt)
next
  case (Cons now nows)
  have ok: "worker_ok C P now w" using Cons.prems(4) by simp
  have room: "length (en_events (om_entity m)) + 2 < 2 ^ 63" using Cons.prems(5) by simp
  obtain m1 where m1: "process_message C P now (w, m) = publish_message C P now (w, m1)"
    "om_good C m1" "om_status m1 = InFlight" "Suc (length (en_events (om_entity m1))) < 2 ^ 63"
    "length (en_events (om_entity m1)) \<le> Suc (length (en_events (om_entity m)))"
    "om_attempts m1 = om_attempts m + 1"
    using process_message_claims [OF Cons.prems(1) _ ok room] Cons.prems(2) by auto
  from publish_message_spec [OF m1(2,3) ok m1(4)] m1(1)
  obtain r p m2 where r: "process_message C P now (w, m) = (Ok r, w\<lparr>ow_publisher := p\<rparr>, m2)" "om_moved C m1 m2"
    "om_status m2 = Published \<or> om_status m2 = Failed \<or>
      om_status m2 = Pending \<and> \<not> ow_max_attempts w \<le> om_attempts m1"
    by (force split: outcome.splits if_splits)
  have att: "om_attempts m2 = om_attempts m + 1" using moved_facts(7) [OF r(2)] r(3) m1(6) by auto
  have un: "unat (om_attempts m + 1) = Suc (unat (om_attempts m))"
    "Suc (unat (om_attempts m)) \<le> unat (max 1 (ow_max_attempts w))"
  proof -
    show "Suc (unat (om_attempts m)) \<le> unat (max 1 (ow_max_attempts w))"
      using Cons.prems(3) by (simp add: word_less_nat_alt)
    then have "Suc (unat (om_attempts m)) < 2 ^ 32"
      using unsigned_less [of "max 1 (ow_max_attempts w)", where 'a = nat] by simp
    then show "unat (om_attempts m + 1) = Suc (unat (om_attempts m))"
      by (simp add: unat_word_ariths)
  qed
  have step: "process_repeatedly C P nows (w\<lparr>ow_publisher := p\<rparr>, m2) = (w', m')"
    using Cons.prems(6) r(1) by simp
  show ?case
  proof (cases "om_status m2 = Pending")
    case False
    then have "m' = m2" "om_status m2 \<in> {Published, Failed}" using step r(3) process_terminal [of m2 C P nows] by auto
    with att un show ?thesis by simp
  next
    case True
    have "om_attempts m2 < max 1 (ow_max_attempts (w\<lparr>ow_publisher := p\<rparr>))"
      using r(3) True att m1(6) by (simp add: less_max_iff_disj not_le)
    moreover have "\<forall>now \<in> set nows. worker_ok C P now (w\<lparr>ow_publisher := p\<rparr>)"
      using Cons.prems(4) by (simp add: worker_ok_def)
    moreover have "length (en_events (om_entity m2)) + 2 * length nows < 2 ^ 63"
      using Cons.prems(5) m1(5) moved_facts(6) [OF r(2)] by simp
    ultimately show ?thesis
      using Cons.IH [OF om_moved_good [OF m1(2) r(2)] True _ _ _ step] att un(1) by auto
  qed
qed

lemma unat_max_word: "unat (max 1 (x :: u32)) = max 1 (unat x)"
  by (simp add: max_def word_le_nat_alt)

text \<open>
  C22: Retries end.  The publisher is any that returns (it may refuse and accept as it likes), and
  claims and their records can be made.  A message that starts pending with no attempts and is
  handed to the worker again and again has at most as many attempts as the worker's maximum, and
  when it has been handed over that many times it is published or failed.  A maximum of 0 counts
  as 1, since a message is claimed and published before its attempts are compared.
\<close>

theorem retries_are_bounded:
  assumes "om_good C m" and "om_status m = Pending" and "om_attempts m = 0"
    and "\<forall>now \<in> set nows. worker_ok C P now w"
    and "length (en_events (om_entity m)) + 2 * length nows < 2 ^ 63"
    and "process_repeatedly C P nows (w, m) = (w', m')"
  shows "unat (om_attempts m') \<le> max 1 (unat (ow_max_attempts w)) \<and>
    (max 1 (unat (ow_max_attempts w)) \<le> length nows \<longrightarrow> om_status m' \<in> {Published, Failed})"
proof -
  have "om_attempts m < max 1 (ow_max_attempts w)" using assms(3) by (simp add: less_max_iff_disj)
  from process_pending [OF assms(1,2) this assms(4-6)] assms(3) show ?thesis
    unfolding word_less_nat_alt unat_max_word by auto
qed

theorem retries_are_bounded_witness:
  "\<exists>m w' m'. om_status m = Pending \<and>
     process_repeatedly sample_publisher_codec down_publisher [0, 0] (sample_worker, m) = (w', m') \<and>
     om_status m' \<in> {Published, Failed} \<and> unat (om_attempts m') \<le> 2"
proof -
  obtain m where m: "om_good sample_publisher_codec m" "om_status m = Pending" "om_attempts m = 0"
    "length (en_events (om_entity m)) = 1" using sample_publisher_message by blast
  have w: "ow_max_attempts sample_worker = 2"
    by (simp add: sample_worker_def with_max_attempts_def)
  obtain w' m' where run: "process_repeatedly sample_publisher_codec down_publisher [0, 0] (sample_worker, m) = (w', m')"
    by force
  from retries_are_bounded [OF m(1-3) _ _ run] m(4) w sample_worker_ok
  have "unat (om_attempts m') \<le> 2 \<and> om_status m' \<in> {Published, Failed}"
    by (simp add: word_less_nat_alt)
  with m(2) run show ?thesis by blast
qed

section \<open>Batches\<close>

lemma process_message_good:
  assumes "om_good C m" and "worker_ok C P now w" and "length (en_events (om_entity m)) + 2 < 2 ^ 63"
  shows "\<exists>r p m'. process_message C P now (w, m) = (Ok r, w\<lparr>ow_publisher := p\<rparr>, m') \<and>
    (r = process_one_result_default \<or>
     r = process_one_result_default\<lparr>po_did_work := True, po_completed := True\<rparr> \<or>
     r = process_one_result_default\<lparr>po_did_work := True, po_released := True\<rparr> \<or>
     r = process_one_result_default\<lparr>po_did_work := True, po_failed := True\<rparr>) \<and>
    om_status m' \<noteq> InFlight \<and> om_id m' = om_id m"
proof (cases "om_status m \<in> {Pending, InFlight}")
  case False
  then have "process_message C P now (w, m) = (Ok process_one_result_default, w\<lparr>ow_publisher := ow_publisher w\<rparr>, m)"
    by (cases "om_status m") (simp_all add: process_message_def is_published_def is_failed_def)
  with False show ?thesis by blast
next
  case True
  obtain m1 where m1: "process_message C P now (w, m) = publish_message C P now (w, m1)"
    "om_good C m1" "om_status m1 = InFlight" "Suc (length (en_events (om_entity m1))) < 2 ^ 63" "om_id m1 = om_id m"
    using process_message_claims [OF assms(1) True assms(2,3)] by blast
  from publish_message_spec [OF m1(2,3) assms(2) m1(4)] obtain r p m' where r:
    "process_message C P now (w, m) = (Ok r, w\<lparr>ow_publisher := p\<rparr>, m')" "om_moved C m1 m'" and
    c: "r = process_one_result_default\<lparr>po_did_work := True, po_completed := True\<rparr> \<and> om_status m' = Published \<or>
     r = process_one_result_default\<lparr>po_did_work := True, po_released := True\<rparr> \<and> om_status m' = Pending \<or>
     r = process_one_result_default\<lparr>po_did_work := True, po_failed := True\<rparr> \<and> om_status m' = Failed"
    unfolding m1(1) by (force split: outcome.splits if_splits)
  have "om_status m' \<noteq> InFlight" using c by auto
  moreover have "om_id m' = om_id m" using moved_facts(1) [OF r(2)] m1(5) by simp
  moreover have "r = process_one_result_default \<or>
     r = process_one_result_default\<lparr>po_did_work := True, po_completed := True\<rparr> \<or>
     r = process_one_result_default\<lparr>po_did_work := True, po_released := True\<rparr> \<or>
     r = process_one_result_default\<lparr>po_did_work := True, po_failed := True\<rparr>"
    using c by blast
  ultimately show ?thesis using r(1) by blast
qed

lemma batch_loop_spec:
  assumes "\<forall>m \<in> set ms. om_good C m \<and> length (en_events (om_entity m)) + 2 < 2 ^ 63" and "worker_ok C P now w"
    and "dr_claimed d = dr_completed d + dr_released d + dr_failed d"
  shows "\<exists>d' w' ms'. batch_loop C P now n d (w, ms) = (Ok d', w', ms') \<and>
    length ms' = length ms \<and> drop n ms' = drop n ms \<and>
    map om_id ms' = map om_id ms \<and> (\<forall>m' \<in> set (take n ms'). om_status m' \<noteq> InFlight) \<and>
    dr_claimed d' = dr_completed d' + dr_released d' + dr_failed d' \<and>
    dr_claimed d' \<le> dr_claimed d + n"
  using assms
proof (induction C P now n d "(w, ms)" arbitrary: w ms rule: batch_loop.induct)
  case (1 C P now n d w)
  then show ?case by simp
next
  case (2 C P now d w m ms)
  then show ?case by simp
next
  case (3 C P now n d w m ms)
  have good: "om_good C m" "length (en_events (om_entity m)) + 2 < 2 ^ 63" using 3(2) by auto
  obtain r p m' where r: "process_message C P now (w, m) = (Ok r, w\<lparr>ow_publisher := p\<rparr>, m')"
    "om_status m' \<noteq> InFlight" "om_id m' = om_id m"
    and c: "r = process_one_result_default \<or>
     r = process_one_result_default\<lparr>po_did_work := True, po_completed := True\<rparr> \<or>
     r = process_one_result_default\<lparr>po_did_work := True, po_released := True\<rparr> \<or>
     r = process_one_result_default\<lparr>po_did_work := True, po_failed := True\<rparr>"
    using process_message_good [OF good(1) 3(3) good(2)] by blast
  have cnt: "dr_claimed (count_result r d) = dr_completed (count_result r d) + dr_released (count_result r d) +
      dr_failed (count_result r d)" "dr_claimed (count_result r d) \<le> Suc (dr_claimed d)"
    using c 3(4) by (auto simp: count_result_def process_one_result_default_def)
  have "worker_ok C P now (w\<lparr>ow_publisher := p\<rparr>)" using 3(3) by (simp add: worker_ok_def)
  from 3(1) [OF r(1) [symmetric] refl refl _ this cnt(1)] 3(2)
  obtain d' w' ms' where b: "batch_loop C P now n (count_result r d) (w\<lparr>ow_publisher := p\<rparr>, ms) = (Ok d', w', ms')"
    "length ms' = length ms" "drop n ms' = drop n ms" "map om_id ms' = map om_id ms"
    "\<forall>m' \<in> set (take n ms'). om_status m' \<noteq> InFlight"
    "dr_claimed d' = dr_completed d' + dr_released d' + dr_failed d'"
    "dr_claimed d' \<le> dr_claimed (count_result r d) + n" by auto
  with r cnt(2) show ?case by simp
qed

text \<open>
  A batch processes the first messages, up to the batch size, one after the other with the
  worker as the one before left it, and leaves the others alone.  It counts every message it
  worked on as claimed, and each of these exactly once as completed, released or failed.
\<close>

theorem process_batch_counts:
  assumes "\<forall>m \<in> set ms. om_good C m \<and> length (en_events (om_entity m)) + 2 < 2 ^ 63" and "worker_ok C P now w"
  shows "\<exists>d w' ms'. process_batch C P now (w, ms) = (Ok d, w', ms') \<and>
    map om_id ms' = map om_id ms \<and> drop (ow_batch_size w) ms' = drop (ow_batch_size w) ms \<and>
    (\<forall>m' \<in> set (take (ow_batch_size w) ms'). om_status m' \<noteq> InFlight) \<and>
    dr_claimed d = dr_completed d + dr_released d + dr_failed d \<and> dr_claimed d \<le> ow_batch_size w"
  using batch_loop_spec [OF assms, of drain_result_default "ow_batch_size w"]
  by (auto simp: process_batch_def drain_result_default_def)

theorem process_batch_counts_witness:
  "\<exists>m d w' ms'. om_status m = Pending \<and>
     process_batch sample_publisher_codec down_publisher 0 (with_batch_size 1 sample_worker, [m, m]) = (Ok d, w', ms') \<and>
     drop 1 ms' = [m] \<and> dr_claimed d = dr_completed d + dr_released d + dr_failed d"
proof -
  obtain m where m: "om_good sample_publisher_codec m" "om_status m = Pending"
    "length (en_events (om_entity m)) = 1" using sample_publisher_message by blast
  have "worker_ok sample_publisher_codec down_publisher 0 (with_batch_size 1 sample_worker)"
    using sample_worker_ok by (simp add: worker_ok_def with_batch_size_def)
  from process_batch_counts [OF _ this, of "[m, m]"] m
  obtain d w' ms' where "process_batch sample_publisher_codec down_publisher 0 (with_batch_size 1 sample_worker, [m, m]) = (Ok d, w', ms')"
    "drop 1 ms' = [m]" "dr_claimed d = dr_completed d + dr_released d + dr_failed d"
    by (auto simp: with_batch_size_def)
  with m(2) show ?thesis by blast
qed

section \<open>The thread and the store\<close>

text \<open>Publishing the claimed messages of a store one after the other.\<close>

definition sends_all :: "(outbox_message \<Rightarrow> bus_event \<Rightarrow> ('s, publish_error, unit) call) \<Rightarrow> bool" where
  "sends_all out \<longleftrightarrow> (\<forall>m e s. fst (out m e s) = Ok ())"

fun send_each ::
    "(outbox_message \<Rightarrow> bus_event \<Rightarrow> ('s, publish_error, unit) call) \<Rightarrow> (metadata \<Rightarrow> string list) \<Rightarrow>
     outbox_message list \<Rightarrow> 's \<Rightarrow> 's" where
  "send_each out mord [] s = s"
| "send_each out mord (m # ms) s = send_each out mord ms (snd (out m (message_event mord m) s))"

lemma om_good_prefix: "om_good C m \<Longrightarrow> prefix id_prefix (om_id m)"
  by (simp add: om_good_def om_wf_def)

lemma box_cong: "t i = t' i \<Longrightarrow> box C now t i = box C now t' i"
  by (simp add: box_def)

text \<open>A message of the store that is ready to be completed.\<close>

definition in_hand :: "outbox_codec \<Rightarrow> system_time \<Rightarrow> streams \<Rightarrow> string \<Rightarrow> bool" where
  "in_hand C now t i \<longleftrightarrow>
     prefix id_prefix i \<and> Suc (length (stream_of t i)) < 2 ^ 63 \<and>
     (\<exists>m. box C now t i = Some m \<and> om_status m = InFlight)"

lemma deliver_all_sent:
  assumes "sends_all out" and "oc_ok C" and "oc_ser_unit C () \<noteq> None" and "hm_inv ord r" and "box_ok C (hm_streams r)"
    and "distinct (map om_id ms)" and "\<forall>m \<in> set ms. in_hand C now (hm_streams r) (om_id m)"
  shows "\<exists>r'. deliver_all (hashmap_outbox C ord now) out mord ms stats (r, s) =
      (Ok (stats\<lparr>ws_published := ws_published stats + length ms\<rparr>), r', send_each out mord ms s) \<and>
    hm_inv ord r' \<and> box_ok C (hm_streams r') \<and>
    (\<forall>i. i \<notin> om_id ` set ms \<longrightarrow> hm_streams r' i = hm_streams r i) \<and>
    (\<forall>m \<in> set ms. \<forall>t. \<exists>m'. box C t (hm_streams r') (om_id m) = Some m' \<and> om_status m' = Published)"
  using assms(4-7)
proof (induction ms arbitrary: r s stats)
  case Nil
  then show ?case by simp
next
  case (Cons m ms)
  let ?i = "om_id m"
  obtain m0 where m0: "prefix id_prefix ?i" "Suc (length (stream_of (hm_streams r) ?i)) < 2 ^ 63"
    "box C now (hm_streams r) ?i = Some m0" "om_status m0 = InFlight"
    using Cons.prems(4) by (auto simp: in_hand_def)
  have norm: "normalize_id ?i = ?i" using m0(1) by (simp add: normalize_id_def)
  from complete_settles [OF Cons.prems(1,2), of ?i now m0] m0(2-4) assms(2,3) norm
  have "settles C ord r ?i (m0\<lparr>om_status := Published, om_worker_id := None\<rparr>) (complete_outbox_message C now ?i r)"
    by simp
  then obtain r1 where r1: "complete_outbox_message C now ?i r = (Ok (), r1)" "hm_inv ord r1" "box_ok C (hm_streams r1)"
    "\<forall>j. j \<noteq> ?i \<longrightarrow> hm_streams r1 j = hm_streams r j"
    "\<forall>t. \<exists>m'. box C t (hm_streams r1) ?i = Some m' \<and> om_status m' = Published"
    unfolding settles_def by simp blast
  obtain s1 where s1: "out m (message_event mord m) s = (Ok (), s1)"
    using assms(1) unfolding sends_all_def by (metis prod.collapse)
  have step: "deliver (hashmap_outbox C ord now) out mord m stats (r, s) =
      (Ok (stats\<lparr>ws_published := ws_published stats + 1\<rparr>), r1, s1)"
    using r1(1) s1 by (simp add: deliver_def hashmap_outbox_def)
  have hand: "\<forall>x \<in> set ms. in_hand C now (hm_streams r1) (om_id x)"
  proof
    fix x assume x: "x \<in> set ms"
    have "?i \<notin> om_id ` set ms" using Cons.prems(3) by simp
    with x have "om_id x \<noteq> ?i" by (metis image_eqI)
    then have "hm_streams r1 (om_id x) = hm_streams r (om_id x)" using r1(4) by simp
    with Cons.prems(4) x show "in_hand C now (hm_streams r1) (om_id x)"
      by (simp add: in_hand_def stream_of_def box_cong [of "hm_streams r1" "om_id x" "hm_streams r"])
  qed
  from Cons.IH [OF r1(2,3) _ hand, of "stats\<lparr>ws_published := ws_published stats + 1\<rparr>" s1] Cons.prems(3)
  obtain r' where r': "deliver_all (hashmap_outbox C ord now) out mord ms (stats\<lparr>ws_published := ws_published stats + 1\<rparr>) (r1, s1) =
      (Ok (stats\<lparr>ws_published := ws_published stats + 1 + length ms\<rparr>), r', send_each out mord ms s1)"
    "hm_inv ord r'" "box_ok C (hm_streams r')" "\<forall>i. i \<notin> om_id ` set ms \<longrightarrow> hm_streams r' i = hm_streams r1 i"
    "\<forall>m \<in> set ms. \<forall>t. \<exists>m'. box C t (hm_streams r') (om_id m) = Some m' \<and> om_status m' = Published" by auto
  have "hm_streams r' ?i = hm_streams r1 ?i" using r'(4) Cons.prems(3) by simp
  then have "\<forall>t. \<exists>m'. box C t (hm_streams r') ?i = Some m' \<and> om_status m' = Published"
    using r1(5) by (simp add: box_cong [of "hm_streams r'" ?i "hm_streams r1"])
  with r' step s1 r1(4) show ?case by auto
qed

lemma deliver_all_polls:
  "deliver_all B out mord ms stats rs = (Ok stats', rs') \<Longrightarrow> ws_polls stats' = ws_polls stats"
  by (induction ms arbitrary: stats rs)
    (auto simp: st_bind_Ok_iff deliver_def split: prod.splits outcome.splits)

lemma worker_poll_effect:
  assumes "hm_inv ord r" and "box_ok C (hm_streams r)" and "room 2 (hm_streams r)"
    and "claims_work C now worker (duration_from_secs 60)" and "oc_ser_unit C () \<noteq> None" and "sends_all out"
  shows "\<exists>cs r'. worker_poll (hashmap_outbox C ord now) out mord worker stats (r, s) =
      (Ok (stats\<lparr>ws_polls := ws_polls stats + 1, ws_published := ws_published stats + length cs\<rparr>),
       r', send_each out mord cs s) \<and>
    hm_inv ord r' \<and> box_ok C (hm_streams r') \<and> distinct (map om_id cs) \<and> length cs \<le> 100 \<and>
    (\<forall>c \<in> set cs. claimed_from C now worker (hm_streams r) c \<and>
       (\<exists>m. box C t (hm_streams r') (om_id c) = Some m \<and> om_status m = Published)) \<and>
    (\<forall>i. i \<notin> om_id ` set cs \<longrightarrow> hm_streams r' i = hm_streams r i) \<and>
    (length cs < 100 \<longrightarrow> (\<forall>i m. box C now (hm_streams r') i = Some m \<longrightarrow> om_status m \<noteq> Pending))"
proof -
  let ?lease = "duration_from_secs 60"
  have ok: "oc_ok C" using assms(4) by (simp add: claims_work_def)
  have room1: "room 1 (hm_streams r)" using room_mono [OF assms(3)] by simp
  obtain cs r1 where cs: "claim_outbox_messages C now ord worker 100 ?lease r = (Ok cs, r1)"
    "cs = take 100 (List.map_filter (claimed_of C now worker ?lease) (hm_iter (hr_events r) (ord (hr_events r))))"
    "hr_events r1 = save_all cs (hr_events r)" "hm_inv ord r1" "distinct (map om_id cs)"
    using claim_result [OF assms(1,2) room1 assms(4), of 100] by auto
  note run = assms(1,2) room1 assms(4) take_claimed [OF cs(2)]
  note eff = claim_effect [OF run] and after = streams_after_claims [OF cs(3,5)]
  have box1: "box_ok C (hm_streams r1)" by (rule claim_box_ok [OF run cs(3,5)])
  have room: "room 1 (hm_streams r1)"
    using room_step [of 1 r cs C now worker r1] assms(2,3) cs(5) eff(1) after ok by (simp add: numeral_2_eq_2)
  have hand: "\<forall>c \<in> set cs. in_hand C now (hm_streams r1) (om_id c)"
  proof
    fix c assume c: "c \<in> set cs"
    obtain m where m: "om_good C m" "om_id m = om_id c" "en_events (om_entity m) = en_events (om_entity c)"
      "prefix id_prefix (om_id c)" "om_status m = InFlight" using eff(2) [OF c] by blast
    have "\<exists>m'. box C now (hm_streams r1) (om_id c) = Some m' \<and> om_status m' = InFlight"
      using box_good [OF ok m(1), of "hm_streams r1" now] m after(2) [OF c] by simp
    then show "in_hand C now (hm_streams r1) (om_id c)"
      using m(4) room after(2) [OF c] by (auto simp: in_hand_def room_def stream_of_def)
  qed
  obtain r' where r': "deliver_all (hashmap_outbox C ord now) out mord cs (stats\<lparr>ws_polls := ws_polls stats + 1\<rparr>) (r1, s) =
      (Ok (stats\<lparr>ws_polls := ws_polls stats + 1, ws_published := ws_published stats + length cs\<rparr>), r', send_each out mord cs s)"
    "hm_inv ord r'" "box_ok C (hm_streams r')" "\<forall>i. i \<notin> om_id ` set cs \<longrightarrow> hm_streams r' i = hm_streams r1 i"
    "\<forall>m \<in> set cs. \<forall>t. \<exists>m'. box C t (hm_streams r') (om_id m) = Some m' \<and> om_status m' = Published"
    using deliver_all_sent [OF assms(6) ok assms(5) cs(4) box1 cs(5) hand, of mord "stats\<lparr>ws_polls := ws_polls stats + 1\<rparr>" s]
    by auto
  have poll: "worker_poll (hashmap_outbox C ord now) out mord worker stats (r, s) =
      (Ok (stats\<lparr>ws_polls := ws_polls stats + 1, ws_published := ws_published stats + length cs\<rparr>), r', send_each out mord cs s)"
    using cs(1) r'(1) by (simp add: worker_poll_def hashmap_outbox_def Let_def)
  have len: "length cs \<le> 100" using cs(2) by simp
  have rest: "\<forall>i. i \<notin> om_id ` set cs \<longrightarrow> hm_streams r' i = hm_streams r i" using r'(4) after(1) by auto
  have left: "om_status m \<noteq> Pending" if "length cs < 100" "box C now (hm_streams r') i = Some m" for i m
  proof (cases "i \<in> om_id ` set cs")
    case True
    then obtain c where c: "c \<in> set cs" "om_id c = i" by blast
    from r'(5) c(1) obtain m' where "box C now (hm_streams r') (om_id c) = Some m'" "om_status m' = Published"
      by blast
    with c(2) that(2) show ?thesis by simp
  next
    case False
    then have "box C now (hm_streams r1) i = Some m"
      using that(2) r'(4) by (simp add: box_cong [of "hm_streams r'" i "hm_streams r1"])
    from claim_leaves_none [OF assms(1,2) room1 assms(4) cs(2,3,5) that(1) this] show ?thesis .
  qed
  show ?thesis
    using poll r'(2,3,5) cs(5) len eff(1) rest left by blast
qed

text \<open>
  Outbox delivery end to end.  When the bus accepts everything, one turn of the thread over
  a healthy store of well-made messages publishes each message it claims exactly once, in the
  order claimed, as an event with the id, type and payload of the message; counts them; and
  leaves each of them published and the rest of the store as it was.  With fewer than a hundred
  messages claimed, none is left pending.
\<close>

theorem worker_poll_publishes:
  assumes "hm_inv ord r" and "box_ok C (hm_streams r)" and "room 2 (hm_streams r)"
    and "claims_work C now worker (duration_from_secs 60)" and "oc_ser_unit C () \<noteq> None" and "sends_all out"
  shows "\<exists>cs r'. worker_poll (hashmap_outbox C ord now) out mord worker stats (r, s) =
      (Ok (stats\<lparr>ws_polls := ws_polls stats + 1, ws_published := ws_published stats + length cs\<rparr>),
       r', send_each out mord cs s) \<and>
    hm_inv ord r' \<and> box_ok C (hm_streams r') \<and> distinct (map om_id cs) \<and> length cs \<le> 100 \<and>
    (\<forall>c \<in> set cs. claimed_from C now worker (hm_streams r) c \<and>
       (\<exists>m. box C t (hm_streams r') (om_id c) = Some m \<and> om_status m = Published)) \<and>
    (\<forall>i. i \<notin> om_id ` set cs \<longrightarrow> hm_streams r' i = hm_streams r i) \<and>
    (length cs < 100 \<longrightarrow> (\<forall>i m. box C now (hm_streams r') i = Some m \<longrightarrow> om_status m \<noteq> Pending))"
  by (rule worker_poll_effect [OF assms])

theorem worker_poll_publishes_witness:
  "\<exists>r cs r' s'. worker_poll (hashmap_outbox sample_codec Mapping.ordered_keys 0) (fan_out in_memory_publisher)
       Mapping.ordered_keys ''w'' worker_stats_default (r, (in_memory_queue_new, [])) =
     (Ok \<lparr>ws_published = length cs, ws_failed = 0, ws_polls = 1\<rparr>, r', s') \<and> length cs \<le> 100 \<and>
     (\<exists>m. box sample_codec 0 (hm_streams r) ''outbox:m1'' = Some m \<and> om_status m = Pending) \<and>
     (\<forall>c \<in> set cs. \<exists>m. box sample_codec 9 (hm_streams r') (om_id c) = Some m \<and> om_status m = Published)"
proof -
  obtain r where r: "hm_inv Mapping.ordered_keys r" "box_ok sample_codec (hm_streams r)" "room 2 (hm_streams r)"
    "\<forall>now. \<exists>m'. box sample_codec now (hm_streams r) ''outbox:m1'' = Some m' \<and> om_status m' = Pending"
    using sample_box by blast
  have c: "claims_work sample_codec 0 ''w'' (duration_from_secs 60)"
    using sample_claims_work by (simp add: duration_from_secs_def)
  have "sends_all (fan_out in_memory_publisher)"
    by (simp add: sends_all_def fan_out_def in_memory_publisher_def on_queue_def)
  from worker_poll_publishes [OF r(1-3) c _ this, of Mapping.ordered_keys worker_stats_default "(in_memory_queue_new, [])" 9]
  obtain cs r' where "worker_poll (hashmap_outbox sample_codec Mapping.ordered_keys 0) (fan_out in_memory_publisher)
       Mapping.ordered_keys ''w'' worker_stats_default (r, (in_memory_queue_new, [])) =
     (Ok \<lparr>ws_published = length cs, ws_failed = 0, ws_polls = 1\<rparr>, r', send_each (fan_out in_memory_publisher) Mapping.ordered_keys cs (in_memory_queue_new, []))"
    "length cs \<le> 100"
    "\<forall>c \<in> set cs. \<exists>m. box sample_codec 9 (hm_streams r') (om_id c) = Some m \<and> om_status m = Published"
    by (auto simp: worker_stats_default_def)
  with r(4) show ?thesis by blast
qed

end
