(* ===== verification/Outbox_System.thy ===== *)
theory Outbox_System
  imports Outbox_Worker
begin

text \<open>
  Several outbox workers over one repository (\<open>src/outbox_worker/thread.rs\<close>): threads that claim,
  publish, complete and release in any interleaving, with clients that commit messages, operators
  that fail them, and threads that stop at any point.  The calls are those of \<open>Outbox_Store\<close>; the
  step relation says only in which order one thread makes them.
\<close>

section \<open>The system\<close>

text \<open>
  How far a thread is with a claimed message: not yet published, accepted by the bus and to be
  completed, or refused and to be released.  \<open>os_hand\<close> is the list that the loop of a thread still
  has to work through, \<open>os_sent\<close> the messages whose publication succeeded, in order.
\<close>

datatype stage = Claimed | Accepted | Refused

record 's outbox_system =
  os_repo :: hm_repo
  os_bus :: 's
  os_sent :: "outbox_message list"
  os_hand :: "nat \<Rightarrow> (outbox_message \<times> stage) list"

abbreviation os_streams :: "'s outbox_system \<Rightarrow> streams" where
  "os_streams s \<equiv> hm_streams (os_repo s)"

definition fits_one :: "streams \<Rightarrow> string \<Rightarrow> bool" where
  "fits_one t i \<longleftrightarrow> Suc (length (stream_of t i)) < 2 ^ 63"

text \<open>What a client may commit: entities with different ids; a message only when it is new.\<close>

definition client_batch :: "outbox_codec \<Rightarrow> streams \<Rightarrow> entity list \<Rightarrow> bool" where
  "client_batch C t es \<longleftrightarrow>
     distinct (map en_id es) \<and> (\<forall>e \<in> set es. entity_wf e) \<and>
     (\<forall>e \<in> set es. prefix id_prefix (en_id e) \<longrightarrow>
        t (en_id e) = None \<and> vec_fits (en_events e) \<and>
        (\<exists>m. om_good C m \<and> om_status m = Pending \<and> om_entity m = e))"

inductive os_step ::
    "outbox_codec \<Rightarrow> event_order \<Rightarrow> (metadata \<Rightarrow> string list) \<Rightarrow>
     (outbox_message \<Rightarrow> bus_event \<Rightarrow> ('s, publish_error, unit) call) \<Rightarrow>
     's outbox_system \<Rightarrow> 's outbox_system \<Rightarrow> bool"
  for C ord mord out where
  os_claim:
    "os_hand s t = [] \<Longrightarrow> claims_work C now worker (duration_from_secs 60) \<Longrightarrow> room 1 (os_streams s) \<Longrightarrow>
     claim_outbox_messages C now ord worker 100 (duration_from_secs 60) (os_repo s) = (Ok cs, r) \<Longrightarrow>
     os_step C ord mord out s
       (s\<lparr>os_repo := r, os_hand := (os_hand s)(t := map (\<lambda>c. (c, Claimed)) cs)\<rparr>)"
| os_publish:
    "os_hand s t = (c, Claimed) # rest \<Longrightarrow> out c (message_event mord c) (os_bus s) = (Ok (), b) \<Longrightarrow>
     os_step C ord mord out s
       (s\<lparr>os_bus := b, os_sent := os_sent s @ [c], os_hand := (os_hand s)(t := (c, Accepted) # rest)\<rparr>)"
| os_refuse:
    "os_hand s t = (c, Claimed) # rest \<Longrightarrow> out c (message_event mord c) (os_bus s) = (Err err, b) \<Longrightarrow>
     os_step C ord mord out s
       (s\<lparr>os_bus := b, os_hand := (os_hand s)(t := (c, Refused) # rest)\<rparr>)"
| os_complete:
    "os_hand s t = (c, Accepted) # rest \<Longrightarrow> fits_one (os_streams s) (om_id c) \<Longrightarrow>
     complete_outbox_message C now (om_id c) (os_repo s) = (res, r) \<Longrightarrow>
     os_step C ord mord out s (s\<lparr>os_repo := r, os_hand := (os_hand s)(t := rest)\<rparr>)"
| os_release:
    "os_hand s t = (c, Refused) # rest \<Longrightarrow> fits_one (os_streams s) (om_id c) \<Longrightarrow>
     release_outbox_message C now (om_id c) ''publish failed'' (os_repo s) = (res, r) \<Longrightarrow>
     os_step C ord mord out s (s\<lparr>os_repo := r, os_hand := (os_hand s)(t := rest)\<rparr>)"
| os_crash:
    "os_step C ord mord out s (s\<lparr>os_hand := (os_hand s)(t := [])\<rparr>)"
| os_fail:
    "fits_one (os_streams s) (normalize_id i) \<Longrightarrow>
     fail_outbox_message C now i err (os_repo s) = (res, r) \<Longrightarrow>
     os_step C ord mord out s (s\<lparr>os_repo := r\<rparr>)"
| os_client:
    "client_batch C (os_streams s) es \<Longrightarrow> hm_commit (os_repo s, es) = (res, r, es') \<Longrightarrow>
     os_step C ord mord out s (s\<lparr>os_repo := r\<rparr>)"
| os_consumer:
    "os_step C ord mord out s (s\<lparr>os_bus := b\<rparr>)"

inductive_cases os_stepE: "os_step C ord mord out s s'"

abbreviation os_run where
  "os_run C ord mord out \<equiv> (os_step C ord mord out)\<^sup>*\<^sup>*"

definition serialises :: "outbox_codec \<Rightarrow> bool" where
  "serialises C \<longleftrightarrow> oc_ok C \<and> oc_ser_unit C () \<noteq> None \<and> (\<forall>err. oc_ser_error C err \<noteq> None)"

section \<open>What each call does to a message\<close>

text \<open>The status, type and payload of a stored message, at whatever time it is read.\<close>

definition seen :: "outbox_codec \<Rightarrow> streams \<Rightarrow> string \<Rightarrow> (outbox_status \<times> string \<times> bytes) option" where
  "seen C t i = map_option (\<lambda>m. (om_status m, om_event_type m, om_payload m)) (box C 0 t i)"

lemma seen_at:
  assumes "box_ok C t" and "oc_ok C"
  shows "seen C t i = map_option (\<lambda>m. (om_status m, om_event_type m, om_payload m)) (box C now t i)"
proof (cases "prefix id_prefix i \<and> t i \<noteq> None")
  case False
  then show ?thesis by (auto simp: seen_def box_def)
next
  case True
  then obtain evs where "t i = Some evs" "prefix id_prefix i" by blast
  with assms(1) obtain m where m: "om_good C m" "om_id m = i" "en_events (om_entity m) = evs"
    unfolding box_ok_def by blast
  with box_good [OF assms(2) m(1), of t] \<open>t i = Some evs\<close> \<open>prefix id_prefix i\<close>
  show ?thesis by (auto simp: seen_def)
qed

lemma seen_cong: "t i = t' i \<Longrightarrow> seen C t i = seen C t' i"
  by (simp add: seen_def box_cong [of t i t'])

lemma settles_seen:
  assumes "settles C ord r i m (res, r')"
  shows "hm_inv ord r'" "box_ok C (hm_streams r')" "res = Ok ()"
    "seen C (hm_streams r') = (seen C (hm_streams r))(i \<mapsto> (om_status m, om_event_type m, om_payload m))"
    "\<forall>j. j \<noteq> i \<longrightarrow> hm_streams r' j = hm_streams r j"
proof -
  from assms show "hm_inv ord r'" "box_ok C (hm_streams r')" "res = Ok ()" by (auto simp: settles_def)
  from assms show rest: "\<forall>j. j \<noteq> i \<longrightarrow> hm_streams r' j = hm_streams r j" by (auto simp: settles_def)
  from assms obtain m' where "box C 0 (hm_streams r') i = Some m'" "om_status m' = om_status m"
    "om_payload m' = om_payload m" "om_event_type m' = om_event_type m"
    by (auto simp: settles_def)
  with rest show "seen C (hm_streams r') = (seen C (hm_streams r))(i \<mapsto> (om_status m, om_event_type m, om_payload m))"
    by (auto simp: fun_eq_iff seen_def box_cong [of "hm_streams r'" _ "hm_streams r"])
qed

lemma normalize_same: "prefix id_prefix i \<Longrightarrow> normalize_id i = i"
  by (simp add: normalize_id_def)

lemma prefix_normalize: "prefix id_prefix (normalize_id i)"
  by (simp add: normalize_id_def)

text \<open>The message with an id that has an outbox stream, as the calls read it.\<close>

lemma seen_Some:
  assumes "box_ok C t" and "oc_ok C" and "seen C t i = Some (st, ty, pl)"
  obtains m where "box C now t i = Some m" "om_status m = st" "om_event_type m = ty" "om_payload m = pl"
    "prefix id_prefix i" "t i \<noteq> None"
proof -
  from assms(3) obtain m where m: "box C now t i = Some m" "om_status m = st" "om_event_type m = ty" "om_payload m = pl"
    using seen_at [OF assms(1,2), of i now] by auto
  moreover have "prefix id_prefix i" "t i \<noteq> None" using m(1) by (auto simp: box_def split: if_splits option.splits)
  ultimately show thesis by (rule that)
qed

lemma complete_seen:
  assumes "hm_inv ord r" and "box_ok C (hm_streams r)" and "serialises C" and "fits_one (hm_streams r) i"
    and "seen C (hm_streams r) i = Some (st, ty, pl)" and "complete_outbox_message C now i r = (res, r')"
  shows "res = Ok () \<and> hm_inv ord r' \<and> box_ok C (hm_streams r') \<and>
    seen C (hm_streams r') = (seen C (hm_streams r))(i \<mapsto> (if st = InFlight then Published else st, ty, pl)) \<and>
    (\<forall>j. j \<noteq> i \<longrightarrow> hm_streams r' j = hm_streams r j)"
proof -
  have C: "oc_ok C" "oc_ser_unit C () \<noteq> None" using assms(3) by (simp_all add: serialises_def)
  obtain m where m: "box C now (hm_streams r) i = Some m" "om_status m = st" "om_event_type m = ty" "om_payload m = pl"
    "prefix id_prefix i" by (rule seen_Some [OF assms(2) C(1) assms(5)])
  from complete_settles [OF assms(1,2) _ C, of i now m] m assms(4,6)
  have "settles C ord r i (if st = InFlight then m\<lparr>om_status := Published, om_worker_id := None\<rparr> else m) (res, r')"
    by (simp add: fits_one_def normalize_same)
  from settles_seen [OF this] m show ?thesis by (simp split: if_splits)
qed

lemma release_seen:
  assumes "hm_inv ord r" and "box_ok C (hm_streams r)" and "serialises C" and "fits_one (hm_streams r) i"
    and "seen C (hm_streams r) i = Some (st, ty, pl)" and "release_outbox_message C now i err r = (res, r')"
  shows "res = Ok () \<and> hm_inv ord r' \<and> box_ok C (hm_streams r') \<and>
    seen C (hm_streams r') = (seen C (hm_streams r))(i \<mapsto> (if st = InFlight then Pending else st, ty, pl)) \<and>
    (\<forall>j. j \<noteq> i \<longrightarrow> hm_streams r' j = hm_streams r j)"
proof -
  have C: "oc_ok C" "oc_ser_error C err \<noteq> None" using assms(3) by (simp_all add: serialises_def)
  obtain m where m: "box C now (hm_streams r) i = Some m" "om_status m = st" "om_event_type m = ty" "om_payload m = pl"
    "prefix id_prefix i" by (rule seen_Some [OF assms(2) C(1) assms(5)])
  from release_settles [OF assms(1,2) _ C, of i now m] m assms(4,6)
  have "settles C ord r i (if st = InFlight then m\<lparr>om_status := Pending, om_worker_id := None,
      om_last_error := (if err = [] then None else Some err)\<rparr> else m) (res, r')"
    by (simp add: fits_one_def normalize_same)
  from settles_seen [OF this] m show ?thesis by (simp split: if_splits)
qed

lemma fail_seen:
  assumes "hm_inv ord r" and "box_ok C (hm_streams r)" and "serialises C"
    and "fits_one (hm_streams r) (normalize_id i)" and "fail_outbox_message C now i err r = (res, r')"
  shows "res = Ok () \<and> hm_inv ord r' \<and> box_ok C (hm_streams r') \<and>
    seen C (hm_streams r') = (seen C (hm_streams r))(normalize_id i :=
      map_option (\<lambda>(st, ty, pl). (if st \<in> {Pending, InFlight} then Failed else st, ty, pl))
        (seen C (hm_streams r) (normalize_id i)))"
proof (cases "seen C (hm_streams r) (normalize_id i)")
  case None
  have C: "oc_ok C" using assms(3) by (simp add: serialises_def)
  have "hm_streams r (normalize_id i) = None"
  proof (rule ccontr)
    assume "hm_streams r (normalize_id i) \<noteq> None"
    then obtain evs where evs: "hm_streams r (normalize_id i) = Some evs" by blast
    obtain m where "box C 0 (hm_streams r) (normalize_id i) = Some m"
      by (rule box_ok_stored [OF assms(2) C evs prefix_normalize, of 0])
    with None show False by (simp add: seen_def)
  qed
  then have "r' = r" "res = Ok ()"
    using assms(1,5) by (auto simp: fail_outbox_message_def under_write_lock_def hm_inv_def hm_streams_def)
  with assms(1,2) None show ?thesis by (simp add: fun_upd_idem)
next
  case (Some x)
  obtain st ty pl where x: "x = (st, ty, pl)" by (cases x)
  have C: "oc_ok C" "oc_ser_error C err \<noteq> None" using assms(3) by (simp_all add: serialises_def)
  obtain m where m: "box C now (hm_streams r) (normalize_id i) = Some m" "om_status m = st" "om_event_type m = ty"
    "om_payload m = pl" by (rule seen_Some [OF assms(2) C(1) Some [unfolded x]])
  from fail_settles [OF assms(1,2) _ C, of i now m] m assms(4,5)
  have "settles C ord r (normalize_id i) (if st \<in> {Pending, InFlight} then m\<lparr>om_status := Failed, om_worker_id := None,
      om_last_error := (if err = [] then None else Some err)\<rparr> else m) (res, r')"
    by (simp add: fits_one_def)
  from settles_seen [OF this] m Some x show ?thesis by (simp split: if_splits)
qed

lemma claim_seen:
  assumes "hm_inv ord r" and "box_ok C (hm_streams r)" and "room 1 (hm_streams r)"
    and "claims_work C now worker lease" and "0 < maxn"
    and "claim_outbox_messages C now ord worker maxn lease r = (res, r')"
  shows "\<exists>cs. res = Ok cs \<and> hm_inv ord r' \<and> box_ok C (hm_streams r') \<and> distinct (map om_id cs) \<and>
    (\<forall>i. i \<notin> om_id ` set cs \<longrightarrow> hm_streams r' i = hm_streams r i) \<and>
    (\<forall>c \<in> set cs.
       seen C (hm_streams r) (om_id c) = Some (Pending, om_event_type c, om_payload c) \<and>
       seen C (hm_streams r') (om_id c) = Some (InFlight, om_event_type c, om_payload c) \<and>
       (\<exists>evs. hm_streams r (om_id c) = Some evs \<and>
          length (stream_of (hm_streams r') (om_id c)) = Suc (length evs)))"
proof -
  have ok: "oc_ok C" using assms(4) by (simp add: claims_work_def)
  obtain cs where cs: "res = Ok cs"
    "cs = take maxn (List.map_filter (claimed_of C now worker lease) (hm_iter (hr_events r) (ord (hr_events r))))"
    "hr_events r' = save_all cs (hr_events r)" "hm_inv ord r'" "distinct (map om_id cs)"
    using claim_result [OF assms(1-5)] assms(6) by auto
  note run = assms(1-4) take_claimed [OF cs(2)]
  note eff = claim_effect [OF run] and after = streams_after_claims [OF cs(3,5)]
  have box: "box_ok C (hm_streams r')" by (rule claim_box_ok [OF run cs(3,5)])
  have was: "seen C (hm_streams r) (om_id c) = Some (Pending, om_event_type c, om_payload c)" if "c \<in> set cs" for c
    using eff(1) [OF that] by (auto simp: claimed_from_def seen_at [OF assms(2) ok, of _ now])
  have grown: "\<exists>evs. hm_streams r (om_id c) = Some evs \<and>
       length (stream_of (hm_streams r') (om_id c)) = Suc (length evs)" if c: "c \<in> set cs" for c
  proof -
    obtain m ev where m: "box C now (hm_streams r) (om_id c) = Some m" "en_events (om_entity c) = en_events (om_entity m) @ [ev]"
      using eff(1) [OF c] by (auto simp: claimed_from_def)
    obtain evs where evs: "hm_streams r (om_id c) = Some evs" "prefix id_prefix (om_id c)"
      "stored_message C now (om_id c) evs = Ok m" using m(1) box_Some_iff [OF assms(2) ok] by blast
    have "om_entity m = entity_from now (om_id c) evs"
      by (rule box_ok_stored [OF assms(2) ok evs(1,2), of now]) (use evs(3) in simp)
    with m(2) evs(1) after(2) [OF c] show ?thesis by (simp add: stream_of_def)
  qed
  have now_in: "seen C (hm_streams r') (om_id c) = Some (InFlight, om_event_type c, om_payload c)" if c: "c \<in> set cs" for c
  proof -
    obtain kv where kv: "kv \<in> set (hm_iter (hr_events r) (ord (hr_events r)))" "claimed_of C now worker lease kv = Some c"
      using c cs(2) by (auto dest!: in_set_takeD simp: in_map_filter)
    obtain i evs where [simp]: "kv = (i, evs)" by (cases kv)
    have t: "hm_streams r i = Some evs" using kv(1) hm_iter_stream [OF assms(1)] by simp
    obtain m' where m': "om_good C m'" "c = m'\<lparr>om_entity := mark_committed (om_entity m')\<rparr>"
      "om_status m' = InFlight" "om_id m' = i" "prefix id_prefix i"
      by (rule claimed_of_spec [OF kv(2) [simplified] assms(2) t assms(4,3)])
    have "om_id c = i" "en_events (om_entity c) = en_events (om_entity m')"
      using m' by (simp_all add: om_id_def mark_committed_def)
    then have "box C 0 (hm_streams r') (om_id m') = Some (m'\<lparr>om_entity := entity_from 0 (om_id m')
        (en_events (om_entity m')), om_created_at := 0\<rparr>)"
      using after(2) [OF c] m' by (intro box_good [OF ok]) auto
    with m' \<open>om_id c = i\<close> show ?thesis by (simp add: seen_def)
  qed
  show ?thesis using cs(1,4,5) box after(1) was now_in grown by blast
qed

lemma client_seen:
  assumes "hm_inv ord r" and "box_ok C (hm_streams r)" and "oc_ok C" and "client_batch C (hm_streams r) es"
    and "hm_commit (r, es) = (res, r', es')"
  shows "hm_inv ord r' \<and> box_ok C (hm_streams r') \<and>
    (\<forall>i. prefix id_prefix i \<longrightarrow> hm_streams r i \<noteq> None \<longrightarrow> hm_streams r' i = hm_streams r i) \<and>
    (\<forall>i x. seen C (hm_streams r') i = Some x \<longrightarrow>
       seen C (hm_streams r) i = Some x \<or> (hm_streams r i = None \<and> fst x = Pending))"
proof -
  have wf: "\<forall>e \<in> set es. entity_wf e" using assms(4) by (simp add: client_batch_def)
  from hm.commit_cases [OF assms(1) wf, of 0] assms(5)
  consider "r' = r" | "\<forall>e \<in> set es. current (hm_streams r) e" "hm_inv ord r'" "hm_streams r' = append_all es (hm_streams r)"
    by (auto simp: hashmap_repo_def)
  then show ?thesis
  proof cases
    case 1
    with assms(1,2) show ?thesis by simp
  next
    case 2
    have new: "\<exists>m. om_good C m \<and> om_status m = Pending \<and> om_id m = i \<and> vec_fits (en_events (om_entity m)) \<and>
        hm_streams r i = None \<and> hm_streams r' i = Some (en_events (om_entity m))"
      if "prefix id_prefix i" "hm_streams r' i \<noteq> hm_streams r i" for i
    proof -
      from that(2) obtain e where e: "e \<in> set es" "en_id e = i" using append_all_other [of es i] 2(3) by metis
      with that(1) assms(4) obtain m where m: "hm_streams r i = None" "vec_fits (en_events e)"
        "om_good C m" "om_status m = Pending" "om_entity m = e" by (auto simp: client_batch_def)
      have "stream_of (hm_streams r) (en_id e) = []" using m(1) e(2) by (simp add: stream_of_def)
      moreover have "en_committed_version e = 0" using 2(1) e m(1) by (auto simp: current_def stream_of_def)
      moreover have "distinct (map en_id es)" using assms(4) by (simp add: client_batch_def)
      ultimately have "hm_streams r' i = Some (en_events e)"
        using append_all_distinct [of es e "hm_streams r"] e 2(3) by (simp add: uncommitted_def)
      with m e show ?thesis by (intro exI [of _ m]) (simp add: om_id_def)
    qed
    have "box_ok C (hm_streams r')"
      unfolding box_ok_def
    proof (intro allI impI)
      fix i evs assume i: "hm_streams r' i = Some evs" "prefix id_prefix i"
      show "vec_fits evs \<and> (\<exists>m. om_good C m \<and> om_id m = i \<and> en_events (om_entity m) = evs)"
      proof (cases "hm_streams r' i = hm_streams r i")
        case True
        with i assms(2) show ?thesis by (simp add: box_ok_def)
      next
        case False
        from new [OF i(2) this] i(1) show ?thesis by auto
      qed
    qed
    moreover have "seen C (hm_streams r) i = Some x \<or> (hm_streams r i = None \<and> fst x = Pending)"
      if x: "seen C (hm_streams r') i = Some x" for i x
    proof (cases "hm_streams r' i = hm_streams r i")
      case True
      with x seen_cong [of "hm_streams r'" i "hm_streams r" C] show ?thesis by simp
    next
      case False
      have p: "prefix id_prefix i" using x by (auto simp: seen_def box_def split: if_splits)
      from new [OF this False] obtain m where m: "om_good C m" "om_status m = Pending" "om_id m = i"
        "hm_streams r i = None" "hm_streams r' i = Some (en_events (om_entity m))" by blast
      with box_good [OF assms(3) m(1), of "hm_streams r'" 0] p x show ?thesis by (auto simp: seen_def)
    qed
    moreover have "hm_streams r' i = hm_streams r i" if "prefix id_prefix i" "hm_streams r i \<noteq> None" for i
      using new [OF that(1)] that(2) by blast
    ultimately show ?thesis using 2(2) by blast
  qed
qed

section \<open>The invariant\<close>

definition held_ids :: "'s outbox_system \<Rightarrow> nat \<Rightarrow> string list" where
  "held_ids s t = map (\<lambda>(c, g). om_id c) (os_hand s t)"

definition sent_ids :: "'s outbox_system \<Rightarrow> string list" where
  "sent_ids s = map om_id (os_sent s)"

text \<open>A held message is in flight (or was failed by an operator), and was sent when it was accepted.\<close>

definition held_ok :: "outbox_codec \<Rightarrow> 's outbox_system \<Rightarrow> outbox_message \<times> stage \<Rightarrow> bool" where
  "held_ok C s h \<longleftrightarrow>
     (\<exists>st \<in> {InFlight, Failed}. seen C (os_streams s) (om_id (fst h)) =
        Some (st, om_event_type (fst h), om_payload (fst h))) \<and>
     (snd h = Accepted \<longleftrightarrow> om_id (fst h) \<in> set (sent_ids s))"

definition os_inv :: "outbox_codec \<Rightarrow> event_order \<Rightarrow> 's outbox_system \<Rightarrow> bool" where
  "os_inv C ord s \<longleftrightarrow>
     hm_inv ord (os_repo s) \<and> box_ok C (os_streams s) \<and>
     (\<forall>t. distinct (held_ids s t)) \<and>
     (\<forall>t u. t \<noteq> u \<longrightarrow> set (held_ids s t) \<inter> set (held_ids s u) = {}) \<and>
     (\<forall>t. \<forall>h \<in> set (os_hand s t). held_ok C s h) \<and>
     distinct (sent_ids s) \<and>
     (\<forall>c \<in> set (os_sent s). \<exists>st. st \<noteq> Pending \<and>
        seen C (os_streams s) (om_id c) = Some (st, om_event_type c, om_payload c)) \<and>
     (\<forall>i ty pl. seen C (os_streams s) i = Some (Published, ty, pl) \<longrightarrow> i \<in> set (sent_ids s))"

text \<open>Taking the first message from a hand, or emptying it, keeps what is said of hands.\<close>

lemma held_ids_simps [simp]:
  "held_ids (s\<lparr>os_repo := r\<rparr>) = held_ids s" "held_ids (s\<lparr>os_bus := b\<rparr>) = held_ids s"
  "held_ids (s\<lparr>os_sent := xs\<rparr>) = held_ids s"
  "held_ids (s\<lparr>os_hand := (os_hand s)(t := hs)\<rparr>) = (held_ids s)(t := map (\<lambda>(c, g). om_id c) hs)"
  "sent_ids (s\<lparr>os_repo := r\<rparr>) = sent_ids s" "sent_ids (s\<lparr>os_bus := b\<rparr>) = sent_ids s"
  "sent_ids (s\<lparr>os_sent := xs\<rparr>) = map om_id xs" "sent_ids (s\<lparr>os_hand := h\<rparr>) = sent_ids s"
  by (auto simp: held_ids_def sent_ids_def fun_eq_iff)

lemma inv_parts:
  assumes "os_inv C ord s"
  shows "hm_inv ord (os_repo s)" "box_ok C (os_streams s)" "\<And>t. distinct (held_ids s t)"
    "\<And>t h. h \<in> set (os_hand s t) \<Longrightarrow> held_ok C s h" "distinct (sent_ids s)"
    "\<And>c. c \<in> set (os_sent s) \<Longrightarrow> \<exists>st. st \<noteq> Pending \<and>
        seen C (os_streams s) (om_id c) = Some (st, om_event_type c, om_payload c)"
    "\<And>i ty pl. seen C (os_streams s) i = Some (Published, ty, pl) \<Longrightarrow> i \<in> set (sent_ids s)"
    "\<And>t u. t \<noteq> u \<Longrightarrow> set (held_ids s t) \<inter> set (held_ids s u) = {}"
  using assms by (auto simp: os_inv_def)

lemma held_in_ids: "(c, g) \<in> set (os_hand s t) \<Longrightarrow> om_id c \<in> set (held_ids s t)"
  by (force simp: held_ids_def)

text \<open>Nobody else holds the message that thread \<open>t\<close> has first, and \<open>t\<close> has it once.\<close>

lemma first_held_only:
  assumes "os_inv C ord s" and "os_hand s t = (c, g) # rest"
  shows "\<And>d k. (d, k) \<in> set rest \<Longrightarrow> om_id d \<noteq> om_id c"
    and "\<And>u d k. u \<noteq> t \<Longrightarrow> (d, k) \<in> set (os_hand s u) \<Longrightarrow> om_id d \<noteq> om_id c"
    and "held_ok C s (c, g)" and "held_ids s t = om_id c # map (\<lambda>(c, g). om_id c) rest"
proof -
  from assms(2) show ids: "held_ids s t = om_id c # map (\<lambda>(c, g). om_id c) rest" by (simp add: held_ids_def)
  have "distinct (held_ids s t)" using assms(1) by (simp add: os_inv_def)
  then show "om_id d \<noteq> om_id c" if "(d, k) \<in> set rest" for d k using that by (force simp: ids)
  show "om_id d \<noteq> om_id c" if "u \<noteq> t" "(d, k) \<in> set (os_hand s u)" for u d k
  proof -
    have "set (held_ids s u) \<inter> set (held_ids s t) = {}" using assms(1) that(1) by (simp add: os_inv_def)
    with held_in_ids [OF that(2)] show ?thesis by (auto simp: ids)
  qed
  show "held_ok C s (c, g)" by (rule inv_parts(4) [OF assms(1), of _ t]) (simp add: assms(2))
qed

text \<open>
  What a change of the store must keep: the messages in the hands stay in flight or failed, sent
  ones do not become pending again, and none becomes published that was not sent.
\<close>

lemma os_inv_store:
  assumes "os_inv C ord s" and "hm_inv ord r" and "box_ok C (hm_streams r)"
    and "\<And>u c g. (c, g) \<in> set (hs u) \<Longrightarrow> (c, g) \<in> set (os_hand s u) \<and>
      (\<exists>st \<in> {InFlight, Failed}. seen C (hm_streams r) (om_id c) = Some (st, om_event_type c, om_payload c))"
    and "\<And>u. distinct (map (\<lambda>(c, g). om_id c) (hs u))"
    and "\<And>c. c \<in> set (os_sent s) \<Longrightarrow>
      \<exists>st. st \<noteq> Pending \<and> seen C (hm_streams r) (om_id c) = Some (st, om_event_type c, om_payload c)"
    and "\<And>i ty pl. seen C (hm_streams r) i = Some (Published, ty, pl) \<Longrightarrow> i \<in> set (sent_ids s)"
  shows "os_inv C ord (s\<lparr>os_repo := r, os_hand := hs\<rparr>)"
proof -
  have "set (held_ids (s\<lparr>os_repo := r, os_hand := hs\<rparr>) u) \<subseteq> set (held_ids s u)" for u
    using assms(4) by (force simp: held_ids_def)
  moreover have "\<forall>t u. t \<noteq> u \<longrightarrow> set (held_ids s t) \<inter> set (held_ids s u) = {}"
    using assms(1) by (simp add: os_inv_def)
  ultimately have "\<forall>t u. t \<noteq> u \<longrightarrow> set (held_ids (s\<lparr>os_repo := r, os_hand := hs\<rparr>) t) \<inter>
      set (held_ids (s\<lparr>os_repo := r, os_hand := hs\<rparr>) u) = {}" by blast
  moreover have "held_ok C (s\<lparr>os_repo := r, os_hand := hs\<rparr>) (c, g)" if "(c, g) \<in> set (hs u)" for u c g
  proof -
    have "held_ok C s (c, g)" using assms(1) assms(4) [OF that] by (auto simp: os_inv_def)
    with assms(4) [OF that] show ?thesis by (simp add: held_ok_def sent_ids_def)
  qed
  ultimately show ?thesis
    using assms by (auto simp: os_inv_def held_ids_def sent_ids_def)
qed

lemma claim_inv:
  assumes "os_inv C ord s" and "os_hand s t = []" and "claims_work C now worker (duration_from_secs 60)"
    and "room 1 (os_streams s)"
    and "claim_outbox_messages C now ord worker 100 (duration_from_secs 60) (os_repo s) = (Ok cs, r)"
  shows "os_inv C ord (s\<lparr>os_repo := r, os_hand := (os_hand s)(t := map (\<lambda>c. (c, Claimed)) cs)\<rparr>)"
proof -
  note p = inv_parts [OF assms(1)]
  have cs: "hm_inv ord r" "box_ok C (hm_streams r)" "distinct (map om_id cs)"
    "\<And>i. i \<notin> om_id ` set cs \<Longrightarrow> hm_streams r i = os_streams s i"
    "\<And>c. c \<in> set cs \<Longrightarrow> seen C (os_streams s) (om_id c) = Some (Pending, om_event_type c, om_payload c)"
    "\<And>c. c \<in> set cs \<Longrightarrow> seen C (hm_streams r) (om_id c) = Some (InFlight, om_event_type c, om_payload c)"
    using claim_seen [OF p(1,2) assms(4,3) _ assms(5)] by auto
  have same: "seen C (hm_streams r) i = seen C (os_streams s) i" if "i \<notin> om_id ` set cs" for i
    by (rule seen_cong) (use cs(4) that in simp)
  have fresh: "om_id c \<notin> set (sent_ids s)" "\<And>u. om_id c \<notin> set (held_ids s u)" if "c \<in> set cs" for c
  proof -
    show "om_id c \<notin> set (sent_ids s)"
    proof
      assume "om_id c \<in> set (sent_ids s)"
      then obtain d where d: "d \<in> set (os_sent s)" "om_id d = om_id c" by (auto simp: sent_ids_def)
      with p(6) [OF d(1)] cs(5) [OF that] show False by auto
    qed
    show "om_id c \<notin> set (held_ids s u)" for u
    proof
      assume "om_id c \<in> set (held_ids s u)"
      then obtain d g where d: "(d, g) \<in> set (os_hand s u)" "om_id d = om_id c" by (auto simp: held_ids_def)
      with p(4) [OF d(1)] cs(5) [OF that] show False by (auto simp: held_ok_def)
    qed
  qed
  let ?s = "s\<lparr>os_repo := r, os_hand := (os_hand s)(t := map (\<lambda>c. (c, Claimed)) cs)\<rparr>"
  have ids: "held_ids ?s u = (if u = t then map om_id cs else held_ids s u)" for u
    by (simp add: held_ids_def comp_def)
  have held: "held_ok C ?s h" if h: "h \<in> set (os_hand ?s u)" for u h
  proof (cases "u = t")
    case True
    with h obtain c where c: "h = (c, Claimed)" "c \<in> set cs" by auto
    with cs(6) [OF c(2)] fresh(1) [OF c(2)] show ?thesis by (auto simp: held_ok_def sent_ids_def)
  next
    case False
    then have hu: "h \<in> set (os_hand s u)" using h by simp
    then have "om_id (fst h) \<in> set (held_ids s u)" by (metis held_in_ids prod.collapse)
    then have "om_id (fst h) \<notin> om_id ` set cs" using fresh(2) [of _ u] by force
    with p(4) [OF hu] show ?thesis by (simp add: held_ok_def sent_ids_def same)
  qed
  have disj: "set (held_ids ?s v) \<inter> set (held_ids ?s u) = {}" if "v \<noteq> u" for v u
    using p(8) [OF that] fresh(2) that by (auto simp: ids)
  have sent: "\<exists>st. st \<noteq> Pending \<and> seen C (hm_streams r) (om_id c) = Some (st, om_event_type c, om_payload c)"
    if c: "c \<in> set (os_sent s)" for c
  proof -
    have "om_id c \<in> set (sent_ids s)" using c by (simp add: sent_ids_def)
    then have "om_id c \<notin> om_id ` set cs" using fresh(1) by (metis imageE)
    with p(6) [OF c] show ?thesis by (simp add: same)
  qed
  have pub: "i \<in> set (sent_ids s)" if "seen C (hm_streams r) i = Some (Published, ty, pl)" for i ty pl
  proof (cases "i \<in> om_id ` set cs")
    case True
    with cs(6) that show ?thesis by auto
  next
    case False
    with that p(7) show ?thesis by (simp add: same)
  qed
  show ?thesis
    unfolding os_inv_def
    using cs(1-3) held disj sent pub p(3,5) ids by (simp add: sent_ids_def)
qed

text \<open>The two steps at the bus change neither the store nor whose hands a message is in.\<close>

lemma stage_inv:
  assumes "os_inv C ord s" and "os_hand s t = (c, Claimed) # rest"
  shows "os_inv C ord (s\<lparr>os_bus := b, os_sent := os_sent s @ [c], os_hand := (os_hand s)(t := (c, Accepted) # rest)\<rparr>)"
    and "os_inv C ord (s\<lparr>os_bus := b, os_hand := (os_hand s)(t := (c, Refused) # rest)\<rparr>)"
proof -
  note p = inv_parts [OF assms(1)] and f = first_held_only [OF assms]
  have c: "om_id c \<notin> set (sent_ids s)"
    "\<exists>st \<in> {InFlight, Failed}. seen C (os_streams s) (om_id c) = Some (st, om_event_type c, om_payload c)"
    using f(3) by (simp_all add: held_ok_def)
  have ids: "held_ids (s'\<lparr>os_hand := (os_hand s)(t := (c, g) # rest)\<rparr>) = held_ids s" for g and s' :: "'a outbox_system"
    using f(4) by (auto simp: held_ids_def fun_eq_iff)
  have other: "om_id d \<noteq> om_id c" if "(d, k) \<in> set (((os_hand s)(t := (c, g) # rest)) u)" "(d, k) \<noteq> (c, g)" for d k u g
    using that f(1,2) by (cases "u = t") auto
  have old: "held_ok C s (d, k)" if "(d, k) \<in> set (((os_hand s)(t := (c, g) # rest)) u)" "(d, k) \<noteq> (c, g)" for d k u g
    using that p(4) [of "(d, k)" u] assms(2) by (cases "u = t") auto
  let ?a = "s\<lparr>os_bus := b, os_sent := os_sent s @ [c], os_hand := (os_hand s)(t := (c, Accepted) # rest)\<rparr>"
  let ?r = "s\<lparr>os_bus := b, os_hand := (os_hand s)(t := (c, Refused) # rest)\<rparr>"
  have sa: "sent_ids ?a = sent_ids s @ [om_id c]" and sr: "sent_ids ?r = sent_ids s"
    by (simp_all add: sent_ids_def)
  have si: "set (sent_ids s) = om_id ` set (os_sent s)" by (simp add: sent_ids_def)
  have ha: "held_ok C ?a h" if h: "h \<in> set (os_hand ?a u)" for h u
  proof (cases "h = (c, Accepted)")
    case True
    with c show ?thesis by (simp add: held_ok_def sa)
  next
    case False
    obtain d k where [simp]: "h = (d, k)" by (cases h)
    from h False have "held_ok C s (d, k)" "om_id d \<noteq> om_id c"
      using old [of d k Accepted u] other [of d k Accepted u] by simp_all
    then show ?thesis by (simp add: held_ok_def sa si)
  qed
  have hr: "held_ok C ?r h" if h: "h \<in> set (os_hand ?r u)" for h u
  proof (cases "h = (c, Refused)")
    case True
    with c show ?thesis by (simp add: held_ok_def sr)
  next
    case False
    obtain d k where [simp]: "h = (d, k)" by (cases h)
    from h False have "held_ok C s (d, k)" using old [of d k Refused u] by simp
    then show ?thesis by (simp add: held_ok_def sr)
  qed
  have sent: "\<exists>st. st \<noteq> Pending \<and> seen C (os_streams s) (om_id d) = Some (st, om_event_type d, om_payload d)"
    if "d \<in> set (os_sent s @ [c])" for d
    using that p(6) [of d] c(2) by auto
  show "os_inv C ord ?a" unfolding os_inv_def ids sa
    using p(1-3,5,7,8) c(1) ha sent by auto
  show "os_inv C ord ?r" unfolding os_inv_def ids sr
    using p(1-3,5,6,7,8) hr by auto
qed

lemma settled_inv:
  assumes "os_inv C ord s" and "os_hand s t = (c, g) # rest"
    and "hm_inv ord r" and "box_ok C (hm_streams r)"
    and "seen C (os_streams s) (om_id c) = Some (st, ty, pl)"
    and "seen C (hm_streams r) = (seen C (os_streams s))(om_id c \<mapsto> (st', ty, pl))"
    and "st' = Pending \<longrightarrow> g \<noteq> Accepted" and "st' = Published \<longrightarrow> g = Accepted"
  shows "os_inv C ord (s\<lparr>os_repo := r, os_hand := (os_hand s)(t := rest)\<rparr>)"
proof (rule os_inv_store [OF assms(1,3,4)])
  note p = inv_parts [OF assms(1)] and f = first_held_only [OF assms(1,2)]
  fix u d k assume d: "(d, k) \<in> set (((os_hand s)(t := rest)) u)"
  then have "(d, k) \<in> set (os_hand s u)" "om_id d \<noteq> om_id c"
    using f(1,2) assms(2) by (cases "u = t"; auto)+
  with p(4) [OF this(1)] show "(d, k) \<in> set (os_hand s u) \<and>
      (\<exists>st \<in> {InFlight, Failed}. seen C (hm_streams r) (om_id d) = Some (st, om_event_type d, om_payload d))"
    by (simp add: held_ok_def assms(6))
next
  fix u show "distinct (map (\<lambda>(c, g). om_id c) (((os_hand s)(t := rest)) u))"
    using inv_parts(3) [OF assms(1), of u] first_held_only(4) [OF assms(1,2)]
    by (cases "u = t") (simp_all add: held_ids_def)
next
  have g: "g = Accepted \<longleftrightarrow> om_id c \<in> set (sent_ids s)"
    using first_held_only(3) [OF assms(1,2)] by (simp add: held_ok_def)
  fix d assume d: "d \<in> set (os_sent s)"
  then have "om_id d \<in> set (sent_ids s)" by (simp add: sent_ids_def)
  with inv_parts(6) [OF assms(1) d] assms(5,7) g
  show "\<exists>st. st \<noteq> Pending \<and> seen C (hm_streams r) (om_id d) = Some (st, om_event_type d, om_payload d)"
    by (auto simp: assms(6))
next
  have g: "g = Accepted \<longleftrightarrow> om_id c \<in> set (sent_ids s)"
    using first_held_only(3) [OF assms(1,2)] by (simp add: held_ok_def)
  fix i ty' pl' assume "seen C (hm_streams r) i = Some (Published, ty', pl')"
  then show "i \<in> set (sent_ids s)"
    using inv_parts(7) [OF assms(1), of i ty' pl'] assms(8) g
    by (cases "i = om_id c") (simp_all add: assms(6))
qed

lemma crash_inv:
  assumes "os_inv C ord s"
  shows "os_inv C ord (s\<lparr>os_hand := (os_hand s)(t := [])\<rparr>)"
proof -
  note p = inv_parts [OF assms]
  have "os_inv C ord (s\<lparr>os_repo := os_repo s, os_hand := (os_hand s)(t := [])\<rparr>)"
  proof (rule os_inv_store [OF assms p(1,2)], goal_cases)
    case (1 u c g)
    then have "(c, g) \<in> set (os_hand s u)" by (simp split: if_splits)
    with p(4) [OF this] show ?case by (simp add: held_ok_def)
  next
    case (2 u)
    with p(3) [of u] show ?case by (simp add: held_ids_def)
  qed (use p(6,7) in simp_all)
  then show ?thesis by simp
qed

lemma fail_inv:
  assumes "os_inv C ord s" and "serialises C" and "fits_one (os_streams s) (normalize_id i)"
    and "fail_outbox_message C now i err (os_repo s) = (res, r)"
  shows "os_inv C ord (s\<lparr>os_repo := r\<rparr>)"
proof -
  note p = inv_parts [OF assms(1)]
  note f = fail_seen [OF p(1,2) assms(2-4)]
  then have sr: "seen C (hm_streams r) j = (if j = normalize_id i
      then map_option (\<lambda>(st, ty, pl). (if st \<in> {Pending, InFlight} then Failed else st, ty, pl)) (seen C (os_streams s) j)
      else seen C (os_streams s) j)" for j by simp
  have "os_inv C ord (s\<lparr>os_repo := r, os_hand := os_hand s\<rparr>)"
  proof (rule os_inv_store [OF assms(1)], goal_cases)
    case (3 u c g)
    from p(4) [OF 3] obtain st where st: "st \<in> {InFlight, Failed}"
      "seen C (os_streams s) (om_id c) = Some (st, om_event_type c, om_payload c)" by (auto simp: held_ok_def)
    let ?st = "if om_id c = normalize_id i then Failed else st"
    have "seen C (hm_streams r) (om_id c) = Some (?st, om_event_type c, om_payload c)"
      using st by (cases "om_id c = normalize_id i") (auto simp add: sr)
    moreover have "?st \<in> {InFlight, Failed}" using st(1) by simp
    ultimately show ?case using 3 by blast
  next
    case (4 u)
    show ?case using p(3) [of u] by (simp add: held_ids_def)
  next
    case (5 c)
    from p(6) [OF 5] obtain st where st: "st \<noteq> Pending"
      "seen C (os_streams s) (om_id c) = Some (st, om_event_type c, om_payload c)" by blast
    let ?st = "if om_id c = normalize_id i \<and> st = InFlight then Failed else st"
    have "seen C (hm_streams r) (om_id c) = Some (?st, om_event_type c, om_payload c)"
      using st by (cases "om_id c = normalize_id i") (auto simp add: sr)
    moreover have "?st \<noteq> Pending" using st(1) by simp
    ultimately show ?case by blast
  next
    case (6 i' ty pl)
    then have "seen C (os_streams s) i' = Some (Published, ty, pl)"
      by (simp add: sr split: if_splits option.splits prod.splits) (auto split: if_splits)
    then show ?case by (rule p(7))
  qed (use f in simp_all)
  then show ?thesis by simp
qed

lemma client_inv:
  assumes "os_inv C ord s" and "oc_ok C" and "client_batch C (os_streams s) es"
    and "hm_commit (os_repo s, es) = (res, r, es')"
  shows "os_inv C ord (s\<lparr>os_repo := r\<rparr>)"
proof -
  note p = inv_parts [OF assms(1)]
  note f = client_seen [OF p(1,2) assms(2-4)]
  have same: "seen C (hm_streams r) i = seen C (os_streams s) i" if "seen C (os_streams s) i \<noteq> None" for i
  proof (rule seen_cong)
    from that have "prefix id_prefix i" "os_streams s i \<noteq> None" by (auto simp: seen_def box_def split: if_splits option.splits)
    with f show "hm_streams r i = os_streams s i" by blast
  qed
  have "os_inv C ord (s\<lparr>os_repo := r, os_hand := os_hand s\<rparr>)"
  proof (rule os_inv_store [OF assms(1)], goal_cases)
    case (3 u c g)
    with p(4) [OF 3] same [of "om_id c"] show ?case by (auto simp: held_ok_def)
  next
    case (4 u)
    with p(3) show ?case by (simp add: held_ids_def)
  next
    case (5 c)
    with p(6) [OF 5] same [of "om_id c"] show ?case by auto
  next
    case (6 i ty pl)
    with p(7) f show ?case by fastforce
  qed (use f in simp_all)
  then show ?thesis by simp
qed

lemma os_step_inv:
  assumes "serialises C" and "os_step C ord mord out s s'" and "os_inv C ord s"
  shows "os_inv C ord s'"
proof -
  have ok: "oc_ok C" using assms(1) by (simp add: serialises_def)
  note p = inv_parts [OF assms(3)]
  from assms(2) show ?thesis
  proof (cases rule: os_stepE
      [consumes 1, case_names os_claim os_publish os_refuse os_complete os_release os_crash os_fail os_client os_consumer])
    case (os_claim t now worker cs r)
    with claim_inv [OF assms(3)] show ?thesis by simp
  next
    case (os_publish t c rest b)
    with stage_inv(1) [OF assms(3)] show ?thesis by simp
  next
    case (os_refuse t c rest err b)
    with stage_inv(2) [OF assms(3)] show ?thesis by simp
  next
    case (os_complete t c rest now res r)
    have "held_ok C s (c, Accepted)" by (rule first_held_only(3) [OF assms(3) os_complete(2)])
    then obtain st where st: "st \<in> {InFlight, Failed}"
      "seen C (os_streams s) (om_id c) = Some (st, om_event_type c, om_payload c)" by (auto simp: held_ok_def)
    from complete_seen [OF p(1,2) assms(1) os_complete(3) st(2) os_complete(4)] st
      settled_inv [OF assms(3) os_complete(2) _ _ st(2), of r]
    show ?thesis by (auto simp: os_complete(1))
  next
    case (os_release t c rest now res r)
    have "held_ok C s (c, Refused)" by (rule first_held_only(3) [OF assms(3) os_release(2)])
    then obtain st where st: "st \<in> {InFlight, Failed}"
      "seen C (os_streams s) (om_id c) = Some (st, om_event_type c, om_payload c)" by (auto simp: held_ok_def)
    from release_seen [OF p(1,2) assms(1) os_release(3) st(2) os_release(4)] st
      settled_inv [OF assms(3) os_release(2) _ _ st(2), of r]
    show ?thesis by (auto simp: os_release(1))
  next
    case (os_crash t)
    with crash_inv [OF assms(3)] show ?thesis by simp
  next
    case (os_fail i now err res r)
    with fail_inv [OF assms(3,1)] show ?thesis by simp
  next
    case (os_client es res r es')
    with client_inv [OF assms(3) ok] show ?thesis by simp
  next
    case (os_consumer b)
    have "os_inv C ord (s\<lparr>os_bus := b\<rparr>) = os_inv C ord s"
      by (simp add: os_inv_def held_ok_def held_ids_def sent_ids_def)
    with assms(3) show ?thesis by (simp add: os_consumer)
  qed
qed

lemma os_run_inv:
  assumes "os_run C ord mord out s s'" and "serialises C" and "os_inv C ord s"
  shows "os_inv C ord s'"
  using assms by (induction rule: rtranclp_induct) (auto intro: os_step_inv)

section \<open>The start\<close>

definition os_start :: "hm_repo \<Rightarrow> 's \<Rightarrow> 's outbox_system" where
  "os_start r b = \<lparr>os_repo = r, os_bus = b, os_sent = [], os_hand = (\<lambda>_. [])\<rparr>"

lemma os_start_inv:
  assumes "hm_inv ord r" and "box_ok C (hm_streams r)" and "oc_ok C"
    and "\<forall>i m. box C now (hm_streams r) i = Some m \<longrightarrow> om_status m \<noteq> Published"
  shows "os_inv C ord (os_start r b)"
  using assms by (auto simp: os_inv_def os_start_def held_ids_def sent_ids_def seen_at [OF assms(2,3), of _ now])

text \<open>For the witnesses: a poll over a repository with one pending message.\<close>

lemma sample_serialises: "serialises sample_publisher_codec"
  by (simp add: serialises_def sample_publisher_codec_ok)

lemma sample_claims_minute: "claims_work sample_publisher_codec 0 ''w'' (duration_from_secs 60)"
  using sample_publisher_claims by (simp add: duration_from_secs_def)

lemma sample_pending:
  "\<exists>r i. hm_inv Mapping.ordered_keys r \<and> box_ok sample_publisher_codec (hm_streams r) \<and> room 2 (hm_streams r) \<and>
     (\<exists>m. box sample_publisher_codec 0 (hm_streams r) i = Some m \<and> om_status m = Pending) \<and>
     (\<forall>i m. box sample_publisher_codec 0 (hm_streams r) i = Some m \<longrightarrow> om_status m = Pending)"
proof -
  obtain m where "om_good sample_publisher_codec m" "om_status m = Pending" "length (en_events (om_entity m)) = 1"
    using sample_publisher_message by blast
  from single_box [OF sample_publisher_codec_ok this] show ?thesis by blast
qed

lemma sample_poll:
  "\<exists>r cs r' b'. hm_inv Mapping.ordered_keys r \<and> box_ok sample_publisher_codec (hm_streams r) \<and> room 2 (hm_streams r) \<and>
     (\<forall>i m. box sample_publisher_codec 0 (hm_streams r) i = Some m \<longrightarrow> om_status m \<noteq> Published) \<and>
     worker_poll (hashmap_outbox sample_publisher_codec Mapping.ordered_keys 0) (fan_out in_memory_publisher)
       Mapping.ordered_keys ''w'' worker_stats_default (r, (in_memory_queue_new, [])) =
     (Ok \<lparr>ws_published = length (cs :: outbox_message list), ws_failed = 0, ws_polls = 1\<rparr>, r', b') \<and> cs \<noteq> []"
proof -
  obtain r i where r: "hm_inv Mapping.ordered_keys r" "box_ok sample_publisher_codec (hm_streams r)" "room 2 (hm_streams r)"
    "\<exists>m. box sample_publisher_codec 0 (hm_streams r) i = Some m \<and> om_status m = Pending"
    "\<forall>i m. box sample_publisher_codec 0 (hm_streams r) i = Some m \<longrightarrow> om_status m = Pending"
    using sample_pending by blast
  have all: "sends_all (fan_out in_memory_publisher)"
    by (simp add: sends_all_def fan_out_def in_memory_publisher_def on_queue_def)
  obtain cs r' where poll: "worker_poll (hashmap_outbox sample_publisher_codec Mapping.ordered_keys 0) (fan_out in_memory_publisher)
       Mapping.ordered_keys ''w'' worker_stats_default (r, (in_memory_queue_new, [])) =
     (Ok (worker_stats_default\<lparr>ws_polls := ws_polls worker_stats_default + 1,
        ws_published := ws_published worker_stats_default + length cs\<rparr>), r',
      send_each (fan_out in_memory_publisher) Mapping.ordered_keys cs (in_memory_queue_new, []))"
    "\<forall>i. i \<notin> om_id ` set cs \<longrightarrow> hm_streams r' i = hm_streams r i"
    "length cs < 100 \<longrightarrow> (\<forall>i m. box sample_publisher_codec 0 (hm_streams r') i = Some m \<longrightarrow> om_status m \<noteq> Pending)"
    using worker_poll_effect [OF r(1-3) sample_claims_minute _ all, of Mapping.ordered_keys worker_stats_default
        "(in_memory_queue_new, [])"] by fastforce
  have "cs \<noteq> []"
  proof
    assume "cs = []"
    with poll(2) have "hm_streams r' = hm_streams r" by auto
    with poll(3) \<open>cs = []\<close> r(4) show False by auto
  qed
  moreover have "\<forall>i m. box sample_publisher_codec 0 (hm_streams r) i = Some m \<longrightarrow> om_status m \<noteq> Published"
    using r(5) by fastforce
  moreover have "worker_stats_default\<lparr>ws_polls := ws_polls worker_stats_default + 1,
        ws_published := ws_published worker_stats_default + length cs\<rparr> =
      \<lparr>ws_published = length cs, ws_failed = 0, ws_polls = 1\<rparr>" by (simp add: worker_stats_default_def)
  ultimately show ?thesis using r(1-3) poll(1)
    by (intro exI [of _ r] exI [of _ cs] exI [of _ r'] exI) simp_all
qed

section \<open>A turn of the worker is a run of the system\<close>

text \<open>
  The loop over claimed messages, with the answer of the bus to each: an accepted message is
  completed and a refused one released before the following one is published.
\<close>

inductive served ::
    "outbox_codec \<Rightarrow> system_time \<Rightarrow> (metadata \<Rightarrow> string list) \<Rightarrow>
     (outbox_message \<Rightarrow> bus_event \<Rightarrow> ('s, publish_error, unit) call) \<Rightarrow>
     hm_repo \<times> 's \<Rightarrow> (outbox_message \<times> bool) list \<Rightarrow> hm_repo \<times> 's \<Rightarrow> bool"
  for C now mord out where
  served_none: "served C now mord out rb [] rb"
| served_sent:
    "out m (message_event mord m) b = (Ok (), b1) \<Longrightarrow>
     complete_outbox_message C now (om_id m) r = (Ok (), r1) \<Longrightarrow>
     served C now mord out (r1, b1) ms rb \<Longrightarrow> served C now mord out (r, b) ((m, True) # ms) rb"
| served_refused:
    "out m (message_event mord m) b = (Err err, b1) \<Longrightarrow>
     release_outbox_message C now (om_id m) ''publish failed'' r = (Ok (), r1) \<Longrightarrow>
     served C now mord out (r1, b1) ms rb \<Longrightarrow> served C now mord out (r, b) ((m, False) # ms) rb"

lemma served_append:
  "served C now mord out x ms y \<Longrightarrow> served C now mord out y ns z \<Longrightarrow> served C now mord out x (ms @ ns) z"
  by (induction rule: served.induct) (auto intro: served.intros)

lemma delivery_steps:
  assumes "serialises C" and "os_inv C ord s" and hand: "os_hand s t = (m, Claimed) # rest"
    and fit: "fits_one (os_streams s) (om_id m)"
    and d: "deliver (hashmap_outbox C ord now) out mord m stats (os_repo s, os_bus s) = (Ok stats1, r1, b1)"
  shows "\<exists>ok. served C now mord out (os_repo s, os_bus s) [(m, ok)] (r1, b1) \<and>
    os_run C ord mord out s (s\<lparr>os_repo := r1, os_bus := b1, os_sent := os_sent s @ (if ok then [m] else []),
      os_hand := (os_hand s)(t := rest)\<rparr>) \<and>
    (\<forall>j. j \<noteq> om_id m \<longrightarrow> hm_streams r1 j = os_streams s j) \<and>
    stats1 = (if ok then stats\<lparr>ws_published := ws_published stats + 1\<rparr> else stats\<lparr>ws_failed := ws_failed stats + 1\<rparr>)"
proof -
  note p = inv_parts [OF assms(2)]
  obtain st where st: "seen C (os_streams s) (om_id m) = Some (st, om_event_type m, om_payload m)"
    using first_held_only(3) [OF assms(2) hand] by (auto simp: held_ok_def)
  let ?s1 = "\<lambda>add. s\<lparr>os_repo := r1, os_bus := b1, os_sent := os_sent s @ add, os_hand := (os_hand s)(t := rest)\<rparr>"
  obtain res b where Pair: "out m (message_event mord m) (os_bus s) = (res, b)" by force
  then consider (ok) "res = Ok ()" | (err) err where "res = Err err"
    using d by (cases res) (auto simp: deliver_def)
  then show ?thesis
  proof cases
    case ok
    obtain cres r2 where c: "complete_outbox_message C now (om_id m) (os_repo s) = (cres, r2)" by force
    note cs = complete_seen [OF p(1,2) assms(1) fit st c]
    with d ok Pair c have e: "r1 = r2" "b1 = b" "stats1 = stats\<lparr>ws_published := ws_published stats + 1\<rparr>"
      by (auto simp: deliver_def hashmap_outbox_def)
    let ?s = "s\<lparr>os_bus := b, os_sent := os_sent s @ [m], os_hand := (os_hand s)(t := (m, Accepted) # rest)\<rparr>"
    have "os_step C ord mord out s ?s"
      by (rule os_step.os_publish [OF hand]) (use Pair ok in simp)
    moreover have "os_step C ord mord out ?s (?s\<lparr>os_repo := r2, os_hand := (os_hand ?s)(t := rest)\<rparr>)"
      by (rule os_step.os_complete) (use c fit in simp_all)
    moreover have "?s\<lparr>os_repo := r2, os_hand := (os_hand ?s)(t := rest)\<rparr> = ?s1 [m]" by (simp add: e)
    ultimately have "os_run C ord mord out s (?s1 [m])"
      by (metis (no_types) converse_rtranclp_into_rtranclp r_into_rtranclp)
    moreover have "served C now mord out (os_repo s, os_bus s) [(m, True)] (r1, b1)"
      using Pair ok c cs e by (intro served_sent [OF _ _ served_none]) simp_all
    ultimately show ?thesis using cs e by (intro exI [of _ True]) simp
  next
    case err
    obtain cres r2 where c: "release_outbox_message C now (om_id m) ''publish failed'' (os_repo s) = (cres, r2)" by force
    note cs = release_seen [OF p(1,2) assms(1) fit st c]
    with d err Pair c have e: "r1 = r2" "b1 = b" "stats1 = stats\<lparr>ws_failed := ws_failed stats + 1\<rparr>"
      by (auto simp: deliver_def hashmap_outbox_def)
    let ?s = "s\<lparr>os_bus := b, os_hand := (os_hand s)(t := (m, Refused) # rest)\<rparr>"
    have "os_step C ord mord out s ?s"
      by (rule os_step.os_refuse [OF hand]) (use Pair err in simp)
    moreover have "os_step C ord mord out ?s (?s\<lparr>os_repo := r2, os_hand := (os_hand ?s)(t := rest)\<rparr>)"
      by (rule os_step.os_release) (use c fit in simp_all)
    moreover have "?s\<lparr>os_repo := r2, os_hand := (os_hand ?s)(t := rest)\<rparr> = ?s1 []" by (simp add: e)
    ultimately have "os_run C ord mord out s (?s1 [])"
      by (metis (no_types) converse_rtranclp_into_rtranclp r_into_rtranclp)
    moreover have "served C now mord out (os_repo s, os_bus s) [(m, False)] (r1, b1)"
      using Pair err c cs e by (intro served_refused [OF _ _ served_none]) simp_all
    ultimately show ?thesis using cs e by (intro exI [of _ False]) simp
  qed
qed

lemma deliver_run:
  assumes "serialises C" and "os_inv C ord s" and "os_hand s t = map (\<lambda>c. (c, Claimed)) ms"
    and "\<forall>m \<in> set ms. fits_one (os_streams s) (om_id m)"
    and "deliver_all (hashmap_outbox C ord now) out mord ms stats (os_repo s, os_bus s) = (Ok stats', r', b')"
  shows "\<exists>answers. map fst answers = ms \<and> served C now mord out (os_repo s, os_bus s) answers (r', b') \<and>
    os_run C ord mord out s (s\<lparr>os_repo := r', os_bus := b', os_sent := os_sent s @ map fst (filter snd answers),
      os_hand := (os_hand s)(t := [])\<rparr>) \<and>
    stats' = stats\<lparr>ws_published := ws_published stats + length (filter snd answers),
      ws_failed := ws_failed stats + length (filter (Not \<circ> snd) answers)\<rparr>"
  using assms(2-5)
proof (induction ms arbitrary: s stats)
  case Nil
  then have "(os_hand s)(t := []) = os_hand s" by auto
  moreover have "s\<lparr>os_repo := r', os_bus := b', os_sent := os_sent s @ [], os_hand := os_hand s\<rparr> = s"
    using Nil.prems(4) by simp
  ultimately have "os_run C ord mord out s
      (s\<lparr>os_repo := r', os_bus := b', os_sent := os_sent s @ [], os_hand := (os_hand s)(t := [])\<rparr>)" by simp
  with Nil.prems(4) show ?case by (intro exI [of _ "[]"]) (simp add: served_none del: fun_upd_apply)
next
  case (Cons m ms)
  let ?rest = "map (\<lambda>c. (c, Claimed)) ms"
  have hand: "os_hand s t = (m, Claimed) # ?rest" using Cons.prems(2) by simp
  note f = first_held_only [OF Cons.prems(1) hand]
  have fit: "fits_one (os_streams s) (om_id m)" using Cons.prems(3) by simp
  have others: "om_id x \<noteq> om_id m" if "x \<in> set ms" for x using f(1) [of x Claimed] that by simp
  let ?B = "hashmap_outbox C ord now"
  obtain stats1 r1 b1 where d: "deliver ?B out mord m stats (os_repo s, os_bus s) = (Ok stats1, r1, b1)"
    "deliver_all ?B out mord ms stats1 (r1, b1) = (Ok stats', r', b')"
    using Cons.prems(4) by (auto simp: st_bind_Ok_iff)
  obtain ok where first: "served C now mord out (os_repo s, os_bus s) [(m, ok)] (r1, b1)"
    and run: "os_run C ord mord out s (s\<lparr>os_repo := r1, os_bus := b1,
      os_sent := os_sent s @ (if ok then [m] else []), os_hand := (os_hand s)(t := ?rest)\<rparr>)"
    and same: "\<forall>j. j \<noteq> om_id m \<longrightarrow> hm_streams r1 j = os_streams s j"
    and stats1: "stats1 = (if ok then stats\<lparr>ws_published := ws_published stats + 1\<rparr>
      else stats\<lparr>ws_failed := ws_failed stats + 1\<rparr>)"
    using delivery_steps [OF assms(1) Cons.prems(1) hand fit d(1)] by blast
  define s1 where "s1 = s\<lparr>os_repo := r1, os_bus := b1, os_sent := os_sent s @ (if ok then [m] else []),
    os_hand := (os_hand s)(t := ?rest)\<rparr>"
  note run = run [folded s1_def]
  have inv1: "os_inv C ord s1" by (rule os_run_inv [OF run assms(1) Cons.prems(1)])
  have fit1: "\<forall>x \<in> set ms. fits_one (os_streams s1) (om_id x)"
    using Cons.prems(3) others same by (simp add: fits_one_def stream_of_def s1_def)
  have hand1: "os_hand s1 t = ?rest" "(os_hand s1)(t := []) = (os_hand s)(t := [])" by (auto simp: s1_def)
  have at: "(os_repo s1, os_bus s1) = (r1, b1)" by (simp add: s1_def)
  have "deliver_all ?B out mord ms stats1 (os_repo s1, os_bus s1) = (Ok stats', r', b')"
    using d(2) by (simp add: at)
  from Cons.IH [OF inv1 hand1(1) fit1 this] obtain answers where
    ans: "map fst answers = ms" "served C now mord out (r1, b1) answers (r', b')" and
    run2: "os_run C ord mord out s1 (s1\<lparr>os_repo := r', os_bus := b',
      os_sent := os_sent s1 @ map fst (filter snd answers), os_hand := (os_hand s1)(t := [])\<rparr>)" and
    stats': "stats' = stats1\<lparr>ws_published := ws_published stats1 + length (filter snd answers),
      ws_failed := ws_failed stats1 + length (filter (Not \<circ> snd) answers)\<rparr>"
    unfolding at by blast
  let ?answers = "(m, ok) # answers"
  have eq: "s1\<lparr>os_repo := r', os_bus := b', os_sent := os_sent s1 @ map fst (filter snd answers),
        os_hand := (os_hand s1)(t := [])\<rparr> =
      s\<lparr>os_repo := r', os_bus := b', os_sent := os_sent s @ map fst (filter snd ?answers),
        os_hand := (os_hand s)(t := [])\<rparr>"
    unfolding hand1(2) by (simp add: s1_def)
  have "os_run C ord mord out s (s\<lparr>os_repo := r', os_bus := b',
      os_sent := os_sent s @ map fst (filter snd ?answers), os_hand := (os_hand s)(t := [])\<rparr>)"
    using rtranclp_trans [OF run run2] unfolding eq .
  moreover have "served C now mord out (os_repo s, os_bus s) ?answers (r', b')"
    using served_append [OF first ans(2)] by simp
  moreover have "stats' = stats\<lparr>ws_published := ws_published stats + length (filter snd ?answers),
      ws_failed := ws_failed stats + length (filter (Not \<circ> snd) ?answers)\<rparr>"
    using stats1 stats' by (cases ok) simp_all
  moreover have "map fst ?answers = m # ms" using ans(1) by simp
  ultimately show ?case by (intro exI [of _ ?answers] conjI)
qed

lemma poll_run:
  assumes "serialises C" and "os_inv C ord s" and "os_hand s t = []" and "room 2 (os_streams s)"
    and "claims_work C now worker (duration_from_secs 60)"
    and "worker_poll (hashmap_outbox C ord now) out mord worker stats (os_repo s, os_bus s) = (Ok stats', r', b')"
  shows "\<exists>answers r. claim_outbox_messages C now ord worker 100 (duration_from_secs 60) (os_repo s) =
      (Ok (map fst answers), r) \<and>
    served C now mord out (r, os_bus s) answers (r', b') \<and>
    os_run C ord mord out s
      (s\<lparr>os_repo := r', os_bus := b', os_sent := os_sent s @ map fst (filter snd answers)\<rparr>) \<and>
    stats' = stats\<lparr>ws_polls := ws_polls stats + 1, ws_published := ws_published stats + length (filter snd answers),
      ws_failed := ws_failed stats + length (filter (Not \<circ> snd) answers)\<rparr>"
proof -
  note p = inv_parts [OF assms(2)]
  let ?lease = "duration_from_secs 60" and ?stats = "stats\<lparr>ws_polls := ws_polls stats + 1\<rparr>"
  obtain res r where c: "claim_outbox_messages C now ord worker 100 ?lease (os_repo s) = (res, r)" by force
  have room: "room 1 (os_streams s)" using room_mono [OF assms(4)] by simp
  from claim_seen [OF p(1,2) room assms(5) _ c] obtain cs where cs: "res = Ok cs"
    "\<forall>c \<in> set cs. \<exists>evs. os_streams s (om_id c) = Some evs \<and>
       length (stream_of (hm_streams r) (om_id c)) = Suc (length evs)" by auto
  define s1 where "s1 = s\<lparr>os_repo := r, os_hand := (os_hand s)(t := map (\<lambda>c. (c, Claimed)) cs)\<rparr>"
  have step: "os_step C ord mord out s s1"
    unfolding s1_def by (rule os_step.os_claim [OF assms(3,5) room]) (use c cs(1) in simp)
  have inv1: "os_inv C ord s1" by (rule os_step_inv [OF assms(1) step assms(2)])
  have fit: "\<forall>m \<in> set cs. fits_one (os_streams s1) (om_id m)"
  proof
    fix m assume "m \<in> set cs"
    with cs(2) obtain evs where "os_streams s (om_id m) = Some evs"
      "length (stream_of (hm_streams r) (om_id m)) = Suc (length evs)" by blast
    with assms(4) show "fits_one (os_streams s1) (om_id m)" by (auto simp: fits_one_def room_def s1_def)
  qed
  have at: "(os_repo s1, os_bus s1) = (r, os_bus s)" by (simp add: s1_def)
  have "deliver_all (hashmap_outbox C ord now) out mord cs ?stats (os_repo s1, os_bus s1) = (Ok stats', r', b')"
    using assms(6) c cs(1) by (simp add: worker_poll_def hashmap_outbox_def Let_def s1_def)
  moreover have "os_hand s1 t = map (\<lambda>c. (c, Claimed)) cs" by (simp add: s1_def)
  ultimately obtain answers where ans: "map fst answers = cs" "served C now mord out (r, os_bus s) answers (r', b')"
    and run: "os_run C ord mord out s1 (s1\<lparr>os_repo := r', os_bus := b',
      os_sent := os_sent s1 @ map fst (filter snd answers), os_hand := (os_hand s1)(t := [])\<rparr>)" and
    stats': "stats' = ?stats\<lparr>ws_published := ws_published ?stats + length (filter snd answers),
      ws_failed := ws_failed ?stats + length (filter (Not \<circ> snd) answers)\<rparr>"
    using deliver_run [OF assms(1) inv1 _ fit] unfolding at by blast
  have "(os_hand s)(t := []) = os_hand s" using assms(3) by auto
  then have "(os_hand s1)(t := []) = os_hand s" by (simp add: s1_def)
  then have "s1\<lparr>os_repo := r', os_bus := b', os_sent := os_sent s1 @ map fst (filter snd answers),
        os_hand := (os_hand s1)(t := [])\<rparr> =
      s\<lparr>os_repo := r', os_bus := b', os_sent := os_sent s @ map fst (filter snd answers)\<rparr>" by (simp add: s1_def)
  with step run have "os_run C ord mord out s
      (s\<lparr>os_repo := r', os_bus := b', os_sent := os_sent s @ map fst (filter snd answers)\<rparr>)"
    by (metis converse_rtranclp_into_rtranclp)
  with c cs(1) ans stats' show ?thesis by (intro exI [of _ answers] exI [of _ r]) simp
qed

text \<open>
  C20: A turn of the worker thread is a run of the multi-worker system.  Whatever the bus answers,
  the poll of an idle thread is a claim and then, for the claimed messages in their order, a
  publication followed by the completion of the message when the bus accepted it and by its release
  when the bus refused it.  The messages accepted are the ones sent, in that order; \<open>published\<close>
  grows by their number, \<open>failed\<close> by the number of refused ones and \<open>polls\<close> by one.
\<close>

theorem worker_poll_is_run:
  assumes "serialises C" and "os_inv C ord s" and "os_hand s t = []" and "room 2 (os_streams s)"
    and "claims_work C now worker (duration_from_secs 60)"
    and "worker_poll (hashmap_outbox C ord now) out mord worker stats (os_repo s, os_bus s) = (Ok stats', r', b')"
  shows "\<exists>answers r. claim_outbox_messages C now ord worker 100 (duration_from_secs 60) (os_repo s) =
      (Ok (map fst answers), r) \<and>
    served C now mord out (r, os_bus s) answers (r', b') \<and>
    os_run C ord mord out s
      (s\<lparr>os_repo := r', os_bus := b', os_sent := os_sent s @ map fst (filter snd answers)\<rparr>) \<and>
    stats' = stats\<lparr>ws_polls := ws_polls stats + 1, ws_published := ws_published stats + length (filter snd answers),
      ws_failed := ws_failed stats + length (filter (Not \<circ> snd) answers)\<rparr>"
  by (rule poll_run [OF assms])

theorem worker_poll_is_run_witness:
  "\<exists>r s' sent. os_run sample_publisher_codec Mapping.ordered_keys Mapping.ordered_keys (fan_out in_memory_publisher)
       (os_start r (in_memory_queue_new, [])) s' \<and> os_sent s' = sent \<and> sent \<noteq> [] \<and>
     fst (worker_poll (hashmap_outbox sample_publisher_codec Mapping.ordered_keys 0) (fan_out in_memory_publisher)
       Mapping.ordered_keys ''w'' worker_stats_default (r, (in_memory_queue_new, []))) =
     Ok \<lparr>ws_published = length sent, ws_failed = 0, ws_polls = 1\<rparr>"
proof -
  let ?q = "(in_memory_queue_new, [] :: tick list)"
  obtain r cs r' b' where r: "hm_inv Mapping.ordered_keys r" "box_ok sample_publisher_codec (hm_streams r)" "room 2 (hm_streams r)"
    "\<forall>i m. box sample_publisher_codec 0 (hm_streams r) i = Some m \<longrightarrow> om_status m \<noteq> Published" and
    poll: "worker_poll (hashmap_outbox sample_publisher_codec Mapping.ordered_keys 0) (fan_out in_memory_publisher)
       Mapping.ordered_keys ''w'' worker_stats_default (r, ?q) =
     (Ok \<lparr>ws_published = length (cs :: outbox_message list), ws_failed = 0, ws_polls = 1\<rparr>, r', b')" "cs \<noteq> []"
    using sample_poll by blast
  let ?s = "os_start r ?q"
  have s: "os_repo ?s = r" "os_bus ?s = ?q" "os_hand ?s 0 = []" "os_sent ?s = []" by (simp_all add: os_start_def)
  from worker_poll_is_run [OF sample_serialises os_start_inv [OF r(1,2) sample_publisher_codec_ok r(4)] s(3), of 0 "''w''"
      "fan_out in_memory_publisher" Mapping.ordered_keys worker_stats_default _ r' b'] sample_claims_minute poll(1) r(3)
  obtain answers where run: "os_run sample_publisher_codec Mapping.ordered_keys Mapping.ordered_keys (fan_out in_memory_publisher)
       ?s (?s\<lparr>os_repo := r', os_bus := b', os_sent := map fst (filter snd answers)\<rparr>)"
      "length (filter snd answers) = length cs"
    by (auto simp: s worker_stats_default_def)
  define sent where "sent = map fst (filter snd answers)"
  have run: "os_run sample_publisher_codec Mapping.ordered_keys Mapping.ordered_keys (fan_out in_memory_publisher)
       ?s (?s\<lparr>os_repo := r', os_bus := b', os_sent := sent\<rparr>)" "length sent = length cs"
    using run by (simp_all add: sent_def)
  moreover have "sent \<noteq> []" using run(2) poll(2) by auto
  ultimately show ?thesis using poll(1)
    by (intro exI [of _ r] exI [of _ "?s\<lparr>os_repo := r', os_bus := b', os_sent := sent\<rparr>"] exI [of _ sent]) simp
qed

section \<open>What the system guarantees\<close>

lemma held_once:
  assumes "os_inv C ord s" and "h \<in> set (os_hand s t)" and "k \<in> set (os_hand s u)" and "om_id (fst h) = om_id (fst k)"
  shows "t = u \<and> h = k"
proof -
  have ids: "om_id (fst h) \<in> set (held_ids s t)" "om_id (fst k) \<in> set (held_ids s u)"
    using assms(2,3) by (metis held_in_ids prod.collapse)+
  have t: "t = u" using inv_parts(8) [OF assms(1), of t u] ids assms(4) by auto
  have "distinct (map (\<lambda>(c, g). om_id c) (os_hand s t))"
    using inv_parts(3) [OF assms(1)] by (simp add: held_ids_def)
  then have "inj_on (\<lambda>(c, g). om_id c) (set (os_hand s t))" by (simp add: distinct_map)
  with assms(2-4) t show ?thesis by (auto simp: inj_on_def split_beta)
qed

text \<open>
  C18: Many workers, one outbox.  However many threads claim, publish, complete, release and stop,
  interleaved with clients that commit new messages and operators that fail old ones: the bus is
  given each message at most once; whatever the store calls published was given to the bus; what
  the bus was given is a stored message that is no longer pending, with its type and payload; and
  no message is in the hands of two threads, or of one thread twice.
\<close>

theorem outbox_messages_sent_once:
  assumes "serialises C" and "hm_inv ord r" and "box_ok C (hm_streams r)"
    and "\<forall>i m. box C start (hm_streams r) i = Some m \<longrightarrow> om_status m \<noteq> Published"
    and "os_run C ord mord out (os_start r b) s"
  shows "distinct (map om_id (os_sent s)) \<and>
    (\<forall>i m. box C now (os_streams s) i = Some m \<and> om_status m = Published \<longrightarrow> i \<in> om_id ` set (os_sent s)) \<and>
    (\<forall>c \<in> set (os_sent s). \<exists>m. box C now (os_streams s) (om_id c) = Some m \<and> om_status m \<noteq> Pending \<and>
       om_event_type m = om_event_type c \<and> om_payload m = om_payload c) \<and>
    (\<forall>t u h k. h \<in> set (os_hand s t) \<and> k \<in> set (os_hand s u) \<and> om_id (fst h) = om_id (fst k) \<longrightarrow>
       t = u \<and> h = k)"
proof -
  have ok: "oc_ok C" using assms(1) by (simp add: serialises_def)
  have inv: "os_inv C ord s"
    by (rule os_run_inv [OF assms(5,1) os_start_inv [OF assms(2,3) ok assms(4)]])
  note p = inv_parts [OF inv]
  have at: "seen C (os_streams s) i = Some (st, ty, pl) \<longleftrightarrow>
      (\<exists>m. box C now (os_streams s) i = Some m \<and> om_status m = st \<and> om_event_type m = ty \<and> om_payload m = pl)"
    for i st ty pl by (auto simp: seen_at [OF p(2) ok, of i now])
  have "\<forall>i m. box C now (os_streams s) i = Some m \<and> om_status m = Published \<longrightarrow> i \<in> om_id ` set (os_sent s)"
    using p(7) at by (auto simp: sent_ids_def)
  moreover have "\<forall>c \<in> set (os_sent s). \<exists>m. box C now (os_streams s) (om_id c) = Some m \<and> om_status m \<noteq> Pending \<and>
       om_event_type m = om_event_type c \<and> om_payload m = om_payload c"
  proof
    fix c assume "c \<in> set (os_sent s)"
    then obtain st where "st \<noteq> Pending" "seen C (os_streams s) (om_id c) = Some (st, om_event_type c, om_payload c)"
      using p(6) by blast
    then show "\<exists>m. box C now (os_streams s) (om_id c) = Some m \<and> om_status m \<noteq> Pending \<and>
       om_event_type m = om_event_type c \<and> om_payload m = om_payload c" by (auto simp: at)
  qed
  moreover have "\<forall>t u h k. h \<in> set (os_hand s t) \<and> k \<in> set (os_hand s u) \<and> om_id (fst h) = om_id (fst k) \<longrightarrow>
       t = u \<and> h = k" using held_once [OF inv] by blast
  ultimately show ?thesis using p(5) unfolding sent_ids_def by blast
qed

theorem outbox_messages_sent_once_witness:
  "\<exists>r s. os_run sample_publisher_codec Mapping.ordered_keys Mapping.ordered_keys (fan_out in_memory_publisher)
       (os_start r (in_memory_queue_new, [])) s \<and> os_sent s \<noteq> [] \<and> distinct (map om_id (os_sent s)) \<and>
     (\<forall>c \<in> set (os_sent s). \<exists>m. box sample_publisher_codec 7 (os_streams s) (om_id c) = Some m \<and> om_status m \<noteq> Pending)"
proof -
  let ?q = "(in_memory_queue_new, [] :: tick list)"
  obtain r cs r' b' where r: "hm_inv Mapping.ordered_keys r" "box_ok sample_publisher_codec (hm_streams r)" "room 2 (hm_streams r)"
    "\<forall>i m. box sample_publisher_codec 0 (hm_streams r) i = Some m \<longrightarrow> om_status m \<noteq> Published" and
    poll: "worker_poll (hashmap_outbox sample_publisher_codec Mapping.ordered_keys 0) (fan_out in_memory_publisher)
       Mapping.ordered_keys ''w'' worker_stats_default (r, ?q) =
     (Ok \<lparr>ws_published = length (cs :: outbox_message list), ws_failed = 0, ws_polls = 1\<rparr>, r', b')" "cs \<noteq> []"
    using sample_poll by blast
  have s: "os_repo (os_start r ?q) = r" "os_bus (os_start r ?q) = ?q" "os_hand (os_start r ?q) 0 = []"
    "os_sent (os_start r ?q) = []" by (simp_all add: os_start_def)
  from poll_run [OF sample_serialises os_start_inv [OF r(1,2) sample_publisher_codec_ok r(4)] s(3), of 0 "''w''"
      "fan_out in_memory_publisher" Mapping.ordered_keys worker_stats_default _ r' b'] sample_claims_minute poll(1) r(3)
  obtain answers where run: "os_run sample_publisher_codec Mapping.ordered_keys Mapping.ordered_keys (fan_out in_memory_publisher)
       (os_start r ?q) (os_start r ?q\<lparr>os_repo := r', os_bus := b', os_sent := map fst (filter snd answers)\<rparr>)"
      "length (filter snd answers) = length cs"
    by (auto simp: s worker_stats_default_def)
  define sent where "sent = map fst (filter snd answers)"
  have run: "os_run sample_publisher_codec Mapping.ordered_keys Mapping.ordered_keys (fan_out in_memory_publisher)
       (os_start r ?q) (os_start r ?q\<lparr>os_repo := r', os_bus := b', os_sent := sent\<rparr>)" "length sent = length cs"
    using run by (simp_all add: sent_def)
  define s' where "s' = os_start r ?q\<lparr>os_repo := r', os_bus := b', os_sent := sent\<rparr>"
  have run: "os_run sample_publisher_codec Mapping.ordered_keys Mapping.ordered_keys (fan_out in_memory_publisher)
       (os_start r ?q) s'" "os_sent s' \<noteq> []" using run poll(2) by (auto simp: s'_def)
  from outbox_messages_sent_once [OF sample_serialises r(1,2,4) run(1), of 7]
  have "distinct (map om_id (os_sent s'))"
    "\<forall>c \<in> set (os_sent s'). \<exists>m. box sample_publisher_codec 7 (os_streams s') (om_id c) = Some m \<and> om_status m \<noteq> Pending"
    by blast+
  with run show ?thesis by blast
qed

section \<open>Calls from outside\<close>

text \<open>
  Completing and releasing are public and take any id: beside the workers anyone may settle the
  messages that \<open>may\<close> admits.
\<close>

inductive open_step ::
    "(string \<Rightarrow> bool) \<Rightarrow> outbox_codec \<Rightarrow> event_order \<Rightarrow> (metadata \<Rightarrow> string list) \<Rightarrow>
     (outbox_message \<Rightarrow> bus_event \<Rightarrow> ('s, publish_error, unit) call) \<Rightarrow>
     's outbox_system \<Rightarrow> 's outbox_system \<Rightarrow> bool"
  for may C ord mord out where
  open_worker: "os_step C ord mord out s s' \<Longrightarrow> open_step may C ord mord out s s'"
| open_complete:
    "may (normalize_id i) \<Longrightarrow> fits_one (os_streams s) (normalize_id i) \<Longrightarrow>
     complete_outbox_message C now i (os_repo s) = (res, r) \<Longrightarrow>
     open_step may C ord mord out s (s\<lparr>os_repo := r\<rparr>)"
| open_release:
    "may (normalize_id i) \<Longrightarrow> fits_one (os_streams s) (normalize_id i) \<Longrightarrow>
     release_outbox_message C now i err (os_repo s) = (res, r) \<Longrightarrow>
     open_step may C ord mord out s (s\<lparr>os_repo := r\<rparr>)"

inductive_cases open_stepE: "open_step may C ord mord out s s'"

abbreviation open_run where
  "open_run may C ord mord out \<equiv> (open_step may C ord mord out)\<^sup>*\<^sup>*"

text \<open>A call by id changes the stream with that id only, whether or not there is such a message.\<close>

lemma call_keeps:
  assumes "hm_inv ord r" and "box_ok C (hm_streams r)" and "oc_ok C"
    and "hm_streams r (normalize_id i) = None \<Longrightarrow> r' = r"
    and "\<And>m. box C now (hm_streams r) (normalize_id i) = Some m \<Longrightarrow>
      \<exists>m'. settles C ord r (normalize_id i) m' (res, r')"
  shows "hm_inv ord r' \<and> box_ok C (hm_streams r') \<and>
    (\<forall>j. j \<noteq> normalize_id i \<longrightarrow> hm_streams r' j = hm_streams r j)"
proof (cases "hm_streams r (normalize_id i)")
  case None
  with assms(1,2,4) show ?thesis by simp
next
  case (Some evs)
  obtain m where "box C now (hm_streams r) (normalize_id i) = Some m"
    by (rule box_ok_stored [OF assms(2,3) Some prefix_normalize, of now])
  with assms(5) obtain m' where "settles C ord r (normalize_id i) m' (res, r')" by blast
  from settles_seen(1,2,5) [OF this] show ?thesis by simp
qed

lemma calls_keep:
  assumes "hm_inv ord r" and "box_ok C (hm_streams r)" and "serialises C"
    and "fits_one (hm_streams r) (normalize_id i)"
    and "complete_outbox_message C now i r = (res, r') \<or> release_outbox_message C now i err r = (res, r') \<or>
      fail_outbox_message C now i err r = (res, r')"
  shows "hm_inv ord r' \<and> box_ok C (hm_streams r') \<and>
    (\<forall>j. j \<noteq> normalize_id i \<longrightarrow> hm_streams r' j = hm_streams r j)"
proof (rule call_keeps [OF assms(1,2)])
  have C: "oc_ok C" "oc_ser_unit C () \<noteq> None" "oc_ser_error C err \<noteq> None"
    using assms(3) by (simp_all add: serialises_def)
  show "oc_ok C" by (rule C(1))
  show "r' = r" if "hm_streams r (normalize_id i) = None"
    using assms(1,5) that by (auto simp: complete_outbox_message_def release_outbox_message_def
        fail_outbox_message_def under_write_lock_def hm_inv_def hm_streams_def)
  fix m assume m: "box C now (hm_streams r) (normalize_id i) = Some m"
  have fit: "Suc (length (stream_of (hm_streams r) (normalize_id i))) < 2 ^ 63" using assms(4) by (simp add: fits_one_def)
  from assms(5) show "\<exists>m'. settles C ord r (normalize_id i) m' (res, r')"
    using complete_settles [OF assms(1,2) fit C(1,2) m] release_settles [OF assms(1,2) fit C(1,3) m]
      fail_settles [OF assms(1,2) fit C(1,3) m] by (elim disjE) (simp only:; blast)+
qed

definition open_inv :: "outbox_codec \<Rightarrow> event_order \<Rightarrow> 's outbox_system \<Rightarrow> bool" where
  "open_inv C ord s \<longleftrightarrow>
     hm_inv ord (os_repo s) \<and> box_ok C (os_streams s) \<and> (\<forall>t. \<forall>i \<in> set (held_ids s t). prefix id_prefix i)"

text \<open>A message that is in flight (or failed) and that no thread has in hand.\<close>

definition abandoned :: "outbox_codec \<Rightarrow> 's outbox_system \<Rightarrow> string \<Rightarrow> bool" where
  "abandoned C s i \<longleftrightarrow>
     (\<exists>st \<in> {InFlight, Failed}. \<exists>ty pl. seen C (os_streams s) i = Some (st, ty, pl)) \<and>
     (\<forall>t. i \<notin> set (held_ids s t))"

definition sendings :: "'s outbox_system \<Rightarrow> string \<Rightarrow> outbox_message list" where
  "sendings s i = filter (\<lambda>c. om_id c = i) (os_sent s)"

lemma open_frame:
  assumes "open_inv C ord s" and "hm_inv ord (os_repo s')" and "box_ok C (os_streams s')"
    and "\<And>t. set (held_ids s' t) \<subseteq> set (held_ids s t)"
    and "abandoned C s i \<Longrightarrow> os_streams s' i = os_streams s i \<and> sendings s' i = sendings s i"
  shows "open_inv C ord s' \<and> (abandoned C s i \<longrightarrow> abandoned C s' i \<and> sendings s' i = sendings s i)"
proof -
  have "open_inv C ord s'" using assms(1-4) unfolding open_inv_def by blast
  moreover have "abandoned C s' i" if a: "abandoned C s i"
  proof -
    have "seen C (os_streams s') i = seen C (os_streams s) i" by (rule seen_cong) (use assms(5) [OF a] in simp)
    with a assms(4) show ?thesis unfolding abandoned_def by auto
  qed
  ultimately show ?thesis using assms(5) by blast
qed

lemma open_worker_step:
  assumes "serialises C" and "os_step C ord mord out s s'" and "open_inv C ord s"
  shows "open_inv C ord s' \<and> (abandoned C s i \<longrightarrow> abandoned C s' i \<and> sendings s' i = sendings s i)"
proof -
  have ok: "oc_ok C" using assms(1) by (simp add: serialises_def)
  have p: "hm_inv ord (os_repo s)" "box_ok C (os_streams s)"
    "\<And>t i. i \<in> set (held_ids s t) \<Longrightarrow> prefix id_prefix i" using assms(3) by (auto simp: open_inv_def)
  have first: "om_id c \<in> set (held_ids s t)" "normalize_id (om_id c) = om_id c"
    if "os_hand s t = (c, g) # rest" for t c g rest
  proof -
    show "om_id c \<in> set (held_ids s t)" using that by (simp add: held_ids_def)
    with p(3) show "normalize_id (om_id c) = om_id c" by (blast intro: normalize_same)
  qed
  from assms(2) show ?thesis
  proof (cases rule: os_stepE
      [consumes 1, case_names os_claim os_publish os_refuse os_complete os_release os_crash os_fail os_client os_consumer])
    case (os_claim t now worker cs r)
    have "room 1 (os_streams s)" using os_claim(4) by simp
    from claim_seen [OF p(1,2) this os_claim(3) _ os_claim(5)] have cs: "hm_inv ord r" "box_ok C (hm_streams r)"
      "\<forall>i. i \<notin> om_id ` set cs \<longrightarrow> hm_streams r i = os_streams s i"
      "\<forall>c \<in> set cs. seen C (os_streams s) (om_id c) = Some (Pending, om_event_type c, om_payload c)" by auto
    have held: "set (held_ids s' u) \<subseteq> set (held_ids s u) \<union> om_id ` set cs" for u
      by (auto simp: os_claim(1) held_ids_def)
    have claimed: "prefix id_prefix (om_id c)" if "c \<in> set cs" for c
      using cs(4) that by (auto simp: seen_def box_def split: if_splits)
    have "prefix id_prefix x" if "x \<in> set (held_ids s' u)" for x u
      using subsetD [OF held that] p(3) claimed by blast
    then have "open_inv C ord s'" using cs(1,2) unfolding open_inv_def by (simp add: os_claim(1))
    moreover have "abandoned C s' i" if a: "abandoned C s i"
    proof -
      have n: "i \<notin> om_id ` set cs" using a cs(4) by (auto simp: abandoned_def)
      with cs(3) have "seen C (os_streams s') i = seen C (os_streams s) i"
        by (intro seen_cong) (simp add: os_claim(1))
      moreover have "i \<notin> set (held_ids s' u)" for u using held [of u] n a by (auto simp: abandoned_def)
      ultimately show ?thesis using a by (simp add: abandoned_def)
    qed
    moreover have "sendings s' i = sendings s i" by (simp add: os_claim(1) sendings_def)
    ultimately show ?thesis by blast
  next
    case (os_publish t c rest b)
    have "om_id c \<noteq> i" if "abandoned C s i" using that first(1) [OF os_publish(2)] by (auto simp: abandoned_def)
    then show ?thesis using p(1,2) os_publish(2)
      by (intro open_frame [OF assms(3)]) (auto simp: os_publish(1) sendings_def held_ids_def)
  next
    case (os_refuse t c rest err b)
    then show ?thesis using p(1,2)
      by (intro open_frame [OF assms(3)]) (auto simp: sendings_def held_ids_def)
  next
    case (os_complete t c rest now res r)
    note id = first [OF os_complete(2)]
    have k: "hm_inv ord r \<and> box_ok C (hm_streams r) \<and> (\<forall>j. j \<noteq> om_id c \<longrightarrow> hm_streams r j = os_streams s j)"
      using calls_keep [OF p(1,2) assms(1), of "om_id c" now res r] os_complete(3,4) id(2) by simp
    have "om_id c \<noteq> i" if "abandoned C s i" using that id(1) by (auto simp: abandoned_def)
    then show ?thesis using k os_complete(2)
      by (intro open_frame [OF assms(3)]) (auto simp: os_complete(1) sendings_def held_ids_def)
  next
    case (os_release t c rest now res r)
    note id = first [OF os_release(2)]
    have k: "hm_inv ord r \<and> box_ok C (hm_streams r) \<and> (\<forall>j. j \<noteq> om_id c \<longrightarrow> hm_streams r j = os_streams s j)"
      using calls_keep [OF p(1,2) assms(1), of "om_id c" now res r "''publish failed''"] os_release(3,4) id(2) by simp
    have "om_id c \<noteq> i" if "abandoned C s i" using that id(1) by (auto simp: abandoned_def)
    then show ?thesis using k os_release(2)
      by (intro open_frame [OF assms(3)]) (auto simp: os_release(1) sendings_def held_ids_def)
  next
    case (os_crash t)
    then show ?thesis using p(1,2)
      by (intro open_frame [OF assms(3)]) (auto simp: sendings_def held_ids_def)
  next
    case (os_fail j now err res r)
    note f = fail_seen [OF p(1,2) assms(1) os_fail(2,3)]
    have ids: "held_ids s' = held_ids s" by (simp add: os_fail(1))
    have "open_inv C ord s'" using f p(3) unfolding open_inv_def ids by (simp add: os_fail(1))
    moreover have "abandoned C s' i" if a: "abandoned C s i"
    proof -
      obtain st ty pl where st: "st \<in> {InFlight, Failed}" "seen C (os_streams s) i = Some (st, ty, pl)"
        using a by (auto simp: abandoned_def)
      let ?st = "if i = normalize_id j then Failed else st"
      have "seen C (hm_streams r) i = Some (?st, ty, pl)" "?st \<in> {InFlight, Failed}"
        using f st by (auto split: if_splits)
      with a show ?thesis unfolding abandoned_def ids by (simp add: os_fail(1) del: insert_iff)
    qed
    moreover have "sendings s' i = sendings s i" by (simp add: os_fail(1) sendings_def)
    ultimately show ?thesis by blast
  next
    case (os_client es res r es')
    note f = client_seen [OF p(1,2) ok os_client(2,3)]
    have "prefix id_prefix i \<and> os_streams s i \<noteq> None" if "abandoned C s i"
      using that by (auto simp: abandoned_def seen_def box_def split: if_splits option.splits)
    then show ?thesis using f
      by (intro open_frame [OF assms(3)]) (auto simp: os_client(1) sendings_def held_ids_def)
  next
    case (os_consumer b)
    then show ?thesis using p(1,2)
      by (intro open_frame [OF assms(3)]) (auto simp: sendings_def held_ids_def)
  qed
qed

lemma open_step_effect:
  assumes "serialises C" and "open_step may C ord mord out s s'" and "open_inv C ord s"
  shows "open_inv C ord s' \<and>
    (abandoned C s i \<and> \<not> may i \<longrightarrow> abandoned C s' i \<and> sendings s' i = sendings s i)"
  using assms(2)
proof (cases rule: open_stepE [consumes 1, case_names worker complete release])
  case worker
  with open_worker_step [OF assms(1) _ assms(3)] show ?thesis by blast
next
  case (complete j now res r)
  have p: "hm_inv ord (os_repo s)" "box_ok C (os_streams s)" using assms(3) by (auto simp: open_inv_def)
  have k: "hm_inv ord r \<and> box_ok C (hm_streams r) \<and> (\<forall>k. k \<noteq> normalize_id j \<longrightarrow> hm_streams r k = os_streams s k)"
    using calls_keep [OF p assms(1) complete(3)] complete(4) by blast
  have ne: "i \<noteq> normalize_id j" if "\<not> may i" using complete(2) that by blast
  have "open_inv C ord s'" using k assms(3) by (simp add: open_inv_def complete(1))
  moreover have "open_inv C ord s' \<and> (abandoned C s i \<longrightarrow> abandoned C s' i \<and> sendings s' i = sendings s i)" if "\<not> may i"
    using k ne [OF that]
    by (intro open_frame [OF assms(3)]) (auto simp: complete(1) sendings_def held_ids_def)
  ultimately show ?thesis by blast
next
  case (release j now err res r)
  have p: "hm_inv ord (os_repo s)" "box_ok C (os_streams s)" using assms(3) by (auto simp: open_inv_def)
  have k: "hm_inv ord r \<and> box_ok C (hm_streams r) \<and> (\<forall>k. k \<noteq> normalize_id j \<longrightarrow> hm_streams r k = os_streams s k)"
    using calls_keep [OF p assms(1) release(3)] release(4) by blast
  have ne: "i \<noteq> normalize_id j" if "\<not> may i" using release(2) that by blast
  have "open_inv C ord s'" using k assms(3) by (simp add: open_inv_def release(1))
  moreover have "open_inv C ord s' \<and> (abandoned C s i \<longrightarrow> abandoned C s' i \<and> sendings s' i = sendings s i)" if "\<not> may i"
    using k ne [OF that]
    by (intro open_frame [OF assms(3)]) (auto simp: release(1) sendings_def held_ids_def)
  ultimately show ?thesis by blast
qed

lemma open_run_inv:
  assumes "open_run may C ord mord out s s'" and "serialises C" and "open_inv C ord s"
  shows "open_inv C ord s'"
  using assms by (induction rule: rtranclp_induct) (auto dest: open_step_effect)

lemma abandoned_run:
  assumes "open_run may C ord mord out s s'" and "serialises C" and "open_inv C ord s"
    and "abandoned C s i" and "\<not> may i"
  shows "abandoned C s' i \<and> sendings s' i = sendings s i"
  using assms
proof (induction rule: rtranclp_induct)
  case base
  then show ?case by simp
next
  case (step s1 s2)
  have "open_inv C ord s1" by (rule open_run_inv [OF step.hyps(1) step.prems(1,2)])
  from open_step_effect [OF step.prems(1) step.hyps(2) this, of i] step show ?case by simp
qed

text \<open>
  C19: The message of a worker that stopped.  After any history of workers, clients that commit new
  messages, and callers that complete, release or fail messages by their ids: when a message is in
  flight and no thread has it in hand any more, it stays so whatever workers and clients do, whatever
  happens to other messages, and however much time passes, until somebody names it in a call: it is
  not given to the bus (again), not published and not pending, only an operator may have failed it.
  The lease of the claim is recorded but no operation looks at it.
\<close>

theorem abandoned_message_is_lost:
  assumes "serialises C" and "hm_inv ord r" and "box_ok C (hm_streams r)"
    and "open_run (\<lambda>_. True) C ord mord out (os_start r b) s"
    and "box C now (os_streams s) i = Some m" and "om_status m = InFlight"
    and "\<forall>t. \<forall>h \<in> set (os_hand s t). om_id (fst h) \<noteq> i"
    and "open_run (\<lambda>j. j \<noteq> i) C ord mord out s s'"
  shows "(\<exists>m'. box C later (os_streams s') i = Some m' \<and> om_status m' \<in> {InFlight, Failed}) \<and>
    filter (\<lambda>c. om_id c = i) (os_sent s') = filter (\<lambda>c. om_id c = i) (os_sent s)"
proof -
  have ok: "oc_ok C" using assms(1) by (simp add: serialises_def)
  have "open_inv C ord (os_start r b)" using assms(2,3) by (simp add: open_inv_def os_start_def held_ids_def)
  from open_run_inv [OF assms(4,1) this] have inv: "open_inv C ord s" .
  from open_run_inv [OF assms(8,1) inv] have box': "box_ok C (os_streams s')" by (simp add: open_inv_def)
  from inv have box: "box_ok C (os_streams s)" by (simp add: open_inv_def)
  have "abandoned C s i"
    using assms(5-7) seen_at [OF box ok, of i now] by (force simp: abandoned_def held_ids_def)
  from abandoned_run [OF assms(8,1) inv this] show ?thesis
    using seen_at [OF box' ok, of i later] by (auto simp: abandoned_def sendings_def)
qed

theorem abandoned_message_is_lost_witness:
  "\<exists>r s s' m. open_run (\<lambda>_. True) sample_publisher_codec Mapping.ordered_keys Mapping.ordered_keys
       (fan_out in_memory_publisher) (os_start r (in_memory_queue_new, [])) s \<and>
     box sample_publisher_codec 0 (os_streams s) (om_id m) = Some m \<and> om_status m = InFlight \<and>
     os_step sample_publisher_codec Mapping.ordered_keys Mapping.ordered_keys (fan_out in_memory_publisher) s s' \<and>
     os_repo s' = snd (claim_outbox_messages sample_publisher_codec 0 Mapping.ordered_keys ''w'' 100
       (duration_from_secs 60) (os_repo s)) \<and>
     (\<exists>m'. box sample_publisher_codec 3600000000000 (os_streams s') (om_id m) = Some m' \<and>
        om_status m' \<in> {InFlight, Failed})"
proof -
  let ?q = "(in_memory_queue_new, [] :: tick list)" and ?C = sample_publisher_codec and ?lease = "duration_from_secs 60"
  let ?step = "os_step ?C Mapping.ordered_keys Mapping.ordered_keys (fan_out in_memory_publisher)"
    and ?open = "\<lambda>may. open_step may ?C Mapping.ordered_keys Mapping.ordered_keys (fan_out in_memory_publisher)"
  note ok = sample_publisher_codec_ok
  obtain r i where r: "hm_inv Mapping.ordered_keys r" "box_ok ?C (hm_streams r)" "room 2 (hm_streams r)"
    "\<exists>m. box ?C 0 (hm_streams r) i = Some m \<and> om_status m = Pending"
    "\<forall>i m. box ?C 0 (hm_streams r) i = Some m \<longrightarrow> om_status m = Pending"
    using sample_pending by blast
  have room: "room 1 (hm_streams r)" using room_mono [OF r(3)] by simp
  obtain cs r1 where c: "claim_outbox_messages ?C 0 Mapping.ordered_keys ''w'' 100 ?lease r = (Ok cs, r1)"
    "cs = take 100 (List.map_filter (claimed_of ?C 0 ''w'' ?lease) (hm_iter (hr_events r) (Mapping.ordered_keys (hr_events r))))"
    "hr_events r1 = save_all cs (hr_events r)" "hm_inv Mapping.ordered_keys r1" "distinct (map om_id cs)"
    using claim_result [OF r(1,2) room sample_claims_minute, of 100] by auto
  note run = r(1,2) room sample_claims_minute take_claimed [OF c(2)]
  note eff = claim_effect [OF run] and after = streams_after_claims [OF c(3,5)]
  have box1: "box_ok ?C (hm_streams r1)" by (rule claim_box_ok [OF run c(3,5)])
  have room1: "room 1 (hm_streams r1)"
    using room_step [of 1 r cs ?C 0 "''w''" r1] r(2,3) c(5) eff(1) after ok by (simp add: numeral_2_eq_2)
  have "cs \<noteq> []"
  proof
    assume "cs = []"
    then have same: "hm_streams r1 = hm_streams r" using after(1) by auto
    have "om_status m \<noteq> Pending" if "box ?C 0 (hm_streams r1) i = Some m" for m
      using claim_leaves_none [OF r(1,2) room sample_claims_minute c(2,3,5) _ that] \<open>cs = []\<close> by simp
    with r(4) same show False by auto
  qed
  then obtain c0 where c0: "c0 \<in> set cs" by (cases cs) auto
  define s1 where "s1 = (os_start r ?q)\<lparr>os_repo := r1, os_hand := (os_hand (os_start r ?q))(0 := map (\<lambda>c. (c, Claimed)) cs)\<rparr>"
  define s where "s = s1\<lparr>os_hand := (os_hand s1)(0 := [])\<rparr>"
  have "?open (\<lambda>_. True) (os_start r ?q) s1"
    unfolding s1_def
    by (intro open_worker os_step.os_claim [OF _ sample_claims_minute]) (use room c(1) in \<open>simp_all add: os_start_def\<close>)
  moreover have "?open (\<lambda>_. True) s1 s" unfolding s_def by (intro open_worker os_step.os_crash)
  ultimately have reach: "(?open (\<lambda>_. True))\<^sup>*\<^sup>* (os_start r ?q) s"
    by (rule converse_rtranclp_into_rtranclp [OF _ r_into_rtranclp])
  have s: "os_repo s = r1" "os_hand s = (\<lambda>_. [])" by (auto simp: s_def s1_def os_start_def)
  obtain m0 where m0: "om_good ?C m0" "om_id m0 = om_id c0" "en_events (om_entity m0) = en_events (om_entity c0)"
    "prefix id_prefix (om_id c0)" "om_status m0 = InFlight" using eff(2) [OF c0] by blast
  then obtain m where m: "box ?C 0 (os_streams s) (om_id c0) = Some m" "om_status m = InFlight" "om_id m = om_id c0"
    using box_good [OF ok m0(1), of "hm_streams r1" 0] after(2) [OF c0] by (auto simp: s om_id_def)
  obtain cs2 r2 where c2: "claim_outbox_messages ?C 0 Mapping.ordered_keys ''w'' 100 ?lease r1 = (Ok cs2, r2)"
    using claim_result [OF c(4) box1 room1 sample_claims_minute, of 100] by auto
  define s2 where "s2 = s\<lparr>os_repo := r2, os_hand := (os_hand s)(1 := map (\<lambda>c. (c, Claimed)) cs2)\<rparr>"
  have last: "?step s s2"
    unfolding s2_def by (rule os_step.os_claim [OF _ sample_claims_minute]) (use room1 c2 in \<open>simp_all add: s\<close>)
  from abandoned_message_is_lost [OF sample_serialises r(1,2) reach m(1,2) _ r_into_rtranclp [where r = "?open (\<lambda>j. j \<noteq> om_id c0)",
        OF open_worker [OF last]],
      of 3600000000000]
  have "\<exists>m'. box ?C 3600000000000 (os_streams s2) (om_id c0) = Some m' \<and> om_status m' \<in> {InFlight, Failed}"
    by (simp add: s)
  with reach m last c2 show ?thesis
    by (intro exI [of _ r] exI [of _ s] exI [of _ s2] exI [of _ m]) (simp add: s s2_def)
qed

end
