(* ===== verification/Microsvc.thy ===== *)
theory Microsvc
  imports Repository Bus_Event
begin

text \<open>
  Services (\<open>src/microsvc\<close>): sessions, the context and errors of handlers, the routing of
  commands with guards, and the HTTP and gRPC front ends (the transports that take events from
  a queue are in \<open>Transport\<close>).  Handlers and guards are functions on the context and the state of
  the repository.  JSON text is a parameter: \<open>parse\<close> reads it and \<open>render\<close> writes it.
\<close>

section \<open>JSON values and sessions\<close>

text \<open>A number is kept as its text.\<close>

datatype json =
    JNull
  | JBool bool
  | JNumber string
  | JString string
  | JArray "json list"
  | JObject "(string \<times> json) list"

record session =
  se_variables :: "(string, string) mapping"

definition session_new :: session where
  "session_new = \<lparr>se_variables = Mapping.empty\<rparr>"

definition session_from_map :: "(string, string) mapping \<Rightarrow> session" where
  "session_from_map variables = \<lparr>se_variables = variables\<rparr>"

definition session_get :: "session \<Rightarrow> string \<Rightarrow> string option" where
  "session_get s key = Mapping.lookup (se_variables s) key"

definition session_user_id :: "session \<Rightarrow> string option" where
  "session_user_id s = session_get s ''x-hasura-user-id''"

definition session_role :: "session \<Rightarrow> string option" where
  "session_role s = session_get s ''x-hasura-role''"

definition session_set :: "string \<Rightarrow> string \<Rightarrow> session \<Rightarrow> session" where
  "session_set key v s = s\<lparr>se_variables := Mapping.update key v (se_variables s)\<rparr>"

definition session_has :: "session \<Rightarrow> string \<Rightarrow> bool" where
  "session_has s key \<longleftrightarrow> Mapping.lookup (se_variables s) key \<noteq> None"

section \<open>Errors\<close>

text \<open>\<open>HE_Other\<close> holds the text of the boxed error.\<close>

datatype handler_error =
    HE_UnknownCommand string
  | HE_DecodeFailed string
  | HE_Rejected string
  | HE_NotFound string
  | HE_Unauthorized string
  | HE_Repository repository_error
  | HE_GuardRejected string
  | HE_Other string

fun handler_error_display :: "handler_error \<Rightarrow> string" where
  "handler_error_display (HE_UnknownCommand name) = ''unknown command: '' @ name"
| "handler_error_display (HE_DecodeFailed msg) = ''decode failed: '' @ msg"
| "handler_error_display (HE_Rejected msg) = ''rejected: '' @ msg"
| "handler_error_display (HE_NotFound ident) = ''not found: '' @ ident"
| "handler_error_display (HE_Unauthorized msg) = ''unauthorized: '' @ msg"
| "handler_error_display (HE_Repository e) = ''repository error: '' @ repository_error_display e"
| "handler_error_display (HE_GuardRejected name) = ''guard rejected command: '' @ name"
| "handler_error_display (HE_Other e) = ''handler error: '' @ e"

fun handler_error_source :: "handler_error \<Rightarrow> string option" where
  "handler_error_source (HE_Repository e) = Some (repository_error_display e)"
| "handler_error_source (HE_Other e) = Some e"
| "handler_error_source _ = None"

definition handler_error_from_repository :: "repository_error \<Rightarrow> handler_error" where
  "handler_error_from_repository err = HE_Repository err"

text \<open>The text of the JSON error is given.\<close>

definition handler_error_from_json :: "string \<Rightarrow> handler_error" where
  "handler_error_from_json err = HE_DecodeFailed err"

fun status_code :: "handler_error \<Rightarrow> u16" where
  "status_code (HE_UnknownCommand _) = 404"
| "status_code (HE_DecodeFailed _) = 400"
| "status_code (HE_Rejected _) = 422"
| "status_code (HE_NotFound _) = 404"
| "status_code (HE_Unauthorized _) = 401"
| "status_code (HE_Repository _) = 500"
| "status_code (HE_GuardRejected _) = 400"
| "status_code (HE_Other _) = 500"

section \<open>The context of a handler\<close>

text \<open>The repository a context refers to is the state of the calls.\<close>

record context_data =
  cx_command_name :: string
  cx_input :: json
  cx_session :: session

definition context_new :: "string \<Rightarrow> json \<Rightarrow> session \<Rightarrow> context_data" where
  "context_new command_name input session =
     \<lparr>cx_command_name = command_name, cx_input = input, cx_session = session\<rparr>"

text \<open>\<open>from_value\<close> is the deserializer of the wanted type.\<close>

definition context_input :: "(json \<Rightarrow> string + 'a) \<Rightarrow> context_data \<Rightarrow> (handler_error, 'a) outcome" where
  "context_input from_value ctx =
     (case from_value (cx_input ctx) of Inr a \<Rightarrow> Ok a | Inl e \<Rightarrow> Err (HE_DecodeFailed e))"

definition context_user_id :: "context_data \<Rightarrow> (handler_error, string) outcome" where
  "context_user_id ctx =
     (case session_user_id (cx_session ctx) of
        Some u \<Rightarrow> Ok u | None \<Rightarrow> Err (HE_Unauthorized ''missing user ID in session''))"

definition context_role :: "context_data \<Rightarrow> string option" where
  "context_role ctx = session_role (cx_session ctx)"

definition has_field :: "string \<Rightarrow> context_data \<Rightarrow> bool" where
  "has_field field ctx =
     (case cx_input ctx of JObject fs \<Rightarrow> map_of fs field \<noteq> None | _ \<Rightarrow> False)"

definition has_fields :: "string list \<Rightarrow> context_data \<Rightarrow> bool" where
  "has_fields fs ctx = list_all (\<lambda>f. has_field f ctx) fs"

section \<open>The service\<close>

text \<open>A guard answers yes or no and returns no error; \<open>None\<close> is a guard that panics.\<close>

record 'r command_handler =
  ch_guard :: "(context_data \<Rightarrow> 'r \<Rightarrow> bool option \<times> 'r) option"
  ch_handle :: "context_data \<Rightarrow> ('r, handler_error, json) call"

record 'r service =
  sv_handlers :: "(string, 'r command_handler) mapping"

definition service_new :: "'r service" where
  "service_new = \<lparr>sv_handlers = Mapping.empty\<rparr>"

definition command ::
    "string \<Rightarrow> (context_data \<Rightarrow> ('r, handler_error, json) call) \<Rightarrow> 'r service \<Rightarrow> 'r service" where
  "command name handler sv =
     sv\<lparr>sv_handlers := Mapping.update name \<lparr>ch_guard = None, ch_handle = handler\<rparr> (sv_handlers sv)\<rparr>"

definition command_guarded ::
    "string \<Rightarrow> (context_data \<Rightarrow> 'r \<Rightarrow> bool option \<times> 'r) \<Rightarrow> (context_data \<Rightarrow> ('r, handler_error, json) call) \<Rightarrow>
     'r service \<Rightarrow> 'r service" where
  "command_guarded name guard handler sv =
     sv\<lparr>sv_handlers := Mapping.update name \<lparr>ch_guard = Some guard, ch_handle = handler\<rparr> (sv_handlers sv)\<rparr>"

definition dispatch ::
    "'r service \<Rightarrow> string \<Rightarrow> json \<Rightarrow> session \<Rightarrow> ('r, handler_error, json) call" where
  "dispatch sv cmd input session r =
     (case Mapping.lookup (sv_handlers sv) cmd of
        None \<Rightarrow> (Err (HE_UnknownCommand cmd), r)
      | Some handler \<Rightarrow>
          (let ctx = context_new cmd input session in
           case ch_guard handler of
             None \<Rightarrow> ch_handle handler ctx r
           | Some guard \<Rightarrow>
               (case guard ctx r of
                  (None, r') \<Rightarrow> (Panic, r')
                | (Some ok, r') \<Rightarrow>
                    if \<not> ok then (Err (HE_GuardRejected cmd), r') else ch_handle handler ctx r')))"

record command_request =
  rq_command :: string
  rq_input :: json
  rq_session_variables :: "(string, string) mapping"

record command_response =
  rs_status :: u16
  rs_body :: json

definition error_body :: "handler_error \<Rightarrow> json" where
  "error_body e = JObject [(''error'', JString (handler_error_display e))]"

definition dispatch_request :: "'r service \<Rightarrow> command_request \<Rightarrow> ('r, handler_error, command_response) call" where
  "dispatch_request sv request r =
     (case dispatch sv (rq_command request) (rq_input request) (session_from_map (rq_session_variables request)) r of
        (Ok value, r') \<Rightarrow> (Ok \<lparr>rs_status = 200, rs_body = value\<rparr>, r')
      | (Err e, r') \<Rightarrow> (Ok \<lparr>rs_status = status_code e, rs_body = error_body e\<rparr>, r')
      | (Panic, r') \<Rightarrow> (Panic, r')
      | (Stuck, r') \<Rightarrow> (Stuck, r'))"

definition commands :: "((string, 'r command_handler) mapping \<Rightarrow> string list) \<Rightarrow> 'r service \<Rightarrow> string list" where
  "commands ord sv = ord (sv_handlers sv)"

section \<open>Events as commands\<close>

definition event_to_json_input :: "(bytes \<Rightarrow> string + json) \<Rightarrow> bus_event \<Rightarrow> json" where
  "event_to_json_input parse e =
     (case parse (be_payload e) of
        Inr value \<Rightarrow> value
      | Inl _ \<Rightarrow> (case bus_event_payload_str e of Some s \<Rightarrow> JString s | None \<Rightarrow> JNull))"

definition collect_map :: "(string \<times> string) list \<Rightarrow> (string, string) mapping" where
  "collect_map kvs = fold (\<lambda>(k, v). Mapping.update k v) kvs Mapping.empty"

definition event_to_session :: "bus_event \<Rightarrow> session" where
  "event_to_session e =
     (case be_metadata e of
        Some meta \<Rightarrow> session_from_map (collect_map meta)
      | None \<Rightarrow> session_new)"

definition dispatch_event ::
    "(bytes \<Rightarrow> string + json) \<Rightarrow> 'r service \<Rightarrow> bus_event \<Rightarrow> ('r, handler_error, json) call" where
  "dispatch_event parse sv e =
     dispatch sv (be_event_type e) (event_to_json_input parse e) (event_to_session e)"

section \<open>HTTP and gRPC\<close>

text \<open>
  Headers come as the framework gives them, with lower-case names; a value that is not text is
  \<open>None\<close>.
\<close>

definition session_from_headers :: "(string \<times> string option) list \<Rightarrow> session" where
  "session_from_headers headers =
     session_from_map (collect_map (List.map_filter (\<lambda>(name, v). map_option (Pair name) v) headers))"

definition command_handler_http ::
    "'r service \<Rightarrow> string \<Rightarrow> (string \<times> string option) list \<Rightarrow> json \<Rightarrow>
     ('r, handler_error, u16 \<times> json) call" where
  "command_handler_http sv cmd headers input r =
     (case dispatch sv cmd input (session_from_headers headers) r of
        (Ok value, r') \<Rightarrow> (Ok (200, value), r')
      | (Err e, r') \<Rightarrow> (Ok (status_code e, error_body e), r')
      | (Panic, r') \<Rightarrow> (Panic, r')
      | (Stuck, r') \<Rightarrow> (Stuck, r'))"

definition health_handler :: "((string, 'r command_handler) mapping \<Rightarrow> string list) \<Rightarrow> 'r service \<Rightarrow> json" where
  "health_handler ord sv =
     JObject [(''ok'', JBool True), (''commands'', JArray (map JString (commands ord sv)))]"

record grpc_request =
  gr_command :: string
  gr_input :: string
  gr_session_variables :: "(string, string) mapping"

record grpc_response =
  gs_status :: u32
  gs_body :: string

text \<open>
  A metadata entry is an ASCII one, whose value may not be text, or a binary one (\<open>None\<close>).
  \<open>vord\<close> is the iteration order of the session variables of the payload.
\<close>

definition build_session ::
    "((string, string) mapping \<Rightarrow> string list) \<Rightarrow> (string \<times> string option) option list \<Rightarrow>
     (string, string) mapping \<Rightarrow> session" where
  "build_session vord md payload_vars =
     (let vars = collect_map (List.map_filter (\<lambda>kv. case kv of
                   Some (key, Some v) \<Rightarrow> Some (key, v) | _ \<Rightarrow> None) md)
      in session_from_map
           (fold (\<lambda>(k, v). Mapping.update k v) (hm_iter payload_vars (vord payload_vars)) vars))"

definition grpc_dispatch ::
    "(string \<Rightarrow> string + json) \<Rightarrow> (json \<Rightarrow> string) \<Rightarrow> ((string, string) mapping \<Rightarrow> string list) \<Rightarrow> 'r service \<Rightarrow>
     (string \<times> string option) option list \<Rightarrow> grpc_request \<Rightarrow> ('r, handler_error, grpc_response) call" where
  "grpc_dispatch parse render vord sv md req r =
     (let input = (case parse (gr_input req) of Inr value \<Rightarrow> value | Inl _ \<Rightarrow> JNull);
          session = build_session vord md (gr_session_variables req)
      in case dispatch sv (gr_command req) input session r of
        (Ok value, r') \<Rightarrow> (Ok \<lparr>gs_status = 200, gs_body = render value\<rparr>, r')
      | (Err e, r') \<Rightarrow> (Ok \<lparr>gs_status = ucast (status_code e), gs_body = render (error_body e)\<rparr>, r')
      | (Panic, r') \<Rightarrow> (Panic, r')
      | (Stuck, r') \<Rightarrow> (Stuck, r'))"

record health_response =
  hs_ok :: bool
  hs_commands :: "string list"

definition grpc_health ::
    "((string, 'r command_handler) mapping \<Rightarrow> string list) \<Rightarrow> 'r service \<Rightarrow> health_response" where
  "grpc_health ord sv = \<lparr>hs_ok = True, hs_commands = commands ord sv\<rparr>"

section \<open>Routing\<close>

text \<open>The calls of the builder, in order, and what each name is bound to in the end.\<close>

datatype 'r registration =
    Plain string "context_data \<Rightarrow> ('r, handler_error, json) call"
  | Guarded string "context_data \<Rightarrow> 'r \<Rightarrow> bool option \<times> 'r" "context_data \<Rightarrow> ('r, handler_error, json) call"

fun reg_name :: "'r registration \<Rightarrow> string" where
  "reg_name (Plain name handler) = name"
| "reg_name (Guarded name guard handler) = name"

fun register :: "'r registration \<Rightarrow> 'r service \<Rightarrow> 'r service" where
  "register (Plain name handler) sv = command name handler sv"
| "register (Guarded name guard handler) sv = command_guarded name guard handler sv"

definition build :: "'r registration list \<Rightarrow> 'r service" where
  "build regs = fold register regs service_new"

definition reg_handler :: "'r registration \<Rightarrow> 'r command_handler" where
  "reg_handler g =
     (case g of
        Plain name handler \<Rightarrow> \<lparr>ch_guard = None, ch_handle = handler\<rparr>
      | Guarded name guard handler \<Rightarrow> \<lparr>ch_guard = Some guard, ch_handle = handler\<rparr>)"

lemma lookup_register:
  "Mapping.lookup (sv_handlers (register g sv)) name =
     (if reg_name g = name then Some (reg_handler g) else Mapping.lookup (sv_handlers sv) name)"
  by (cases g) (auto simp: command_def command_guarded_def reg_handler_def lookup_update')

lemma lookup_build:
  "Mapping.lookup (sv_handlers (build regs)) name =
     map_option reg_handler (find (\<lambda>g. reg_name g = name) (rev regs))"
proof (induction regs rule: rev_induct)
  case Nil
  then show ?case by (simp add: build_def service_new_def lookup_empty)
next
  case (snoc g regs)
  then show ?case by (simp add: build_def lookup_register)
qed

text \<open>What a request for a name does with the registration that answers to it.\<close>

fun answer_by ::
    "'r registration option \<Rightarrow> string \<Rightarrow> context_data \<Rightarrow> ('r, handler_error, json) call" where
  "answer_by None cmd ctx r = (Err (HE_UnknownCommand cmd), r)"
| "answer_by (Some (Plain name handler)) cmd ctx r = handler ctx r"
| "answer_by (Some (Guarded name guard handler)) cmd ctx r =
     (case guard ctx r of
        (Some True, r') \<Rightarrow> handler ctx r'
      | (Some False, r') \<Rightarrow> (Err (HE_GuardRejected cmd), r')
      | (None, r') \<Rightarrow> (Panic, r'))"

text \<open>
  C29: Routing.  A service built by any sequence of registrations answers a command with the
  handler registered last under exactly that name, on a context that carries the name, the
  input and the session; an unknown name is an error that touches nothing, a guard that
  says no is an error without the handler being run, and a guard that panics ends the call.
\<close>

theorem dispatch_routes:
  "dispatch (build regs) cmd input session r =
     answer_by (find (\<lambda>g. reg_name g = cmd) (rev regs)) cmd (context_new cmd input session) r"
proof (cases "find (\<lambda>g. reg_name g = cmd) (rev regs)")
  case None
  then show ?thesis by (simp add: dispatch_def lookup_build)
next
  case (Some g)
  then show ?thesis
    by (cases g) (auto simp: dispatch_def lookup_build reg_handler_def split: prod.splits bool.splits option.splits)
qed

section \<open>The front ends\<close>

lemmas front_ends = dispatch_request_def command_handler_http_def grpc_dispatch_def

text \<open>
  One service, three front ends.  For a command, an input and a session that are the same,
  the request API, HTTP and gRPC run the same dispatch: they return together, with the same
  status and body (gRPC's as text) and the same repository.  The status is 200 exactly when the
  handler succeeded; otherwise it is the code of the error, one of 400, 401, 404, 422 and 500,
  and the body is its text.
\<close>

theorem front_ends_agree:
  assumes "se_variables session = vars"
    and "session_from_headers headers = session" and "build_session vord md pvars = session"
    and "parse text = Inr input"
  shows "case dispatch sv cmd input session r of
      (Ok v, r') \<Rightarrow>
        dispatch_request sv \<lparr>rq_command = cmd, rq_input = input, rq_session_variables = vars\<rparr> r =
          (Ok \<lparr>rs_status = 200, rs_body = v\<rparr>, r') \<and>
        command_handler_http sv cmd headers input r = (Ok (200, v), r') \<and>
        grpc_dispatch parse render vord sv md
          \<lparr>gr_command = cmd, gr_input = text, gr_session_variables = pvars\<rparr> r =
          (Ok \<lparr>gs_status = 200, gs_body = render v\<rparr>, r')
    | (Err e, r') \<Rightarrow>
        (\<exists>code \<in> {400, 401, 404, 422, 500}.
          dispatch_request sv \<lparr>rq_command = cmd, rq_input = input, rq_session_variables = vars\<rparr> r =
            (Ok \<lparr>rs_status = of_nat code, rs_body = error_body e\<rparr>, r') \<and>
          command_handler_http sv cmd headers input r = (Ok (of_nat code, error_body e), r') \<and>
          grpc_dispatch parse render vord sv md
            \<lparr>gr_command = cmd, gr_input = text, gr_session_variables = pvars\<rparr> r =
            (Ok \<lparr>gs_status = of_nat code, gs_body = render (error_body e)\<rparr>, r'))
    | (_, r') \<Rightarrow>
        \<not> is_ok (fst (dispatch_request sv
          \<lparr>rq_command = cmd, rq_input = input, rq_session_variables = vars\<rparr> r)) \<and>
        \<not> is_ok (fst (command_handler_http sv cmd headers input r)) \<and>
        \<not> is_ok (fst (grpc_dispatch parse render vord sv md
          \<lparr>gr_command = cmd, gr_input = text, gr_session_variables = pvars\<rparr> r))"
proof -
  have s: "session_from_map vars = session"
    using assms(1) by (cases session) (simp add: session_from_map_def)
  obtain res r' where d: "dispatch sv cmd input session r = (res, r')" by force
  show ?thesis
  proof (cases res)
    case (Err e)
    with d s assms(2-4) show ?thesis by (cases e) (simp_all add: front_ends Let_def)
  qed (use d s assms(2-4) in \<open>simp_all add: front_ends Let_def\<close>)
qed

theorem front_ends_agree_witness:
  "let sv = build [Plain ''ping'' (\<lambda>ctx n. (Ok (JBool True), n + 1))];
       vars = Mapping.update ''x-hasura-role'' ''admin'' Mapping.empty;
       md = [(''x-hasura-role'', Some ''admin'')]; parse = (\<lambda>t. Inr JNull); render = (\<lambda>v. ''true'')
   in dispatch_request sv \<lparr>rq_command = ''ping'', rq_input = JNull, rq_session_variables = vars\<rparr> (0 :: nat) =
        (Ok \<lparr>rs_status = 200, rs_body = JBool True\<rparr>, 1) \<and>
      command_handler_http sv ''ping'' md JNull 0 = (Ok (200, JBool True), 1) \<and>
      grpc_dispatch parse render Mapping.ordered_keys sv (map Some md)
        \<lparr>gr_command = ''ping'', gr_input = ''null'', gr_session_variables = Mapping.empty\<rparr> 0 =
        (Ok \<lparr>gs_status = 200, gs_body = ''true''\<rparr>, 1)"
proof -
  let ?sv = "build [Plain ''ping'' (\<lambda>ctx n. (Ok (JBool True), n + (1 :: nat)))]"
  let ?vars = "Mapping.update ''x-hasura-role'' ''admin'' Mapping.empty"
  let ?md = "[(''x-hasura-role'', Some ''admin'')]"
  let ?s = "session_from_map ?vars"
  have d: "dispatch ?sv ''ping'' JNull ?s 0 = (Ok (JBool True), 1)"
    by (simp add: dispatch_def lookup_build reg_handler_def context_new_def)
  have "se_variables ?s = ?vars" by (simp add: session_from_map_def)
  moreover have "session_from_headers ?md = ?s"
    by (simp add: session_from_headers_def collect_map_def map_filter_def)
  moreover have "build_session Mapping.ordered_keys (map Some ?md) Mapping.empty = ?s"
    by (simp add: build_session_def collect_map_def map_filter_def)
  ultimately show ?thesis
    using front_ends_agree [of ?s ?vars ?md Mapping.ordered_keys "map Some ?md" Mapping.empty
        "\<lambda>t. Inr JNull" "''null''" JNull ?sv "''ping''" 0 "\<lambda>v. ''true''"] d
    by (simp add: Let_def)
qed

section \<open>Where the session comes from\<close>

lemma lookup_fold_update:
  "Mapping.lookup (fold (\<lambda>(k, v). Mapping.update k v) kvs m) k =
     (case map_of (rev kvs) k of Some v \<Rightarrow> Some v | None \<Rightarrow> Mapping.lookup m k)"
  by (induction kvs arbitrary: m) (auto simp: lookup_update' map_add_def split: option.splits)

lemma lookup_collect_map: "Mapping.lookup (collect_map kvs) k = map_of (rev kvs) k"
  by (simp add: collect_map_def lookup_fold_update lookup_empty split: option.split)

lemma bus_event_meta_map_of: "bus_event_meta e k = Option.bind (be_metadata e) (\<lambda>md. map_of md k)"
proof -
  have "map_option snd (find (\<lambda>kv. fst kv = k) md) = map_of md k" for md :: "(string \<times> string) list"
    by (induction md) auto
  then show ?thesis by (cases "be_metadata e") (auto simp: bus_event_meta_def case_prod_beta)
qed

lemma map_of_rev_hm_iter:
  assumes "iteration m ks"
  shows "map_of (rev (hm_iter m ks)) k = Mapping.lookup m k"
proof -
  have "distinct (map fst (rev (hm_iter m ks)))"
    using assms map_fst_hm_iter_iteration [OF assms] by (simp add: rev_map [symmetric] iteration_def)
  then have "map_of (rev (hm_iter m ks)) k = Some v \<longleftrightarrow> Mapping.lookup m k = Some v" for v
    using set_hm_iter_iteration [OF assms] by (simp add: map_of_eq_Some_iff)
  then show ?thesis by (metis option.exhaust)
qed

definition text_values :: "(string \<times> string option) list \<Rightarrow> (string \<times> string) list" where
  "text_values kvs = [(n, v). (n, Some v) \<leftarrow> kvs]"

definition ascii_entries :: "(string \<times> string option) option list \<Rightarrow> (string \<times> string option) list" where
  "ascii_entries md = [kv. Some kv \<leftarrow> md]"

lemma text_values_Cons:
  "text_values [] = []"
  "text_values ((n, v) # kvs) = (case v of Some t \<Rightarrow> (n, t) # text_values kvs | None \<Rightarrow> text_values kvs)"
  by (simp_all add: text_values_def split: option.split)

lemma text_headers:
  "List.map_filter (\<lambda>(n, v). map_option (Pair n) v) headers = text_values headers"
  by (induction headers) (auto simp: map_filter_simps text_values_Cons split: option.splits)

lemma text_metadata:
  "List.map_filter (\<lambda>kv. case kv of Some (n, Some v) \<Rightarrow> Some (n, v) | _ \<Rightarrow> None) md =
     text_values (ascii_entries md)"
  by (induction md) (auto simp: map_filter_simps text_values_Cons ascii_entries_def split: option.splits)

text \<open>
  Session values.  A value of the session of an event is the last value of that name in the
  metadata, where the event's own \<open>meta\<close> gives the first; they agree on events whose names
  differ.  Of HTTP headers the last one that is text counts.  In gRPC the session variables of
  the payload win over the transport metadata, of which the last text value counts.
\<close>

theorem session_values:
  assumes "iteration pvars (vord pvars)"
  shows "session_get (event_to_session e) k =
      Option.bind (be_metadata e) (\<lambda>md. map_of (rev md) k) \<and>
    bus_event_meta e k = Option.bind (be_metadata e) (\<lambda>md. map_of md k) \<and>
    session_get (session_from_headers headers) k =
      map_of (rev (text_values headers)) k \<and>
    session_get (build_session vord md pvars) k =
      (case Mapping.lookup pvars k of
         Some v \<Rightarrow> Some v | None \<Rightarrow> map_of (rev (text_values (ascii_entries md))) k)"
proof -
  note get = session_get_def session_from_map_def session_new_def lookup_collect_map lookup_empty
  have "session_get (event_to_session e) k = Option.bind (be_metadata e) (\<lambda>md. map_of (rev md) k)"
    by (cases "be_metadata e") (simp_all add: event_to_session_def get)
  moreover have "session_get (session_from_headers headers) k = map_of (rev (text_values headers)) k"
    by (simp add: session_from_headers_def text_headers get)
  moreover have "session_get (build_session vord md pvars) k =
      (case Mapping.lookup pvars k of
         Some v \<Rightarrow> Some v | None \<Rightarrow> map_of (rev (text_values (ascii_entries md))) k)"
    using map_of_rev_hm_iter [OF assms]
    by (simp add: build_session_def text_metadata lookup_fold_update get Let_def split: option.split)
  ultimately show ?thesis using bus_event_meta_map_of by blast
qed

theorem session_values_witness:
  "let pv = Mapping.update ''role'' ''admin'' Mapping.empty;
       e = with_metadata ''k'' ''new'' (with_metadata ''k'' ''old'' (bus_event_new ''1'' ''A'' []));
       s = build_session Mapping.ordered_keys [Some (''role'', Some ''user''), Some (''host'', Some ''h'')] pv
   in bus_event_meta e ''k'' = Some ''old'' \<and> session_get (event_to_session e) ''k'' = Some ''new'' \<and>
      session_get s ''role'' = Some ''admin'' \<and> session_get s ''host'' = Some ''h''"
proof -
  let ?pv = "Mapping.update ''role'' ''admin'' (Mapping.empty :: (string, string) mapping)"
  have "iteration ?pv (Mapping.ordered_keys ?pv)" by (intro iteration_ordered_keys) simp
  note v = session_values [where vord = Mapping.ordered_keys, OF this]
  show ?thesis
    using v [of "with_metadata ''k'' ''new'' (with_metadata ''k'' ''old'' (bus_event_new ''1'' ''A'' []))" "''k''" "[]"]
      v [of _ "''role''" _ "[Some (''role'', Some ''user''), Some (''host'', Some ''h'')]"]
      v [of _ "''host''" _ "[Some (''role'', Some ''user''), Some (''host'', Some ''h'')]"]
    by (simp add: Let_def lookup_update' lookup_empty text_values_Cons ascii_entries_def)
      (simp add: with_metadata_def bus_event_new_def)
qed

end
