(* ===== verification/Transport.thy ===== *)
theory Transport
  imports Microsvc In_Memory_Queue
begin

text \<open>
  The transports of a service (\<open>listen\<close> and \<open>subscribe\<close> in \<open>src/microsvc/service.rs\<close>): background
  threads that take events from a named queue or a subscription, dispatch them to the handlers
  of the service, and count.
\<close>

section \<open>Transports\<close>

record transport_stats =
  ts_handled :: nat
  ts_failed :: nat
  ts_polls :: nat

definition transport_stats_default :: transport_stats where
  "transport_stats_default = \<lparr>ts_handled = 0, ts_failed = 0, ts_polls = 0\<rparr>"

text \<open>
  \<open>stops\<close> says at each turn of the loop whether the stop signal is seen; at its end the thread
  is still running.  A panic of a handler ends the thread.
\<close>

definition lift_bus :: "('s, 'e, 'a) call \<Rightarrow> ('r \<times> 's, 'e, 'a) call" where
  "lift_bus f rs = (case f (snd rs) of (res, s') \<Rightarrow> (res, fst rs, s'))"

definition lift_repo :: "('r, 'e, 'a) call \<Rightarrow> ('r \<times> 's, 'e, 'a) call" where
  "lift_repo f rs = (case f (fst rs) of (res, r') \<Rightarrow> (res, r', snd rs))"

definition listen_turn ::
    "(bytes \<Rightarrow> string + json) \<Rightarrow> 'r service \<Rightarrow> 's listener_ops \<Rightarrow> string \<Rightarrow> u64 \<Rightarrow> transport_stats \<Rightarrow>
     ('r \<times> 's, unit, transport_stats) call" where
  "listen_turn parse sv L name ms stats0 rs =
     (let stats = stats0\<lparr>ts_polls := ts_polls stats0 + 1\<rparr> in
      case lift_bus (lst_listen L name ms) rs of
        (Ok (Some e), rs') \<Rightarrow>
          (case lift_repo (dispatch_event parse sv e) rs' of
             (Ok _, rs'') \<Rightarrow> (Ok (stats\<lparr>ts_handled := ts_handled stats + 1\<rparr>), rs'')
           | (Err _, rs'') \<Rightarrow> (Ok (stats\<lparr>ts_failed := ts_failed stats + 1\<rparr>), rs'')
           | (Panic, rs'') \<Rightarrow> (Panic, rs'')
           | (Stuck, rs'') \<Rightarrow> (Stuck, rs''))
      | (Ok None, rs') \<Rightarrow> (Ok stats, rs')
      | (Err _, rs') \<Rightarrow> (Ok stats, rs')
      | (Panic, rs') \<Rightarrow> (Panic, rs')
      | (Stuck, rs') \<Rightarrow> (Stuck, rs'))"

fun listen_loop ::
    "(bytes \<Rightarrow> string + json) \<Rightarrow> 'r service \<Rightarrow> 's listener_ops \<Rightarrow> string \<Rightarrow> u64 \<Rightarrow> bool list \<Rightarrow> transport_stats \<Rightarrow>
     ('r \<times> 's, unit, transport_stats) call" where
  "listen_loop parse sv L name ms [] stats = st_lift Stuck"
| "listen_loop parse sv L name ms (stop # stops) stats =
     (if stop then st_return stats
      else st_bind (listen_turn parse sv L name ms stats)
             (\<lambda>stats'. listen_loop parse sv L name ms stops stats'))"

definition listen where
  "listen parse sv L name ms stops = listen_loop parse sv L name ms stops transport_stats_default"

definition subscribe_turn ::
    "(bytes \<Rightarrow> string + json) \<Rightarrow> 'r service \<Rightarrow> 's sub_ops \<Rightarrow> u64 \<Rightarrow> transport_stats \<Rightarrow>
     ('r \<times> 's, unit, transport_stats) call" where
  "subscribe_turn parse sv S ms stats0 rs =
     (let stats = stats0\<lparr>ts_polls := ts_polls stats0 + 1\<rparr> in
      case lift_bus (sub_poll S ms) rs of
        (Ok (Some e), rs') \<Rightarrow>
          (case lift_repo (dispatch_event parse sv e) rs' of
             (Ok _, rs'') \<Rightarrow>
               (case lift_bus (sub_ack S (be_id e)) rs'' of
                  (Panic, w) \<Rightarrow> (Panic, w) | (Stuck, w) \<Rightarrow> (Stuck, w)
                | (_, w) \<Rightarrow> (Ok (stats\<lparr>ts_handled := ts_handled stats + 1\<rparr>), w))
           | (Err _, rs'') \<Rightarrow>
               (case lift_bus (sub_nack S (be_id e) ''handler error'') rs'' of
                  (Panic, w) \<Rightarrow> (Panic, w) | (Stuck, w) \<Rightarrow> (Stuck, w)
                | (_, w) \<Rightarrow> (Ok (stats\<lparr>ts_failed := ts_failed stats + 1\<rparr>), w))
           | (Panic, rs'') \<Rightarrow> (Panic, rs'')
           | (Stuck, rs'') \<Rightarrow> (Stuck, rs''))
      | (Ok None, rs') \<Rightarrow> (Ok stats, rs')
      | (Err _, rs') \<Rightarrow> (Ok stats, rs')
      | (Panic, rs') \<Rightarrow> (Panic, rs')
      | (Stuck, rs') \<Rightarrow> (Stuck, rs'))"

fun subscribe_loop ::
    "(bytes \<Rightarrow> string + json) \<Rightarrow> 'r service \<Rightarrow> 's sub_ops \<Rightarrow> u64 \<Rightarrow> bool list \<Rightarrow> transport_stats \<Rightarrow>
     ('r \<times> 's, unit, transport_stats) call" where
  "subscribe_loop parse sv S ms [] stats = st_lift Stuck"
| "subscribe_loop parse sv S ms (stop # stops) stats =
     (if stop then st_return stats
      else st_bind (subscribe_turn parse sv S ms stats)
             (\<lambda>stats'. subscribe_loop parse sv S ms stops stats'))"

definition subscribe where
  "subscribe parse sv S ms stops = subscribe_loop parse sv S ms stops transport_stats_default"

definition transport_stop :: "(unit, transport_stats) outcome \<Rightarrow> transport_stats" where
  "transport_stop joined = (case joined of Ok stats \<Rightarrow> stats | _ \<Rightarrow> transport_stats_default)"

section \<open>What a transport does with what it takes\<close>

text \<open>The events given to the service one after the other: the answers, and the repository at the end.\<close>

fun handle_each ::
    "(bytes \<Rightarrow> string + json) \<Rightarrow> 'r service \<Rightarrow> bus_event list \<Rightarrow> 'r \<Rightarrow>
     (handler_error, json) outcome list \<times> 'r" where
  "handle_each parse sv [] r = ([], r)"
| "handle_each parse sv (e # es) r =
     (case dispatch_event parse sv e r of (res, r1) \<Rightarrow>
        case handle_each parse sv es r1 of (rest, r2) \<Rightarrow> (res # rest, r2))"

fun answered :: "('e, 'a) outcome \<Rightarrow> bool" where
  "answered (Ok a) = True"
| "answered (Err e) = True"
| "answered Panic = False"
| "answered Stuck = False"

lemma lift_bus_apply [simp]: "lift_bus f (r, w) = (case f w of (res, w') \<Rightarrow> (res, r, w'))"
  by (simp add: lift_bus_def)

lemma lift_repo_apply [simp]: "lift_repo f (r, w) = (case f r of (res, r') \<Rightarrow> (res, r', w))"
  by (simp add: lift_repo_def)

text \<open>
  A listener is a subscriber whose acknowledgements do nothing, so one lemma serves both
  transports.
\<close>

definition listener_as_subscriber :: "'s listener_ops \<Rightarrow> string \<Rightarrow> 's sub_ops" where
  "listener_as_subscriber L name =
     \<lparr>sub_poll = lst_listen L name, sub_ack = (\<lambda>i. st_return ()), sub_nack = (\<lambda>i reason. st_return ())\<rparr>"

lemma listen_turn_subscribe:
  "listen_turn parse sv L name ms stats rs =
     subscribe_turn parse sv (listener_as_subscriber L name) ms stats rs"
  by (auto simp: listen_turn_def subscribe_turn_def listener_as_subscriber_def Let_def lift_bus_def
      split: prod.splits outcome.splits option.splits)

lemma listen_subscribe:
  "listen parse sv L name ms stops rs = subscribe parse sv (listener_as_subscriber L name) ms stops rs"
proof -
  have "listen_loop parse sv L name ms stops stats rs =
      subscribe_loop parse sv (listener_as_subscriber L name) ms stops stats rs" for stats rs
  proof (induction stops arbitrary: stats rs)
    case (Cons stop stops)
    then show ?case
      by (simp add: st_bind_def listen_turn_subscribe split: prod.splits outcome.splits)
  qed simp
  then show ?thesis by (simp add: listen_def subscribe_def)
qed

text \<open>What the loop needs of the subscriber, beyond delivering the events in order.\<close>

locale transport_source = event_source poll inv waiting
  for poll :: "u64 \<Rightarrow> ('s, publish_error, bus_event option) call"
    and inv :: "'s \<Rightarrow> bool" and waiting :: "'s \<Rightarrow> bus_event list" +
  fixes ack :: "string \<Rightarrow> ('s, publish_error, unit) call"
    and nack :: "string \<Rightarrow> string \<Rightarrow> ('s, publish_error, unit) call"
    and confirmed :: "'s \<Rightarrow> string \<Rightarrow> bool"
  assumes poll_err: "inv s \<Longrightarrow> poll ms s = (Err x, s') \<Longrightarrow>
      inv s' \<and> (\<exists>more. waiting s' = waiting s @ more) \<and> (\<forall>i. confirmed s i \<longrightarrow> confirmed s' i)"
    and poll_confirmed: "inv s \<Longrightarrow> poll ms s = (Ok found, s') \<Longrightarrow> confirmed s i \<Longrightarrow> confirmed s' i"
    and ack_keeps: "inv s \<Longrightarrow> ack i s = (ares, s') \<Longrightarrow>
      inv s' \<and> waiting s' = waiting s \<and> confirmed s' i \<and> (\<forall>j. confirmed s j \<longrightarrow> confirmed s' j)"
    and nack_keeps: "inv s \<Longrightarrow> nack i reason s = (nres, s') \<Longrightarrow>
      inv s' \<and> waiting s' = waiting s \<and> (\<forall>j. confirmed s j \<longrightarrow> confirmed s' j)"
begin

abbreviation subscriber :: "'s sub_ops" where
  "subscriber \<equiv> \<lparr>sub_poll = poll, sub_ack = ack, sub_nack = nack\<rparr>"

lemma subscribe_turn_result:
  assumes "inv w" and "subscribe_turn parse sv subscriber ms stats (r, w) = (Ok stats', r', w')"
  obtains (idle) more where "inv w'" "waiting w' = waiting w @ more" "r' = r"
      "stats' = stats\<lparr>ts_polls := ts_polls stats + 1\<rparr>" "\<forall>i. confirmed w i \<longrightarrow> confirmed w' i"
    | (handled) e v more where "inv w'" "waiting w @ more = e # waiting w'"
      "dispatch_event parse sv e r = (Ok v, r')" "confirmed w' (be_id e)"
      "stats' = stats\<lparr>ts_polls := ts_polls stats + 1, ts_handled := ts_handled stats + 1\<rparr>"
      "\<forall>i. confirmed w i \<longrightarrow> confirmed w' i"
    | (failed) e err more where "inv w'" "waiting w @ more = e # waiting w'"
      "dispatch_event parse sv e r = (Err err, r')"
      "stats' = stats\<lparr>ts_polls := ts_polls stats + 1, ts_failed := ts_failed stats + 1\<rparr>"
      "\<forall>i. confirmed w i \<longrightarrow> confirmed w' i"
proof -
  obtain res w1 where p: "poll ms w = (res, w1)" by force
  have mono: "confirmed w i \<Longrightarrow> confirmed w1 i" if "res = Ok found" for found i
    using poll_confirmed [OF assms(1)] p that by blast
  consider (event) e where "res = Ok (Some e)" | (none) "res = Ok None" | (err) x where "res = Err x"
    using assms(2) p by (cases res) (auto simp: subscribe_turn_def Let_def split: option.splits)
  then show thesis
  proof cases
    case none
    with assms(2) p have "r' = r" "w' = w1" "stats' = stats\<lparr>ts_polls := ts_polls stats + 1\<rparr>"
      by (simp_all add: subscribe_turn_def Let_def)
    with poll_none [OF assms(1)] p none mono show thesis by (metis idle)
  next
    case err
    with assms(2) p have "r' = r" "w' = w1" "stats' = stats\<lparr>ts_polls := ts_polls stats + 1\<rparr>"
      by (simp_all add: subscribe_turn_def Let_def)
    with poll_err [OF assms(1)] p err show thesis by (metis idle)
  next
    case (event e)
    with poll_some [OF assms(1)] p obtain more where w1: "inv w1" "waiting w @ more = e # waiting w1"
      by metis
    have mono1: "\<forall>i. confirmed w i \<longrightarrow> confirmed w1 i" using mono event by blast
    obtain answer r1 where d: "dispatch_event parse sv e r = (answer, r1)" by force
    obtain ar wa where a: "ack (be_id e) w1 = (ar, wa)" by force
    obtain nr wn where n: "nack (be_id e) ''handler error'' w1 = (nr, wn)" by force
    note a' = ack_keeps [OF w1(1) a] and n' = nack_keeps [OF w1(1) n]
    show thesis
    proof (cases answer)
      case (Ok v)
      with assms(2) p event d a have "r' = r1" "w' = wa"
        "stats' = stats\<lparr>ts_polls := ts_polls stats + 1, ts_handled := ts_handled stats + 1\<rparr>"
        by (auto simp: subscribe_turn_def Let_def split: outcome.splits)
      with a' w1 d Ok mono1 show thesis by (intro handled [of more e v]) auto
    next
      case (Err x)
      with assms(2) p event d n have "r' = r1" "w' = wn"
        "stats' = stats\<lparr>ts_polls := ts_polls stats + 1, ts_failed := ts_failed stats + 1\<rparr>"
        by (auto simp: subscribe_turn_def Let_def split: outcome.splits)
      with n' w1 d Err mono1 show thesis by (intro failed [of more e x]) auto
    qed (use assms(2) p event d in \<open>simp_all add: subscribe_turn_def Let_def\<close>)
  qed
qed

lemma subscribe_loop_result:
  assumes "inv w" and "subscribe_loop parse sv subscriber ms stops stats (r, w) = (Ok stats', r', w')"
  shows "\<exists>es more outs. inv w' \<and> waiting w @ more = es @ waiting w' \<and>
    handle_each parse sv es r = (outs, r') \<and> list_all answered outs \<and>
    stats' = \<lparr>ts_handled = ts_handled stats + length (filter is_ok outs),
      ts_failed = ts_failed stats + length (filter (\<lambda>out. \<not> is_ok out) outs),
      ts_polls = ts_polls stats + length (takeWhile Not stops)\<rparr> \<and>
    (\<forall>(e, out) \<in> set (zip es outs). is_ok out \<longrightarrow> confirmed w' (be_id e)) \<and>
    (\<forall>i. confirmed w i \<longrightarrow> confirmed w' i)"
  using assms
proof (induction stops arbitrary: stats r w)
  case (Cons stop stops)
  show ?case
  proof (cases stop)
    case True
    with Cons.prems have "stats' = stats" "r' = r" "w' = w" by simp_all
    with True Cons.prems(1) show ?thesis by (intro exI [of _ "[]"]) simp
  next
    case False
    with Cons.prems(2) obtain stats1 r1 w1 where
      t: "subscribe_turn parse sv subscriber ms stats (r, w) = (Ok stats1, r1, w1)" and
      rest: "subscribe_loop parse sv subscriber ms stops stats1 (r1, w1) = (Ok stats', r', w')"
      by (auto simp: st_bind_Ok_iff)
    show ?thesis
      using Cons.prems(1) t
    proof (cases rule: subscribe_turn_result)
      case (idle more)
      from Cons.IH [OF idle(1) rest] obtain es more' outs where
        "inv w'" "waiting w1 @ more' = es @ waiting w'" "handle_each parse sv es r1 = (outs, r')"
        "list_all answered outs"
        "stats' = \<lparr>ts_handled = ts_handled stats1 + length (filter is_ok outs),
           ts_failed = ts_failed stats1 + length (filter (\<lambda>out. \<not> is_ok out) outs),
           ts_polls = ts_polls stats1 + length (takeWhile Not stops)\<rparr>"
        "\<forall>(e, out) \<in> set (zip es outs). is_ok out \<longrightarrow> confirmed w' (be_id e)"
        "\<forall>i. confirmed w1 i \<longrightarrow> confirmed w' i" by blast
      with idle False show ?thesis
        by - (rule exI [of _ es], rule exI [of _ "more @ more'"], rule exI [of _ outs], auto)
    next
      case (handled e v more)
      from Cons.IH [OF handled(1) rest] obtain es more' outs where
        ih: "inv w'" "waiting w1 @ more' = es @ waiting w'" "handle_each parse sv es r1 = (outs, r')"
        "list_all answered outs"
        "stats' = \<lparr>ts_handled = ts_handled stats1 + length (filter is_ok outs),
           ts_failed = ts_failed stats1 + length (filter (\<lambda>out. \<not> is_ok out) outs),
           ts_polls = ts_polls stats1 + length (takeWhile Not stops)\<rparr>"
        "\<forall>(e, out) \<in> set (zip es outs). is_ok out \<longrightarrow> confirmed w' (be_id e)"
        "\<forall>i. confirmed w1 i \<longrightarrow> confirmed w' i" by blast
      have "waiting w @ (more @ more') = (e # es) @ waiting w'"
        using handled(2) ih(2) by (metis append.assoc append_Cons)
      with ih handled False show ?thesis
        by - (rule exI [of _ "e # es"], rule exI [of _ "more @ more'"], rule exI [of _ "Ok v # outs"], auto)
    next
      case (failed e err more)
      from Cons.IH [OF failed(1) rest] obtain es more' outs where
        ih: "inv w'" "waiting w1 @ more' = es @ waiting w'" "handle_each parse sv es r1 = (outs, r')"
        "list_all answered outs"
        "stats' = \<lparr>ts_handled = ts_handled stats1 + length (filter is_ok outs),
           ts_failed = ts_failed stats1 + length (filter (\<lambda>out. \<not> is_ok out) outs),
           ts_polls = ts_polls stats1 + length (takeWhile Not stops)\<rparr>"
        "\<forall>(e, out) \<in> set (zip es outs). is_ok out \<longrightarrow> confirmed w' (be_id e)"
        "\<forall>i. confirmed w1 i \<longrightarrow> confirmed w' i" by blast
      have "waiting w @ (more @ more') = (e # es) @ waiting w'"
        using failed(2) ih(2) by (metis append.assoc append_Cons)
      with ih failed False show ?thesis
        by - (rule exI [of _ "e # es"], rule exI [of _ "more @ more'"], rule exI [of _ "Err err # outs"], auto)
    qed
  qed
qed simp

end

section \<open>The in-memory queue as a source\<close>

lemma wait_until_no_error: "wait_until take_next ms w \<noteq> (Err x, w')"
proof -
  have "wait_loop take_next d ts q \<noteq> (Err x, w')" for d ts q
    by (induction take_next d ts q rule: wait_loop.induct) (auto simp: Let_def split: option.splits prod.splits)
  then show ?thesis by (auto simp: wait_until_def split: list.splits)
qed

text \<open>Acknowledgements grow as long as the log is not cleared.\<close>

lemma nth_list_update_at: "h < length xs \<Longrightarrow> xs[k := v] ! h = (if k = h then v else xs ! h)"
  by simp

lemma acked_run:
  assumes "handle_live h q" and "quiet h cs" and "i \<in> set (iq_acked q ! h)"
  shows "i \<in> set (iq_acked (bus_run cs q) ! h)"
  using assms
proof (induction cs arbitrary: q)
  case (Cons c cs)
  then have c: "\<not> rewinds h c" "c \<noteq> BC_Take h" "quiet h cs" by (simp_all add: quiet_def)
  have "handle_live h (bus_exec c q)"
    using quiet_run_live [OF Cons.prems(1), of "[c]"] c(1,2) by (simp add: quiet_def)
  moreover have "i \<in> set (iq_acked (bus_exec c q) ! h)"
    using Cons.prems(1,3) c(1)
    by (cases c) (auto simp: handle_live_def bus_ops Let_def take_event_def take_message_def
        nth_append nth_list_update_at split: option.split)
  ultimately show ?case using Cons.IH c(3) by simp
qed simp

lemma acked_take: "i \<in> set (iq_acked q ! h) \<Longrightarrow> i \<in> set (iq_acked (snd (take_event h q)) ! h)"
  by (simp add: take_event_def Let_def)

lemma poll_acked:
  assumes "quiet_world h w" and "iq_poll h ms w = (Ok found, w')" and "i \<in> set (iq_acked (fst w) ! h)"
  shows "i \<in> set (iq_acked (fst w') ! h)"
  using assms(2)
proof (cases rule: poll_result)
  case (event e t pre)
  have "quiet h (others_in (t # pre))" using assms(1) event(2) by (intro quiet_others) (auto simp: quiet_world_def)
  from acked_take [OF acked_run [OF _ this assms(3)]] assms(1) event(3) show ?thesis
    by (simp add: quiet_world_def)
next
  case (timeout t before t')
  have "quiet h (others_in (t # before @ [t']))" using assms(1) timeout(2) by (intro quiet_others) (auto simp: quiet_world_def)
  from acked_run [OF _ this assms(3)] assms(1) timeout(3) show ?thesis
    by (simp add: quiet_world_def)
qed (use assms in auto)

interpretation st: transport_source "iq_poll h" "quiet_world h" "\<lambda>w. pending h (fst w)"
  "\<lambda>i. on_queue (iq_ack h i)" "\<lambda>i reason. on_queue (iq_nack h i reason)"
  "\<lambda>w i. i \<in> set (iq_acked (fst w) ! h)" for h
proof unfold_locales
  fix s s' :: queue_world and ms x
  assume "iq_poll h ms s = (Err x, s')"
  then show "quiet_world h s' \<and> (\<exists>more. pending h (fst s') = pending h (fst s) @ more) \<and>
      (\<forall>i. i \<in> set (iq_acked (fst s) ! h) \<longrightarrow> i \<in> set (iq_acked (fst s') ! h))"
    by (simp add: iq_poll_def wait_until_no_error)
next
  fix s s' :: queue_world and i ares
  assume "quiet_world h s" and "on_queue (iq_ack h i) s = (ares, s')"
  then show "quiet_world h s' \<and> pending h (fst s') = pending h (fst s) \<and>
      i \<in> set (iq_acked (fst s') ! h) \<and>
      (\<forall>j. j \<in> set (iq_acked (fst s) ! h) \<longrightarrow> j \<in> set (iq_acked (fst s') ! h))"
    by (auto simp: on_queue_def iq_ack_def quiet_world_def handle_live_def handle_ok_def pending_def)
qed (auto simp: on_queue_def iq_nack_def intro: poll_acked)

interpretation lt: transport_source "iq_listen name" "sole_world name" "\<lambda>w. p2p_pending name (fst w)"
  "\<lambda>i. st_return ()" "\<lambda>i reason. st_return ()" "\<lambda>w i. True" for name
  by unfold_locales (simp_all add: iq_listen_def wait_until_no_error)

section \<open>Properties\<close>

text \<open>
  C31: Subscribed services.  A service that runs until it is stopped on a subscriber that nobody
  else uses meanwhile (others may publish and read as they like, but not clear the log) is given
  the events of the log in order, from where its subscriber stood, each exactly once, the ones
  published meanwhile included, and its repository ends as if they had been dispatched one after
  the other.  The statistics count the turns, the events handled and the events refused, and
  every event handled is acknowledged.
\<close>

theorem subscribe_serves:
  assumes "quiet_world h w"
    and "subscribe parse sv (in_memory_subscriber h) ms stops (r, w) = (Ok stats, r', w')"
  shows "\<exists>es more outs. pending h (fst w) @ more = es @ pending h (fst w') \<and>
    handle_each parse sv es r = (outs, r') \<and> list_all answered outs \<and>
    stats = \<lparr>ts_handled = length (filter is_ok outs),
      ts_failed = length (filter (\<lambda>out. \<not> is_ok out) outs),
      ts_polls = length (takeWhile Not stops)\<rparr> \<and>
    (\<forall>(e, out) \<in> set (zip es outs). is_ok out \<longrightarrow> be_id e \<in> set (iq_acked (fst w') ! h))"
  using st.subscribe_loop_result [OF assms(1), of parse sv ms stops transport_stats_default r stats r' w'] assms(2)
  by (simp add: subscribe_def in_memory_subscriber_def transport_stats_default_def) blast

theorem subscribe_serves_witness:
  "let e1 = bus_event_new ''1'' ''ping'' []; e2 = bus_event_new ''2'' ''nope'' [];
       sv = build [Plain ''ping'' (\<lambda>ctx n. (Ok JNull, n + (1 :: nat)))];
       t = \<lparr>tk_others = [], tk_now = 0\<rparr>;
       w = (iq_publish e2 (iq_publish e1 in_memory_queue_new), [t, t]);
       w' = snd (snd (subscribe (\<lambda>bs. Inr JNull) sv (in_memory_subscriber 0) 10 [False, False, True] (0, w)))
   in \<exists>es more outs. pending 0 (fst w) @ more = es @ pending 0 (fst w') \<and>
        handle_each (\<lambda>bs. Inr JNull) sv es 0 = (outs, 1) \<and> length (filter is_ok outs) = 1 \<and>
        length (filter (\<lambda>out. \<not> is_ok out) outs) = 1"
proof -
  let ?e1 = "bus_event_new ''1'' ''ping'' []" and ?e2 = "bus_event_new ''2'' ''nope'' []"
  let ?sv = "build [Plain ''ping'' (\<lambda>ctx n. (Ok JNull, n + (1 :: nat)))]"
  let ?t = "\<lparr>tk_others = [], tk_now = 0\<rparr>" and ?parse = "\<lambda>bs. Inr JNull"
  let ?w = "(iq_publish ?e2 (iq_publish ?e1 in_memory_queue_new), [?t, ?t])"
  let ?run = "subscribe ?parse ?sv (in_memory_subscriber 0) 10 [False, False, True] (0, ?w)"
  obtain stats r' w' where run: "?run = (Ok stats, r', w')"
    and v: "r' = 1" "ts_handled stats = 1" "ts_failed stats = 1"
    by (simp add: subscribe_def subscribe_turn_def in_memory_subscriber_def iq_poll_def wait_until_def
        take_event_def on_queue_def iq_ack_def iq_nack_def iq_publish_def in_memory_queue_new_def Let_def
        dispatch_event_def dispatch_def lookup_build reg_handler_def event_to_session_def
        event_to_json_input_def bus_event_new_def transport_stats_default_def st_bind_def)
  have "quiet_world 0 ?w"
    by (simp add: quiet_world_def quiet_def handle_live_def handle_ok_def iq_publish_def in_memory_queue_new_def)
  from subscribe_serves [OF this run] v have "\<exists>es more outs. pending 0 (fst ?w) @ more = es @ pending 0 (fst w') \<and>
        handle_each ?parse ?sv es 0 = (outs, 1) \<and> length (filter is_ok outs) = 1 \<and>
        length (filter (\<lambda>out. \<not> is_ok out) outs) = 1"
    by auto
  with run show ?thesis by (simp add: Let_def)
qed

text \<open>
  Listening services.  A service that is the only listener of a named queue is given the
  messages of that queue in the order sent, each exactly once, also the ones sent while it runs,
  and its repository and counts end as for a subscription.
\<close>

theorem listen_serves:
  assumes "sole_world name w"
    and "listen parse sv in_memory_listener name ms stops (r, w) = (Ok stats, r', w')"
  shows "\<exists>es more outs. p2p_pending name (fst w) @ more = es @ p2p_pending name (fst w') \<and>
    handle_each parse sv es r = (outs, r') \<and> list_all answered outs \<and>
    stats = \<lparr>ts_handled = length (filter is_ok outs),
      ts_failed = length (filter (\<lambda>out. \<not> is_ok out) outs),
      ts_polls = length (takeWhile Not stops)\<rparr>"
  using lt.subscribe_loop_result [OF assms(1), of parse sv ms stops transport_stats_default r stats r' w'] assms(2)
  by (simp add: listen_subscribe subscribe_def listener_as_subscriber_def in_memory_listener_def
      transport_stats_default_def)

theorem listen_serves_witness:
  "let e1 = bus_event_new ''1'' ''ping'' []; e2 = bus_event_new ''2'' ''nope'' [];
       sv = build [Plain ''ping'' (\<lambda>ctx n. (Ok JNull, n + (1 :: nat)))];
       t = \<lparr>tk_others = [BC_Send ''jobs'' e2], tk_now = 0\<rparr>;
       w = (iq_send ''jobs'' e1 in_memory_queue_new, [t, t]);
       w' = snd (snd (listen (\<lambda>bs. Inr JNull) sv in_memory_listener ''jobs'' 10 [False, False, True] (0, w)))
   in \<exists>es more outs. p2p_pending ''jobs'' (fst w) @ more = es @ p2p_pending ''jobs'' (fst w') \<and>
        handle_each (\<lambda>bs. Inr JNull) sv es 0 = (outs, 1) \<and> length (filter is_ok outs) = 1 \<and>
        length (filter (\<lambda>out. \<not> is_ok out) outs) = 1"
proof -
  let ?e1 = "bus_event_new ''1'' ''ping'' []" and ?e2 = "bus_event_new ''2'' ''nope'' []"
  let ?sv = "build [Plain ''ping'' (\<lambda>ctx n. (Ok JNull, n + (1 :: nat)))]"
  let ?t = "\<lparr>tk_others = [BC_Send ''jobs'' ?e2], tk_now = 0\<rparr>" and ?parse = "\<lambda>bs. Inr JNull"
  let ?w = "(iq_send ''jobs'' ?e1 in_memory_queue_new, [?t, ?t])"
  let ?run = "listen ?parse ?sv in_memory_listener ''jobs'' 10 [False, False, True] (0, ?w)"
  obtain stats r' w' where run: "?run = (Ok stats, r', w')"
    and v: "r' = 1" "ts_handled stats = 1" "ts_failed stats = 1"
    by (simp add: listen_def listen_turn_def in_memory_listener_def iq_listen_def wait_until_def
        take_message_def iq_send_def in_memory_queue_new_def p2p_queue_default_def lookup_update' lookup_empty
        Let_def dispatch_event_def dispatch_def lookup_build reg_handler_def event_to_session_def
        event_to_json_input_def bus_event_new_def transport_stats_default_def st_bind_def)
  have "sole_world ''jobs'' ?w"
    by (auto simp: sole_world_def sole_listener_def queues_ok_def iq_send_def in_memory_queue_new_def
        p2p_queue_default_def lookup_update' lookup_empty Let_def split: if_splits)
  from listen_serves [OF this run] v have "\<exists>es more outs.
        p2p_pending ''jobs'' (fst ?w) @ more = es @ p2p_pending ''jobs'' (fst w') \<and>
        handle_each ?parse ?sv es 0 = (outs, 1) \<and> length (filter is_ok outs) = 1 \<and>
        length (filter (\<lambda>out. \<not> is_ok out) outs) = 1"
    by auto
  with run show ?thesis by (simp add: Let_def)
qed

end
