(* ===== verification/Front_Ends.thy ===== *)
theory Front_Ends
  imports Transport Outbox_Worker
begin

text \<open>
  How requests get to a service and how its background threads end: the HTTP routes and the gRPC
  server of \<open>src/microsvc/http.rs\<close> and \<open>grpc.rs\<close>, the registration macro of \<open>src/microsvc/mod.rs\<close>,
  and the handles of the transport and outbox threads (\<open>TransportHandle\<close> in
  \<open>src/microsvc/service.rs\<close>, \<open>OutboxWorkerThread\<close> in \<open>src/outbox_worker/thread.rs\<close>).
\<close>

section \<open>Registration\<close>

text \<open>A handler module exports its command, its guard and its handler.\<close>

record 'r handler_module =
  hm_command :: string
  hm_guard :: "context_data \<Rightarrow> 'r \<Rightarrow> bool option \<times> 'r"
  hm_handle :: "context_data \<Rightarrow> ('r, handler_error, json) call"

definition register_handlers :: "'r service \<Rightarrow> 'r handler_module list \<Rightarrow> 'r service" where
  "register_handlers service segs =
     fold (\<lambda>seg sv. command_guarded (hm_command seg) (hm_guard seg) (hm_handle seg) sv) segs service"

section \<open>HTTP routes\<close>

text \<open>
  The table of routes is data: patterns of path segments with a method and a handler.  What
  the web framework does with a table is a parameter \<open>route\<close>; only what its documentation says is
  used: of the patterns that match, the one that is static where another captures is taken; the
  handler of its method is called with the captured segments, a handler for \<open>GET\<close> also for \<open>HEAD\<close>;
  a method without a handler is refused, and a path that no pattern matches is not found.
\<close>

datatype http_method = GET | HEAD | POST | OtherMethod string

definition serves_method :: "http_method \<Rightarrow> http_method \<Rightarrow> bool" where
  "serves_method m meth \<longleftrightarrow> m = meth \<or> (m = GET \<and> meth = HEAD)"

datatype path_segment = Segment string | Capture string

datatype http_endpoint = EP_Health | EP_Command

type_synonym route_table = "(path_segment list \<times> http_method \<times> http_endpoint) list"

definition router :: route_table where
  "router = [([Segment ''health''], GET, EP_Health), ([Capture ''command''], POST, EP_Command)]"

datatype route_result = Matched http_endpoint "string list" | MethodNotAllowed | NoRoute

fun segment_matches :: "path_segment \<Rightarrow> string \<Rightarrow> bool" where
  "segment_matches (Segment t) s \<longleftrightarrow> s = t"
| "segment_matches (Capture n) s \<longleftrightarrow> s \<noteq> []"

definition path_matches :: "path_segment list \<Rightarrow> string list \<Rightarrow> bool" where
  "path_matches p path \<longleftrightarrow> list_all2 segment_matches p path"

fun captured :: "path_segment list \<Rightarrow> string list \<Rightarrow> string list" where
  "captured (Capture n # p) (s # path) = s # captured p path"
| "captured (Segment t # p) (s # path) = captured p path"
| "captured _ _ = []"

fun more_static :: "path_segment list \<Rightarrow> path_segment list \<Rightarrow> bool" where
  "more_static (Segment t # p) (Capture n # q) = True"
| "more_static (Segment t # p) (Segment u # q) = more_static p q"
| "more_static (Capture n # p) (Capture k # q) = more_static p q"
| "more_static _ _ = False"

definition table_patterns :: "route_table \<Rightarrow> path_segment list list" where
  "table_patterns rs = map fst rs"

definition routes_as_documented :: "(route_table \<Rightarrow> http_method \<Rightarrow> string list \<Rightarrow> route_result) \<Rightarrow> bool" where
  "routes_as_documented route \<longleftrightarrow>
     (\<forall>rs meth path.
        ((\<forall>p \<in> set (table_patterns rs). \<not> path_matches p path) \<longrightarrow> route rs meth path = NoRoute) \<and>
        (\<forall>p \<in> set (table_patterns rs). path_matches p path \<longrightarrow>
           (\<forall>q \<in> set (table_patterns rs). path_matches q path \<longrightarrow> q = p \<or> more_static p q) \<longrightarrow>
           route rs meth path =
             (case find (\<lambda>(q, m, h). q = p \<and> serves_method m meth) rs of
                Some (q, m, h) \<Rightarrow> Matched h (captured p path) | None \<Rightarrow> MethodNotAllowed)))"

text \<open>
  One request through the router.  \<open>extract\<close> reads the JSON body: it is the framework's extractor,
  which may refuse the request with a status and a body of its own.
\<close>

record http_request =
  hq_method :: http_method
  hq_path :: "string list"
  hq_headers :: "(string \<times> string option) list"
  hq_body :: bytes

text \<open>
  Which code answered: the health handler, the command handler with its status, the extractor with
  its own, or the framework, whose answer to a request without a handler is not modelled.
\<close>

datatype http_reply =
    Health_Reply json
  | Command_Reply u16 json
  | Extractor_Reply u16 string
  | Framework_Reply route_result

definition http_serve ::
    "(route_table \<Rightarrow> http_method \<Rightarrow> string list \<Rightarrow> route_result) \<Rightarrow>
     ((string \<times> string option) list \<Rightarrow> bytes \<Rightarrow> (u16 \<times> string) + json) \<Rightarrow>
     ((string, 'r command_handler) mapping \<Rightarrow> string list) \<Rightarrow> 'r service \<Rightarrow> http_request \<Rightarrow>
     ('r, handler_error, http_reply) call" where
  "http_serve route extract ord sv req r =
     (case route router (hq_method req) (hq_path req) of
        Matched EP_Health caps \<Rightarrow> (Ok (Health_Reply (health_handler ord sv)), r)
      | Matched EP_Command caps \<Rightarrow>
          (case extract (hq_headers req) (hq_body req) of
             Inl (code, text) \<Rightarrow> (Ok (Extractor_Reply code text), r)
           | Inr input \<Rightarrow>
               (case command_handler_http sv (hd caps) (hq_headers req) input r of
                  (res, r') \<Rightarrow> (map_ok (\<lambda>(code, v). Command_Reply code v) res, r')))
      | refused \<Rightarrow> (Ok (Framework_Reply refused), r))"

section \<open>The gRPC server\<close>

record 'r grpc_handler =
  gh_service :: "'r service"

definition grpc_handler_new :: "'r service \<Rightarrow> 'r grpc_handler" where
  "grpc_handler_new service = \<lparr>gh_service = service\<rparr>"

text \<open>The server around the handler is generated code; \<open>wrap\<close> is its constructor.\<close>

definition grpc_server :: "('r grpc_handler \<Rightarrow> 'srv) \<Rightarrow> 'r service \<Rightarrow> 'srv" where
  "grpc_server wrap service = wrap (grpc_handler_new service)"

section \<open>Handles of background threads\<close>

text \<open>
  A stop channel with one sender, owned by the handle: the signals not yet received, and whether
  the sender still exists.  The thread looks at it without blocking, at the top of its loop.
\<close>

record stop_channel =
  sc_pending :: nat
  sc_sender :: bool

datatype try_recv_result = Received | Empty | Disconnected

definition try_recv_stop :: "stop_channel \<Rightarrow> try_recv_result \<times> stop_channel" where
  "try_recv_stop ch =
     (if 0 < sc_pending ch then (Received, ch\<lparr>sc_pending := sc_pending ch - 1\<rparr>)
      else if sc_sender ch then (Empty, ch)
      else (Disconnected, ch))"

definition send_stop :: "stop_channel \<Rightarrow> stop_channel" where
  "send_stop ch = ch\<lparr>sc_pending := sc_pending ch + 1\<rparr>"

text \<open>\<open>th_handle\<close> is the join handle, while it has not been taken.\<close>

record 'j thread_handle =
  th_stop_tx :: stop_channel
  th_handle :: "'j option"

definition thread_handle_new :: "'j \<Rightarrow> 'j thread_handle" where
  "thread_handle_new j = \<lparr>th_stop_tx = \<lparr>sc_pending = 0, sc_sender = True\<rparr>, th_handle = Some j\<rparr>"

definition transport_signal_stop :: "'j thread_handle \<Rightarrow> 'j thread_handle" where
  "transport_signal_stop h = h\<lparr>th_stop_tx := send_stop (th_stop_tx h)\<rparr>"

definition worker_signal_stop :: "'j thread_handle \<Rightarrow> 'j thread_handle" where
  "worker_signal_stop h = h\<lparr>th_stop_tx := send_stop (th_stop_tx h)\<rparr>"

text \<open>Dropping a handle sends a signal; then its fields are dropped, the sender with them.\<close>

definition transport_drop :: "'j thread_handle \<Rightarrow> stop_channel" where
  "transport_drop h = (send_stop (th_stop_tx h))\<lparr>sc_sender := False\<rparr>"

definition worker_drop :: "'j thread_handle \<Rightarrow> stop_channel" where
  "worker_drop h = (send_stop (th_stop_tx h))\<lparr>sc_sender := False\<rparr>"

text \<open>What the thread does with what it saw: both loops stop on a signal and on a lost sender.\<close>

fun stops_on :: "try_recv_result \<Rightarrow> bool" where
  "stops_on Received = True"
| "stops_on Disconnected = True"
| "stops_on Empty = False"

section \<open>What registration does\<close>

lemma register_handlers_build:
  "register_handlers (build regs) mods =
     build (regs @ map (\<lambda>m. Guarded (hm_command m) (hm_guard m) (hm_handle m)) mods)"
proof -
  have "fold (\<lambda>seg sv. command_guarded (hm_command seg) (hm_guard seg) (hm_handle seg) sv) mods sv =
      fold register (map (\<lambda>m. Guarded (hm_command m) (hm_guard m) (hm_handle m)) mods) sv" for sv :: "'a service"
    by (induction mods arbitrary: sv) simp_all
  then show ?thesis by (simp add: register_handlers_def build_def)
qed

section \<open>What a request reaches\<close>

lemma table_patterns_router: "set (table_patterns router) = {[Segment ''health''], [Capture ''command'']}"
  by (simp add: table_patterns_def router_def)

lemma path_matches_one:
  "path_matches [Segment t] path \<longleftrightarrow> path = [t]"
  "path_matches [Capture n] path \<longleftrightarrow> (\<exists>s. path = [s] \<and> s \<noteq> [])"
  by (auto simp: path_matches_def list_all2_Cons1)

lemma routed_by_table:
  assumes "routes_as_documented route"
  shows "route router meth path =
    (if path = [''health''] then (if meth \<in> {GET, HEAD} then Matched EP_Health [] else MethodNotAllowed)
     else if \<exists>c. path = [c] \<and> c \<noteq> [] then (if meth = POST then Matched EP_Command path else MethodNotAllowed)
     else NoRoute)"
proof -
  note doc = assms [unfolded routes_as_documented_def, rule_format]
  consider (health) "path = [''health'']" | (command) c where "path = [c]" "c \<noteq> []" "c \<noteq> ''health''"
    | (other) "path \<noteq> [''health'']" "\<nexists>c. path = [c] \<and> c \<noteq> []" by blast
  then show ?thesis
  proof cases
    case health
    have "route router meth path =
        (case find (\<lambda>(q, m, h). q = [Segment ''health''] \<and> serves_method m meth) router of
           Some (q, m, h) \<Rightarrow> Matched h (captured [Segment ''health''] path) | None \<Rightarrow> MethodNotAllowed)"
      using health by (intro conjunct2 [OF doc, rule_format]) (auto simp: table_patterns_router path_matches_one)
    with health show ?thesis by (auto simp: router_def serves_method_def)
  next
    case (command c)
    have "route router meth path =
        (case find (\<lambda>(q, m, h). q = [Capture ''command''] \<and> serves_method m meth) router of
           Some (q, m, h) \<Rightarrow> Matched h (captured [Capture ''command''] path) | None \<Rightarrow> MethodNotAllowed)"
      using command by (intro conjunct2 [OF doc, rule_format]) (auto simp: table_patterns_router path_matches_one)
    with command show ?thesis by (auto simp: router_def serves_method_def)
  next
    case other
    have "route router meth path = NoRoute"
      by (rule conjunct1 [OF doc, rule_format]) (use other in \<open>auto simp: table_patterns_router path_matches_one\<close>)
    with other show ?thesis by auto
  qed
qed


text \<open>For the witness: a router that takes the first pattern that is best and looks up its method.\<close>

definition best_pattern :: "route_table \<Rightarrow> string list \<Rightarrow> path_segment list option" where
  "best_pattern rs path =
     find (\<lambda>p. path_matches p path \<and>
        list_all (\<lambda>q. path_matches q path \<longrightarrow> q = p \<or> more_static p q) (table_patterns rs)) (table_patterns rs)"

definition simple_route :: "route_table \<Rightarrow> http_method \<Rightarrow> string list \<Rightarrow> route_result" where
  "simple_route rs meth path =
     (case best_pattern rs path of
        None \<Rightarrow> NoRoute
      | Some p \<Rightarrow>
          (case find (\<lambda>(q, m, h). q = p \<and> serves_method m meth) rs of
             Some (q, m, h) \<Rightarrow> Matched h (captured p path) | None \<Rightarrow> MethodNotAllowed))"

lemma more_static_asym: "more_static p q \<Longrightarrow> \<not> more_static q p"
  by (induction p q rule: more_static.induct) auto

lemma simple_route_documented: "routes_as_documented simple_route"
  unfolding routes_as_documented_def
proof (intro allI impI conjI ballI)
  fix rs meth path
  assume "\<forall>p \<in> set (table_patterns rs). \<not> path_matches p path"
  then have "best_pattern rs path = None" by (auto simp: best_pattern_def find_None_iff)
  then show "simple_route rs meth path = NoRoute" by (simp add: simple_route_def)
next
  fix rs meth path p
  assume p: "p \<in> set (table_patterns rs)" "path_matches p path"
    "\<forall>q \<in> set (table_patterns rs). path_matches q path \<longrightarrow> q = p \<or> more_static p q"
  have "best_pattern rs path = Some p"
  proof (cases "best_pattern rs path")
    case None
    with p show ?thesis by (auto simp: best_pattern_def find_None_iff list_all_iff)
  next
    case (Some p')
    then have p': "p' \<in> set (table_patterns rs)" "path_matches p' path"
      "\<forall>q \<in> set (table_patterns rs). path_matches q path \<longrightarrow> q = p' \<or> more_static p' q"
      by (auto simp: best_pattern_def find_Some_iff list_all_iff)
    with p more_static_asym [of p p'] have "p' = p" by blast
    with Some show ?thesis by simp
  qed
  then show "simple_route rs meth path =
      (case find (\<lambda>(q, m, h). q = p \<and> serves_method m meth) rs of
         Some (q, m, h) \<Rightarrow> Matched h (captured p path) | None \<Rightarrow> MethodNotAllowed)"
    by (simp add: simple_route_def)
qed


section \<open>Stopping a thread\<close>

text \<open>
  What the owner of a handle does between two looks at the channel, and what the thread sees.
\<close>

datatype owner_act = Waits | Signals | Drops

fun owner_step :: "owner_act \<Rightarrow> stop_channel \<Rightarrow> stop_channel" where
  "owner_step Waits ch = ch"
| "owner_step Signals ch = th_stop_tx (transport_signal_stop \<lparr>th_stop_tx = ch, th_handle = Some ()\<rparr>)"
| "owner_step Drops ch = transport_drop \<lparr>th_stop_tx = ch, th_handle = Some ()\<rparr>"

fun stops_seen :: "stop_channel \<Rightarrow> owner_act list \<Rightarrow> bool list" where
  "stops_seen ch [] = []"
| "stops_seen ch (a # as) =
     (case try_recv_stop (owner_step a ch) of (res, ch') \<Rightarrow> stops_on res # stops_seen ch' as)"

lemma stops_seen_first:
  assumes "a \<noteq> Waits"
  shows "\<exists>later. stops_seen \<lparr>sc_pending = 0, sc_sender = True\<rparr> (replicate k Waits @ a # as) =
    replicate k False @ True # later"
proof (induction k)
  case 0
  from assms show ?case
    by (cases a) (auto simp: try_recv_stop_def transport_signal_stop_def transport_drop_def send_stop_def)
next
  case (Suc k)
  then show ?case by (auto simp: try_recv_stop_def)
qed

lemma subscribe_loop_stops:
  assumes "\<And>stats rs. is_ok (fst (subscribe_turn parse sv S ms stats rs))"
  shows "\<exists>stats' rs'. subscribe_loop parse sv S ms (replicate k False @ True # later) stats rs = (Ok stats', rs') \<and>
    ts_polls stats' = ts_polls stats + k"
proof (induction k arbitrary: stats rs)
  case 0
  then show ?case by simp
next
  case (Suc k)
  obtain stats1 rs1 where t: "subscribe_turn parse sv S ms stats rs = (Ok stats1, rs1)"
    using assms [of stats rs] by (metis is_ok_iff prod.collapse)
  then have "ts_polls stats1 = ts_polls stats + 1"
    by (auto simp: subscribe_turn_def Let_def split: prod.splits outcome.splits option.splits)
  with t Suc [of stats1 rs1] show ?case by simp
qed

lemma worker_thread_stops:
  assumes "\<And>now stats rs. is_ok (fst (worker_poll (B now) out mord worker stats rs))"
    and "map tn_stop turns = replicate k False @ True # later"
  shows "\<exists>stats' rs'. worker_thread B out mord worker turns stats rs = (Ok stats', rs') \<and>
    ws_polls stats' = ws_polls stats + k"
  using assms(2)
proof (induction k arbitrary: turns stats rs)
  case 0
  then show ?case by (cases turns) (auto simp: Let_def)
next
  case (Suc k)
  then obtain t ts where turns: "turns = t # ts" "\<not> tn_stop t" "map tn_stop ts = replicate k False @ True # later"
    by (cases turns) auto
  obtain stats1 rs1 where p: "worker_poll (B (tn_now t)) out mord worker stats (tn_others t rs) = (Ok stats1, rs1)"
    using assms(1) [of "tn_now t" stats "tn_others t rs"] by (metis is_ok_iff prod.collapse)
  then have "ws_polls stats1 = ws_polls stats + 1"
    by (auto simp: worker_poll_def Let_def dest: deliver_all_polls split: prod.splits outcome.splits)
  with p Suc.IH [OF turns(3), of stats1 rs1] turns show ?case by (simp add: Let_def)
qed

text \<open>
  C32: A stopped thread ends.  Once the owner of a transport or of an outbox worker signals the
  stop, or drops the handle, the thread sees it the next time it looks, whatever the owner does
  later: it makes no further poll and returns its statistics, which count the polls made before.
  (As long as each turn returns: a handler, bus or store that panics or blocks ends or holds it.)
\<close>

theorem stopped_threads_return:
  assumes "a \<noteq> Waits" and "stops = stops_seen \<lparr>sc_pending = 0, sc_sender = True\<rparr> (replicate k Waits @ a # as)"
    and "\<And>stats rs. is_ok (fst (subscribe_turn parse sv S ms stats rs))"
    and "\<And>stats rs. is_ok (fst (listen_turn parse sv L name ms stats rs))"
    and "\<And>now stats rs. is_ok (fst (worker_poll (B now) (fan_out P) mord worker stats rs))"
    and "map tn_stop turns = stops"
  shows "(\<exists>stats rs'. subscribe parse sv S ms stops rs = (Ok stats, rs') \<and> ts_polls stats = k) \<and>
    (\<exists>stats rs'. listen parse sv L name ms stops rs = (Ok stats, rs') \<and> ts_polls stats = k) \<and>
    (\<exists>stats ws'. spawn_with_id B P mord worker turns ws = (Ok stats, ws') \<and> ws_polls stats = k)"
proof -
  obtain later where later: "stops = replicate k False @ True # later"
    using stops_seen_first [OF assms(1)] assms(2) by blast
  have sub: "\<And>stats rs. is_ok (fst (subscribe_turn parse sv (listener_as_subscriber L name) ms stats rs))"
    using assms(4) by (simp add: listen_turn_subscribe)
  have "map tn_stop turns = replicate k False @ True # later" using assms(6) later by simp
  note w = worker_thread_stops [where out = "fan_out P" and B = B, OF assms(5) this]
  show ?thesis
    using subscribe_loop_stops [OF assms(3), of k later transport_stats_default rs]
      subscribe_loop_stops [OF sub, of k later transport_stats_default rs]
      w [of worker_stats_default ws] later
    by (simp add: subscribe_def listen_subscribe spawn_with_id_def transport_stats_default_def
        worker_stats_default_def)
qed

text \<open>For the witness: a bus on which nothing arrives, and a store with nothing to claim.\<close>

definition quiet_subscriber :: "unit sub_ops" where
  "quiet_subscriber =
     \<lparr>sub_poll = (\<lambda>ms. st_return None), sub_ack = (\<lambda>i. st_return ()), sub_nack = (\<lambda>i reason. st_return ())\<rparr>"

definition quiet_listener :: "unit listener_ops" where
  "quiet_listener = \<lparr>lst_listen = (\<lambda>name ms. st_return None)\<rparr>"

definition empty_outbox :: "unit outbox_ops" where
  "empty_outbox =
     \<lparr>oo_by_status = (\<lambda>st. st_return []), oo_claim = (\<lambda>w n lease. st_return []),
      oo_complete = (\<lambda>i. st_return ()), oo_release = (\<lambda>i err. st_return ()),
      oo_fail = (\<lambda>i err. st_return ())\<rparr>"

theorem stopped_threads_return_witness:
  "(\<exists>stats rs'. subscribe (\<lambda>b. Inr JNull) (build []) quiet_subscriber 5 [False, False, True, True] ((), ()) = (Ok stats, rs') \<and>
      ts_polls stats = 2) \<and>
   (\<exists>stats ws'. spawn_with_id (\<lambda>now. empty_outbox) \<lparr>pub_publish = (\<lambda>e. st_return ()), pub_publish_batch = (\<lambda>es. st_return ())\<rparr>
      Mapping.ordered_keys ''w''
      (map (\<lambda>b. \<lparr>tn_others = id, tn_stop = b, tn_now = 0\<rparr>) [False, False, True, True]) ((), ()) = (Ok stats, ws') \<and>
      ws_polls stats = 2)"
proof -
  let ?turns = "map (\<lambda>b. \<lparr>tn_others = id, tn_stop = b, tn_now = 0\<rparr>) [False, False, True, True]"
  let ?stops = "stops_seen \<lparr>sc_pending = 0, sc_sender = True\<rparr> (replicate 2 Waits @ Drops # [Waits])"
  have stops: "?stops = [False, False, True, True]"
    by (simp add: numeral_2_eq_2 try_recv_stop_def transport_drop_def send_stop_def)
  have "is_ok (fst (subscribe_turn (\<lambda>b. Inr JNull) (build [] :: unit service) quiet_subscriber 5 stats rs))" for stats rs
    by (cases rs) (simp add: subscribe_turn_def quiet_subscriber_def Let_def)
  moreover have "is_ok (fst (listen_turn (\<lambda>b. Inr JNull) (build [] :: unit service) quiet_listener ''q'' 5 stats rs))" for stats rs
    by (cases rs) (simp add: listen_turn_def quiet_listener_def Let_def)
  moreover have "is_ok (fst (worker_poll empty_outbox out Mapping.ordered_keys ''w'' stats rs))"
    for out :: "outbox_message \<Rightarrow> bus_event \<Rightarrow> (unit, publish_error, unit) call" and stats rs
    by (cases rs) (simp add: worker_poll_def empty_outbox_def Let_def)
  ultimately show ?thesis
    using stopped_threads_return [of Drops ?stops 2 "[Waits]" "\<lambda>b. Inr JNull" "build [] :: unit service" quiet_subscriber 5
        quiet_listener "''q''" "\<lambda>now. empty_outbox"
        "\<lparr>pub_publish = (\<lambda>e. st_return ()), pub_publish_batch = (\<lambda>es. st_return ())\<rparr>"
        Mapping.ordered_keys "''w''" ?turns "((), ())" "((), ())"] stops
    by simp
qed

end
