(* ===== verification/Macro_Syntax.thy ===== *)
theory Macro_Syntax
  imports Prelude
begin

text \<open>
  The arguments of the procedural macros (\<open>sourced_rust_macros/src/lib.rs\<close>): token trees and the
  parsers of \<open>digest\<close>, \<open>enqueue\<close>, \<open>event\<close>, \<open>aggregate!\<close> and \<open>sourced\<close>.  A parser returns its result with
  the tokens left, or the message of a compile error.  How far a Rust expression or path reaches
  is decided by the parser library: \<open>el\<close> and \<open>pl\<close> give the number of tokens it takes, or that
  there is none; expressions and paths are kept as their tokens.
\<close>

section \<open>Tokens\<close>

datatype delim = Parenthesis | Brace | Bracket

text \<open>\<open>TIdent\<close> is an identifier that is no keyword; operators are one token.\<close>

datatype tt =
    TIdent string
  | TLitStr string
  | TLitInt u64
  | TPunct string
  | TGroup delim "tt list"
  | TOther string

type_synonym 'a parser = "tt list \<Rightarrow> string + 'a \<times> tt list"

definition p_bind :: "'a parser \<Rightarrow> ('a \<Rightarrow> 'b parser) \<Rightarrow> 'b parser" where
  "p_bind p f ts = (case p ts of Inl err \<Rightarrow> Inl err | Inr (a, ts') \<Rightarrow> f a ts')"

definition p_return :: "'a \<Rightarrow> 'a parser" where
  "p_return a ts = Inr (a, ts)"

fun p_ident :: "string parser" where
  "p_ident (TIdent s # ts) = Inr (s, ts)"
| "p_ident _ = Inl ''expected identifier''"

fun p_lit_str :: "string parser" where
  "p_lit_str (TLitStr s # ts) = Inr (s, ts)"
| "p_lit_str _ = Inl ''expected string literal''"

fun p_lit_int :: "u64 parser" where
  "p_lit_int (TLitInt n # ts) = Inr (n, ts)"
| "p_lit_int _ = Inl ''expected integer literal''"

definition p_punct :: "string \<Rightarrow> unit parser" where
  "p_punct s ts =
     (case ts of TPunct s' # ts' \<Rightarrow> (if s' = s then Inr ((), ts') else Inl (''expected '' @ s))
      | _ \<Rightarrow> Inl (''expected '' @ s))"

definition p_group :: "delim \<Rightarrow> tt list parser" where
  "p_group d ts =
     (case ts of TGroup d' inner # ts' \<Rightarrow> (if d' = d then Inr (inner, ts') else Inl ''expected group'')
      | _ \<Rightarrow> Inl ''expected group'')"

definition p_take :: "(tt list \<Rightarrow> nat option) \<Rightarrow> tt list parser" where
  "p_take len ts = (case len ts of None \<Rightarrow> Inl ''expected expression'' | Some n \<Rightarrow> Inr (take n ts, drop n ts))"

fun peek_ident :: "tt list \<Rightarrow> bool" where
  "peek_ident (TIdent s # ts) = True"
| "peek_ident _ = False"

fun peek_lit_str :: "tt list \<Rightarrow> bool" where
  "peek_lit_str (TLitStr s # ts) = True"
| "peek_lit_str _ = False"

definition peek_punct :: "string \<Rightarrow> tt list \<Rightarrow> bool" where
  "peek_punct s ts \<longleftrightarrow> (case ts of TPunct s' # _ \<Rightarrow> s' = s | _ \<Rightarrow> False)"

definition peek_paren :: "tt list \<Rightarrow> bool" where
  "peek_paren ts \<longleftrightarrow> (case ts of TGroup Parenthesis _ # _ \<Rightarrow> True | _ \<Rightarrow> False)"

text \<open>A parser must use up the tokens of its attribute or group.\<close>

definition p_all :: "'a parser \<Rightarrow> tt list \<Rightarrow> string + 'a" where
  "p_all p ts =
     (case p ts of Inl err \<Rightarrow> Inl err | Inr (a, []) \<Rightarrow> Inr a | Inr (a, _) \<Rightarrow> Inl ''unexpected token'')"

definition p_inside :: "delim \<Rightarrow> (tt list \<Rightarrow> string + 'a) \<Rightarrow> 'a parser" where
  "p_inside d f = p_bind (p_group d) (\<lambda>inner ts. case f inner of Inl err \<Rightarrow> Inl err | Inr a \<Rightarrow> Inr (a, ts))"

lemmas parsers = p_bind_def p_return_def p_punct_def p_group_def p_take_def p_all_def p_inside_def
  peek_punct_def peek_paren_def

lemma peek_punct_shorter [termination_simp]: "peek_punct s ts \<Longrightarrow> length (tl ts) < length ts"
  by (cases ts) (auto simp: peek_punct_def)

lemma p_ident_shorter [termination_simp]: "p_ident ts = Inr (s, ts') \<Longrightarrow> length ts' < length ts"
  by (cases ts rule: p_ident.cases) auto

lemma p_lit_str_shorter: "p_lit_str ts = Inr (s, ts') \<Longrightarrow> length ts' < length ts"
  by (cases ts rule: p_lit_str.cases) auto

lemma p_lit_int_shorter: "p_lit_int ts = Inr (s, ts') \<Longrightarrow> length ts' < length ts"
  by (cases ts rule: p_lit_int.cases) auto

lemma p_punct_shorter: "p_punct s ts = Inr (u, ts') \<Longrightarrow> length ts' < length ts"
  by (cases ts) (auto simp: p_punct_def split: tt.splits if_splits)

lemma p_group_shorter: "p_group d ts = Inr (inner, ts') \<Longrightarrow> length ts' < length ts"
  by (cases ts) (auto simp: p_group_def split: tt.splits if_splits)

lemma p_take_shorter: "p_take len ts = Inr (e, ts') \<Longrightarrow> length ts' \<le> length ts"
  by (auto simp: p_take_def split: option.splits)

section \<open>Keyword arguments\<close>

text \<open>\<open>, when = condition\<close> and \<open>, version = N\<close>, in any order; a later one replaces an earlier one.\<close>

definition p_value :: "'a parser \<Rightarrow> 'a parser" where
  "p_value p = p_bind (p_punct ''='') (\<lambda>_. p)"

lemma p_value_shorter:
  assumes "p_value p ts = Inr (a, ts')" and "\<And>ts a ts'. p ts = Inr (a, ts') \<Longrightarrow> length ts' \<le> length ts"
  shows "length ts' < length ts"
  using assms by (fastforce simp: p_value_def p_bind_def dest: p_punct_shorter split: sum.splits)

lemma p_value_take_shorter: "p_value (p_take el) ts = Inr (e, ts') \<Longrightarrow> length ts' < length ts"
  by (rule p_value_shorter) (auto dest: p_take_shorter)

lemma p_value_int_shorter: "p_value p_lit_int ts = Inr (n, ts') \<Longrightarrow> length ts' < length ts"
  by (rule p_value_shorter) (auto dest: p_lit_int_shorter)

function keyword_args ::
    "(tt list \<Rightarrow> nat option) \<Rightarrow> tt list option \<Rightarrow> u64 option \<Rightarrow> (tt list option \<times> u64 option) parser" where
  "keyword_args el guard version ts =
     (if \<not> peek_punct '','' ts then Inr ((guard, version), ts)
      else case p_ident (tl ts) of
        Inl _ \<Rightarrow> keyword_args el guard version (tl ts)
      | Inr (kw, ts1) \<Rightarrow>
          (if kw = ''when'' then
             (case p_value (p_take el) ts1 of
                Inl err \<Rightarrow> Inl err | Inr (e, ts2) \<Rightarrow> keyword_args el (Some e) version ts2)
           else if kw = ''version'' then
             (case p_value p_lit_int ts1 of
                Inl err \<Rightarrow> Inl err | Inr (n, ts2) \<Rightarrow> keyword_args el guard (Some n) ts2)
           else Inr ((guard, version), tl ts)))"
  by pat_completeness auto
termination
  by (relation "measure (\<lambda>(el, guard, version, ts). length ts)")
    (auto dest!: peek_punct_shorter p_ident_shorter p_value_take_shorter p_value_int_shorter)

declare keyword_args.simps [simp del]

section \<open>\<open>#[digest]\<close>, \<open>#[enqueue]\<close> and \<open>#[event]\<close>\<close>

text \<open>An optional field name before the event name.\<close>

definition field_and_name :: "string \<Rightarrow> (string \<times> string) parser" where
  "field_and_name default_field ts =
     (if peek_lit_str ts then p_bind p_lit_str (\<lambda>name. p_return (default_field, name)) ts
      else p_bind p_ident (\<lambda>field. p_bind (p_punct '','') (\<lambda>_.
             p_bind p_lit_str (\<lambda>name. p_return (field, name)))) ts)"

record enqueue_args =
  ea_emitter_field :: string
  ea_entity_field :: string
  ea_event_name :: string
  ea_guard :: "tt list option"

definition enqueue_guard :: "(tt list \<Rightarrow> nat option) \<Rightarrow> tt list option parser" where
  "enqueue_guard el ts =
     (if peek_punct '','' ts then
        (let ts1 = tl ts in
         case p_ident ts1 of
           Inr (kw, ts2) \<Rightarrow>
             (if kw = ''when'' then p_bind (p_value (p_take el)) (\<lambda>e. p_return (Some e)) ts2
              else Inr (None, ts1))
         | Inl _ \<Rightarrow> Inr (None, ts1))
      else Inr (None, ts))"

definition parse_enqueue_args :: "(tt list \<Rightarrow> nat option) \<Rightarrow> enqueue_args parser" where
  "parse_enqueue_args el =
     p_bind (field_and_name ''emitter'') (\<lambda>(emitter_field, event_name).
     p_bind (enqueue_guard el) (\<lambda>guard.
     p_return \<lparr>ea_emitter_field = emitter_field, ea_entity_field = ''entity'',
       ea_event_name = event_name, ea_guard = guard\<rparr>))"

record digest_args =
  da_entity_field :: string
  da_event_name :: string
  da_guard :: "tt list option"
  da_version :: "u64 option"

definition parse_digest_args :: "(tt list \<Rightarrow> nat option) \<Rightarrow> digest_args parser" where
  "parse_digest_args el =
     p_bind (field_and_name ''entity'') (\<lambda>(entity_field, event_name).
     p_bind (keyword_args el None None) (\<lambda>(guard, version).
     p_return \<lparr>da_entity_field = entity_field, da_event_name = event_name,
       da_guard = guard, da_version = version\<rparr>))"

record event_attr =
  ev_event_name :: string
  ev_guard :: "tt list option"
  ev_version :: "u64 option"

definition parse_event_args :: "(tt list \<Rightarrow> nat option) \<Rightarrow> event_attr parser" where
  "parse_event_args el =
     p_bind p_lit_str (\<lambda>event_name.
     p_bind (keyword_args el None None) (\<lambda>(guard, version).
     p_return \<lparr>ev_event_name = event_name, ev_guard = guard, ev_version = version\<rparr>))"

section \<open>\<open>aggregate!\<close>\<close>

text \<open>Identifiers separated by commas, with an optional one at the end.\<close>

fun idents_terminated :: "tt list \<Rightarrow> string + string list" where
  "idents_terminated [] = Inr []"
| "idents_terminated [t] =
     (case t of TIdent s \<Rightarrow> Inr [s] | _ \<Rightarrow> Inl ''expected identifier'')"
| "idents_terminated (t # u # ts) =
     (case t of
        TIdent s \<Rightarrow>
          (if u = TPunct '','' then
             (case idents_terminated ts of Inl err \<Rightarrow> Inl err | Inr ss \<Rightarrow> Inr (s # ss))
           else Inl ''expected ,'')
      | _ \<Rightarrow> Inl ''expected identifier'')"

definition optional_comma :: "unit parser" where
  "optional_comma ts = Inr ((), if peek_punct '','' ts then tl ts else ts)"

record event_def =
  ed_event_name :: string
  ed_args :: "string list"
  ed_method_name :: string
  ed_method_args :: "string list option"

definition optional_args :: "string list option parser" where
  "optional_args ts =
     (if peek_paren ts then p_bind (p_inside Parenthesis idents_terminated) (\<lambda>a. p_return (Some a)) ts
      else Inr (None, ts))"

definition p_event_def :: "event_def parser" where
  "p_event_def =
     p_bind p_lit_str (\<lambda>event_name.
     p_bind (p_inside Parenthesis idents_terminated) (\<lambda>args.
     p_bind (p_punct ''=>'') (\<lambda>_.
     p_bind p_ident (\<lambda>method_name.
     p_bind optional_args (\<lambda>method_args.
     p_bind optional_comma (\<lambda>_.
     p_return \<lparr>ed_event_name = event_name, ed_args = args, ed_method_name = method_name,
       ed_method_args = method_args\<rparr>))))))"

record upcaster_def =
  ud_event_name :: string
  ud_from_version :: u64
  ud_to_version :: u64
  ud_transform_fn :: "tt list"

definition p_upcaster_entry :: "(tt list \<Rightarrow> nat option) \<Rightarrow> upcaster_def parser" where
  "p_upcaster_entry pl =
     p_bind p_lit_str (\<lambda>event_name.
     p_bind (p_punct '','') (\<lambda>_.
     p_bind p_lit_int (\<lambda>from_version.
     p_bind (p_punct ''=>'') (\<lambda>_.
     p_bind p_lit_int (\<lambda>to_version.
     p_bind (p_punct '','') (\<lambda>_.
     p_bind (p_take pl) (\<lambda>transform_fn.
     p_return \<lparr>ud_event_name = event_name, ud_from_version = from_version,
       ud_to_version = to_version, ud_transform_fn = transform_fn\<rparr>)))))))"

definition p_upcaster :: "(tt list \<Rightarrow> nat option) \<Rightarrow> upcaster_def parser" where
  "p_upcaster pl =
     p_bind (p_inside Parenthesis (p_all (p_upcaster_entry pl))) (\<lambda>u.
     p_bind optional_comma (\<lambda>_. p_return u))"

lemma p_inside_shorter: "p_inside d f ts = Inr (a, ts') \<Longrightarrow> length ts' < length ts"
  by (auto simp: p_inside_def p_bind_def dest: p_group_shorter split: sum.splits)

lemma optional_comma_shorter: "optional_comma ts = Inr (u, ts') \<Longrightarrow> length ts' \<le> length ts"
  by (auto simp: optional_comma_def dest: peek_punct_shorter split: if_splits)

lemma optional_args_shorter: "optional_args ts = Inr (a, ts') \<Longrightarrow> length ts' \<le> length ts"
  by (auto simp: optional_args_def p_bind_def p_return_def dest: p_inside_shorter split: if_splits sum.splits)

lemma p_bind_Inr:
  "p_bind p f ts = Inr (b, ts'') \<longleftrightarrow> (\<exists>a ts'. p ts = Inr (a, ts') \<and> f a ts' = Inr (b, ts''))"
  by (auto simp: p_bind_def split: sum.splits prod.splits)

lemma p_event_def_shorter: "p_event_def ts = Inr (d, ts') \<Longrightarrow> length ts' < length ts"
  by (auto simp: p_event_def_def p_bind_Inr p_return_def
      dest!: p_lit_str_shorter p_inside_shorter p_punct_shorter p_ident_shorter optional_args_shorter optional_comma_shorter)

lemma p_upcaster_shorter: "p_upcaster pl ts = Inr (u, ts') \<Longrightarrow> length ts' < length ts"
  by (auto simp: p_upcaster_def p_bind_Inr p_return_def dest!: p_inside_shorter optional_comma_shorter)

text \<open>\<open>while !content.is_empty()\<close>, for event definitions and for upcasters.\<close>

function event_defs :: "tt list \<Rightarrow> string + event_def list" where
  "event_defs ts =
     (if ts = [] then Inr []
      else case p_event_def ts of
        Inl err \<Rightarrow> Inl err
      | Inr (d, ts') \<Rightarrow> (case event_defs ts' of Inl err \<Rightarrow> Inl err | Inr ds \<Rightarrow> Inr (d # ds)))"
  by pat_completeness auto
termination by (relation "measure length") (auto dest: p_event_def_shorter)

function upcaster_defs :: "(tt list \<Rightarrow> nat option) \<Rightarrow> tt list \<Rightarrow> string + upcaster_def list" where
  "upcaster_defs pl ts =
     (if ts = [] then Inr []
      else case p_upcaster pl ts of
        Inl err \<Rightarrow> Inl err
      | Inr (u, ts') \<Rightarrow> (case upcaster_defs pl ts' of Inl err \<Rightarrow> Inl err | Inr us \<Rightarrow> Inr (u # us)))"
  by pat_completeness auto
termination by (relation "measure (length \<circ> snd)") (auto dest: p_upcaster_shorter)

declare event_defs.simps [simp del] upcaster_defs.simps [simp del]

record aggregate_input =
  ai_agg_name :: string
  ai_entity_field :: string
  ai_events :: "event_def list"
  ai_upcasters :: "upcaster_def list"

definition optional_upcasters :: "(tt list \<Rightarrow> nat option) \<Rightarrow> upcaster_def list parser" where
  "optional_upcasters pl ts =
     (if peek_ident ts then
        p_bind p_ident (\<lambda>kw.
          if kw \<noteq> ''upcasters'' then (\<lambda>_. Inl ''expected `upcasters`'')
          else p_inside Bracket (upcaster_defs pl)) ts
      else Inr ([], ts))"

definition parse_aggregate_input :: "(tt list \<Rightarrow> nat option) \<Rightarrow> aggregate_input parser" where
  "parse_aggregate_input pl =
     p_bind p_ident (\<lambda>agg_name.
     p_bind (p_punct '','') (\<lambda>_.
     p_bind p_ident (\<lambda>entity_field.
     p_bind (p_inside Brace event_defs) (\<lambda>events.
     p_bind (optional_upcasters pl) (\<lambda>upcasters.
     p_return \<lparr>ai_agg_name = agg_name, ai_entity_field = entity_field, ai_events = events,
       ai_upcasters = upcasters\<rparr>)))))"

section \<open>\<open>#[sourced]\<close>\<close>

record sourced_args =
  sa_entity_field :: string
  sa_enum_name :: "string option"
  sa_enqueue :: "string option"
  sa_upcasters :: "upcaster_def list"

definition enqueue_field :: "string parser" where
  "enqueue_field ts =
     (if peek_paren ts then p_inside Parenthesis (p_all p_ident) ts else Inr (''emitter'', ts))"

lemma enqueue_field_shorter: "enqueue_field ts = Inr (f, ts') \<Longrightarrow> length ts' \<le> length ts"
  by (auto simp: enqueue_field_def dest: p_inside_shorter split: if_splits)

lemma p_value_str_shorter: "p_value p_lit_str ts = Inr (n, ts') \<Longrightarrow> length ts' < length ts"
  by (rule p_value_shorter) (auto dest: p_lit_str_shorter)

function sourced_keywords :: "(tt list \<Rightarrow> nat option) \<Rightarrow> sourced_args \<Rightarrow> sourced_args parser" where
  "sourced_keywords pl a ts =
     (if \<not> peek_punct '','' ts then Inr (a, ts)
      else case p_ident (tl ts) of
        Inl _ \<Rightarrow> sourced_keywords pl a (tl ts)
      | Inr (kw, ts1) \<Rightarrow>
          (if kw = ''events'' then
             (case p_value p_lit_str ts1 of
                Inl err \<Rightarrow> Inl err
              | Inr (n, ts2) \<Rightarrow> sourced_keywords pl (a\<lparr>sa_enum_name := Some n\<rparr>) ts2)
           else if kw = ''enqueue'' then
             (case enqueue_field ts1 of
                Inl err \<Rightarrow> Inl err
              | Inr (f, ts2) \<Rightarrow> sourced_keywords pl (a\<lparr>sa_enqueue := Some f\<rparr>) ts2)
           else if kw = ''upcasters'' then
             (case p_inside Parenthesis (upcaster_defs pl) ts1 of
                Inl err \<Rightarrow> Inl err
              | Inr (us, ts2) \<Rightarrow> sourced_keywords pl (a\<lparr>sa_upcasters := sa_upcasters a @ us\<rparr>) ts2)
           else Inr (a, tl ts)))"
  by pat_completeness auto
termination
  by (relation "measure (\<lambda>(pl, a, ts). length ts)")
    (auto dest!: peek_punct_shorter p_ident_shorter p_value_str_shorter enqueue_field_shorter p_inside_shorter)

declare sourced_keywords.simps [simp del]

definition parse_sourced_args :: "(tt list \<Rightarrow> nat option) \<Rightarrow> sourced_args parser" where
  "parse_sourced_args pl =
     p_bind p_ident (\<lambda>entity_field.
     sourced_keywords pl \<lparr>sa_entity_field = entity_field, sa_enum_name = None, sa_enqueue = None,
       sa_upcasters = []\<rparr>)"

section \<open>Writing arguments\<close>

text \<open>The reader of expressions (or paths) takes \<open>e\<close> when a comma or nothing follows it.\<close>

definition reads :: "(tt list \<Rightarrow> nat option) \<Rightarrow> tt list \<Rightarrow> bool" where
  "reads len e \<longleftrightarrow> (\<forall>rest. rest = [] \<or> peek_punct '','' rest \<longrightarrow> len (e @ rest) = Some (length e))"

datatype keyword = When "tt list" | Version u64

fun print_keyword :: "keyword \<Rightarrow> tt list" where
  "print_keyword (When e) = TPunct '','' # TIdent ''when'' # TPunct ''='' # e"
| "print_keyword (Version n) = [TPunct '','', TIdent ''version'', TPunct ''='', TLitInt n]"

fun set_keyword :: "keyword \<Rightarrow> tt list option \<times> u64 option \<Rightarrow> tt list option \<times> u64 option" where
  "set_keyword (When e) (guard, version) = (Some e, version)"
| "set_keyword (Version n) (guard, version) = (guard, Some n)"

definition print_keywords :: "keyword list \<Rightarrow> tt list" where
  "print_keywords kws = concat (map print_keyword kws)"

definition print_field :: "string option \<Rightarrow> string \<Rightarrow> tt list" where
  "print_field field name =
     (case field of None \<Rightarrow> [] | Some f \<Rightarrow> [TIdent f, TPunct '','']) @ [TLitStr name]"

fun print_idents :: "string list \<Rightarrow> tt list" where
  "print_idents [] = []"
| "print_idents [s] = [TIdent s]"
| "print_idents (s # t # ss) = TIdent s # TPunct '','' # print_idents (t # ss)"

definition print_event_def :: "event_def \<Rightarrow> tt list" where
  "print_event_def d =
     [TLitStr (ed_event_name d), TGroup Parenthesis (print_idents (ed_args d)), TPunct ''=>'',
      TIdent (ed_method_name d)] @
     (case ed_method_args d of None \<Rightarrow> [] | Some a \<Rightarrow> [TGroup Parenthesis (print_idents a)]) @
     [TPunct '','']"

definition print_upcaster :: "upcaster_def \<Rightarrow> tt list" where
  "print_upcaster u =
     [TGroup Parenthesis ([TLitStr (ud_event_name u), TPunct '','', TLitInt (ud_from_version u),
        TPunct ''=>'', TLitInt (ud_to_version u), TPunct '',''] @ ud_transform_fn u), TPunct '','']"

definition print_upcasters :: "upcaster_def list \<Rightarrow> tt list" where
  "print_upcasters us = concat (map print_upcaster us)"

definition print_aggregate_input :: "aggregate_input \<Rightarrow> tt list" where
  "print_aggregate_input a =
     [TIdent (ai_agg_name a), TPunct '','', TIdent (ai_entity_field a),
      TGroup Brace (concat (map print_event_def (ai_events a)))] @
     (if ai_upcasters a = [] then []
      else [TIdent ''upcasters'', TGroup Bracket (print_upcasters (ai_upcasters a))])"

definition print_sourced_args :: "sourced_args \<Rightarrow> tt list" where
  "print_sourced_args a =
     TIdent (sa_entity_field a) #
     (case sa_enum_name a of None \<Rightarrow> []
      | Some n \<Rightarrow> [TPunct '','', TIdent ''events'', TPunct ''='', TLitStr n]) @
     (case sa_enqueue a of None \<Rightarrow> []
      | Some f \<Rightarrow> [TPunct '','', TIdent ''enqueue'', TGroup Parenthesis [TIdent f]]) @
     (if sa_upcasters a = [] then []
      else [TPunct '','', TIdent ''upcasters'', TGroup Parenthesis (print_upcasters (sa_upcasters a))])"

named_theorems parse_simps \<open>what a parser does on the tokens of a writer\<close>

lemma parse_basic [parse_simps]:
  "p_bind p f ts = (case p ts of Inl err \<Rightarrow> Inl err | Inr (a, ts') \<Rightarrow> f a ts')"
  "p_return a ts = Inr (a, ts)"
  "p_punct s (TPunct s # ts) = Inr ((), ts)"
  "p_group d (TGroup d inner # ts) = Inr (inner, ts)"
  "peek_punct s (TPunct s # ts)" "\<not> peek_punct s []" "\<not> peek_punct s (TIdent i # ts)"
  "\<not> peek_punct s (TLitStr i # ts)" "\<not> peek_punct s (TGroup d inner # ts)"
  "peek_paren (TGroup Parenthesis inner # ts)" "\<not> peek_paren []" "\<not> peek_paren (TPunct s # ts)"
  by (simp_all add: parsers)

lemma p_inside_group [parse_simps]:
  "f inner = Inr a \<Longrightarrow> p_inside d f (TGroup d inner # ts) = Inr (a, ts)"
  by (simp add: p_inside_def parse_simps)

lemma p_value_eq [parse_simps]: "p_value p (TPunct ''='' # ts) = p ts"
  by (simp add: p_value_def parse_simps)

lemma p_take_reads:
  "reads len e \<Longrightarrow> rest = [] \<or> peek_punct '','' rest \<Longrightarrow> p_take len (e @ rest) = Inr (e, rest)"
  by (auto simp: p_take_def reads_def)

lemma print_keywords_Cons: "print_keywords (k # kws) = print_keyword k @ print_keywords kws"
  by (simp add: print_keywords_def)

lemma peek_keywords: "print_keywords kws = [] \<or> peek_punct '','' (print_keywords kws)"
proof (cases kws)
  case (Cons k kws')
  then show ?thesis by (cases k) (simp_all add: print_keywords_def parse_simps)
qed (simp add: print_keywords_def)

lemma keyword_args_print:
  assumes "\<forall>e. When e \<in> set kws \<longrightarrow> reads el e"
  shows "keyword_args el guard version (print_keywords kws) = Inr (fold set_keyword kws (guard, version), [])"
  using assms
proof (induction kws arbitrary: guard version)
  case Nil
  then show ?case by (subst keyword_args.simps) (simp add: print_keywords_def parse_simps)
next
  case (Cons k kws)
  have IH: "keyword_args el g v (print_keywords kws) = Inr (fold set_keyword kws (g, v), [])" for g v
    using Cons by simp
  show ?case
  proof (cases k)
    case (When e)
    then have "p_take el (e @ print_keywords kws) = Inr (e, print_keywords kws)"
      using Cons.prems peek_keywords by (intro p_take_reads) auto
    then have "keyword_args el guard version (print_keyword (When e) @ print_keywords kws) =
        keyword_args el (Some e) version (print_keywords kws)"
      by (subst keyword_args.simps) (simp add: parse_simps)
    then show ?thesis by (simp only: print_keywords_Cons When IH fold.simps set_keyword.simps comp_def)
  next
    case (Version n)
    have "keyword_args el guard version (print_keyword (Version n) @ print_keywords kws) =
        keyword_args el guard (Some n) (print_keywords kws)"
      by (subst keyword_args.simps) (simp add: parse_simps)
    then show ?thesis by (simp only: print_keywords_Cons Version IH fold.simps set_keyword.simps comp_def)
  qed
qed

lemma field_and_name_print:
  "field_and_name d (print_field field name @ ts) =
     Inr ((case field of None \<Rightarrow> d | Some f \<Rightarrow> f, name), ts)"
  by (auto simp: field_and_name_def print_field_def parse_simps split: option.split)

lemma idents_terminated_print [simp]: "idents_terminated (print_idents ss) = Inr ss"
proof (induction ss rule: print_idents.induct)
  case (3 s t ss)
  then show ?case by simp
qed simp_all

lemma p_event_def_print: "p_event_def (print_event_def d @ ts) = Inr (d, ts)"
  by (cases "ed_method_args d")
    (simp_all add: p_event_def_def print_event_def_def optional_args_def optional_comma_def parse_simps)

lemma print_nonempty [simp]: "print_event_def d \<noteq> []" "print_upcaster u \<noteq> []"
  by (simp_all add: print_event_def_def print_upcaster_def)

lemma event_defs_print: "event_defs (concat (map print_event_def ds)) = Inr ds"
proof (induction ds)
  case (Cons d ds)
  then show ?case by (subst event_defs.simps) (simp add: p_event_def_print)
qed (simp add: event_defs.simps)

lemma p_upcaster_print:
  assumes "reads pl (ud_transform_fn u)"
  shows "p_upcaster pl (print_upcaster u @ ts) = Inr (u, ts)"
proof -
  have "p_take pl (ud_transform_fn u) = Inr (ud_transform_fn u, [])"
    using p_take_reads [OF assms, of "[]"] by simp
  then show ?thesis
    by (simp add: p_upcaster_def p_upcaster_entry_def print_upcaster_def p_all_def optional_comma_def parse_simps)
qed

lemma upcaster_defs_print:
  assumes "\<forall>u \<in> set us. reads pl (ud_transform_fn u)"
  shows "upcaster_defs pl (print_upcasters us) = Inr us"
  using assms
proof (induction us)
  case (Cons u us)
  then show ?case
    by (subst upcaster_defs.simps) (simp add: p_upcaster_print print_upcasters_def)
qed (simp add: upcaster_defs.simps print_upcasters_def)

lemma sourced_keywords_end: "sourced_keywords pl a [] = Inr (a, [])"
  by (subst sourced_keywords.simps) (simp add: parse_simps)

lemma sourced_keywords_print:
  assumes "\<forall>u \<in> set us. reads pl (ud_transform_fn u)"
  shows "sourced_keywords pl a (TPunct '','' # TIdent ''events'' # TPunct ''='' # TLitStr n # ts) =
      sourced_keywords pl (a\<lparr>sa_enum_name := Some n\<rparr>) ts"
    and "sourced_keywords pl a (TPunct '','' # TIdent ''enqueue'' # TGroup Parenthesis [TIdent f] # ts) =
      sourced_keywords pl (a\<lparr>sa_enqueue := Some f\<rparr>) ts"
    and "sourced_keywords pl a (TPunct '','' # TIdent ''upcasters'' # TGroup Parenthesis (print_upcasters us) # ts) =
      sourced_keywords pl (a\<lparr>sa_upcasters := sa_upcasters a @ us\<rparr>) ts"
  by (subst sourced_keywords.simps, simp add: enqueue_field_def p_all_def upcaster_defs_print assms parse_simps)+

lemma aggregate_input_print:
  "\<forall>u \<in> set (ai_upcasters inp). reads pl (ud_transform_fn u) \<Longrightarrow>
     p_all (parse_aggregate_input pl) (print_aggregate_input inp) = Inr inp"
  by (simp add: parse_aggregate_input_def print_aggregate_input_def p_all_def optional_upcasters_def
      event_defs_print upcaster_defs_print parse_simps)

text \<open>
  C37: Macro arguments are read as written.  For expressions and paths that the reader of the
  language ends at a comma: the keywords of \<open>#[digest]\<close> and \<open>#[event]\<close> may come in any order and the
  last of a kind counts; the field name defaults to \<open>entity\<close>; and every \<open>aggregate!\<close> input and
  every list of \<open>#[sourced]\<close> arguments is read back to exactly what was written.
\<close>

theorem macro_arguments_roundtrip:
  assumes "\<forall>e. When e \<in> set kws \<longrightarrow> reads el e"
    and "\<forall>u \<in> set (ai_upcasters inp) \<union> set (sa_upcasters args). reads pl (ud_transform_fn u)"
  shows "p_all (parse_digest_args el) (print_field field name @ print_keywords kws) =
      Inr \<lparr>da_entity_field = (case field of None \<Rightarrow> ''entity'' | Some f \<Rightarrow> f), da_event_name = name,
        da_guard = fst (fold set_keyword kws (None, None)), da_version = snd (fold set_keyword kws (None, None))\<rparr> \<and>
    p_all (parse_event_args el) (TLitStr name # print_keywords kws) =
      Inr \<lparr>ev_event_name = name, ev_guard = fst (fold set_keyword kws (None, None)),
        ev_version = snd (fold set_keyword kws (None, None))\<rparr> \<and>
    p_all (parse_aggregate_input pl) (print_aggregate_input inp) = Inr inp \<and>
    p_all (parse_sourced_args pl) (print_sourced_args args) = Inr args"
proof -
  have "p_all (parse_digest_args el) (print_field field name @ print_keywords kws) =
      Inr \<lparr>da_entity_field = (case field of None \<Rightarrow> ''entity'' | Some f \<Rightarrow> f), da_event_name = name,
        da_guard = fst (fold set_keyword kws (None, None)), da_version = snd (fold set_keyword kws (None, None))\<rparr>"
    by (simp add: parse_digest_args_def p_all_def field_and_name_print keyword_args_print [OF assms(1)]
        parse_simps split_beta)
  moreover have "p_all (parse_event_args el) (TLitStr name # print_keywords kws) =
      Inr \<lparr>ev_event_name = name, ev_guard = fst (fold set_keyword kws (None, None)),
        ev_version = snd (fold set_keyword kws (None, None))\<rparr>"
    by (simp add: parse_event_args_def p_all_def keyword_args_print [OF assms(1)] parse_simps split_beta)
  moreover have "p_all (parse_aggregate_input pl) (print_aggregate_input inp) = Inr inp"
    using assms(2) by (intro aggregate_input_print) simp
  moreover have "p_all (parse_sourced_args pl) (print_sourced_args args) = Inr args"
    using assms(2)
    by (cases args)
      (auto simp: parse_sourced_args_def print_sourced_args_def p_all_def sourced_keywords_print [of "sa_upcasters args"]
        sourced_keywords_print sourced_keywords_end parse_simps split: option.splits)
  ultimately show ?thesis by blast
qed

text \<open>At work: a reader that ends at the first comma, a guard and a version, and one upcaster.\<close>

definition until_comma :: "tt list \<Rightarrow> nat option" where
  "until_comma ts = Some (length (takeWhile (\<lambda>t. t \<noteq> TPunct '','') ts))"

lemma reads_until_comma: "TPunct '','' \<notin> set e \<Longrightarrow> reads until_comma e"
proof -
  assume no_comma: "TPunct '','' \<notin> set e"
  have "takeWhile (\<lambda>t. t \<noteq> TPunct '','') rest = []" if "rest = [] \<or> peek_punct '','' rest" for rest
    using that by (cases rest) (auto simp: peek_punct_def split: tt.splits)
  with no_comma show ?thesis by (auto simp: reads_def until_comma_def takeWhile_append)
qed

lemma macro_arguments_roundtrip_witness:
  "let u = \<lparr>ud_event_name = ''initialized'', ud_from_version = 1, ud_to_version = 2, ud_transform_fn = [TIdent ''up'']\<rparr>;
       d = \<lparr>ed_event_name = ''initialized'', ed_args = [''id'', ''task''], ed_method_name = ''initialize'', ed_method_args = None\<rparr> in
     p_all (parse_digest_args until_comma)
       (print_field None ''completed'' @ print_keywords [Version 2, When [TIdent ''ok''], Version 3]) =
       Inr \<lparr>da_entity_field = ''entity'', da_event_name = ''completed'', da_guard = Some [TIdent ''ok''], da_version = Some 3\<rparr> \<and>
     p_all (parse_aggregate_input until_comma)
       (print_aggregate_input \<lparr>ai_agg_name = ''Todo'', ai_entity_field = ''entity'', ai_events = [d], ai_upcasters = [u]\<rparr>) =
       Inr \<lparr>ai_agg_name = ''Todo'', ai_entity_field = ''entity'', ai_events = [d], ai_upcasters = [u]\<rparr>"
  using macro_arguments_roundtrip [of "[Version 2, When [TIdent ''ok''], Version 3]" until_comma
      "\<lparr>ai_agg_name = ''Todo'', ai_entity_field = ''entity'',
        ai_events = [\<lparr>ed_event_name = ''initialized'', ed_args = [''id'', ''task''], ed_method_name = ''initialize'', ed_method_args = None\<rparr>],
        ai_upcasters = [\<lparr>ud_event_name = ''initialized'', ud_from_version = 1, ud_to_version = 2, ud_transform_fn = [TIdent ''up'']\<rparr>]\<rparr>"
      "\<lparr>sa_entity_field = ''entity'', sa_enum_name = None, sa_enqueue = None, sa_upcasters = []\<rparr>"
      until_comma None "''completed''"]
  by (simp add: reads_until_comma)

end
