(* ===== verification/Emitter.thy ===== *)
theory Emitter
  imports Entity
begin

text \<open>
  The entity with an event emitter (\<open>src/emitter/entity_ext.rs\<close>): local events are queued while
  commands run and handed to listeners after a commit.  The emitter itself is the third-party
  \<open>EventEmitter\<close>: its operations are arguments, and its state of type \<open>'em\<close> is whatever it keeps.
\<close>

record 'em emitter_ops =
  eo_new :: 'em
  eo_on :: "string \<Rightarrow> (string \<Rightarrow> 'em \<Rightarrow> 'em) \<Rightarrow> 'em \<Rightarrow> 'em"
  eo_emit :: "string \<Rightarrow> string \<Rightarrow> 'em \<Rightarrow> 'em"

record 'em entity_emitter =
  ee_entity :: entity
  ee_event_emitter :: 'em
  ee_events_to_emit :: "local_event list"

definition entity_emitter_new :: "'em emitter_ops \<Rightarrow> entity \<Rightarrow> 'em entity_emitter" where
  "entity_emitter_new E e =
     \<lparr>ee_entity = e, ee_event_emitter = eo_new E, ee_events_to_emit = []\<rparr>"

definition entity_emitter_default :: "'em emitter_ops \<Rightarrow> system_time \<Rightarrow> 'em entity_emitter" where
  "entity_emitter_default E now = entity_emitter_new E (entity_new now)"

definition ee_into_entity :: "'em entity_emitter \<Rightarrow> entity" where
  "ee_into_entity x = ee_entity x"

definition ee_is_replaying :: "'em entity_emitter \<Rightarrow> bool" where
  "ee_is_replaying x = en_replaying (ee_entity x)"

definition ee_set_replaying :: "bool \<Rightarrow> 'em entity_emitter \<Rightarrow> 'em entity_emitter" where
  "ee_set_replaying b x = x\<lparr>ee_entity := set_replaying b (ee_entity x)\<rparr>"

definition enqueue :: "string \<Rightarrow> string \<Rightarrow> 'em entity_emitter \<Rightarrow> 'em entity_emitter" where
  "enqueue event_type data x =
     (if en_replaying (ee_entity x) then x
      else x\<lparr>ee_events_to_emit := ee_events_to_emit x @ [\<lparr>le_event_type = event_type, le_data = data\<rparr>]\<rparr>)"

text \<open>\<open>to_json\<close> is the JSON text of the payload, or the failure to write one.\<close>

definition enqueue_with :: "('p \<Rightarrow> string option) \<Rightarrow> string \<Rightarrow> 'p \<Rightarrow> 'em entity_emitter \<Rightarrow> 'em entity_emitter" where
  "enqueue_with to_json event_type payload x =
     (if en_replaying (ee_entity x) then x
      else
        (let data = (case to_json payload of Some text \<Rightarrow> text | None \<Rightarrow> [])
         in x\<lparr>ee_events_to_emit := ee_events_to_emit x @ [\<lparr>le_event_type = event_type, le_data = data\<rparr>]\<rparr>))"

definition drain_queued_events :: "'em entity_emitter \<Rightarrow> local_event list \<times> 'em entity_emitter" where
  "drain_queued_events x = (ee_events_to_emit x, x\<lparr>ee_events_to_emit := []\<rparr>)"

definition ee_on :: "'em emitter_ops \<Rightarrow> string \<Rightarrow> (string \<Rightarrow> 'em \<Rightarrow> 'em) \<Rightarrow> 'em entity_emitter \<Rightarrow> 'em entity_emitter" where
  "ee_on E event listener x = x\<lparr>ee_event_emitter := eo_on E event listener (ee_event_emitter x)\<rparr>"

definition ee_emit :: "'em emitter_ops \<Rightarrow> string \<Rightarrow> string \<Rightarrow> 'em entity_emitter \<Rightarrow> 'em entity_emitter" where
  "ee_emit E event data x = x\<lparr>ee_event_emitter := eo_emit E event data (ee_event_emitter x)\<rparr>"

definition emit_queued :: "'em emitter_ops \<Rightarrow> 'em entity_emitter \<Rightarrow> 'em entity_emitter" where
  "emit_queued E x =
     (case drain_queued_events x of (events, x') \<Rightarrow>
        fold (\<lambda>e. ee_emit E (le_event_type e) (le_data e)) events x')"

definition queued_len :: "'em entity_emitter \<Rightarrow> nat" where
  "queued_len x = length (ee_events_to_emit x)"

definition with_emitter :: "'em emitter_ops \<Rightarrow> entity \<Rightarrow> 'em entity_emitter" where
  "with_emitter E e = entity_emitter_new E e"

section \<open>What reaches the listeners\<close>

lemma fold_ee_emit:
  "fold (\<lambda>e. ee_emit E (le_event_type e) (le_data e)) events x =
     x\<lparr>ee_event_emitter :=
         fold (\<lambda>e. eo_emit E (le_event_type e) (le_data e)) events (ee_event_emitter x)\<rparr>"
  by (induction events arbitrary: x) (simp_all add: ee_emit_def)

lemma emit_queued_simps:
  "emit_queued E x = x\<lparr>ee_events_to_emit := [],
     ee_event_emitter := fold (\<lambda>e. eo_emit E (le_event_type e) (le_data e)) (ee_events_to_emit x) (ee_event_emitter x)\<rparr>"
  by (simp add: emit_queued_def drain_queued_events_def fold_ee_emit)

text \<open>The commands of a program that uses the queue; \<open>EC_Replay\<close> sets the flag of the entity.\<close>

datatype emitter_cmd =
    EC_Enqueue string string
  | EC_Emit_Queued
  | EC_Drain
  | EC_Replay bool

fun emitter_exec :: "'em emitter_ops \<Rightarrow> emitter_cmd \<Rightarrow> 'em entity_emitter \<Rightarrow> 'em entity_emitter" where
  "emitter_exec E (EC_Enqueue t d) x = enqueue t d x"
| "emitter_exec E EC_Emit_Queued x = emit_queued E x"
| "emitter_exec E EC_Drain x = snd (drain_queued_events x)"
| "emitter_exec E (EC_Replay b) x = ee_set_replaying b x"

text \<open>The events that were queued, in order, outside a replay.\<close>

fun queued_by :: "bool \<Rightarrow> emitter_cmd list \<Rightarrow> local_event list" where
  "queued_by replaying [] = []"
| "queued_by replaying (EC_Enqueue t d # cs) =
     (if replaying then [] else [\<lparr>le_event_type = t, le_data = d\<rparr>]) @ queued_by replaying cs"
| "queued_by replaying (EC_Replay b # cs) = queued_by b cs"
| "queued_by replaying (c # cs) = queued_by replaying cs"

text \<open>
  Local events.  Without draining by hand, the events handed to the emitter followed by
  those still queued are exactly the events enqueued outside a replay, in the order enqueued:
  none is emitted twice, none is lost, and a replay queues none.
\<close>

theorem emitted_once_in_order:
  assumes "EC_Drain \<notin> set cs" and "ee_events_to_emit x = []"
  shows "\<exists>emitted. queued_by (en_replaying (ee_entity x)) cs =
      emitted @ ee_events_to_emit (fold (emitter_exec E) cs x) \<and>
    ee_event_emitter (fold (emitter_exec E) cs x) =
      fold (\<lambda>e. eo_emit E (le_event_type e) (le_data e)) emitted (ee_event_emitter x)"
proof -
  have "\<exists>emitted. ee_events_to_emit x @ queued_by (en_replaying (ee_entity x)) cs =
      emitted @ ee_events_to_emit (fold (emitter_exec E) cs x) \<and>
    ee_event_emitter (fold (emitter_exec E) cs x) =
      fold (\<lambda>e. eo_emit E (le_event_type e) (le_data e)) emitted (ee_event_emitter x)" for x
    using assms(1)
  proof (induction cs arbitrary: x)
    case (Cons c cs)
    then have ih: "\<exists>emitted. ee_events_to_emit y @ queued_by (en_replaying (ee_entity y)) cs =
        emitted @ ee_events_to_emit (fold (emitter_exec E) cs y) \<and>
      ee_event_emitter (fold (emitter_exec E) cs y) =
        fold (\<lambda>e. eo_emit E (le_event_type e) (le_data e)) emitted (ee_event_emitter y)" for y
      by simp
    show ?case
    proof (cases c)
      case (EC_Enqueue t d)
      with ih [of "enqueue t d x"] show ?thesis by (simp add: enqueue_def split: if_splits)
    next
      case EC_Emit_Queued
      from ih [of "emit_queued E x"] obtain emitted where
        "queued_by (en_replaying (ee_entity x)) cs = emitted @ ee_events_to_emit (fold (emitter_exec E) cs (emit_queued E x))"
        "ee_event_emitter (fold (emitter_exec E) cs (emit_queued E x)) =
          fold (\<lambda>e. eo_emit E (le_event_type e) (le_data e)) (ee_events_to_emit x @ emitted) (ee_event_emitter x)"
        by (auto simp: emit_queued_simps)
      with EC_Emit_Queued show ?thesis by (intro exI [of _ "ee_events_to_emit x @ emitted"]) simp
    next
      case (EC_Replay b)
      with ih [of "ee_set_replaying b x"] show ?thesis by (simp add: ee_set_replaying_def set_replaying_def)
    qed (use Cons.prems in simp)
  qed simp
  from this [of x] assms(2) show ?thesis by simp
qed

theorem emitted_once_in_order_witness:
  "let E = \<lparr>eo_new = [], eo_on = (\<lambda>event listener em. em), eo_emit = (\<lambda>event data em. em @ [event])\<rparr>;
       cs = [EC_Enqueue ''A'' ''1'', EC_Emit_Queued, EC_Replay True, EC_Enqueue ''B'' ''2'',
             EC_Replay False, EC_Enqueue ''C'' ''3''];
       x = fold (emitter_exec E) cs (entity_emitter_default E 0)
   in ee_event_emitter x = [''A''] \<and> map le_event_type (ee_events_to_emit x) = [''C''] \<and>
      (\<exists>emitted. queued_by False cs = emitted @ ee_events_to_emit x)"
proof -
  let ?E = "\<lparr>eo_new = [], eo_on = (\<lambda>event listener em. em), eo_emit = (\<lambda>event data em. em @ [event])\<rparr>"
  let ?cs = "[EC_Enqueue ''A'' ''1'', EC_Emit_Queued, EC_Replay True, EC_Enqueue ''B'' ''2'',
             EC_Replay False, EC_Enqueue ''C'' ''3'']"
  let ?x = "entity_emitter_default ?E 0"
  have x: "en_replaying (ee_entity ?x) = False" "ee_events_to_emit ?x = []" "ee_event_emitter ?x = []"
    by (simp_all add: entity_emitter_default_def entity_emitter_new_def entity_new_def entity_default_def)
  have "ee_event_emitter (fold (emitter_exec ?E) ?cs ?x) = [''A'']"
    "map le_event_type (ee_events_to_emit (fold (emitter_exec ?E) ?cs ?x)) = [''C'']"
    using x by (simp_all add: enqueue_def emit_queued_simps ee_set_replaying_def set_replaying_def)
  with emitted_once_in_order [of ?cs ?x ?E] x show ?thesis by (simp add: Let_def) blast
qed

end
