(* ===== verification/Macros.thy ===== *)
theory Macros
  imports Macro_Syntax Emitter Aggregate
begin

text \<open>
  The attribute macros \<open>digest\<close>, \<open>enqueue\<close>, \<open>sourced\<close> and the macro \<open>aggregate!\<close>
  (\<open>sourced_rust_macros/src/lib.rs\<close>): what they expand to, and what the generated code does.
  The written statements and guards, the types and the codecs of a user's program are fields of
  a \<open>host\<close>; the value a method returns is not modelled.
\<close>

section \<open>Methods\<close>

type_synonym ty = "tt list"

datatype pat = Pat_Ident string | Pat_Other "tt list"

datatype fn_arg = Receiver | Typed pat ty

text \<open>\<open>Args names c\<close> is the parenthesised list of names, each with \<open>.clone()\<close>; \<open>c\<close> is a comma at its end.\<close>

datatype arg_tuple = Args "string list" bool

datatype stmt =
    S_Digest string string arg_tuple
  | S_Digest_V string string u64 arg_tuple
  | S_Digest_Empty string string
  | S_Enqueue string string string
  | S_Enqueue_With string string arg_tuple
  | S_Unless_Replaying string "stmt list"
  | S_If "tt list" "stmt list"
  | S_Written "tt list"

record attribute =
  at_path :: string
  at_args :: "tt list option"

record method_fn =
  mf_attrs :: "attribute list"
  mf_ident :: string
  mf_inputs :: "fn_arg list"
  mf_block :: "stmt list"

definition extract_param_names :: "fn_arg list \<Rightarrow> string list" where
  "extract_param_names inputs =
     List.map_filter (\<lambda>arg. case arg of Typed (Pat_Ident name) ty \<Rightarrow> Some name | _ \<Rightarrow> None) inputs"

definition extract_params_with_types :: "fn_arg list \<Rightarrow> (string \<times> ty) list" where
  "extract_params_with_types inputs =
     List.map_filter (\<lambda>arg. case arg of Typed (Pat_Ident name) ty \<Rightarrow> Some (name, ty) | _ \<Rightarrow> None) inputs"

section \<open>Generated statements\<close>

definition generate_digest_call :: "string \<Rightarrow> string \<Rightarrow> string list \<Rightarrow> u64 option \<Rightarrow> stmt" where
  "generate_digest_call entity_field event_name param_names version =
     (case version of
        Some ver \<Rightarrow>
          (if param_names = [] then S_Digest_V entity_field event_name ver (Args [] False)
           else if length param_names = 1 then S_Digest_V entity_field event_name ver (Args [hd param_names] True)
           else S_Digest_V entity_field event_name ver (Args param_names False))
      | None \<Rightarrow>
          (if param_names = [] then S_Digest_Empty entity_field event_name
           else if length param_names = 1 then S_Digest entity_field event_name (Args [hd param_names] True)
           else S_Digest entity_field event_name (Args param_names False)))"

definition wrap_body_with_guard :: "tt list option \<Rightarrow> stmt list \<Rightarrow> stmt list \<Rightarrow> stmt list" where
  "wrap_body_with_guard guard prepend original_stmts =
     (case guard of
        Some cond \<Rightarrow> [S_If cond (prepend @ original_stmts)]
      | None \<Rightarrow> prepend @ original_stmts)"

definition generate_enqueue_call :: "string \<Rightarrow> string \<Rightarrow> string \<Rightarrow> string list \<Rightarrow> stmt" where
  "generate_enqueue_call entity_field emitter_field event_name param_names =
     (let enqueue_expr =
        (if param_names = [] then S_Enqueue emitter_field event_name []
         else if length param_names = 1 then S_Enqueue_With emitter_field event_name (Args [hd param_names] True)
         else S_Enqueue_With emitter_field event_name (Args param_names False))
      in S_Unless_Replaying entity_field [enqueue_expr])"

section \<open>\<open>#[digest]\<close> and \<open>#[enqueue]\<close>\<close>

definition expand_digest :: "(tt list \<Rightarrow> nat option) \<Rightarrow> tt list \<Rightarrow> method_fn \<Rightarrow> string + method_fn" where
  "expand_digest el attr func =
     (case p_all (parse_digest_args el) attr of
        Inl err \<Rightarrow> Inl err
      | Inr args \<Rightarrow>
          (let param_names = extract_param_names (mf_inputs func);
               digest_call = generate_digest_call (da_entity_field args) (da_event_name args)
                 param_names (da_version args)
           in Inr (func\<lparr>mf_block := wrap_body_with_guard (da_guard args) [digest_call] (mf_block func)\<rparr>)))"

definition expand_enqueue :: "(tt list \<Rightarrow> nat option) \<Rightarrow> tt list \<Rightarrow> method_fn \<Rightarrow> string + method_fn" where
  "expand_enqueue el attr func =
     (case p_all (parse_enqueue_args el) attr of
        Inl err \<Rightarrow> Inl err
      | Inr args \<Rightarrow>
          (let emitter_field = ea_emitter_field args; event_name = ea_event_name args;
               param_names = extract_param_names (mf_inputs func);
               enqueue_call =
                 (if param_names = [] then
                    S_Unless_Replaying (ea_entity_field args) [S_Enqueue emitter_field event_name []]
                  else if length param_names = 1 then
                    S_Unless_Replaying (ea_entity_field args)
                      [S_Enqueue_With emitter_field event_name (Args [hd param_names] True)]
                  else
                    S_Unless_Replaying (ea_entity_field args)
                      [S_Enqueue_With emitter_field event_name (Args param_names False)]);
               new_body =
                 (case ea_guard args of
                    Some cond \<Rightarrow> [S_If cond (enqueue_call # mf_block func)]
                  | None \<Rightarrow> enqueue_call # mf_block func)
           in Inr (func\<lparr>mf_block := new_body\<rparr>)))"

section \<open>\<open>aggregate!\<close>\<close>

text \<open>An arm of \<open>replay_event\<close>: the decoded names, the method, and the names it is called with.\<close>

datatype replay_arm =
    Arm_Call string string
  | Arm_Decode string "string list" string "string list"

fun arm_event :: "replay_arm \<Rightarrow> string" where
  "arm_event (Arm_Call event_name m) = event_name"
| "arm_event (Arm_Decode event_name args m call_args) = event_name"

text \<open>\<open>&call_args[0]\<close> is in bounds: the arm before it takes the empty list.\<close>

definition aggregate_arm :: "event_def \<Rightarrow> replay_arm" where
  "aggregate_arm evt =
     (let args = ed_args evt;
          call_args = (case ed_method_args evt of Some method_args \<Rightarrow> method_args | None \<Rightarrow> args)
      in if args = [] then Arm_Call (ed_event_name evt) (ed_method_name evt)
         else if call_args = [] then Arm_Call (ed_event_name evt) (ed_method_name evt)
         else if length args = 1
         then Arm_Decode (ed_event_name evt) [hd args] (ed_method_name evt) [hd call_args]
         else Arm_Decode (ed_event_name evt) args (ed_method_name evt) call_args)"

text \<open>The generated implementation of \<open>Aggregate\<close>.\<close>

record aggregate_impl =
  gi_struct :: string
  gi_entity_field :: string
  gi_replay_arms :: "replay_arm list"
  gi_upcasters :: "upcaster_def list"

definition expand_aggregate :: "(tt list \<Rightarrow> nat option) \<Rightarrow> tt list \<Rightarrow> string + aggregate_impl" where
  "expand_aggregate pl input =
     (case p_all (parse_aggregate_input pl) input of
        Inl err \<Rightarrow> Inl err
      | Inr inp \<Rightarrow>
          Inr \<lparr>gi_struct = ai_agg_name inp, gi_entity_field = ai_entity_field inp,
            gi_replay_arms = map aggregate_arm (ai_events inp), gi_upcasters = ai_upcasters inp\<rparr>)"

section \<open>\<open>#[sourced]\<close>\<close>

definition find_and_remove_event_attr ::
    "(tt list \<Rightarrow> nat option) \<Rightarrow> attribute list \<Rightarrow> (string + event_attr option) \<times> attribute list" where
  "find_and_remove_event_attr el attrs =
     (let other = (\<lambda>a. at_path a \<noteq> ''event'') in
      case dropWhile other attrs of
        attr # rest \<Rightarrow>
          (let attrs' = takeWhile other attrs @ rest in
           case at_args attr of
             None \<Rightarrow> (Inl ''expected attribute arguments'', attrs')
           | Some tokens \<Rightarrow>
               (case p_all (parse_event_args el) tokens of
                  Inl err \<Rightarrow> (Inl err, attrs')
                | Inr event_attr \<Rightarrow> (Inr (Some event_attr), attrs')))
      | [] \<Rightarrow> (Inr None, attrs))"

record event_method_info =
  em_event_name :: string
  em_method_name :: string
  em_params :: "(string \<times> ty) list"

datatype impl_item = Item_Fn method_fn | Item_Other "tt list"

datatype self_type = Type_Path "string list" | Type_Other "tt list"

record impl_block =
  ib_self_ty :: self_type
  ib_items :: "impl_item list"

text \<open>The step of the loop for one method.\<close>

definition expand_event_method ::
    "sourced_args \<Rightarrow> event_attr \<Rightarrow> method_fn \<Rightarrow> method_fn \<times> event_method_info" where
  "expand_event_method args event_attr func =
     (let params = extract_params_with_types (mf_inputs func);
          param_names = map fst params;
          enqueue_call = (case sa_enqueue args of
              Some emitter_field \<Rightarrow>
                [generate_enqueue_call (sa_entity_field args) emitter_field (ev_event_name event_attr) param_names]
            | None \<Rightarrow> []);
          digest_call = generate_digest_call (sa_entity_field args) (ev_event_name event_attr)
            param_names (ev_version event_attr);
          new_body = wrap_body_with_guard (ev_guard event_attr) (enqueue_call @ [digest_call]) (mf_block func)
      in (func\<lparr>mf_block := new_body\<rparr>,
          \<lparr>em_event_name = ev_event_name event_attr, em_method_name = mf_ident func, em_params = params\<rparr>))"

fun sourced_items ::
    "(tt list \<Rightarrow> nat option) \<Rightarrow> sourced_args \<Rightarrow> impl_item list \<Rightarrow>
     string + impl_item list \<times> event_method_info list" where
  "sourced_items el args [] = Inr ([], [])"
| "sourced_items el args (Item_Other ts # items) =
     (case sourced_items el args items of
        Inl err \<Rightarrow> Inl err
      | Inr (items', infos) \<Rightarrow> Inr (Item_Other ts # items', infos))"
| "sourced_items el args (Item_Fn func # items) =
     (case find_and_remove_event_attr el (mf_attrs func) of
        (Inl err, _) \<Rightarrow> Inl err
      | (Inr found, attrs') \<Rightarrow>
          (case sourced_items el args items of
             Inl err \<Rightarrow> Inl err
           | Inr (items', infos) \<Rightarrow>
               (case found of
                  Some event_attr \<Rightarrow>
                    (case expand_event_method args event_attr (func\<lparr>mf_attrs := attrs'\<rparr>) of
                       (func', info) \<Rightarrow> Inr (Item_Fn func' # items', info # infos))
                | None \<Rightarrow> Inr (Item_Fn (func\<lparr>mf_attrs := attrs'\<rparr>) # items', infos))))"

text \<open>A variant of the event enum, with its fields; the unit variant has none.\<close>

type_synonym enum_variant = "string \<times> (string \<times> ty) list"

definition enum_variants :: "event_method_info list \<Rightarrow> enum_variant list" where
  "enum_variants infos = map (\<lambda>e. (em_event_name e, em_params e)) infos"

text \<open>An arm of \<open>event_name\<close>: the variant it matches and the literal it gives.\<close>

definition event_name_arms :: "event_method_info list \<Rightarrow> (string \<times> string) list" where
  "event_name_arms infos = map (\<lambda>e. (em_event_name e, em_event_name e)) infos"

datatype try_from_arm =
    Try_Unit string string
  | Try_Decode string "string list" string

fun try_event :: "try_from_arm \<Rightarrow> string" where
  "try_event (Try_Unit event_name v) = event_name"
| "try_event (Try_Decode event_name names v) = event_name"

definition try_from_arm_of :: "event_method_info \<Rightarrow> try_from_arm" where
  "try_from_arm_of e =
     (if em_params e = [] then Try_Unit (em_event_name e) (em_event_name e)
      else if length (em_params e) = 1
      then Try_Decode (em_event_name e) [fst (hd (em_params e))] (em_event_name e)
      else Try_Decode (em_event_name e) (map fst (em_params e)) (em_event_name e))"

definition sourced_arm :: "event_method_info \<Rightarrow> replay_arm" where
  "sourced_arm e =
     (if em_params e = [] then Arm_Call (em_event_name e) (em_method_name e)
      else if length (em_params e) = 1
      then Arm_Decode (em_event_name e) [fst (hd (em_params e))] (em_method_name e) [fst (hd (em_params e))]
      else Arm_Decode (em_event_name e) (map fst (em_params e)) (em_method_name e) (map fst (em_params e)))"

record sourced_output =
  so_impl :: impl_block
  so_enum_name :: string
  so_variants :: "enum_variant list"
  so_event_names :: "(string \<times> string) list"
  so_try_from :: "try_from_arm list"
  so_aggregate :: aggregate_impl

definition struct_name_of :: "self_type \<Rightarrow> string option" where
  "struct_name_of t =
     (case t of
        Type_Path segments \<Rightarrow> (if segments = [] then None else Some (last segments))
      | Type_Other ts \<Rightarrow> None)"

text \<open>
  \<open>format_ident!\<close> panics on a text that is no identifier, which fails the compilation:
  \<open>ident_ok\<close> is the library's test.
\<close>

definition expand_sourced ::
    "(tt list \<Rightarrow> nat option) \<Rightarrow> (tt list \<Rightarrow> nat option) \<Rightarrow> (string \<Rightarrow> bool) \<Rightarrow>
     tt list \<Rightarrow> impl_block \<Rightarrow> string + sourced_output" where
  "expand_sourced el pl ident_ok attr block =
     (case p_all (parse_sourced_args pl) attr of
        Inl err \<Rightarrow> Inl err
      | Inr args \<Rightarrow>
     (case struct_name_of (ib_self_ty block) of
        None \<Rightarrow> Inl ''#[sourced] requires a named type''
      | Some struct_name \<Rightarrow>
     (case sourced_items el args (ib_items block) of
        Inl err \<Rightarrow> Inl err
      | Inr (items, infos) \<Rightarrow>
          (let enum_name = (case sa_enum_name args of Some custom \<Rightarrow> custom | None \<Rightarrow> struct_name @ ''Event'')
           in if \<not> list_all ident_ok (enum_name # map em_event_name infos)
              then Inl ''not a valid identifier''
              else Inr \<lparr>so_impl = block\<lparr>ib_items := items\<rparr>, so_enum_name = enum_name,
                so_variants = enum_variants infos, so_event_names = event_name_arms infos,
                so_try_from = map try_from_arm_of infos,
                so_aggregate = \<lparr>gi_struct = struct_name, gi_entity_field = sa_entity_field args,
                  gi_replay_arms = map sourced_arm infos, gi_upcasters = sa_upcasters args\<rparr>\<rparr>))))"

section \<open>Running the generated code\<close>

text \<open>\<open>Whole v\<close> is a value that is no tuple written by the macros.\<close>

datatype 'v payload = Whole 'v | Tuple "'v list"

type_synonym 'v env = "(pat \<times> 'v) list"

text \<open>
  The program a macro is used in: fields of the struct by name; a condition and a written
  statement with the arguments in scope (\<open>None\<close> is a panic); bitcode for the argument tuples
  (decoding at given types) and JSON.
\<close>

record ('a, 'v, 'em) host =
  ho_entity :: "string \<Rightarrow> 'a \<Rightarrow> entity"
  ho_set_entity :: "string \<Rightarrow> entity \<Rightarrow> 'a \<Rightarrow> 'a"
  ho_emitter :: "string \<Rightarrow> 'a \<Rightarrow> 'em entity_emitter"
  ho_set_emitter :: "string \<Rightarrow> 'em entity_emitter \<Rightarrow> 'a \<Rightarrow> 'a"
  ho_cond :: "tt list \<Rightarrow> 'v env \<Rightarrow> 'a \<Rightarrow> bool option"
  ho_stmt :: "tt list \<Rightarrow> 'v env \<Rightarrow> 'a \<Rightarrow> 'a option"
  ho_encode :: "'v payload \<Rightarrow> bytes option"
  ho_decode :: "ty list \<Rightarrow> bytes \<Rightarrow> string + 'v list"
  ho_json :: "'v payload \<Rightarrow> string option"
  ho_transform :: "tt list \<Rightarrow> bytes \<Rightarrow> bytes"

definition env_values :: "'v env \<Rightarrow> string list \<Rightarrow> 'v list" where
  "env_values env names = List.map_filter (\<lambda>n. map_of env (Pat_Ident n)) names"

fun eval_args :: "'v env \<Rightarrow> arg_tuple \<Rightarrow> 'v payload" where
  "eval_args env (Args names comma) =
     (case env_values env names of
        [v] \<Rightarrow> (if comma then Tuple [v] else Whole v)
      | vs \<Rightarrow> Tuple vs)"

fun exec :: "('a, 'v, 'em) host \<Rightarrow> system_time \<Rightarrow> 'v env \<Rightarrow> stmt \<Rightarrow> 'a \<Rightarrow> 'a option"
  and exec_block :: "('a, 'v, 'em) host \<Rightarrow> system_time \<Rightarrow> 'v env \<Rightarrow> stmt list \<Rightarrow> 'a \<Rightarrow> 'a option" where
  "exec H now env (S_Digest f event_name args) a =
     map_option (\<lambda>e. ho_set_entity H f e a)
       (digest (ho_encode H) now event_name (eval_args env args) (ho_entity H f a))"
| "exec H now env (S_Digest_V f event_name version args) a =
     map_option (\<lambda>e. ho_set_entity H f e a)
       (digest_v (ho_encode H) now event_name version (eval_args env args) (ho_entity H f a))"
| "exec H now env (S_Digest_Empty f event_name) a =
     map_option (\<lambda>e. ho_set_entity H f e a)
       (digest_empty (\<lambda>_. ho_encode H (Tuple [])) now event_name (ho_entity H f a))"
| "exec H now env (S_Enqueue f event_name data) a =
     Some (ho_set_emitter H f (enqueue event_name data (ho_emitter H f a)) a)"
| "exec H now env (S_Enqueue_With f event_name args) a =
     Some (ho_set_emitter H f (enqueue_with (ho_json H) event_name (eval_args env args) (ho_emitter H f a)) a)"
| "exec H now env (S_Unless_Replaying f body) a =
     (if \<not> en_replaying (ho_entity H f a) then exec_block H now env body a else Some a)"
| "exec H now env (S_If cond body) a =
     (case ho_cond H cond env a of
        None \<Rightarrow> None
      | Some c \<Rightarrow> (if c then exec_block H now env body a else Some a))"
| "exec H now env (S_Written s) a = ho_stmt H s env a"
| "exec_block H now env [] a = Some a"
| "exec_block H now env (s # ss) a = Option.bind (exec H now env s a) (exec_block H now env ss)"

fun typed_inputs :: "fn_arg list \<Rightarrow> (pat \<times> ty) list" where
  "typed_inputs [] = []"
| "typed_inputs (Receiver # inputs) = typed_inputs inputs"
| "typed_inputs (Typed p ty # inputs) = (p, ty) # typed_inputs inputs"

definition call_method ::
    "('a, 'v, 'em) host \<Rightarrow> system_time \<Rightarrow> method_fn \<Rightarrow> 'v list \<Rightarrow> 'a \<Rightarrow> 'a option" where
  "call_method H now func vs =
     exec_block H now (zip (map fst (typed_inputs (mf_inputs func))) vs) (mf_block func)"

definition method_named :: "impl_item list \<Rightarrow> string \<Rightarrow> method_fn option" where
  "method_named items name =
     find (\<lambda>func. mf_ident func = name)
       (List.map_filter (\<lambda>item. case item of Item_Fn func \<Rightarrow> Some func | Item_Other ts \<Rightarrow> None) items)"

text \<open>
  An arm calls a method of the type by name (one that is missing does not compile).  The decoded
  names have the types of the parameters they are passed to.
\<close>

definition infer_types :: "method_fn \<Rightarrow> string list \<Rightarrow> string list \<Rightarrow> ty list" where
  "infer_types func call_args names =
     List.map_filter (map_of (zip call_args (map snd (typed_inputs (mf_inputs func))))) names"

definition run_arm ::
    "('a, 'v, 'em) host \<Rightarrow> system_time \<Rightarrow> impl_item list \<Rightarrow> replay_arm \<Rightarrow> event_record \<Rightarrow> ('a, string, unit) call" where
  "run_arm H now items arm ev =
     (case arm of
        Arm_Call event_name m \<Rightarrow>
          (case method_named items m of
             None \<Rightarrow> run_method (\<lambda>_. None)
           | Some func \<Rightarrow> run_method (call_method H now func []))
      | Arm_Decode event_name names m call_args \<Rightarrow>
          (case method_named items m of
             None \<Rightarrow> run_method (\<lambda>_. None)
           | Some func \<Rightarrow>
               decode_then (ho_decode H (infer_types func call_args names))
                 (\<lambda>vs. call_method H now func (env_values (zip (map Pat_Ident names) vs) call_args)) ev))"

definition replay_event ::
    "('a, 'v, 'em) host \<Rightarrow> system_time \<Rightarrow> impl_item list \<Rightarrow> aggregate_impl \<Rightarrow> event_record \<Rightarrow> ('a, string, unit) call" where
  "replay_event H now items impl ev =
     (case find (\<lambda>arm. arm_event arm = er_event_name ev) (gi_replay_arms impl) of
        Some arm \<Rightarrow> run_arm H now items arm ev
      | None \<Rightarrow> (\<lambda>a. (Err (''Unknown event: '' @ er_event_name ev), a)))"

text \<open>The upcasters of the implementation; without the method, the default gives none.\<close>

definition generated_upcasters :: "('a, 'v, 'em) host \<Rightarrow> aggregate_impl \<Rightarrow> event_upcaster list" where
  "generated_upcasters H impl =
     (if gi_upcasters impl = [] then []
      else map (\<lambda>u. \<lparr>up_event_type = ud_event_name u, up_from_version = ud_from_version u,
             up_to_version = ud_to_version u, up_transform = ho_transform H (ud_transform_fn u)\<rparr>)
           (gi_upcasters impl))"

definition generated_aggregate ::
    "('a, 'v, 'em) host \<Rightarrow> system_time \<Rightarrow> 'a \<Rightarrow> impl_item list \<Rightarrow> aggregate_impl \<Rightarrow> 'a aggregate" where
  "generated_aggregate H now new_empty items impl =
     \<lparr>ag_new_empty = new_empty, ag_entity = ho_entity H (gi_entity_field impl),
      ag_set_entity = ho_set_entity H (gi_entity_field impl),
      ag_replay = replay_event H now items impl, ag_upcasters = generated_upcasters H impl\<rparr>"

text \<open>A value of the event enum: its variant, and its fields by name.\<close>

type_synonym 'v event_value = "string \<times> (string \<times> 'v) list"

definition run_try_arm ::
    "('a, 'v, 'em) host \<Rightarrow> enum_variant list \<Rightarrow> try_from_arm \<Rightarrow> event_record \<Rightarrow> (string, 'v event_value) outcome" where
  "run_try_arm H variants arm ev =
     (case arm of
        Try_Unit event_name v \<Rightarrow> Ok (v, [])
      | Try_Decode event_name names v \<Rightarrow>
          (let fields = (case map_of variants v of Some fs \<Rightarrow> fs | None \<Rightarrow> []) in
           map_ok (\<lambda>vs. (v, zip names vs))
             (map_err payload_error_display
                (event_record_decode (ho_decode H (List.map_filter (map_of fields) names)) ev))))"

definition try_from_event ::
    "('a, 'v, 'em) host \<Rightarrow> sourced_output \<Rightarrow> event_record \<Rightarrow> (string, 'v event_value) outcome" where
  "try_from_event H out ev =
     (case find (\<lambda>arm. try_event arm = er_event_name ev) (so_try_from out) of
        Some arm \<Rightarrow> run_try_arm H (so_variants out) arm ev
      | None \<Rightarrow> Err (''Unknown event: '' @ er_event_name ev))"

definition event_value_name :: "sourced_output \<Rightarrow> 'v event_value \<Rightarrow> string option" where
  "event_value_name out v = map_of (so_event_names out) (fst v)"

end
