(* ===== verification/Sourced.thy ===== *)
theory Sourced
  imports Macros Snapshot
begin

text \<open>
  How the expansion of \<open>#[sourced]\<close> runs: the effect of a method with \<open>#[event]\<close>, where the expanded
  methods come from, and that the replay of the recorded events follows the calls.  The laws of
  the user's program are the locales \<open>macro_host\<close> and \<open>typed_host\<close>.
\<close>

section \<open>Parameters\<close>

text \<open>All parameters are plain names.\<close>

definition named_params :: "method_fn \<Rightarrow> bool" where
  "named_params func \<longleftrightarrow>
     map fst (typed_inputs (mf_inputs func)) = map Pat_Ident (extract_param_names (mf_inputs func)) \<and>
     distinct (extract_param_names (mf_inputs func))"

lemma extract_params_simps [simp]:
  "extract_param_names [] = []"
  "extract_param_names (Receiver # inputs) = extract_param_names inputs"
  "extract_param_names (Typed (Pat_Ident n) ty # inputs) = n # extract_param_names inputs"
  "extract_param_names (Typed (Pat_Other ts) ty # inputs) = extract_param_names inputs"
  "extract_params_with_types [] = []"
  "extract_params_with_types (Receiver # inputs) = extract_params_with_types inputs"
  "extract_params_with_types (Typed (Pat_Ident n) ty # inputs) = (n, ty) # extract_params_with_types inputs"
  "extract_params_with_types (Typed (Pat_Other ts) ty # inputs) = extract_params_with_types inputs"
  by (simp_all add: extract_param_names_def extract_params_with_types_def List.map_filter_simps)

lemma param_names_with_types: "map fst (extract_params_with_types inputs) = extract_param_names inputs"
proof (induction inputs)
  case (Cons arg inputs)
  show ?case
  proof (cases arg)
    case (Typed p ty)
    with Cons show ?thesis by (cases p) simp_all
  qed (use Cons in simp)
qed simp

lemma extract_names_le: "length (extract_param_names inputs) \<le> length (typed_inputs inputs)"
proof (induction inputs)
  case (Cons arg inputs)
  show ?case
  proof (cases arg)
    case (Typed p ty)
    with Cons show ?thesis by (cases p) simp_all
  qed (use Cons in simp)
qed simp

lemma extract_names_typed:
  "map fst (typed_inputs inputs) = map Pat_Ident (extract_param_names inputs) \<Longrightarrow>
     map snd (typed_inputs inputs) = map snd (extract_params_with_types inputs)"
proof (induction inputs)
  case (Cons arg inputs)
  show ?case
  proof (cases arg)
    case (Typed p ty)
    show ?thesis
    proof (cases p)
      case (Pat_Other ts)
      from extract_names_le [of inputs] arg_cong [OF Cons.prems, of length] Typed Pat_Other show ?thesis by simp
    qed (use Cons Typed in simp)
  qed (use Cons in simp)
qed simp

definition method_env :: "method_fn \<Rightarrow> 'v list \<Rightarrow> 'v env" where
  "method_env func vs = zip (map fst (typed_inputs (mf_inputs func))) vs"

lemma find_distinct:
  "x \<in> set xs \<Longrightarrow> distinct (map key xs) \<Longrightarrow> find (\<lambda>y. key y = key x) xs = Some x"
  by (induction xs) force+

lemma map_filter_zip:
  assumes "length vs = length ks" and "distinct ks" and "inj h"
  shows "List.map_filter (\<lambda>k. map_of (zip (map h ks) vs) (h k)) ks = vs"
  using assms
proof (induction vs ks rule: list_induct2)
  case (Cons v vs k ks)
  have "List.map_filter (\<lambda>k'. map_of ((h k, v) # env) (h k')) ms = List.map_filter (\<lambda>k'. map_of env (h k')) ms"
    if "k \<notin> set ms" for ms env
    using that Cons.prems(2)
    by (induction ms) (auto simp: List.map_filter_simps inj_eq split: option.split)
  with Cons show ?case by (simp add: List.map_filter_simps)
qed (simp add: List.map_filter_simps)

lemma env_values_zip:
  "distinct names \<Longrightarrow> length vs = length names \<Longrightarrow> env_values (zip (map Pat_Ident names) vs) names = vs"
  unfolding env_values_def by (rule map_filter_zip) (auto simp: inj_def)

text \<open>The three shapes of the generated argument tuple give the same payload: the tuple of the arguments.\<close>

definition args_of :: "string list \<Rightarrow> arg_tuple" where
  "args_of names = Args names (length names = 1)"

lemma eval_args_tuple:
  assumes "named_params func" and "length vs = length (extract_param_names (mf_inputs func))"
  shows "eval_args (method_env func vs) (args_of (extract_param_names (mf_inputs func))) = Tuple vs"
proof -
  let ?names = "extract_param_names (mf_inputs func)"
  have "env_values (method_env func vs) ?names = vs"
    using assms by (simp add: named_params_def method_env_def env_values_zip)
  with assms(2) show ?thesis by (auto simp: args_of_def split: list.split)
qed

declare eval_args.simps [simp del]

lemma generate_digest_call_eq:
  "generate_digest_call f event_name names version =
     (case version of
        Some v \<Rightarrow> S_Digest_V f event_name v (args_of names)
      | None \<Rightarrow> if names = [] then S_Digest_Empty f event_name else S_Digest f event_name (args_of names))"
  by (cases names) (auto simp: generate_digest_call_def args_of_def split: option.split)

lemma generate_enqueue_call_eq:
  "generate_enqueue_call f g event_name names =
     S_Unless_Replaying f
       [if names = [] then S_Enqueue g event_name [] else S_Enqueue_With g event_name (args_of names)]"
  by (cases names) (auto simp: generate_enqueue_call_def args_of_def)

lemma exec_digest_call:
  assumes "named_params func" and "length vs = length (extract_param_names (mf_inputs func))"
  shows "exec H now (method_env func vs)
      (generate_digest_call f event_name (extract_param_names (mf_inputs func)) version) a =
    map_option (\<lambda>e. ho_set_entity H f e a)
      (case version of
         None \<Rightarrow> digest (ho_encode H) now event_name (Tuple vs) (ho_entity H f a)
       | Some v \<Rightarrow> digest_v (ho_encode H) now event_name v (Tuple vs) (ho_entity H f a))"
proof (cases version)
  case None
  with assms(2) show ?thesis
    by (auto simp: generate_digest_call_eq eval_args_tuple [OF assms] digest_empty_def digest_def split: option.splits)
qed (simp add: generate_digest_call_eq eval_args_tuple [OF assms])

lemma exec_enqueue_call:
  assumes "named_params func" and "length vs = length (extract_param_names (mf_inputs func))"
  shows "exec H now (method_env func vs)
      (generate_enqueue_call f g event_name (extract_param_names (mf_inputs func))) a =
    Some (if en_replaying (ho_entity H f a) then a
      else ho_set_emitter H g
        (if vs = [] then enqueue event_name [] (ho_emitter H g a)
         else enqueue_with (ho_json H) event_name (Tuple vs) (ho_emitter H g a)) a)"
  using assms(2) by (auto simp: generate_enqueue_call_eq eval_args_tuple [OF assms])

lemma exec_block_append:
  "exec_block H now env (xs @ ys) a = Option.bind (exec_block H now env xs a) (exec_block H now env ys)"
proof (induction xs arbitrary: a)
  case (Cons x xs)
  then show ?case by (cases "exec H now env x a") simp_all
qed simp

lemma exec_block_end: "Option.bind x (exec_block H now env []) = x"
  by (cases x) simp_all

section \<open>A method with \<open>#[event]\<close>\<close>

definition guarded ::
    "('a, 'v, 'em) host \<Rightarrow> tt list option \<Rightarrow> 'v env \<Rightarrow> ('a \<Rightarrow> 'a option) \<Rightarrow> 'a \<Rightarrow> 'a option" where
  "guarded H guard env k a =
     (case guard of
        None \<Rightarrow> k a
      | Some cond \<Rightarrow>
          (case ho_cond H cond env a of None \<Rightarrow> None | Some c \<Rightarrow> if c then k a else Some a))"

lemma exec_wrap:
  "exec_block H now env (wrap_body_with_guard guard prepend body) a =
     guarded H guard env (exec_block H now env (prepend @ body)) a"
  by (cases guard) (simp_all add: wrap_body_with_guard_def guarded_def exec_block_end)

text \<open>What runs before the body: the local event is queued, then the event is recorded.\<close>

definition queue_event :: "('a, 'v, 'em) host \<Rightarrow> sourced_args \<Rightarrow> string \<Rightarrow> 'v list \<Rightarrow> 'a \<Rightarrow> 'a" where
  "queue_event H args event_name vs a =
     (case sa_enqueue args of
        None \<Rightarrow> a
      | Some g \<Rightarrow>
          (if en_replaying (ho_entity H (sa_entity_field args) a) then a
           else ho_set_emitter H g
             (if vs = [] then enqueue event_name [] (ho_emitter H g a)
              else enqueue_with (ho_json H) event_name (Tuple vs) (ho_emitter H g a)) a))"

definition record_event ::
    "('a, 'v, 'em) host \<Rightarrow> system_time \<Rightarrow> sourced_args \<Rightarrow> event_attr \<Rightarrow> 'v list \<Rightarrow> 'a \<Rightarrow> 'a option" where
  "record_event H now args ev vs a =
     (let f = sa_entity_field args; a1 = queue_event H args (ev_event_name ev) vs a
      in map_option (\<lambda>e. ho_set_entity H f e a1)
           (case ev_version ev of
              None \<Rightarrow> digest (ho_encode H) now (ev_event_name ev) (Tuple vs) (ho_entity H f a1)
            | Some v \<Rightarrow> digest_v (ho_encode H) now (ev_event_name ev) v (Tuple vs) (ho_entity H f a1)))"

lemma call_event_method:
  assumes "named_params func" and "length vs = length (extract_param_names (mf_inputs func))"
  shows "call_method H now (fst (expand_event_method args ev func)) vs a =
    guarded H (ev_guard ev) (method_env func vs)
      (\<lambda>a. Option.bind (record_event H now args ev vs a) (exec_block H now (method_env func vs) (mf_block func))) a"
proof -
  let ?env = "method_env func vs"
  let ?pre = "(case sa_enqueue args of
        Some g \<Rightarrow> [generate_enqueue_call (sa_entity_field args) g (ev_event_name ev) (extract_param_names (mf_inputs func))]
      | None \<Rightarrow> []) @
    [generate_digest_call (sa_entity_field args) (ev_event_name ev) (extract_param_names (mf_inputs func)) (ev_version ev)]"
  have queue: "exec_block H now ?env (case sa_enqueue args of
        Some g \<Rightarrow> [generate_enqueue_call (sa_entity_field args) g (ev_event_name ev) (extract_param_names (mf_inputs func))]
      | None \<Rightarrow> []) a = Some (queue_event H args (ev_event_name ev) vs a)" for a
    by (simp add: queue_event_def exec_enqueue_call [OF assms] split: option.split)
  have pre: "exec_block H now ?env ?pre a = record_event H now args ev vs a" for a
    by (simp add: exec_block_append queue exec_block_end exec_digest_call [OF assms] record_event_def Let_def)
  have "call_method H now (fst (expand_event_method args ev func)) vs a =
      exec_block H now ?env (wrap_body_with_guard (ev_guard ev) ?pre (mf_block func)) a"
    by (simp add: call_method_def expand_event_method_def method_env_def param_names_with_types Let_def cong: option.case_cong)
  also have "\<dots> = guarded H (ev_guard ev) ?env (exec_block H now ?env (?pre @ mf_block func)) a"
    by (rule exec_wrap)
  also have "exec_block H now ?env (?pre @ mf_block func) =
      (\<lambda>a. Option.bind (record_event H now args ev vs a) (exec_block H now ?env (mf_block func)))"
    by (rule ext) (subst exec_block_append, subst pre, rule refl)
  finally show ?thesis .
qed

text \<open>
  The laws of a program the macros rely on.  \<open>view\<close> is the state of the struct apart from the
  entity and the emitters; written code reads and writes that state, and may set the id.
\<close>

definition is_written :: "stmt \<Rightarrow> bool" where
  "is_written s \<longleftrightarrow> (case s of S_Written ts \<Rightarrow> True | _ \<Rightarrow> False)"

locale macro_host =
  fixes H :: "('a, 'v, 'em) host" and f :: string and view :: "'a \<Rightarrow> 'w"
  assumes entity_set: "ho_entity H f (ho_set_entity H f e a) = e"
    and set_entity: "ho_set_entity H f (ho_entity H f a) a = a"
    and set_set: "ho_set_entity H f e (ho_set_entity H f e' a) = ho_set_entity H f e a"
    and entity_emitter: "ho_entity H f (ho_set_emitter H g x a) = ho_entity H f a"
    and view_entity: "view (ho_set_entity H f e a) = view a"
    and view_emitter: "view (ho_set_emitter H g x a) = view a"
    and cond_view: "view a = view b \<Longrightarrow> ho_cond H c env a = ho_cond H c env b"
    and stmt_view: "view a = view b \<Longrightarrow>
      map_option view (ho_stmt H s env a) = map_option view (ho_stmt H s env b)"
    and stmt_keeps: "ho_stmt H s env a = Some a' \<Longrightarrow>
      \<exists>i. ho_entity H f a' = (ho_entity H f a)\<lparr>en_id := i\<rparr>"
begin

lemma written_view:
  assumes "list_all is_written ss" and "view a = view b"
  shows "map_option view (exec_block H now env ss a) = map_option view (exec_block H now' env ss b)"
  using assms
proof (induction ss arbitrary: a b)
  case (Cons s ss)
  then obtain ts where s: "s = S_Written ts" by (auto simp: is_written_def split: stmt.splits)
  have eq: "map_option view (ho_stmt H ts env a) = map_option view (ho_stmt H ts env b)"
    by (rule stmt_view) (rule Cons.prems)
  show ?case
  proof (cases "ho_stmt H ts env a")
    case None
    with eq s show ?thesis by simp
  next
    case (Some a')
    with eq have "map_option view (ho_stmt H ts env b) = Some (view a')" by simp
    then obtain b' where "ho_stmt H ts env b = Some b'" "view a' = view b'" by auto
    with Some s Cons.IH [of a' b'] Cons.prems(1) show ?thesis by simp
  qed
qed simp

lemma written_keeps:
  assumes "list_all is_written ss" and "exec_block H now env ss a = Some a'"
  shows "\<exists>i. ho_entity H f a' = (ho_entity H f a)\<lparr>en_id := i\<rparr>"
  using assms
proof (induction ss arbitrary: a)
  case Nil
  then show ?case by (intro exI [of _ "en_id (ho_entity H f a)"]) simp
next
  case (Cons s ss)
  then obtain ts where s: "s = S_Written ts" by (auto simp: is_written_def split: stmt.splits)
  with Cons.prems obtain a1 where a1: "ho_stmt H ts env a = Some a1" "exec_block H now env ss a1 = Some a'"
    by (auto simp: bind_eq_Some_conv)
  with Cons.IH [of a1] Cons.prems(1) stmt_keeps [OF a1(1)] show ?case by auto
qed

lemma record_replaying:
  assumes "sa_entity_field args = f" and "en_replaying (ho_entity H f a)"
  shows "record_event H now args ev vs a = Some a"
  using assms
  by (auto simp: record_event_def queue_event_def set_entity Let_def split: option.split)

lemma queue_keeps:
  "sa_entity_field args = f \<Longrightarrow> ho_entity H f (queue_event H args name vs a) = ho_entity H f a"
  "view (queue_event H args name vs a) = view a"
  by (auto simp: queue_event_def entity_emitter view_emitter split: option.split)

lemma record_live:
  assumes "sa_entity_field args = f" and "\<not> en_replaying (ho_entity H f a)"
  shows "record_event H now args ev vs a =
    map_option (\<lambda>bs. ho_set_entity H f
        (push_record (event_record_new_versioned (ev_event_name ev) bs (len_u64 (en_events (ho_entity H f a)) + 1)
           (case ev_version ev of None \<Rightarrow> 1 | Some v \<Rightarrow> v) now) now (ho_entity H f a))
        (queue_event H args (ev_event_name ev) vs a))
      (ho_encode H (Tuple vs))"
proof -
  have "digest (ho_encode H) now (ev_event_name ev) (Tuple vs) e = digest_v (ho_encode H) now (ev_event_name ev) 1 (Tuple vs) e" for e
    by (simp add: digest_v_one)
  with assms queue_keeps(1) [OF assms(1)] show ?thesis
    by (auto simp: record_event_def digest_v_def Let_def split: option.split)
qed

lemma replayed_call:
  assumes "sa_entity_field args = f" and "named_params func" and "length vs = length (extract_param_names (mf_inputs func))"
    and written: "list_all is_written (mf_block func)"
    and passed: "case ev_guard ev of None \<Rightarrow> True | Some c \<Rightarrow> ho_cond H c (method_env func vs) a = Some True"
    and body: "exec_block H now (method_env func vs) (mf_block func) a1 = Some a'" and "view a1 = view a"
    and b: "en_replaying (ho_entity H f b)" "view b = view a"
  shows "\<exists>b' i. call_method H now' (fst (expand_event_method args ev func)) vs b = Some b' \<and>
      view b' = view a' \<and> ho_entity H f b' = (ho_entity H f b)\<lparr>en_id := i\<rparr>"
proof -
  let ?env = "method_env func vs"
  have "call_method H now' (fst (expand_event_method args ev func)) vs b = exec_block H now' ?env (mf_block func) b"
    using passed cond_view [OF b(2)]
    by (cases "ev_guard ev")
      (simp_all add: call_event_method [OF assms(2,3)] guarded_def record_replaying [OF assms(1) b(1)])
  moreover have "map_option view (exec_block H now' ?env (mf_block func) b) = Some (view a')"
    using written_view [OF written, of a1 b now ?env now'] assms(7) b(2) body by simp
  then obtain b' where "exec_block H now' ?env (mf_block func) b = Some b'" "view b' = view a'" by auto
  ultimately show ?thesis using written_keeps [OF written] by auto
qed

lemma live_then_replay:
  assumes field: "sa_entity_field args = f" and named: "named_params func"
    and len: "length vs = length (extract_param_names (mf_inputs func))"
    and written: "list_all is_written (mf_block func)"
    and live: "\<not> en_replaying (ho_entity H f a)"
    and call: "call_method H now (fst (expand_event_method args ev func)) vs a = Some a'"
  shows "a' = a \<or>
    (\<exists>r. en_events (ho_entity H f a') = en_events (ho_entity H f a) @ [r] \<and> \<not> en_replaying (ho_entity H f a') \<and>
      er_event_name r = ev_event_name ev \<and> ho_encode H (Tuple vs) = Some (er_payload r) \<and>
      (\<forall>b now'. en_replaying (ho_entity H f b) \<and> view b = view a \<longrightarrow>
        (\<exists>b' i. call_method H now' (fst (expand_event_method args ev func)) vs b = Some b' \<and>
          view b' = view a' \<and> ho_entity H f b' = (ho_entity H f b)\<lparr>en_id := i\<rparr>)))"
proof (cases "a' = a")
  case changed: False
  let ?env = "method_env func vs" and ?e = "ho_entity H f a"
  have passed: "case ev_guard ev of None \<Rightarrow> True | Some c \<Rightarrow> ho_cond H c ?env a = Some True"
    using call changed by (auto simp: call_event_method [OF named len] guarded_def split: option.splits if_splits)
  with call have "Option.bind (record_event H now args ev vs a) (exec_block H now ?env (mf_block func)) = Some a'"
    by (auto simp: call_event_method [OF named len] guarded_def split: option.splits if_splits)
  then obtain a1 where rec: "record_event H now args ev vs a = Some a1"
    and body: "exec_block H now ?env (mf_block func) a1 = Some a'" by (auto simp: bind_eq_Some_conv)
  from rec obtain bs where bs: "ho_encode H (Tuple vs) = Some bs"
    by (auto simp: record_live [OF field live])
  define r0 where "r0 = event_record_new_versioned (ev_event_name ev) bs (len_u64 (en_events ?e) + 1)
      (case ev_version ev of None \<Rightarrow> 1 | Some v \<Rightarrow> v) now"
  have r0: "er_event_name r0 = ev_event_name ev" "er_payload r0 = bs" "er_metadata r0 = Mapping.empty"
    by (simp_all add: r0_def)
  have a1: "a1 = ho_set_entity H f (push_record r0 now ?e) (queue_event H args (ev_event_name ev) vs a)"
    using rec bs by (simp add: record_live [OF field live] r0_def)
  obtain i where i: "ho_entity H f a' = (push_record r0 now ?e)\<lparr>en_id := i\<rparr>"
    using written_keeps [OF written body] by (auto simp: a1 entity_set)
  have view_a1: "view a1 = view a" by (simp add: a1 view_entity queue_keeps)
  note replay = replayed_call [OF field named len written passed body view_a1]
  let ?r = "r0\<lparr>er_metadata := en_metadata ?e\<rparr>"
  have "en_events (ho_entity H f a') = en_events ?e @ [?r]" "\<not> en_replaying (ho_entity H f a')"
    "er_event_name ?r = ev_event_name ev" "ho_encode H (Tuple vs) = Some (er_payload ?r)"
    using i r0 bs live by (simp_all add: push_record_events)
  with replay show ?thesis by blast
qed simp

end

section \<open>The expanded block\<close>

definition item_fns :: "impl_item list \<Rightarrow> method_fn list" where
  "item_fns items = List.map_filter (\<lambda>item. case item of Item_Fn func \<Rightarrow> Some func | Item_Other ts \<Rightarrow> None) items"

lemma item_fns_simps [simp]:
  "item_fns [] = []"
  "item_fns (Item_Fn func # items) = func # item_fns items"
  "item_fns (Item_Other ts # items) = item_fns items"
  by (simp_all add: item_fns_def List.map_filter_simps)

lemma set_item_fns: "func \<in> set (item_fns items) \<longleftrightarrow> Item_Fn func \<in> set items"
  by (induction items rule: list.induct [case_names Nil Cons]) (auto split: impl_item.splits simp: item_fns_def List.map_filter_def)

text \<open>What holds of a block the compiler accepts, with methods of written code and plain parameters.\<close>

definition event_method :: "method_fn \<Rightarrow> bool" where
  "event_method func \<longleftrightarrow> (\<exists>a \<in> set (mf_attrs func). at_path a = ''event'')"

definition block_ok :: "impl_item list \<Rightarrow> event_method_info list \<Rightarrow> bool" where
  "block_ok items infos \<longleftrightarrow>
     distinct (map mf_ident (item_fns items)) \<and> distinct (map em_event_name infos) \<and>
     (\<forall>func \<in> set (item_fns items). event_method func \<longrightarrow>
        named_params func \<and> list_all is_written (mf_block func))"

lemma find_and_remove_Some:
  assumes "find_and_remove_event_attr el attrs = (Inr (Some ev), attrs')"
  shows "\<exists>a \<in> set attrs. at_path a = ''event'' \<and>
    (\<exists>ts. at_args a = Some ts \<and> p_all (parse_event_args el) ts = Inr ev)"
proof -
  obtain a rest where d: "dropWhile (\<lambda>a. at_path a \<noteq> ''event'') attrs = a # rest"
    using assms by (cases "dropWhile (\<lambda>a. at_path a \<noteq> ''event'') attrs") (auto simp: find_and_remove_event_attr_def)
  then have "a \<in> set (dropWhile (\<lambda>a. at_path a \<noteq> ''event'') attrs)" "at_path a = ''event''"
    using hd_dropWhile [of "\<lambda>a. at_path a \<noteq> ''event''" attrs] by auto
  then have "a \<in> set attrs" "at_path a = ''event''" by (auto dest: set_dropWhileD)
  with assms d show ?thesis
    by (intro bexI [of _ a]) (auto simp: find_and_remove_event_attr_def Let_def split: option.splits sum.splits)
qed

lemma expand_event_method_simps [simp]:
  "mf_ident (fst (expand_event_method args ev func)) = mf_ident func"
  "mf_inputs (fst (expand_event_method args ev func)) = mf_inputs func"
  "mf_attrs (fst (expand_event_method args ev func)) = mf_attrs func"
  "em_event_name (snd (expand_event_method args ev func)) = ev_event_name ev"
  "em_method_name (snd (expand_event_method args ev func)) = mf_ident func"
  "em_params (snd (expand_event_method args ev func)) = extract_params_with_types (mf_inputs func)"
  by (simp_all add: expand_event_method_def Let_def)

text \<open>The expansion, item by item.\<close>

inductive item_expands ::
    "(tt list \<Rightarrow> nat option) \<Rightarrow> sourced_args \<Rightarrow> impl_item \<Rightarrow> impl_item \<Rightarrow> event_method_info list \<Rightarrow> bool"
  for el args where
  other: "item_expands el args (Item_Other ts) (Item_Other ts) []"
| plain: "find_and_remove_event_attr el (mf_attrs func) = (Inr None, attrs') \<Longrightarrow>
    item_expands el args (Item_Fn func) (Item_Fn (func\<lparr>mf_attrs := attrs'\<rparr>)) []"
| event: "find_and_remove_event_attr el (mf_attrs func) = (Inr (Some ev), attrs') \<Longrightarrow>
    item_expands el args (Item_Fn func) (Item_Fn (fst (expand_event_method args ev (func\<lparr>mf_attrs := attrs'\<rparr>))))
      [snd (expand_event_method args ev (func\<lparr>mf_attrs := attrs'\<rparr>))]"

inductive items_expand ::
    "(tt list \<Rightarrow> nat option) \<Rightarrow> sourced_args \<Rightarrow> impl_item list \<Rightarrow> impl_item list \<Rightarrow> event_method_info list \<Rightarrow> bool"
  for el args where
  items_Nil: "items_expand el args [] [] []"
| items_Cons: "item_expands el args item item' part \<Longrightarrow> items_expand el args items items' infos \<Longrightarrow>
    items_expand el args (item # items) (item' # items') (part @ infos)"

lemma sourced_items_expand:
  "sourced_items el args items = Inr (items', infos) \<Longrightarrow> items_expand el args items items' infos"
proof (induction items arbitrary: items' infos)
  case (Cons item items)
  show ?case
  proof (cases item)
    case (Item_Other ts)
    with Cons.prems obtain rest where r: "sourced_items el args items = Inr (rest, infos)" "items' = Item_Other ts # rest"
      by (auto split: sum.splits prod.splits)
    from items_Cons [OF item_expands.other Cons.IH [OF r(1)]] r(2) Item_Other show ?thesis by simp
  next
    case (Item_Fn func)
    with Cons.prems obtain found attrs' where f: "find_and_remove_event_attr el (mf_attrs func) = (Inr found, attrs')"
      by (auto split: sum.splits prod.splits)
    with Cons.prems Item_Fn obtain rest infos1 where r: "sourced_items el args items = Inr (rest, infos1)"
      by (auto split: sum.splits prod.splits)
    show ?thesis
    proof (cases found)
      case None
      with Cons.prems Item_Fn f r have "items' = Item_Fn (func\<lparr>mf_attrs := attrs'\<rparr>) # rest" "infos = infos1" by auto
      with items_Cons [OF item_expands.plain Cons.IH [OF r]] f None Item_Fn show ?thesis by simp
    next
      case (Some ev)
      let ?x = "expand_event_method args ev (func\<lparr>mf_attrs := attrs'\<rparr>)"
      from Some Cons.prems Item_Fn f r have "items' = Item_Fn (fst ?x) # rest" "infos = snd ?x # infos1"
        by (auto split: prod.splits)
      with items_Cons [OF item_expands.event Cons.IH [OF r]] f Some Item_Fn show ?thesis by simp
    qed
  qed
qed (simp add: items_Nil)

lemma item_expands_names:
  "item_expands el args item item' part \<Longrightarrow> map mf_ident (item_fns [item']) = map mf_ident (item_fns [item])"
  by (induction rule: item_expands.induct) simp_all

lemma items_expand_names:
  "items_expand el args items items' infos \<Longrightarrow> map mf_ident (item_fns items') = map mf_ident (item_fns items)"
proof (induction rule: items_expand.induct)
  case (items_Cons item item' part items items' infos)
  have "item_fns (x # xs) = item_fns [x] @ item_fns xs" for x xs by (cases x) simp_all
  with items_Cons item_expands_names show ?case by (metis map_append)
qed simp

text \<open>Where an event method comes from.\<close>

lemma items_expand_info:
  assumes "items_expand el args items items' infos" and "info \<in> set infos"
  shows "\<exists>func ev attrs'. Item_Fn func \<in> set items \<and>
    find_and_remove_event_attr el (mf_attrs func) = (Inr (Some ev), attrs') \<and>
    Item_Fn (fst (expand_event_method args ev (func\<lparr>mf_attrs := attrs'\<rparr>))) \<in> set items' \<and>
    info = snd (expand_event_method args ev (func\<lparr>mf_attrs := attrs'\<rparr>))"
  using assms
proof (induction rule: items_expand.induct)
  case (items_Cons item item' part items items' infos)
  show ?case
  proof (cases "info \<in> set infos")
    case True
    from items_Cons.IH [OF this] show ?thesis by auto
  next
    case False
    with items_Cons.prems have "info \<in> set part" by simp
    with items_Cons.hyps(1) show ?thesis by (cases rule: item_expands.cases) auto
  qed
qed simp

lemma method_named_find:
  assumes "distinct (map mf_ident (item_fns items))" and "Item_Fn func \<in> set items"
  shows "method_named items (mf_ident func) = Some func"
proof -
  have "func \<in> set (item_fns items)" using assms(2) by (simp add: set_item_fns)
  then have "find (\<lambda>g. mf_ident g = mf_ident func) (item_fns items) = Some func"
    using assms(1) by (rule find_distinct)
  then show ?thesis by (simp add: method_named_def item_fns_def)
qed

lemma arm_of_simps [simp]:
  "arm_event (sourced_arm info) = em_event_name info"
  "try_event (try_from_arm_of info) = em_event_name info"
  by (simp_all add: sourced_arm_def try_from_arm_of_def)

lemma sourced_arm_decode:
  "em_params info \<noteq> [] \<Longrightarrow> sourced_arm info =
     Arm_Decode (em_event_name info) (map fst (em_params info)) (em_method_name info) (map fst (em_params info))"
  by (cases "em_params info" rule: remdups_adj.cases) (simp_all add: sourced_arm_def)

lemma find_arm:
  assumes "info \<in> set infos" and "distinct (map em_event_name infos)"
  shows "find (\<lambda>arm. arm_event arm = em_event_name info) (map sourced_arm infos) = Some (sourced_arm info)"
  using find_distinct [of "sourced_arm info" "map sourced_arm infos" arm_event] assms by (simp add: comp_def)

text \<open>Replaying an event with the payload of a call makes that call.\<close>

lemma run_sourced_arm:
  assumes "method_named items (em_method_name info) = Some func"
    and "em_params info = extract_params_with_types (mf_inputs func)" and "named_params func"
    and "length vs = length (em_params info)"
    and "vs \<noteq> [] \<longrightarrow> ho_decode H (map snd (em_params info)) (er_payload r) = Inr vs"
  shows "run_arm H now items (sourced_arm info) r = run_method (call_method H now func vs)"
proof (cases "em_params info = []")
  case True
  with assms show ?thesis by (simp add: run_arm_def sourced_arm_def)
next
  case False
  let ?names = "map fst (em_params info)"
  have names: "?names = extract_param_names (mf_inputs func)"
    by (simp add: assms(2) param_names_with_types)
  with assms(3) have d: "distinct ?names" and t: "map snd (typed_inputs (mf_inputs func)) = map snd (em_params info)"
    by (simp_all add: named_params_def assms(2) extract_names_typed)
  have "infer_types func ?names ?names = map snd (em_params info)"
    using map_filter_zip [of "map snd (em_params info)" ?names id] d unfolding infer_types_def t by (simp cong: map_cong)
  moreover have "env_values (zip (map Pat_Ident ?names) vs) ?names = vs"
    using d assms(4) by (intro env_values_zip) simp_all
  moreover have "vs \<noteq> []" using False assms(4) by auto
  ultimately show ?thesis using assms(1,5) False
    by (simp add: run_arm_def sourced_arm_decode decode_then_def event_record_decode_def fun_eq_iff)
qed

section \<open>Histories\<close>

text \<open>Calls of event methods, one after the other, each with the clock it reads.\<close>

fun run_methods ::
    "('a, 'v, 'em) host \<Rightarrow> impl_item list \<Rightarrow> (system_time \<times> string \<times> 'v list) list \<Rightarrow> 'a \<Rightarrow> 'a option" where
  "run_methods H items [] a = Some a"
| "run_methods H items ((now, m, vs) # cs) a =
     (case method_named items m of
        None \<Rightarrow> None
      | Some func \<Rightarrow> Option.bind (call_method H now func vs a) (run_methods H items cs))"

definition well_typed ::
    "('v \<Rightarrow> ty \<Rightarrow> bool) \<Rightarrow> event_method_info list \<Rightarrow> system_time \<times> string \<times> 'v list \<Rightarrow> bool" where
  "well_typed has_type infos c \<longleftrightarrow>
     (\<exists>info \<in> set infos. em_method_name info = fst (snd c) \<and>
        list_all2 has_type (snd (snd c)) (map snd (em_params info)))"

locale typed_host = macro_host H f view
  for H :: "('a, 'v, 'em) host" and f :: string and view :: "'a \<Rightarrow> 'w" +
  fixes has_type :: "'v \<Rightarrow> ty \<Rightarrow> bool"
  assumes decode_encode: "vs \<noteq> [] \<Longrightarrow> list_all2 has_type vs tys \<Longrightarrow> ho_encode H (Tuple vs) = Some bs \<Longrightarrow>
    ho_decode H tys bs = Inr vs"
begin

lemma one_call:
  assumes exp: "sourced_items el args items = Inr (items', infos)" and ok: "block_ok items infos"
    and field: "sa_entity_field args = f" and impl: "gi_replay_arms impl = map sourced_arm infos"
    and typed: "well_typed has_type infos (now, m, vs)"
    and live: "\<not> en_replaying (ho_entity H f a)"
  shows "\<exists>func. method_named items' m = Some func \<and>
    (\<forall>a'. call_method H now func vs a = Some a' \<longrightarrow>
      a' = a \<or>
      (\<exists>r. en_events (ho_entity H f a') = en_events (ho_entity H f a) @ [r] \<and> \<not> en_replaying (ho_entity H f a') \<and>
        (\<forall>b now'. en_replaying (ho_entity H f b) \<and> view b = view a \<longrightarrow>
          (\<exists>b' i. replay_event H now' items' impl r b = (Ok (), b') \<and>
            view b' = view a' \<and> ho_entity H f b' = (ho_entity H f b)\<lparr>en_id := i\<rparr>))))"
proof -
  from typed obtain info where info: "info \<in> set infos" "em_method_name info = m"
    and types: "list_all2 has_type vs (map snd (em_params info))" by (auto simp: well_typed_def)
  note E = sourced_items_expand [OF exp]
  obtain func0 ev attrs' where src: "Item_Fn func0 \<in> set items"
    "find_and_remove_event_attr el (mf_attrs func0) = (Inr (Some ev), attrs')"
    "Item_Fn (fst (expand_event_method args ev (func0\<lparr>mf_attrs := attrs'\<rparr>))) \<in> set items'"
    "info = snd (expand_event_method args ev (func0\<lparr>mf_attrs := attrs'\<rparr>))"
    using items_expand_info [OF E info(1)] by blast
  let ?src = "func0\<lparr>mf_attrs := attrs'\<rparr>"
  let ?func = "fst (expand_event_method args ev ?src)"
  have "event_method func0" using find_and_remove_Some [OF src(2)] by (auto simp: event_method_def)
  with ok src(1) have good: "named_params ?src" "list_all is_written (mf_block ?src)"
    by (auto simp: block_ok_def set_item_fns named_params_def)
  have named: "method_named items' m = Some ?func"
    using method_named_find [OF _ src(3)] ok info(2) src(4) items_expand_names [OF E] by (simp add: block_ok_def)
  have params: "em_params info = extract_params_with_types (mf_inputs ?src)" using src(4) by simp
  have len: "length vs = length (extract_param_names (mf_inputs ?src))"
    using list_all2_lengthD [OF types] by (simp add: params flip: param_names_with_types)
  have arm: "find (\<lambda>arm. arm_event arm = ev_event_name ev) (map sourced_arm infos) = Some (sourced_arm info)"
    using find_arm [OF info(1)] ok src(4) by (simp add: block_ok_def)
  show ?thesis
  proof (intro exI [of _ ?func] conjI allI impI named)
    fix a' assume call: "call_method H now ?func vs a = Some a'"
    show "a' = a \<or> (\<exists>r. en_events (ho_entity H f a') = en_events (ho_entity H f a) @ [r] \<and> \<not> en_replaying (ho_entity H f a') \<and>
        (\<forall>b now'. en_replaying (ho_entity H f b) \<and> view b = view a \<longrightarrow>
          (\<exists>b' i. replay_event H now' items' impl r b = (Ok (), b') \<and>
            view b' = view a' \<and> ho_entity H f b' = (ho_entity H f b)\<lparr>en_id := i\<rparr>)))"
    proof (cases "a' = a")
      case False
      with live_then_replay [OF field good(1) len good(2) live call] obtain r where
        r: "en_events (ho_entity H f a') = en_events (ho_entity H f a) @ [r]" "\<not> en_replaying (ho_entity H f a')"
          "er_event_name r = ev_event_name ev" "ho_encode H (Tuple vs) = Some (er_payload r)" and
        replay: "\<forall>b now'. en_replaying (ho_entity H f b) \<and> view b = view a \<longrightarrow>
          (\<exists>b' i. call_method H now' ?func vs b = Some b' \<and> view b' = view a' \<and>
            ho_entity H f b' = (ho_entity H f b)\<lparr>en_id := i\<rparr>)" by blast
      have eq: "replay_event H now' items' impl r = run_method (call_method H now' ?func vs)" for now'
      proof -
        have "run_arm H now' items' (sourced_arm info) r = run_method (call_method H now' ?func vs)"
        proof (rule run_sourced_arm)
          show "method_named items' (em_method_name info) = Some ?func" using named info(2) by simp
          show "em_params info = extract_params_with_types (mf_inputs ?func)" using params by simp
          show "named_params ?func" using good(1) by (simp add: named_params_def)
          show "length vs = length (em_params info)" using list_all2_lengthD [OF types] by simp
          show "vs \<noteq> [] \<longrightarrow> ho_decode H (map snd (em_params info)) (er_payload r) = Inr vs"
            using decode_encode [OF _ types r(4)] by simp
        qed
        with arm r(3) show ?thesis by (simp add: replay_event_def impl)
      qed
      have "\<exists>b' i. replay_event H now' items' impl r b = (Ok (), b') \<and>
          view b' = view a' \<and> ho_entity H f b' = (ho_entity H f b)\<lparr>en_id := i\<rparr>"
        if "en_replaying (ho_entity H f b)" "view b = view a" for b now'
      proof -
        from replay that obtain b' i where "call_method H now' ?func vs b = Some b'" "view b' = view a'"
          "ho_entity H f b' = (ho_entity H f b)\<lparr>en_id := i\<rparr>" by blast
        then show ?thesis by (intro exI [of _ b'] exI [of _ i]) (simp add: eq run_method_def)
      qed
      with r(1,2) show ?thesis by blast
    qed simp
  qed
qed

text \<open>The replay of a whole history follows its calls.\<close>

lemma calls_then_replay:
  assumes exp: "sourced_items el args items = Inr (items', infos)" and ok: "block_ok items infos"
    and field: "sa_entity_field args = f" and impl: "gi_replay_arms impl = map sourced_arm infos"
    and "\<forall>c \<in> set cs. well_typed has_type infos c" and "run_methods H items' cs a = Some a'"
    and "\<not> en_replaying (ho_entity H f a)" and "en_replaying (ho_entity H f b)" and "view b = view a"
  shows "\<exists>new b' i. en_events (ho_entity H f a') = en_events (ho_entity H f a) @ new \<and>
    apply_events (replay_event H now items' impl) new b = (Ok (), b') \<and>
    view b' = view a' \<and> ho_entity H f b' = (ho_entity H f b)\<lparr>en_id := i\<rparr>"
  using assms(5-)
proof (induction cs arbitrary: a b)
  case Nil
  then have "a' = a" by simp
  with Nil show ?case
    by (intro exI [of _ "[]"] exI [of _ b] exI [of _ "en_id (ho_entity H f b)"]) simp
next
  case (Cons c cs)
  obtain t m vs where c: "c = (t, m, vs)" by (cases c)
  with one_call [OF exp ok field impl, of t m vs a] Cons.prems obtain func where
    func: "method_named items' m = Some func" and
    step: "\<And>a1. call_method H t func vs a = Some a1 \<Longrightarrow> a1 = a \<or>
      (\<exists>r. en_events (ho_entity H f a1) = en_events (ho_entity H f a) @ [r] \<and> \<not> en_replaying (ho_entity H f a1) \<and>
        (\<forall>b now'. en_replaying (ho_entity H f b) \<and> view b = view a \<longrightarrow>
          (\<exists>b' i. replay_event H now' items' impl r b = (Ok (), b') \<and>
            view b' = view a1 \<and> ho_entity H f b' = (ho_entity H f b)\<lparr>en_id := i\<rparr>)))"
    by auto
  from Cons.prems(2) c func obtain a1 where a1: "call_method H t func vs a = Some a1" "run_methods H items' cs a1 = Some a'"
    by (auto simp: bind_eq_Some_conv)
  from step [OF a1(1)] show ?case
  proof (elim disjE exE conjE)
    assume "a1 = a"
    with Cons.IH [of a b] Cons.prems a1 show ?thesis by simp
  next
    fix r
    assume r: "en_events (ho_entity H f a1) = en_events (ho_entity H f a) @ [r]" "\<not> en_replaying (ho_entity H f a1)"
      "\<forall>b now'. en_replaying (ho_entity H f b) \<and> view b = view a \<longrightarrow>
          (\<exists>b' i. replay_event H now' items' impl r b = (Ok (), b') \<and>
            view b' = view a1 \<and> ho_entity H f b' = (ho_entity H f b)\<lparr>en_id := i\<rparr>)"
    with Cons.prems obtain b1 i where b1: "replay_event H now items' impl r b = (Ok (), b1)" "view b1 = view a1"
      "ho_entity H f b1 = (ho_entity H f b)\<lparr>en_id := i\<rparr>" by blast
    with Cons.IH [of a1 b1] Cons.prems a1 r(2) obtain new b' j where
      "en_events (ho_entity H f a') = en_events (ho_entity H f a1) @ new"
      "apply_events (replay_event H now items' impl) new b1 = (Ok (), b')"
      "view b' = view a'" "ho_entity H f b' = (ho_entity H f b)\<lparr>en_id := j\<rparr>" by auto
    with r(1) b1(1) show ?thesis
      by (intro exI [of _ "r # new"] exI [of _ b'] exI [of _ j]) (simp add: st_bind_def)
  qed
qed

end

text \<open>Hydrating the events of a history gives the state it left.\<close>

lemma sourced_history:
  assumes "typed_host H (sa_entity_field args) view has_type"
    and "p_all (parse_sourced_args pl) attr = Inr args"
    and "\<forall>u \<in> set (generated_upcasters H (so_aggregate out)).
      \<forall>ev \<in> set (en_events (ho_entity H (sa_entity_field args) a)). \<not> upcaster_matches ev u"
    and "expand_sourced el pl ident_ok attr block = Inr out"
    and "sourced_items el args (ib_items block) = Inr (items', infos)" and "block_ok (ib_items block) infos"
    and "\<forall>c \<in> set cs. well_typed has_type infos c"
    and "run_methods H (ib_items (so_impl out)) cs a0 = Some a"
    and "\<not> en_replaying (ho_entity H (sa_entity_field args) a0)"
    and "en_events (ho_entity H (sa_entity_field args) a0) = []"
    and "view new_empty = view a0" and "en_events e = en_events (ho_entity H (sa_entity_field args) a)"
  shows "\<exists>c i. hydrate (generated_aggregate H now new_empty (ib_items (so_impl out)) (so_aggregate out)) e = Ok c \<and>
    view c = view a \<and>
    ho_entity H (sa_entity_field args) c = e\<lparr>en_id := i, en_replaying := False\<rparr>"
proof -
  let ?f = "sa_entity_field args" and ?A = "generated_aggregate H now new_empty (ib_items (so_impl out)) (so_aggregate out)"
  note laws = assms(1) [THEN typed_host.axioms(1)]
  note set_simps = macro_host.entity_set [OF laws] macro_host.set_set [OF laws] macro_host.view_entity [OF laws]
  have out: "ib_items (so_impl out) = items'" "gi_entity_field (so_aggregate out) = ?f"
    "gi_replay_arms (so_aggregate out) = map sourced_arm infos"
    using assms(2,4,5) by (auto simp: expand_sourced_def Let_def split: option.splits if_splits)
  let ?b = "ho_set_entity H ?f (e\<lparr>en_replaying := True\<rparr>) new_empty"
  obtain new b' i where new: "en_events (ho_entity H ?f a) = new"
    "apply_events (replay_event H now items' (so_aggregate out)) new ?b = (Ok (), b')"
    "view b' = view a" "ho_entity H ?f b' = e\<lparr>en_replaying := True, en_id := i\<rparr>"
    using typed_host.calls_then_replay [OF assms(1,5,6) refl out(3) assms(7), of a0 a ?b now] assms(8-11)
    by (auto simp: out(1) set_simps)
  have "upcast_all ?A (en_events e) = Some (en_events e)"
    using upcast_events_no_match [OF assms(3)] assms(12) by (simp add: upcast_all_def generated_aggregate_def)
  moreover have "ag_new_empty ?A = new_empty" "ag_entity ?A = ho_entity H ?f" "ag_set_entity ?A = ho_set_entity H ?f"
    by (simp_all add: generated_aggregate_def out)
  ultimately have "hydrate ?A e = replay_loop ?A (en_events e) (ho_set_entity H ?f e new_empty)"
    by (simp add: hydrate_def set_simps)
  moreover have "replay_loop ?A (en_events e) (ho_set_entity H ?f e new_empty) =
      Ok (ho_set_entity H ?f (e\<lparr>en_id := i, en_replaying := False\<rparr>) b')"
    using new assms(12)
    by (simp add: replay_loop_def on_entity_def set_replaying_def generated_aggregate_def out set_simps)
  ultimately have "hydrate ?A e = Ok (ho_set_entity H ?f (e\<lparr>en_id := i, en_replaying := False\<rparr>) b')" by simp
  with new(3) show ?thesis by (auto simp: set_simps)
qed

end
