(* ===== verification/Macro_Contract.thy ===== *)
theory Macro_Contract
  imports Sourced
begin

text \<open>
  What the macros guarantee, on the Todo aggregate of the tests and for every block:  recorded
  events hydrate to the state that recorded them, the event enum reads them back, and \<open>#[sourced]\<close>
  is \<open>#[digest]\<close> with \<open>aggregate!\<close>.
\<close>

section \<open>The Todo aggregate\<close>

text \<open>
  The struct of \<open>tests/snapshots/aggregate.rs\<close> and \<open>tests/sourced/aggregate.rs\<close> as a host: its
  statements and its guard by their tokens.
\<close>

definition string_ty :: ty where
  "string_ty = [TIdent ''String'']"

definition self_field :: "string \<Rightarrow> tt list" where
  "self_field x = [TOther ''self'', TPunct ''.'', TIdent x]"

definition set_id_stmt :: "tt list" where
  "set_id_stmt = self_field ''entity'' @
     [TPunct ''.'', TIdent ''set_id'', TGroup Parenthesis [TPunct ''&'', TIdent ''id''], TPunct '';'']"

definition assign_stmt :: "string \<Rightarrow> tt \<Rightarrow> tt list" where
  "assign_stmt x t = self_field x @ [TPunct ''='', t, TPunct '';'']"

definition not_completed :: "tt list" where
  "not_completed = TPunct ''!'' # self_field ''completed''"

definition todo_stmt :: "tt list \<Rightarrow> string env \<Rightarrow> todo \<Rightarrow> todo option" where
  "todo_stmt s env t =
     (if s = set_id_stmt then map_option (\<lambda>i. t\<lparr>td_entity := set_id i (td_entity t)\<rparr>) (map_of env (Pat_Ident ''id''))
      else if s = assign_stmt ''user_id'' (TIdent ''user_id'')
      then map_option (\<lambda>u. t\<lparr>td_user_id := u\<rparr>) (map_of env (Pat_Ident ''user_id''))
      else if s = assign_stmt ''task'' (TIdent ''task'')
      then map_option (\<lambda>k. t\<lparr>td_task := k\<rparr>) (map_of env (Pat_Ident ''task''))
      else if s = assign_stmt ''completed'' (TOther ''true'') then Some (t\<lparr>td_completed := True\<rparr>)
      else None)"

definition todo_host :: "todo_codec \<Rightarrow> (todo, string, unit) host" where
  "todo_host C =
     \<lparr>ho_entity = (\<lambda>f. td_entity), ho_set_entity = (\<lambda>f e t. t\<lparr>td_entity := e\<rparr>),
      ho_emitter = (\<lambda>g t. \<lparr>ee_entity = entity_default 0, ee_event_emitter = (), ee_events_to_emit = []\<rparr>),
      ho_set_emitter = (\<lambda>g x t. t),
      ho_cond = (\<lambda>c env t. if c = not_completed then Some (\<not> td_completed t) else None),
      ho_stmt = todo_stmt,
      ho_encode = (\<lambda>p. case p of Tuple [] \<Rightarrow> tc_ser_unit C () | Tuple [i, u, k] \<Rightarrow> tc_ser_init C (i, u, k) | _ \<Rightarrow> None),
      ho_decode = (\<lambda>tys bs. if tys = [string_ty, string_ty, string_ty]
        then map_sum id (\<lambda>(i, u, k). [i, u, k]) (tc_de_init C bs) else Inl ''type''),
      ho_json = (\<lambda>p. None), ho_transform = (\<lambda>ts bs. bs)\<rparr>"

definition todo_initialize_fn :: method_fn where
  "todo_initialize_fn =
     \<lparr>mf_attrs = [\<lparr>at_path = ''event'', at_args = Some [TLitStr ''Initialized'']\<rparr>], mf_ident = ''initialize'',
      mf_inputs = [Receiver, Typed (Pat_Ident ''id'') string_ty, Typed (Pat_Ident ''user_id'') string_ty,
        Typed (Pat_Ident ''task'') string_ty],
      mf_block = [S_Written set_id_stmt, S_Written (assign_stmt ''user_id'' (TIdent ''user_id'')),
        S_Written (assign_stmt ''task'' (TIdent ''task''))]\<rparr>"

definition todo_complete_fn :: method_fn where
  "todo_complete_fn =
     \<lparr>mf_attrs = [\<lparr>at_path = ''event'', at_args = Some ([TLitStr ''Completed'', TPunct '','', TIdent ''when'', TPunct ''=''] @ not_completed)\<rparr>],
      mf_ident = ''complete'', mf_inputs = [Receiver],
      mf_block = [S_Written (assign_stmt ''completed'' (TOther ''true''))]\<rparr>"

definition todo_block :: impl_block where
  "todo_block = \<lparr>ib_self_ty = Type_Path [''Todo''],
     ib_items = [Item_Fn todo_initialize_fn, Item_Fn todo_complete_fn]\<rparr>"

text \<open>The codec reads back what it writes.\<close>

definition todo_codec_ok :: "todo_codec \<Rightarrow> bool" where
  "todo_codec_ok C \<longleftrightarrow> (\<forall>x bs. tc_ser_init C x = Some bs \<longrightarrow> tc_de_init C bs = Inr x)"

definition todo_view :: "todo \<Rightarrow> string \<times> string \<times> bool" where
  "todo_view t = (td_user_id t, td_task t, td_completed t)"

interpretation todo_macros: macro_host "todo_host C" f todo_view for C f
proof (unfold_locales, goal_cases)
  case (8 a b s env)
  then show ?case by (simp add: todo_host_def todo_stmt_def todo_view_def option.map_comp comp_def)
next
  case (9 s env a a')
  then show ?case
    by (auto simp: todo_host_def todo_stmt_def set_id_def same_but_id split: if_splits)
qed (simp_all add: todo_host_def todo_view_def)

lemma todo_typed_host:
  "todo_codec_ok C \<Longrightarrow> typed_host (todo_host C) f todo_view (\<lambda>v ty. ty = string_ty)"
proof (unfold_locales, goal_cases)
  case (1 vs tys bs)
  then obtain i u k where "vs = [i, u, k]" "tc_ser_init C (i, u, k) = Some bs"
    by (auto simp: todo_host_def split: list.splits)
  with 1 show ?case by (auto simp: todo_codec_ok_def todo_host_def list_all2_Cons1)
qed

text \<open>What \<open>#[sourced(entity)]\<close> makes of the block.\<close>

definition todo_infos :: "event_method_info list" where
  "todo_infos =
     [\<lparr>em_event_name = ''Initialized'', em_method_name = ''initialize'',
        em_params = [(''id'', string_ty), (''user_id'', string_ty), (''task'', string_ty)]\<rparr>,
      \<lparr>em_event_name = ''Completed'', em_method_name = ''complete'', em_params = []\<rparr>]"

definition todo_items :: "impl_item list" where
  "todo_items =
     [Item_Fn (todo_initialize_fn\<lparr>mf_attrs := [],
        mf_block := S_Digest ''entity'' ''Initialized'' (Args [''id'', ''user_id'', ''task''] False) # mf_block todo_initialize_fn\<rparr>),
      Item_Fn (todo_complete_fn\<lparr>mf_attrs := [],
        mf_block := [S_If not_completed (S_Digest_Empty ''entity'' ''Completed'' # mf_block todo_complete_fn)]\<rparr>)]"

definition todo_impl :: aggregate_impl where
  "todo_impl = \<lparr>gi_struct = ''Todo'', gi_entity_field = ''entity'',
     gi_replay_arms = [Arm_Decode ''Initialized'' [''id'', ''user_id'', ''task''] ''initialize'' [''id'', ''user_id'', ''task''],
       Arm_Call ''Completed'' ''complete''],
     gi_upcasters = []\<rparr>"

definition todo_out :: sourced_output where
  "todo_out = \<lparr>so_impl = todo_block\<lparr>ib_items := todo_items\<rparr>, so_enum_name = ''TodoEvent'',
     so_variants = [(''Initialized'', [(''id'', string_ty), (''user_id'', string_ty), (''task'', string_ty)]), (''Completed'', [])],
     so_event_names = [(''Initialized'', ''Initialized''), (''Completed'', ''Completed'')],
     so_try_from = [Try_Decode ''Initialized'' [''id'', ''user_id'', ''task''] ''Initialized'', Try_Unit ''Completed'' ''Completed''],
     so_aggregate = todo_impl\<rparr>"

definition entity_args :: sourced_args where
  "entity_args = \<lparr>sa_entity_field = ''entity'', sa_enum_name = None, sa_enqueue = None, sa_upcasters = []\<rparr>"

lemma todo_sourced_items: "sourced_items until_comma entity_args (ib_items todo_block) = Inr (todo_items, todo_infos)"
  by code_simp

lemma todo_expand_sourced:
  "p_all (parse_sourced_args until_comma) [TIdent ''entity''] = Inr entity_args"
  "expand_sourced until_comma until_comma (\<lambda>_. True) [TIdent ''entity''] todo_block = Inr todo_out"
  by code_simp+

lemma todo_block_ok: "block_ok (ib_items todo_block) todo_infos"
  by code_simp

lemma todo_method_named:
  "method_named todo_items ''initialize'' = Some (todo_initialize_fn\<lparr>mf_attrs := [],
     mf_block := S_Digest ''entity'' ''Initialized'' (Args [''id'', ''user_id'', ''task''] False) # mf_block todo_initialize_fn\<rparr>)"
  "method_named todo_items ''complete'' = Some (todo_complete_fn\<lparr>mf_attrs := [],
     mf_block := [S_If not_completed (S_Digest_Empty ''entity'' ''Completed'' # mf_block todo_complete_fn)]\<rparr>)"
  by (simp_all add: method_named_def todo_items_def List.map_filter_simps todo_initialize_fn_def todo_complete_fn_def)

lemma todo_stmts:
  "todo_stmt set_id_stmt env t = map_option (\<lambda>i. t\<lparr>td_entity := set_id i (td_entity t)\<rparr>) (map_of env (Pat_Ident ''id''))"
  "todo_stmt (assign_stmt ''user_id'' (TIdent ''user_id'')) env t =
     map_option (\<lambda>u. t\<lparr>td_user_id := u\<rparr>) (map_of env (Pat_Ident ''user_id''))"
  "todo_stmt (assign_stmt ''task'' (TIdent ''task'')) env t =
     map_option (\<lambda>k. t\<lparr>td_task := k\<rparr>) (map_of env (Pat_Ident ''task''))"
  "todo_stmt (assign_stmt ''completed'' (TOther ''true'')) env t = Some (t\<lparr>td_completed := True\<rparr>)"
  by (simp_all add: todo_stmt_def set_id_stmt_def assign_stmt_def self_field_def)

lemma todo_host_simps:
  "ho_entity (todo_host C) f t = td_entity t" "ho_set_entity (todo_host C) f e t = t\<lparr>td_entity := e\<rparr>"
  "ho_stmt (todo_host C) = todo_stmt" "ho_cond (todo_host C) not_completed env t = Some (\<not> td_completed t)"
  "digest (ho_encode (todo_host C)) now n (Tuple [i, u, k]) e = digest (tc_ser_init C) now n (i, u, k) e"
  "digest_empty (\<lambda>_. ho_encode (todo_host C) (Tuple [])) now n e = digest_empty (tc_ser_unit C) now n e"
  "ho_decode (todo_host C) [string_ty, string_ty, string_ty] bs = map_sum id (\<lambda>(i, u, k). [i, u, k]) (tc_de_init C bs)"
  by (simp_all add: todo_host_def digest_def digest_empty_def)

lemma todo_call_initialize:
  "call_method (todo_host C) now (todo_initialize_fn\<lparr>mf_attrs := [],
     mf_block := S_Digest ''entity'' ''Initialized'' (Args [''id'', ''user_id'', ''task''] False) # mf_block todo_initialize_fn\<rparr>)
     [i, u, k] = todo_initialize C now i u k"
proof
  fix t
  show "call_method (todo_host C) now (todo_initialize_fn\<lparr>mf_attrs := [],
     mf_block := S_Digest ''entity'' ''Initialized'' (Args [''id'', ''user_id'', ''task''] False) # mf_block todo_initialize_fn\<rparr>)
     [i, u, k] t = todo_initialize C now i u k t"
    by (cases "digest (tc_ser_init C) now ''Initialized'' (i, u, k) (td_entity t)")
      (simp_all add: call_method_def todo_initialize_fn_def todo_host_simps todo_stmts todo_initialize_def
        eval_args.simps env_values_def List.map_filter_simps)
qed

lemma todo_call_complete:
  "call_method (todo_host C) now (todo_complete_fn\<lparr>mf_attrs := [],
     mf_block := [S_If not_completed (S_Digest_Empty ''entity'' ''Completed'' # mf_block todo_complete_fn)]\<rparr>) [] =
     todo_complete C now"
proof
  fix t
  show "call_method (todo_host C) now (todo_complete_fn\<lparr>mf_attrs := [],
     mf_block := [S_If not_completed (S_Digest_Empty ''entity'' ''Completed'' # mf_block todo_complete_fn)]\<rparr>) [] t =
     todo_complete C now t"
    by (cases "digest_empty (tc_ser_unit C) now ''Completed'' (td_entity t)")
      (simp_all add: call_method_def todo_complete_fn_def todo_host_simps todo_stmts todo_complete_def)
qed

lemma todo_replay_generated: "replay_event (todo_host C) now todo_items todo_impl ev = todo_replay C now ev"
proof -
  have "infer_types (todo_initialize_fn\<lparr>mf_attrs := [],
      mf_block := S_Digest ''entity'' ''Initialized'' (Args [''id'', ''user_id'', ''task''] False) # mf_block todo_initialize_fn\<rparr>)
      [''id'', ''user_id'', ''task''] [''id'', ''user_id'', ''task''] = [string_ty, string_ty, string_ty]"
    by (simp add: infer_types_def todo_initialize_fn_def List.map_filter_simps)
  moreover have "env_values (zip (map Pat_Ident [''id'', ''user_id'', ''task'']) [i, u, k]) [''id'', ''user_id'', ''task''] = [i, u, k]"
    for i u k :: string by (simp add: env_values_def List.map_filter_simps)
  ultimately have "run_arm (todo_host C) now todo_items
      (Arm_Decode ''Initialized'' [''id'', ''user_id'', ''task''] ''initialize'' [''id'', ''user_id'', ''task'']) ev t =
    decode_then (tc_de_init C) (\<lambda>(i, u, k). todo_initialize C now i u k) ev t" for t
    by (cases "tc_de_init C (er_payload ev)")
      (auto simp: run_arm_def todo_method_named todo_call_initialize decode_then_def event_record_decode_def todo_host_simps)
  moreover have "run_arm (todo_host C) now todo_items (Arm_Call ''Completed'' ''complete'') ev = run_method (todo_complete C now)"
    by (simp add: run_arm_def todo_method_named todo_call_complete)
  ultimately show ?thesis
    by (cases "er_event_name ev = ''Initialized''"; cases "er_event_name ev = ''Completed''")
      (simp_all add: replay_event_def todo_impl_def todo_replay_def fun_eq_iff)
qed

text \<open>A codec of one list and one empty payload.\<close>

definition small_codec :: todo_codec where
  "small_codec =
     \<lparr>tc_ser_init = (\<lambda>x. if x = (''a'', ''u'', ''t'') then Some [1] else None),
      tc_de_init = (\<lambda>bs. if bs = [1] then Inr (''a'', ''u'', ''t'') else Inl ''no''), tc_ser_unit = (\<lambda>_. Some []),
      tc_ser_snap = (\<lambda>s. Inl ''no''), tc_de_snap = (\<lambda>bs. Inl ''no'')\<rparr>"

lemma small_codec_ok: "todo_codec_ok small_codec"
  by (auto simp: todo_codec_ok_def small_codec_def split: if_splits)

interpretation small_todo: typed_host "todo_host small_codec" f todo_view "\<lambda>v ty. ty = string_ty" for f
  by (rule todo_typed_host) (rule small_codec_ok)

abbreviation small_history :: "(system_time \<times> string \<times> string list) list" where
  "small_history \<equiv> [(1, ''initialize'', [''a'', ''u'', ''t'']), (2, ''complete'', []), (3, ''complete'', [])]"

lemma small_history_typed: "\<forall>c \<in> set small_history. well_typed (\<lambda>v ty. ty = string_ty) todo_infos c"
  by (simp add: well_typed_def todo_infos_def)

lemma small_history_run:
  "\<exists>t. run_methods (todo_host small_codec) (ib_items (so_impl todo_out)) small_history todo_new = Some t \<and>
     td_completed t \<and> td_task t = ''t'' \<and> en_id (td_entity t) = ''a'' \<and>
     map er_event_name (en_events (td_entity t)) = [''Initialized'', ''Completed''] \<and>
     en_committed_version (td_entity t) = 0 \<and> entity_wf (td_entity t)"
  by (simp add: todo_out_def todo_method_named todo_call_initialize todo_call_complete todo_initialize_def
      todo_complete_def digest_def digest_empty_def small_codec_def todo_new_def entity_default_def set_id_def
      push_record_def Let_def mapping_is_empty_iff entity_wf_def seq_ok_def len_u64_def)

lemma todo_no_upcasters:
  "\<forall>u \<in> set (generated_upcasters (todo_host C) (so_aggregate todo_out)).
     \<forall>ev \<in> set evs. \<not> upcaster_matches ev u"
  by (simp add: generated_upcasters_def todo_out_def todo_impl_def)

section \<open>Properties\<close>

text \<open>
  C2: A history is read back as the state it left.  The block is a \<open>#[sourced]\<close> block whose event
  methods have plain, distinct parameters and bodies of written statements, whose method names and
  event names are distinct, and whose payload codec reads back what it wrote.  Run any well-typed
  calls of the event methods on a new aggregate: guards may refuse a call, and local events may be
  queued.  If no upcaster of the block applies to an event the calls recorded (its methods record
  the newest versions; a method left behind at a version that an upcaster raises is not read back),
  then committing the aggregate to the in-memory repository under an id without events and reading
  it again, through the generated \<open>Aggregate\<close>, gives an aggregate with the same state as the one
  the calls left, and the same events.
\<close>

theorem sourced_commit_get:
  assumes "typed_host H (sa_entity_field args) view has_type"
    and "p_all (parse_sourced_args pl) attr = Inr args"
    and "\<forall>u \<in> set (generated_upcasters H (so_aggregate out)).
      \<forall>ev \<in> set (en_events (ho_entity H (sa_entity_field args) a)). \<not> upcaster_matches ev u"
    and "expand_sourced el pl ident_ok attr block = Inr out"
    and "sourced_items el args (ib_items block) = Inr (items', infos)" and "block_ok (ib_items block) infos"
    and "\<forall>c \<in> set cs. well_typed has_type infos c"
    and "run_methods H (ib_items (so_impl out)) cs a0 = Some a"
    and "\<not> en_replaying (ho_entity H (sa_entity_field args) a0)"
    and "en_events (ho_entity H (sa_entity_field args) a0) = []" and "view new_empty = view a0"
    and "hm_inv ord r" and "entity_wf (ho_entity H (sa_entity_field args) a)"
    and "en_committed_version (ho_entity H (sa_entity_field args) a) = 0"
    and "stream_of (hm_streams r) (en_id (ho_entity H (sa_entity_field args) a)) = []"
  shows "\<exists>r' a' c. let A = generated_aggregate H now new_empty (ib_items (so_impl out)) (so_aggregate out);
        e = ho_entity H (sa_entity_field args) a in
      ar_commit A (hashmap_repo t1 ord) (r, a) = (Ok (), r', a') \<and> view a' = view a \<and>
      ar_get A (hashmap_repo t2 ord) (en_id e) r' = (Ok (Some c), r') \<and> view c = view a \<and>
      en_events (ho_entity H (sa_entity_field args) c) = en_events e"
proof -
  let ?f = "sa_entity_field args" and ?A = "generated_aggregate H now new_empty (ib_items (so_impl out)) (so_aggregate out)"
  let ?e = "ho_entity H ?f a"
  note laws = assms(1) [THEN typed_host.axioms(1)]
  have A: "ag_entity ?A = ho_entity H ?f" "ag_set_entity ?A = ho_set_entity H ?f"
    using assms(2,4,5) by (auto simp: generated_aggregate_def expand_sourced_def Let_def split: option.splits if_splits)
  obtain c i where c: "hydrate ?A (entity_from t2 (en_id ?e) (en_events ?e)) = Ok c" "view c = view a"
    "ho_entity H ?f c = (entity_from t2 (en_id ?e) (en_events ?e))\<lparr>en_id := i, en_replaying := False\<rparr>"
    using sourced_history [OF assms(1-11), of "entity_from t2 (en_id ?e) (en_events ?e)" now] by auto
  have "current (hm_streams r) (ag_entity ?A a)" "stream_of (hm_streams r) (en_id (ag_entity ?A a)) =
      take (unat (en_committed_version (ag_entity ?A a))) (en_events (ag_entity ?A a))"
    using assms(14,15) by (simp_all add: A current_def)
  with ar_commit_then_get [OF assms(12), of ?A a t1 t2] assms(13) obtain r' where
    "ar_commit ?A (hashmap_repo t1 ord) (r, a) = (Ok (), r', ho_set_entity H ?f (mark_committed ?e) a)"
    "ar_get ?A (hashmap_repo t2 ord) (en_id ?e) r' = (Ok (Some c), r')"
    by (auto simp: A c(1))
  with c(2,3) show ?thesis
    by (auto simp: Let_def macro_host.view_entity [OF laws] intro!: exI)
qed

theorem sourced_commit_get_witness:
  "\<exists>t r' a' c. run_methods (todo_host small_codec) (ib_items (so_impl todo_out)) small_history todo_new = Some t \<and>
     (let A = generated_aggregate (todo_host small_codec) 9 todo_new (ib_items (so_impl todo_out)) (so_aggregate todo_out) in
      ar_commit A (hashmap_repo 4 Mapping.ordered_keys) (hm_repo_new, t) = (Ok (), r', a') \<and>
      ar_get A (hashmap_repo 5 Mapping.ordered_keys) ''a'' r' = (Ok (Some c), r') \<and> td_completed c \<and> td_task c = ''t'')"
proof -
  obtain t where t: "run_methods (todo_host small_codec) (ib_items (so_impl todo_out)) small_history todo_new = Some t"
    "td_completed t" "td_task t = ''t''" "en_id (td_entity t) = ''a''" "en_committed_version (td_entity t) = 0"
    "entity_wf (td_entity t)"
    using small_history_run by blast
  note host = todo_typed_host [OF small_codec_ok, of "''entity''"] and simps = entity_args_def todo_host_simps
  show ?thesis
    using sourced_commit_get [where view = todo_view and now = 9 and ?t1.0 = 4 and ?t2.0 = 5,
        OF _ todo_expand_sourced(1) todo_no_upcasters todo_expand_sourced(2) todo_sourced_items todo_block_ok
        small_history_typed t(1) _ _ refl hm_inv_ordered_new] host t
    by (auto simp: simps todo_new_def entity_default_def stream_of_def todo_view_def Let_def)
qed

text \<open>
  C33: What a method with \<open>#[event]\<close> does, its parameters being plain, distinct names.  When its
  guard is false the call does nothing, and when the guard panics the call panics.  Otherwise, during
  a replay it runs its body and nothing else; outside a replay it queues the local event, records one
  event with the tuple of its arguments, numbered one past the events the entity holds, and runs its
  body, or panics when the arguments cannot be encoded.
\<close>

theorem sourced_method_effect:
  assumes "macro_host H (sa_entity_field args) view" and "named_params func"
    and "length vs = length (extract_param_names (mf_inputs func))"
  shows "let e = ho_entity H (sa_entity_field args) a; env = method_env func vs;
      outcome = call_method H now (fst (expand_event_method args ev func)) vs a;
      body = exec_block H now env (mf_block func);
      passes = (case ev_guard ev of None \<Rightarrow> Some True | Some c \<Rightarrow> ho_cond H c env a) in
    (case passes of
       None \<Rightarrow> outcome = None
     | Some False \<Rightarrow> outcome = Some a
     | Some True \<Rightarrow>
         if en_replaying e then outcome = body a
         else (case ho_encode H (Tuple vs) of
             None \<Rightarrow> outcome = None
           | Some bs \<Rightarrow>
               outcome = body (ho_set_entity H (sa_entity_field args)
                 (push_record (event_record_new_versioned (ev_event_name ev) bs (len_u64 (en_events e) + 1)
                    (case ev_version ev of None \<Rightarrow> 1 | Some v \<Rightarrow> v) now) now e)
                 (queue_event H args (ev_event_name ev) vs a))))"
proof -
  let ?e = "ho_entity H (sa_entity_field args) a" and ?env = "method_env func vs"
  note call = call_event_method [OF assms(2,3), of H now args ev a]
  show ?thesis
  proof (cases "en_replaying ?e")
    case True
    with macro_host.record_replaying [OF assms(1) refl this] show ?thesis
      by (auto simp: call guarded_def Let_def split: option.split bool.split)
  next
    case False
    with macro_host.record_live [OF assms(1) refl this] show ?thesis
      by (auto simp: call guarded_def Let_def split: option.split bool.split)
  qed
qed

theorem sourced_method_effect_witness:
  "call_method (todo_host small_codec) 7
     (fst (expand_event_method entity_args \<lparr>ev_event_name = ''Completed'', ev_guard = Some not_completed, ev_version = None\<rparr>
        (todo_complete_fn\<lparr>mf_attrs := []\<rparr>))) [] (todo_new\<lparr>td_completed := True\<rparr>) = Some (todo_new\<lparr>td_completed := True\<rparr>)"
proof -
  have "named_params (todo_complete_fn\<lparr>mf_attrs := []\<rparr>)"
    "length ([] :: string list) = length (extract_param_names (mf_inputs (todo_complete_fn\<lparr>mf_attrs := []\<rparr>)))"
    by (simp_all add: named_params_def todo_complete_fn_def)
  from sourced_method_effect [OF todo_macros.macro_host_axioms [of small_codec] this,
      where a = "todo_new\<lparr>td_completed := True\<rparr>" and now = 7 and args = entity_args and
        ev = "\<lparr>ev_event_name = ''Completed'', ev_guard = Some not_completed, ev_version = None\<rparr>"]
  show ?thesis by (simp add: todo_host_simps Let_def)
qed

text \<open>What the parts of the expansion say of a known event.\<close>

lemma event_param_names:
  assumes "sourced_items el args items = Inr (items', infos)" and "block_ok items infos" and "info \<in> set infos"
  shows "distinct (map fst (em_params info))"
proof -
  obtain func ev0 attrs' where func: "Item_Fn func \<in> set items"
    "find_and_remove_event_attr el (mf_attrs func) = (Inr (Some ev0), attrs')"
    "em_params info = extract_params_with_types (mf_inputs func)"
    using items_expand_info [OF sourced_items_expand [OF assms(1)] assms(3)] by auto
  have "event_method func" using find_and_remove_Some [OF func(2)] by (auto simp: event_method_def)
  with assms(2) func show ?thesis
    by (auto simp: block_ok_def set_item_fns named_params_def param_names_with_types)
qed

lemma run_try_arm_decodes:
  assumes "typed_host H field view has_type" and "distinct (map em_event_name infos)" and "info \<in> set infos"
    and "distinct (map fst (em_params info))" and "list_all2 has_type vs (map snd (em_params info))"
    and "ho_encode H (Tuple vs) = Some (er_payload ev)" and "er_event_name ev = em_event_name info"
  shows "run_try_arm H (enum_variants infos) (try_from_arm_of info) ev =
    Ok (em_event_name info, zip (map fst (em_params info)) vs)"
proof (cases "em_params info = []")
  case True
  with assms(5,7) show ?thesis by (simp add: try_from_arm_of_def run_try_arm_def)
next
  case False
  have variant: "map_of (enum_variants infos) (em_event_name info) = Some (em_params info)"
    using assms(2,3) by (intro map_of_is_SomeI) (auto simp: enum_variants_def comp_def)
  have "try_from_arm_of info = Try_Decode (em_event_name info) (map fst (em_params info)) (em_event_name info)"
    using False by (cases "em_params info" rule: remdups_adj.cases) (simp_all add: try_from_arm_of_def)
  moreover have "List.map_filter (map_of (em_params info)) (map fst (em_params info)) = map snd (em_params info)"
    using map_filter_zip [of "map snd (em_params info)" "map fst (em_params info)" id] assms(4)
    by (simp add: zip_map_fst_snd)
  moreover have "vs \<noteq> []" using False assms(5) by auto
  then have "ho_decode H (map snd (em_params info)) (er_payload ev) = Inr vs"
    using typed_host.decode_encode [OF assms(1) _ assms(5,6)] by simp
  ultimately show ?thesis by (simp add: run_try_arm_def variant event_record_decode_def)
qed

text \<open>
  C34: The event enum.  An event that an event method recorded converts to the variant of its name,
  with the arguments of the call as its fields, and \<open>event_name\<close> of that value is the name
  again; an event of any other name is refused.
\<close>

theorem sourced_try_from:
  assumes "typed_host H (sa_entity_field args) view has_type"
    and "p_all (parse_sourced_args pl) attr = Inr args"
    and "expand_sourced el pl ident_ok attr block = Inr out"
    and "sourced_items el args (ib_items block) = Inr (items', infos)" and "block_ok (ib_items block) infos"
  shows "(\<forall>info vs ev. info \<in> set infos \<and> list_all2 has_type vs (map snd (em_params info)) \<and>
      er_event_name ev = em_event_name info \<and> ho_encode H (Tuple vs) = Some (er_payload ev) \<longrightarrow>
      try_from_event H out ev = Ok (em_event_name info, zip (map fst (em_params info)) vs) \<and>
      event_value_name out (em_event_name info, zip (map fst (em_params info)) vs) = Some (er_event_name ev)) \<and>
    (\<forall>ev. er_event_name ev \<notin> em_event_name ` set infos \<longrightarrow>
      try_from_event H out ev = Err (''Unknown event: '' @ er_event_name ev))"
proof (intro conjI allI impI)
  have out: "so_try_from out = map try_from_arm_of infos" "so_variants out = enum_variants infos"
    "so_event_names out = event_name_arms infos"
    using assms(2-4) by (auto simp: expand_sourced_def Let_def split: option.splits if_splits)
  have distinct: "distinct (map em_event_name infos)" using assms(5) by (simp add: block_ok_def)
  {
    fix info vs and ev :: event_record
    assume known: "info \<in> set infos \<and> list_all2 has_type vs (map snd (em_params info)) \<and>
      er_event_name ev = em_event_name info \<and> ho_encode H (Tuple vs) = Some (er_payload ev)"
    then have "find (\<lambda>arm. try_event arm = er_event_name ev) (map try_from_arm_of infos) = Some (try_from_arm_of info)"
      using find_distinct [of "try_from_arm_of info" "map try_from_arm_of infos" try_event] distinct
      by (simp add: comp_def)
    with known run_try_arm_decodes [OF assms(1) distinct] event_param_names [OF assms(4,5)]
    show "try_from_event H out ev = Ok (em_event_name info, zip (map fst (em_params info)) vs)"
      by (simp add: try_from_event_def out)
    from known distinct
    show "event_value_name out (em_event_name info, zip (map fst (em_params info)) vs) = Some (er_event_name ev)"
      by (auto simp: event_value_name_def out event_name_arms_def comp_def intro!: map_of_is_SomeI)
  next
    fix ev :: event_record
    assume "er_event_name ev \<notin> em_event_name ` set infos"
    then have "find (\<lambda>arm. try_event arm = er_event_name ev) (map try_from_arm_of infos) = None"
      by (auto simp: find_None_iff image_iff dest: sym)
    then show "try_from_event H out ev = Err (''Unknown event: '' @ er_event_name ev)"
      by (simp add: try_from_event_def out)
  }
qed

theorem sourced_try_from_witness:
  "try_from_event (todo_host small_codec) todo_out (event_record_new ''Initialized'' [1] 1 5) =
     Ok (''Initialized'', [(''id'', ''a''), (''user_id'', ''u''), (''task'', ''t'')]) \<and>
   try_from_event (todo_host small_codec) todo_out (event_record_new ''Deleted'' [] 2 6) = Err ''Unknown event: Deleted''"
proof -
  note S = sourced_try_from [OF small_todo.typed_host_axioms todo_expand_sourced todo_sourced_items todo_block_ok]
  have "ho_encode (todo_host small_codec) (Tuple [''a'', ''u'', ''t'']) = Some [1]"
    by (simp add: todo_host_def small_codec_def)
  with S [THEN conjunct1, rule_format, of "hd todo_infos" "[''a'', ''u'', ''t'']" "event_record_new ''Initialized'' [1] 1 5"]
    S [THEN conjunct2, rule_format, of "event_record_new ''Deleted'' [] 2 6"]
  show ?thesis by (simp add: todo_infos_def)
qed

section \<open>\<open>#[sourced]\<close> against \<open>#[digest]\<close> and \<open>aggregate!\<close>\<close>

lemma event_args_are_digest_args:
  assumes "p_all (parse_event_args el) ts = Inr ev"
  shows "p_all (parse_digest_args el) (TIdent f # TPunct '','' # ts) =
    Inr \<lparr>da_entity_field = f, da_event_name = ev_event_name ev, da_guard = ev_guard ev, da_version = ev_version ev\<rparr>"
proof (cases ts rule: p_lit_str.cases)
  case (1 name rest)
  with assms show ?thesis
    by (auto simp: p_all_def parse_event_args_def parse_digest_args_def field_and_name_def parse_simps
        split: sum.splits prod.splits list.splits)
qed (use assms in \<open>simp_all add: p_all_def parse_event_args_def parse_simps\<close>)

lemma expand_digest_event:
  assumes "p_all (parse_event_args el) ts = Inr ev" and "sa_enqueue args = None"
  shows "expand_digest el (TIdent (sa_entity_field args) # TPunct '','' # ts) func = Inr (fst (expand_event_method args ev func))"
  by (simp add: expand_digest_def event_args_are_digest_args [OF assms(1)] expand_event_method_def assms(2)
      param_names_with_types Let_def)

lemma items_expand_item:
  "items_expand el args items items' infos \<Longrightarrow> item \<in> set items \<Longrightarrow>
     \<exists>item' part. item_expands el args item item' part \<and> item' \<in> set items'"
  by (induction rule: items_expand.induct) auto

lemma find_and_remove_None: "find_and_remove_event_attr el attrs = (Inr None, attrs') \<Longrightarrow> \<forall>a \<in> set attrs. at_path a \<noteq> ''event''"
  by (auto simp: find_and_remove_event_attr_def Let_def dropWhile_eq_Nil_conv split: list.splits option.splits sum.splits)

text \<open>The entry of \<open>aggregate!\<close> for an event method.\<close>

definition event_def_of :: "event_method_info \<Rightarrow> event_def" where
  "event_def_of info = \<lparr>ed_event_name = em_event_name info, ed_args = map fst (em_params info),
     ed_method_name = em_method_name info, ed_method_args = None\<rparr>"

lemma aggregate_arm_sourced: "aggregate_arm (event_def_of info) = sourced_arm info"
  by (cases "em_params info") (auto simp: aggregate_arm_def event_def_of_def sourced_arm_def Let_def)

text \<open>
  C35: \<open>#[sourced]\<close> is \<open>#[digest]\<close> with \<open>aggregate!\<close>.  Without \<open>enqueue\<close>, the expansion of a block gives
  each event method the body that \<open>#[digest]\<close>, with the entity field and the arguments of
  \<open>#[event]\<close>, gives it, and the implementation of \<open>Aggregate\<close> that \<open>aggregate!\<close> generates from the
  list of the events with the parameter names of their methods, the upcasters included.
\<close>

theorem sourced_is_digest_and_aggregate:
  assumes "expand_sourced el pl ident_ok attr block = Inr out" and "p_all (parse_sourced_args pl) attr = Inr args"
    and "sourced_items el args (ib_items block) = Inr (items', infos)" and "sa_enqueue args = None"
    and "\<forall>u \<in> set (sa_upcasters args). reads pl (ud_transform_fn u)"
  shows "expand_aggregate pl (print_aggregate_input
      \<lparr>ai_agg_name = gi_struct (so_aggregate out), ai_entity_field = sa_entity_field args,
        ai_events = map event_def_of infos, ai_upcasters = sa_upcasters args\<rparr>) = Inr (so_aggregate out) \<and>
    (\<forall>func. Item_Fn func \<in> set (ib_items block) \<and> event_method func \<longrightarrow>
      (\<exists>a \<in> set (mf_attrs func). \<exists>ts func'. at_path a = ''event'' \<and> at_args a = Some ts \<and>
        expand_digest el (TIdent (sa_entity_field args) # TPunct '','' # ts)
          (func\<lparr>mf_attrs := snd (find_and_remove_event_attr el (mf_attrs func))\<rparr>) = Inr func' \<and>
        Item_Fn func' \<in> set (ib_items (so_impl out))))"
proof (intro conjI allI impI)
  have out: "ib_items (so_impl out) = items'" "gi_entity_field (so_aggregate out) = sa_entity_field args"
    "gi_replay_arms (so_aggregate out) = map sourced_arm infos" "gi_upcasters (so_aggregate out) = sa_upcasters args"
    using assms(1-3) by (auto simp: expand_sourced_def Let_def split: option.splits if_splits)
  show "expand_aggregate pl (print_aggregate_input
      \<lparr>ai_agg_name = gi_struct (so_aggregate out), ai_entity_field = sa_entity_field args,
        ai_events = map event_def_of infos, ai_upcasters = sa_upcasters args\<rparr>) = Inr (so_aggregate out)"
    using out by (cases "so_aggregate out")
      (simp add: expand_aggregate_def aggregate_input_print assms(5) aggregate_arm_sourced comp_def)
  fix func
  assume "Item_Fn func \<in> set (ib_items block) \<and> event_method func"
  then have func: "Item_Fn func \<in> set (ib_items block)" and event: "event_method func" by auto
  obtain item' part where "item_expands el args (Item_Fn func) item' part" and in': "item' \<in> set items'"
    using items_expand_item [OF sourced_items_expand [OF assms(3)] func] by blast
  then obtain ev attrs' where ev: "find_and_remove_event_attr el (mf_attrs func) = (Inr (Some ev), attrs')"
    and item': "item' = Item_Fn (fst (expand_event_method args ev (func\<lparr>mf_attrs := attrs'\<rparr>)))"
    using event find_and_remove_None by (cases rule: item_expands.cases) (auto simp: event_method_def)
  from find_and_remove_Some [OF ev] obtain a ts where "a \<in> set (mf_attrs func)" "at_path a = ''event''"
    "at_args a = Some ts" "p_all (parse_event_args el) ts = Inr ev" by blast
  with expand_digest_event [OF _ assms(4)] ev in' item' out(1)
  show "\<exists>a \<in> set (mf_attrs func). \<exists>ts func'. at_path a = ''event'' \<and> at_args a = Some ts \<and>
      expand_digest el (TIdent (sa_entity_field args) # TPunct '','' # ts)
        (func\<lparr>mf_attrs := snd (find_and_remove_event_attr el (mf_attrs func))\<rparr>) = Inr func' \<and>
      Item_Fn func' \<in> set (ib_items (so_impl out))" by fastforce
qed

theorem sourced_is_digest_and_aggregate_witness:
  "expand_aggregate until_comma (print_aggregate_input
     \<lparr>ai_agg_name = ''Todo'', ai_entity_field = ''entity'', ai_events = map event_def_of todo_infos, ai_upcasters = []\<rparr>) =
     Inr todo_impl"
  using sourced_is_digest_and_aggregate [OF todo_expand_sourced(2,1) todo_sourced_items]
  by (simp add: entity_args_def todo_out_def todo_impl_def)

end
