(* ===== verification/Derive.thy ===== *)
theory Derive
  imports Macros Snapshot Read_Model
begin

text \<open>
  The derive macros \<open>Snapshot\<close> (\<open>sourced_rust_macros/src/snapshot.rs\<close>) and \<open>ReadModel\<close>
  (\<open>read_model.rs\<close>): the code they generate for a struct, and what it does.  A panic of a macro, or
  an identifier that \<open>format_ident!\<close> refuses (\<open>ident_ok\<close>), is a failed compilation (\<open>Inl\<close>).
  Characters are those of ASCII.
\<close>

section \<open>Structs and their attributes\<close>

record field =
  fd_ident :: string
  fd_ty :: ty
  fd_attrs :: "attribute list"

datatype fields = Named_Fields "field list" | Other_Fields

datatype item_data = Data_Struct fields | Data_Other

record derive_input =
  di_ident :: string
  di_attrs :: "attribute list"
  di_data :: item_data

text \<open>
  \<open>parse_nested_meta\<close> as documented: the closure gets each name, with the tokens after it, and
  takes the value it wants; then the list ends or goes on after a comma.  The callers ignore its
  result, so an error only ends the walk.  Each round reads a name, so the number of tokens
  bounds the rounds.
\<close>

type_synonym 's meta_closure = "string \<Rightarrow> 's \<Rightarrow> 's parser"

fun nested_meta :: "'s meta_closure \<Rightarrow> nat \<Rightarrow> tt list \<Rightarrow> 's \<Rightarrow> 's" where
  "nested_meta closure 0 ts s = s"
| "nested_meta closure (Suc n) ts s =
     (case p_ident ts of
        Inl err \<Rightarrow> s
      | Inr (name, ts1) \<Rightarrow>
          (case closure name s ts1 of
             Inl err \<Rightarrow> s
           | Inr (s', ts2) \<Rightarrow>
               (if ts2 = [] then s'
                else if peek_punct '','' ts2 then nested_meta closure n (tl ts2) s' else s')))"

definition attr_metas :: "'s meta_closure \<Rightarrow> attribute \<Rightarrow> 's \<Rightarrow> 's" where
  "attr_metas closure attr s =
     (case at_args attr of None \<Rightarrow> s | Some ts \<Rightarrow> nested_meta closure (length ts) ts s)"

section \<open>\<open>derive(Snapshot)\<close>\<close>

definition snapshot_meta :: "(string \<times> string option) meta_closure" where
  "snapshot_meta name s =
     (if name = ''entity'' then p_bind (p_value p_lit_str) (\<lambda>v. p_return (v, snd s))
      else if name = ''id'' then p_bind (p_value p_lit_str) (\<lambda>v. p_return (fst s, Some v))
      else p_return s)"

definition parse_struct_attrs :: "derive_input \<Rightarrow> string \<times> string option" where
  "parse_struct_attrs input =
     fold (\<lambda>attr s. if at_path attr \<noteq> ''snapshot'' then s else attr_metas snapshot_meta attr s)
       (di_attrs input) (''entity'', None)"

definition skip_meta :: "bool meta_closure" where
  "skip_meta name s = p_return (if name = ''skip'' then True else s)"

fun has_serde_skip :: "attribute list \<Rightarrow> bool" where
  "has_serde_skip [] = False"
| "has_serde_skip (attr # attrs) =
     (if at_path attr \<noteq> ''serde'' then has_serde_skip attrs
      else if attr_metas skip_meta attr False then True
      else has_serde_skip attrs)"

text \<open>The value of a field of the snapshot: the id of the entity, or the field of the struct.\<close>

datatype field_source = Entity_Id | Own_Field string

record snapshot_impl =
  sn_snapshot_name :: string
  sn_entity_field :: string
  sn_struct_fields :: "(string \<times> ty) list"
  sn_assignments :: "(string \<times> field_source) list"
  sn_id_field :: string
  sn_restore :: "string list"

fun snapshot_fields :: "string \<Rightarrow> field list \<Rightarrow> (string \<times> ty) list" where
  "snapshot_fields entity_field [] = []"
| "snapshot_fields entity_field (fd # fds) =
     (if fd_ident fd = entity_field then snapshot_fields entity_field fds
      else if has_serde_skip (fd_attrs fd) then snapshot_fields entity_field fds
      else (fd_ident fd, fd_ty fd) # snapshot_fields entity_field fds)"

definition derive_snapshot :: "(string \<Rightarrow> bool) \<Rightarrow> derive_input \<Rightarrow> string + snapshot_impl" where
  "derive_snapshot ident_ok input =
     (case parse_struct_attrs input of (entity_field, custom_id) \<Rightarrow>
      if \<not> ident_ok entity_field then Inl ''not a valid identifier''
      else case di_data input of
        Data_Other \<Rightarrow> Inl ''Snapshot derive only supports structs''
      | Data_Struct Other_Fields \<Rightarrow> Inl ''Snapshot derive only supports structs with named fields''
      | Data_Struct (Named_Fields fds) \<Rightarrow>
          (let snap_fields = snapshot_fields entity_field fds;
               has_custom_id = (custom_id \<noteq> None);
               id_field_name = (case custom_id of Some s \<Rightarrow> s | None \<Rightarrow> ''id'');
               id_already_in_fields = (id_field_name \<in> set (map fst snap_fields));
               struct_field_defs =
                 (if has_custom_id \<or> id_already_in_fields then snap_fields
                  else (''id'', [TIdent ''String'']) # snap_fields);
               field_assignments =
                 (if has_custom_id \<or> id_already_in_fields then map (\<lambda>(n, t). (n, Own_Field n)) snap_fields
                  else (''id'', Entity_Id) # map (\<lambda>(n, t). (n, Own_Field n)) snap_fields);
               restore_assignments = map fst snap_fields
           in if \<not> ident_ok id_field_name then Inl ''not a valid identifier''
              else Inr \<lparr>sn_snapshot_name = di_ident input @ ''Snapshot'', sn_entity_field = entity_field,
                sn_struct_fields = struct_field_defs, sn_assignments = field_assignments,
                sn_id_field = id_field_name, sn_restore = restore_assignments\<rparr>))"

text \<open>
  The struct the macro is used on: its fields by name, its entity, and the string type; a snapshot
  is its fields by name.  \<open>None\<close> stands for generated code that does not compile: a field that is
  missing, or an id field that is no string.
\<close>

record ('a, 'v) struct_host =
  sh_get :: "string \<Rightarrow> 'a \<Rightarrow> 'v"
  sh_set :: "string \<Rightarrow> 'v \<Rightarrow> 'a \<Rightarrow> 'a"
  sh_entity :: "'a \<Rightarrow> entity"
  sh_set_entity :: "entity \<Rightarrow> 'a \<Rightarrow> 'a"
  sh_of_string :: "string \<Rightarrow> 'v"
  sh_to_string :: "'v \<Rightarrow> string option"

type_synonym 'v snapshot_value = "(string \<times> 'v) list"

definition generated_snapshot :: "('a, 'v) struct_host \<Rightarrow> snapshot_impl \<Rightarrow> 'a \<Rightarrow> 'v snapshot_value" where
  "generated_snapshot H impl a =
     map (\<lambda>(n, src). (n, case src of Entity_Id \<Rightarrow> sh_of_string H (en_id (sh_entity H a)) | Own_Field x \<Rightarrow> sh_get H x a))
       (sn_assignments impl)"

fun restore_fields :: "('a, 'v) struct_host \<Rightarrow> string list \<Rightarrow> 'v snapshot_value \<Rightarrow> 'a \<Rightarrow> 'a option" where
  "restore_fields H [] snap a = Some a"
| "restore_fields H (n # ns) snap a =
     (case map_of snap n of
        None \<Rightarrow> None
      | Some v \<Rightarrow> restore_fields H ns snap (sh_set H n v a))"

definition generated_restore :: "('a, 'v) struct_host \<Rightarrow> snapshot_impl \<Rightarrow> 'v snapshot_value \<Rightarrow> 'a \<Rightarrow> 'a option" where
  "generated_restore H impl snap a =
     (case Option.bind (map_of snap (sn_id_field impl)) (sh_to_string H) of
        None \<Rightarrow> None
      | Some id_value \<Rightarrow>
          map_option (\<lambda>a'. sh_set_entity H (set_id id_value (sh_entity H a')) a')
            (restore_fields H (sn_restore impl) snap a))"

section \<open>\<open>derive(ReadModel)\<close>\<close>

definition is_uppercase :: "char \<Rightarrow> bool" where
  "is_uppercase c \<longleftrightarrow> CHR ''A'' \<le> c \<and> c \<le> CHR ''Z''"

definition to_lowercase :: "char \<Rightarrow> char" where
  "to_lowercase c = (if is_uppercase c then char_of (of_char c + 32 :: nat) else c)"

fun snake_loop :: "nat \<Rightarrow> string \<Rightarrow> string" where
  "snake_loop i [] = []"
| "snake_loop i (ch # s) =
     (if is_uppercase ch
      then (if i > 0 then ''_'' else []) @ [to_lowercase ch]
      else [ch]) @ snake_loop (i + 1) s"

definition to_snake_case :: "string \<Rightarrow> string" where
  "to_snake_case s = snake_loop 0 s"

definition collection_meta :: "string option meta_closure" where
  "collection_meta name s =
     (if name = ''collection'' then p_bind (p_value p_lit_str) (\<lambda>v. p_return (Some v)) else p_return s)"

fun collection_attr :: "attribute list \<Rightarrow> string option" where
  "collection_attr [] = None"
| "collection_attr (attr # attrs) =
     (if at_path attr \<noteq> ''readmodel'' then collection_attr attrs
      else case attr_metas collection_meta attr None of
        Some c \<Rightarrow> Some c
      | None \<Rightarrow> collection_attr attrs)"

definition extract_collection :: "derive_input \<Rightarrow> string" where
  "extract_collection input =
     (case collection_attr (di_attrs input) of
        Some c \<Rightarrow> c
      | None \<Rightarrow> to_snake_case (di_ident input) @ ''s'')"

definition id_meta :: "bool meta_closure" where
  "id_meta name s = p_return (if name = ''id'' then True else s)"

definition marked_id :: "field \<Rightarrow> bool" where
  "marked_id fd \<longleftrightarrow>
     (\<exists>attr \<in> set (fd_attrs fd). at_path attr = ''readmodel'' \<and> attr_metas id_meta attr False)"

definition extract_id_field :: "derive_input \<Rightarrow> string + string" where
  "extract_id_field input =
     (let none = Inl ''ReadModel derive: no field marked with #[readmodel(id)] and no field named `id`'' in
      case di_data input of
        Data_Struct (Named_Fields fds) \<Rightarrow>
          (case find marked_id fds of
             Some fd \<Rightarrow> Inr (fd_ident fd)
           | None \<Rightarrow>
               (case find (\<lambda>fd. fd_ident fd = ''id'') fds of
                  Some fd \<Rightarrow> Inr (fd_ident fd)
                | None \<Rightarrow> none))
      | _ \<Rightarrow> none)"

record read_model_impl =
  ri_collection :: string
  ri_id_field :: string

definition derive_read_model :: "derive_input \<Rightarrow> string + read_model_impl" where
  "derive_read_model input =
     (let collection = extract_collection input in
      case extract_id_field input of
        Inl err \<Rightarrow> Inl err
      | Inr id_field \<Rightarrow> Inr \<lparr>ri_collection = collection, ri_id_field = id_field\<rparr>)"

text \<open>The generated implementation on a type whose fields are texts by name.\<close>

definition generated_read_model ::
    "(string \<Rightarrow> 'm \<Rightarrow> string) \<Rightarrow> ('m \<Rightarrow> string + bytes) \<Rightarrow> (bytes \<Rightarrow> string + 'm) \<Rightarrow>
     read_model_impl \<Rightarrow> 'm read_model" where
  "generated_read_model get to_vec from_slice impl =
     \<lparr>md_collection = ri_collection impl, md_id = get (ri_id_field impl),
      md_to_vec = to_vec, md_from_slice = from_slice\<rparr>"

section \<open>What a snapshot keeps\<close>

text \<open>
  The fields \<open>F\<close> of a struct are independent of each other and of the entity; a field is set to
  values of its type, those it has in some struct.
\<close>

locale struct_laws =
  fixes H :: "('a, 'v) struct_host" and F :: "string set"
  assumes get_set: "n \<in> F \<Longrightarrow> 
      sh_get H m (sh_set H n (sh_get H n a') a) = (if m = n then sh_get H n a' else sh_get H m a)"
    and get_entity: "sh_get H n (sh_set_entity H e a) = sh_get H n a"
    and entity_set: "sh_entity H (sh_set H n v a) = sh_entity H a"
    and entity_entity: "sh_entity H (sh_set_entity H e a) = e"
    and string: "sh_to_string H (sh_of_string H s) = Some s"
begin

lemma restore_fields_spec:
  assumes "set ns \<subseteq> F" and "\<forall>n \<in> set ns. map_of snap n = Some (sh_get H n b)"
  shows "\<exists>a'. restore_fields H ns snap a = Some a' \<and> sh_entity H a' = sh_entity H a \<and>
    (\<forall>m. sh_get H m a' = (if m \<in> set ns then sh_get H m b else sh_get H m a))"
  using assms
proof (induction ns arbitrary: a)
  case (Cons n ns)
  then obtain a' where "restore_fields H ns snap (sh_set H n (sh_get H n b) a) = Some a'"
    "sh_entity H a' = sh_entity H (sh_set H n (sh_get H n b) a)"
    "\<forall>m. sh_get H m a' = (if m \<in> set ns then sh_get H m b else sh_get H m (sh_set H n (sh_get H n b) a))"
    by fastforce
  with Cons.prems show ?case by (auto simp: get_set entity_set)
qed simp

end

text \<open>The id that a restored snapshot of \<open>a\<close> gives to the entity.\<close>

definition snapshot_id :: "('a, 'v) struct_host \<Rightarrow> snapshot_impl \<Rightarrow> 'a \<Rightarrow> string option" where
  "snapshot_id H impl a =
     (if (''id'', Entity_Id) \<in> set (sn_assignments impl) then Some (en_id (sh_entity H a))
      else if sn_id_field impl \<in> set (sn_restore impl) then sh_to_string H (sh_get H (sn_id_field impl) a)
      else None)"

abbreviation own_fields :: "(string \<times> ty) list \<Rightarrow> (string \<times> field_source) list" where
  "own_fields fs \<equiv> map (\<lambda>(n, t). (n, Own_Field n)) fs"

lemma derive_snapshot_shape:
  assumes "derive_snapshot ident_ok input = Inr impl"
  shows "\<exists>fs. sn_restore impl = map fst fs \<and>
    (sn_assignments impl = (''id'', Entity_Id) # own_fields fs \<and> sn_id_field impl = ''id'' \<and> ''id'' \<notin> set (map fst fs) \<or>
     sn_assignments impl = own_fields fs)"
proof -
  obtain entity_field custom_id where attrs: "parse_struct_attrs input = (entity_field, custom_id)" by fastforce
  with assms obtain fds where "di_data input = Data_Struct (Named_Fields fds)"
    by (auto simp: derive_snapshot_def split: item_data.splits fields.splits if_splits)
  with assms attrs show ?thesis
    by (intro exI [of _ "snapshot_fields entity_field fds"])
      (auto simp: derive_snapshot_def Let_def split: if_splits option.splits)
qed

lemma generated_snapshot_fields:
  "sn_assignments impl = own_fields fs \<Longrightarrow>
     generated_snapshot H impl a = map (\<lambda>(n, t). (n, sh_get H n a)) fs"
  "sn_assignments impl = (''id'', Entity_Id) # own_fields fs \<Longrightarrow>
     generated_snapshot H impl a =
       (''id'', sh_of_string H (en_id (sh_entity H a))) # map (\<lambda>(n, t). (n, sh_get H n a)) fs"
  by (simp_all add: generated_snapshot_def split_beta comp_def)

lemma map_of_own_fields: "n \<in> set (map fst fs) \<Longrightarrow> map_of (map (\<lambda>(n, t). (n, h n)) fs) n = Some (h n)"
  by (induction fs) auto

lemma generated_snapshot_lookup:
  assumes "derive_snapshot ident_ok input = Inr impl" and "n \<in> set (sn_restore impl)"
  shows "map_of (generated_snapshot H impl a) n = Some (sh_get H n a)"
proof -
  from derive_snapshot_shape [OF assms(1)] obtain fs where fs: "sn_restore impl = map fst fs"
    "sn_assignments impl = (''id'', Entity_Id) # own_fields fs \<and> ''id'' \<notin> set (map fst fs) \<or>
     sn_assignments impl = own_fields fs" by blast
  with assms(2) have n: "n \<in> set (map fst fs)" by simp
  from fs(2) n show ?thesis
  proof (elim disjE conjE)
    assume "sn_assignments impl = (''id'', Entity_Id) # own_fields fs" and "''id'' \<notin> set (map fst fs)"
    moreover from this(2) n have "n \<noteq> ''id''" by metis
    ultimately show ?thesis using map_of_own_fields [OF n] by (simp add: generated_snapshot_fields(2))
  next
    assume "sn_assignments impl = own_fields fs"
    then show ?thesis using map_of_own_fields [OF n] by (simp add: generated_snapshot_fields(1))
  qed
qed

lemma generated_snapshot_id:
  assumes "struct_laws H F" and "derive_snapshot ident_ok input = Inr impl" and "snapshot_id H impl a = Some i"
  shows "Option.bind (map_of (generated_snapshot H impl a) (sn_id_field impl)) (sh_to_string H) = Some i"
proof (cases "(''id'', Entity_Id) \<in> set (sn_assignments impl)")
  case True
  then have "sn_id_field impl = ''id''"
    "map_of (generated_snapshot H impl a) ''id'' = Some (sh_of_string H (en_id (sh_entity H a)))"
    using derive_snapshot_shape [OF assms(2)] by (auto simp: generated_snapshot_fields)
  with True assms(1,3) show ?thesis by (simp add: snapshot_id_def struct_laws.string)
next
  case False
  with assms(3) have "sn_id_field impl \<in> set (sn_restore impl)" "sh_to_string H (sh_get H (sn_id_field impl) a) = Some i"
    by (auto simp: snapshot_id_def split: if_splits)
  with generated_snapshot_lookup [OF assms(2) this(1), of H a] show ?thesis by (simp only: Option.bind.simps)
qed

section \<open>The structs of the tests\<close>

text \<open>\<open>Todo\<close> with its derived snapshot, and \<open>Inventory\<close> with \<open>#[snapshot(id = "sku")]\<close>.\<close>

datatype field_value = V_String string | V_Bool bool | V_U32 u32

definition todo_struct :: "(todo, field_value) struct_host" where
  "todo_struct =
     \<lparr>sh_get = (\<lambda>n t. if n = ''user_id'' then V_String (td_user_id t) else if n = ''task'' then V_String (td_task t)
        else if n = ''completed'' then V_Bool (td_completed t) else V_Bool False),
      sh_set = (\<lambda>n v t. case v of
          V_String x \<Rightarrow> (if n = ''user_id'' then t\<lparr>td_user_id := x\<rparr> else if n = ''task'' then t\<lparr>td_task := x\<rparr> else t)
        | V_Bool x \<Rightarrow> (if n = ''completed'' then t\<lparr>td_completed := x\<rparr> else t)
        | V_U32 x \<Rightarrow> t),
      sh_entity = td_entity, sh_set_entity = (\<lambda>e t. t\<lparr>td_entity := e\<rparr>), sh_of_string = V_String,
      sh_to_string = (\<lambda>v. case v of V_String x \<Rightarrow> Some x | _ \<Rightarrow> None)\<rparr>"

definition todo_input :: derive_input where
  "todo_input =
     \<lparr>di_ident = ''Todo'', di_attrs = [], di_data = Data_Struct (Named_Fields
        [\<lparr>fd_ident = ''entity'', fd_ty = [TIdent ''Entity''], fd_attrs = []\<rparr>,
         \<lparr>fd_ident = ''user_id'', fd_ty = [TIdent ''String''], fd_attrs = []\<rparr>,
         \<lparr>fd_ident = ''task'', fd_ty = [TIdent ''String''], fd_attrs = []\<rparr>,
         \<lparr>fd_ident = ''completed'', fd_ty = [TIdent ''bool''], fd_attrs = []\<rparr>])\<rparr>"

definition todo_snapshot_fields :: "todo_snapshot \<Rightarrow> field_value snapshot_value" where
  "todo_snapshot_fields s =
     [(''id'', V_String (ts_id s)), (''user_id'', V_String (ts_user_id s)), (''task'', V_String (ts_task s)),
      (''completed'', V_Bool (ts_completed s))]"

lemma todo_derive:
  "derive_snapshot (\<lambda>_. True) todo_input = Inr
     \<lparr>sn_snapshot_name = ''TodoSnapshot'', sn_entity_field = ''entity'',
      sn_struct_fields = [(''id'', [TIdent ''String'']), (''user_id'', [TIdent ''String'']), (''task'', [TIdent ''String'']),
        (''completed'', [TIdent ''bool''])],
      sn_assignments = [(''id'', Entity_Id), (''user_id'', Own_Field ''user_id''), (''task'', Own_Field ''task''),
        (''completed'', Own_Field ''completed'')],
      sn_id_field = ''id'', sn_restore = [''user_id'', ''task'', ''completed'']\<rparr>"
  by code_simp

text \<open>
  C38: Derived snapshots.  Restoring the snapshot of \<open>a\<close> onto \<open>b\<close> gives every field of the snapshot
  the value it had in \<open>a\<close> and keeps the other fields of \<open>b\<close> (the skipped ones) and its entity, except
  for the id: that is the id of the entity of \<open>a\<close> when the snapshot has its own \<open>id\<close>, and otherwise
  the text of the field that stands for it.  The snapshot of the result is the snapshot of \<open>a\<close>.
\<close>

theorem derived_snapshot_restores:
  assumes "struct_laws H F" and "derive_snapshot ident_ok input = Inr impl" and "set (sn_restore impl) \<subseteq> F"
    and "snapshot_id H impl a = Some i"
  shows "\<exists>c. generated_restore H impl (generated_snapshot H impl a) b = Some c \<and>
    (\<forall>n. sh_get H n c = (if n \<in> set (sn_restore impl) then sh_get H n a else sh_get H n b)) \<and>
    sh_entity H c = (sh_entity H b)\<lparr>en_id := i\<rparr> \<and>
    generated_snapshot H impl c = generated_snapshot H impl a"
proof -
  obtain b1 where b1: "restore_fields H (sn_restore impl) (generated_snapshot H impl a) b = Some b1"
    "sh_entity H b1 = sh_entity H b"
    "\<forall>m. sh_get H m b1 = (if m \<in> set (sn_restore impl) then sh_get H m a else sh_get H m b)"
    using struct_laws.restore_fields_spec [OF assms(1,3), of "generated_snapshot H impl a" a b]
      generated_snapshot_lookup [OF assms(2), of _ H a] by auto
  define c where "c = sh_set_entity H (set_id i (sh_entity H b1)) b1"
  have get: "sh_get H n c = (if n \<in> set (sn_restore impl) then sh_get H n a else sh_get H n b)" for n
    using b1(3) by (simp add: c_def struct_laws.get_entity [OF assms(1)])
  have ent: "sh_entity H c = (sh_entity H b)\<lparr>en_id := i\<rparr>"
    by (simp add: c_def struct_laws.entity_entity [OF assms(1)] b1(2) set_id_def)
  have "generated_snapshot H impl c = generated_snapshot H impl a"
  proof -
    from derive_snapshot_shape [OF assms(2)] obtain fs where fs: "sn_restore impl = map fst fs"
      "sn_assignments impl = (''id'', Entity_Id) # own_fields fs \<or> sn_assignments impl = own_fields fs" by blast
    have "map (\<lambda>(n, t). (n, sh_get H n c)) fs = map (\<lambda>(n, t). (n, sh_get H n a)) fs"
      by (intro map_cong refl) (force simp: get fs(1))
    with fs(2) ent assms(4) show ?thesis
      by (elim disjE) (simp_all add: generated_snapshot_fields snapshot_id_def)
  qed
  moreover have "generated_restore H impl (generated_snapshot H impl a) b = Some c"
    by (simp add: generated_restore_def generated_snapshot_id [OF assms(1,2,4)] b1(1) c_def)
  ultimately show ?thesis using get ent by blast
qed

interpretation todo_fields: struct_laws todo_struct "{''user_id'', ''task'', ''completed''}"
  by unfold_locales (auto simp: todo_struct_def split: field_value.split)

theorem derived_snapshot_restores_witness:
  "case derive_snapshot (\<lambda>_. True) todo_input of
     Inl err \<Rightarrow> False
   | Inr impl \<Rightarrow> \<exists>c. generated_restore todo_struct impl
         (generated_snapshot todo_struct impl (todo_new\<lparr>td_entity := entity_with_id ''a'' 0, td_task := ''t''\<rparr>)) todo_new = Some c \<and>
       sh_get todo_struct ''task'' c = V_String ''t'' \<and> en_id (sh_entity todo_struct c) = ''a''"
proof -
  let ?a = "todo_new\<lparr>td_entity := entity_with_id ''a'' 0, td_task := ''t''\<rparr>"
  obtain impl where impl: "derive_snapshot (\<lambda>_. True) todo_input = Inr impl"
    "set (sn_restore impl) = {''user_id'', ''task'', ''completed''}" "(''id'', Entity_Id) \<in> set (sn_assignments impl)"
    by (simp add: todo_derive)
  then have "snapshot_id todo_struct impl ?a = Some ''a''"
    by (simp add: snapshot_id_def todo_struct_def entity_with_id_def)
  from derived_snapshot_restores [OF todo_fields.struct_laws_axioms impl(1) _ this, of todo_new] impl(2)
  obtain c where "generated_restore todo_struct impl (generated_snapshot todo_struct impl ?a) todo_new = Some c"
    "\<forall>n. sh_get todo_struct n c = (if n \<in> set (sn_restore impl) then sh_get todo_struct n ?a else sh_get todo_struct n todo_new)"
    "sh_entity todo_struct c = (sh_entity todo_struct todo_new)\<lparr>en_id := ''a''\<rparr>" by auto
  moreover from this(2) [rule_format, of "''task''"] impl(2) have "sh_get todo_struct ''task'' c = V_String ''t''"
    by (simp add: todo_struct_def)
  ultimately show ?thesis using impl(1) by simp
qed

text \<open>
  The derived snapshot of \<open>Todo\<close> is the one its aggregate is modelled with: the same snapshot
  value, and the same state after a restore.
\<close>

theorem todo_snapshot_derived:
  "case derive_snapshot (\<lambda>_. True) todo_input of
     Inl err \<Rightarrow> False
   | Inr impl \<Rightarrow>
       generated_snapshot todo_struct impl t = todo_snapshot_fields (todo_create_snapshot t) \<and>
       generated_restore todo_struct impl (todo_snapshot_fields s) t = Some (todo_restore s t)"
  by (simp add: todo_derive generated_snapshot_def generated_restore_def todo_struct_def todo_snapshot_fields_def
      todo_create_snapshot_def todo_restore_def Let_def)

record inventory =
  iv_entity :: entity
  iv_sku :: string
  iv_available :: u32

definition inventory_struct :: "(inventory, field_value) struct_host" where
  "inventory_struct =
     \<lparr>sh_get = (\<lambda>n t. if n = ''sku'' then V_String (iv_sku t) else if n = ''available'' then V_U32 (iv_available t)
        else V_Bool False),
      sh_set = (\<lambda>n v t. case v of
          V_String x \<Rightarrow> (if n = ''sku'' then t\<lparr>iv_sku := x\<rparr> else t)
        | V_U32 x \<Rightarrow> (if n = ''available'' then t\<lparr>iv_available := x\<rparr> else t)
        | V_Bool x \<Rightarrow> t),
      sh_entity = iv_entity, sh_set_entity = (\<lambda>e t. t\<lparr>iv_entity := e\<rparr>), sh_of_string = V_String,
      sh_to_string = (\<lambda>v. case v of V_String x \<Rightarrow> Some x | _ \<Rightarrow> None)\<rparr>"

definition inventory_input :: derive_input where
  "inventory_input =
     \<lparr>di_ident = ''Inventory'',
      di_attrs = [\<lparr>at_path = ''snapshot'', at_args = Some [TIdent ''id'', TPunct ''='', TLitStr ''sku'']\<rparr>],
      di_data = Data_Struct (Named_Fields
        [\<lparr>fd_ident = ''entity'', fd_ty = [TIdent ''Entity''], fd_attrs = []\<rparr>,
         \<lparr>fd_ident = ''sku'', fd_ty = [TIdent ''String''], fd_attrs = []\<rparr>,
         \<lparr>fd_ident = ''available'', fd_ty = [TIdent ''u32''], fd_attrs = []\<rparr>])\<rparr>"

lemma inventory_derive:
  "derive_snapshot (\<lambda>_. True) inventory_input = Inr
     \<lparr>sn_snapshot_name = ''InventorySnapshot'', sn_entity_field = ''entity'',
      sn_struct_fields = [(''sku'', [TIdent ''String'']), (''available'', [TIdent ''u32''])],
      sn_assignments = [(''sku'', Own_Field ''sku''), (''available'', Own_Field ''available'')],
      sn_id_field = ''sku'', sn_restore = [''sku'', ''available'']\<rparr>"
  by code_simp

text \<open>
  A custom id does not keep the entity's id.  With \<open>#[snapshot(id = "sku")]\<close> the snapshot does not
  hold the id of the entity, and a restore gives the entity the text of the field: an aggregate
  whose stream has another id comes back from its snapshot under the id \<open>sku\<close>.
\<close>

theorem custom_id_replaces_entity_id:
  "case derive_snapshot (\<lambda>_. True) inventory_input of
     Inl err \<Rightarrow> False
   | Inr impl \<Rightarrow>
       (\<forall>e. generated_snapshot inventory_struct impl (a\<lparr>iv_entity := e\<rparr>) = generated_snapshot inventory_struct impl a) \<and>
       (\<exists>c. generated_restore inventory_struct impl (generated_snapshot inventory_struct impl a) b = Some c \<and>
         en_id (iv_entity c) = iv_sku a \<and> iv_sku c = iv_sku a \<and> iv_available c = iv_available a \<and>
         en_events (iv_entity c) = en_events (iv_entity b))"
  by (simp add: inventory_derive generated_snapshot_def generated_restore_def inventory_struct_def set_id_def)

section \<open>Collection names\<close>

text \<open>The name a collection was made of: the letter after an underscore is a capital.\<close>

definition to_uppercase :: "char \<Rightarrow> char" where
  "to_uppercase c = (if CHR ''a'' \<le> c \<and> c \<le> CHR ''z'' then char_of (of_char c - 32 :: nat) else c)"

fun un_snake :: "bool \<Rightarrow> string \<Rightarrow> string" where
  "un_snake capital [] = []"
| "un_snake capital (c # s) =
     (if c = CHR ''_'' then un_snake True s
      else (if capital then to_uppercase c else c) # un_snake False s)"

lemma uppercase_of_lowercase:
  assumes "is_uppercase c"
  shows "to_uppercase (to_lowercase c) = c" and "to_lowercase c \<noteq> CHR ''_''" and "to_lowercase c \<noteq> CHR '':''"
proof -
  have c: "65 \<le> (of_char c :: nat)" "(of_char c :: nat) \<le> 90"
    using assms by (simp_all add: is_uppercase_def less_eq_char_def)
  then have l: "of_char (to_lowercase c) = (of_char c :: nat) + 32"
    using assms by (simp add: to_lowercase_def of_char_of)
  then have "CHR ''a'' \<le> to_lowercase c" "to_lowercase c \<le> CHR ''z''"
    using c by (simp_all add: less_eq_char_def)
  then show "to_uppercase (to_lowercase c) = c" by (simp add: to_uppercase_def l)
  have "(of_char (to_lowercase c) :: nat) \<noteq> of_char CHR ''_''" "(of_char (to_lowercase c) :: nat) \<noteq> of_char CHR '':''"
    using c l by simp_all
  then show "to_lowercase c \<noteq> CHR ''_''" "to_lowercase c \<noteq> CHR '':''" by auto
qed

lemma un_snake_loop: "i > 0 \<Longrightarrow> CHR ''_'' \<notin> set s \<Longrightarrow> un_snake False (snake_loop i s) = s"
  by (induction i s rule: snake_loop.induct) (auto simp: uppercase_of_lowercase)

text \<open>A type name in CamelCase.\<close>

definition camel_case :: "string \<Rightarrow> bool" where
  "camel_case s \<longleftrightarrow> s \<noteq> [] \<and> is_uppercase (hd s) \<and> CHR ''_'' \<notin> set s \<and> CHR '':'' \<notin> set s"

lemma un_snake_case: "camel_case s \<Longrightarrow> un_snake True (to_snake_case s) = s"
  by (cases s) (auto simp: camel_case_def to_snake_case_def uppercase_of_lowercase un_snake_loop)

lemma snake_loop_colon: "CHR '':'' \<notin> set s \<Longrightarrow> CHR '':'' \<notin> set (snake_loop i s)"
  by (induction i s rule: snake_loop.induct) (auto simp: uppercase_of_lowercase dest: sym)

text \<open>
  Default collections.  Two types with CamelCase names and derived read models without a
  \<open>collection\<close> attribute never share a key of the store: the keys of their models are equal only
  for one type and one id.
\<close>

theorem default_collections_separate:
  assumes "derive_read_model A = Inr ra" and "derive_read_model B = Inr rb"
    and "collection_attr (di_attrs A) = None" and "collection_attr (di_attrs B) = None"
    and "camel_case (di_ident A)" and "camel_case (di_ident B)"
  shows "make_key (md_collection (generated_read_model ga ta fa ra)) i =
      make_key (md_collection (generated_read_model gb tb fb rb)) j \<longleftrightarrow> di_ident A = di_ident B \<and> i = j"
proof -
  have coll: "ri_collection ra = to_snake_case (di_ident A) @ ''s''" "ri_collection rb = to_snake_case (di_ident B) @ ''s''"
    using assms(1-4) by (auto simp: derive_read_model_def extract_collection_def split: sum.splits)
  have "CHR '':'' \<notin> set (ri_collection ra)" "CHR '':'' \<notin> set (ri_collection rb)"
    using assms(5,6) by (simp_all add: coll camel_case_def to_snake_case_def snake_loop_colon)
  moreover have "to_snake_case (di_ident A) = to_snake_case (di_ident B) \<longleftrightarrow> di_ident A = di_ident B"
    by (metis un_snake_case assms(5,6))
  ultimately show ?thesis
    by (simp add: generated_read_model_def make_key_colon_free) (simp add: coll)
qed

theorem default_collections_separate_witness:
  "let view = (\<lambda>name. \<lparr>di_ident = name, di_attrs = [],
       di_data = Data_Struct (Named_Fields [\<lparr>fd_ident = ''id'', fd_ty = [TIdent ''String''], fd_attrs = []\<rparr>])\<rparr>) in
     derive_read_model (view ''CounterView'') = Inr \<lparr>ri_collection = ''counter_views'', ri_id_field = ''id''\<rparr> \<and>
     make_key (md_collection (generated_read_model (\<lambda>f m. m) (\<lambda>m. Inr []) (\<lambda>bs. Inr ''x'') \<lparr>ri_collection = ''counter_views'', ri_id_field = ''id''\<rparr>)) ''1'' \<noteq>
     make_key (md_collection (generated_read_model (\<lambda>f m. m) (\<lambda>m. Inr []) (\<lambda>bs. Inr ''x'') \<lparr>ri_collection = ''todo_views'', ri_id_field = ''id''\<rparr>)) ''1''"
proof -
  let ?view = "\<lambda>name. \<lparr>di_ident = name, di_attrs = [],
       di_data = Data_Struct (Named_Fields [\<lparr>fd_ident = ''id'', fd_ty = [TIdent ''String''], fd_attrs = []\<rparr>])\<rparr>"
  have derive: "derive_read_model (?view ''CounterView'') = Inr \<lparr>ri_collection = ''counter_views'', ri_id_field = ''id''\<rparr>"
    "derive_read_model (?view ''TodoView'') = Inr \<lparr>ri_collection = ''todo_views'', ri_id_field = ''id''\<rparr>"
    by code_simp+
  have names: "camel_case (di_ident (?view ''CounterView''))" "camel_case (di_ident (?view ''TodoView''))"
    by code_simp+
  from default_collections_separate [OF derive _ _ names, of "\<lambda>f m. m" "\<lambda>m. Inr []" "\<lambda>bs. Inr ''x''" "''1''" "\<lambda>f m. m" "\<lambda>m. Inr []" "\<lambda>bs. Inr ''x''" "''1''"] derive(1)
  show ?thesis by simp
qed

end
