(* ===== verification/Snapshot_Identity.thy ===== *)
theory Snapshot_Identity
  imports Derive
begin

text \<open>
  What becomes of an aggregate whose derived snapshot has a custom id
  (\<open>tests/sourced_snapshot/aggregates.rs\<close>, with the derive of \<open>sourced_rust_macros/src/snapshot.rs\<close>
  and the repository of \<open>src/snapshot/repository.rs\<close>).
\<close>

section \<open>The Inventory aggregate\<close>

text \<open>The codecs of the argument tuples and of the snapshot struct are parameters.\<close>

record inventory_codec =
  ic_ser_created :: "string \<times> string \<times> u32 \<Rightarrow> bytes option"
  ic_de_created :: "bytes \<Rightarrow> string + (string \<times> string \<times> u32)"
  ic_ser_restocked :: "u32 \<Rightarrow> bytes option"
  ic_de_restocked :: "bytes \<Rightarrow> string + u32"
  ic_ser_snap :: "field_value snapshot_value \<Rightarrow> string + bytes"
  ic_de_snap :: "bytes \<Rightarrow> string + field_value snapshot_value"

definition inventory_new :: "system_time \<Rightarrow> inventory" where
  "inventory_new now = \<lparr>iv_entity = entity_default now, iv_sku = [], iv_available = 0\<rparr>"

definition inventory_create ::
    "inventory_codec \<Rightarrow> system_time \<Rightarrow> string \<Rightarrow> string \<Rightarrow> u32 \<Rightarrow> inventory \<Rightarrow> inventory option" where
  "inventory_create C now ident sku available v =
     (case digest (ic_ser_created C) now ''Created'' (ident, sku, available) (iv_entity v) of
        None \<Rightarrow> None
      | Some e \<Rightarrow> Some (v\<lparr>iv_entity := set_id ident e, iv_sku := sku, iv_available := available\<rparr>))"

definition inventory_restock :: "inventory_codec \<Rightarrow> system_time \<Rightarrow> u32 \<Rightarrow> inventory \<Rightarrow> inventory option" where
  "inventory_restock C now qty v =
     (case digest (ic_ser_restocked C) now ''Restocked'' qty (iv_entity v) of
        None \<Rightarrow> None
      | Some e \<Rightarrow> Some (v\<lparr>iv_entity := e, iv_available := iv_available v + qty\<rparr>))"

definition inventory_replay ::
    "inventory_codec \<Rightarrow> system_time \<Rightarrow> event_record \<Rightarrow> (inventory, string, unit) call" where
  "inventory_replay C now ev v =
     (if er_event_name ev = ''Created''
      then decode_then (ic_de_created C)
             (\<lambda>(ident, sku, available). inventory_create C now ident sku available) ev v
      else if er_event_name ev = ''Restocked''
      then decode_then (ic_de_restocked C) (inventory_restock C now) ev v
      else (Err (''Unknown event: '' @ er_event_name ev), v))"

text \<open>The derived implementation; a restore that would not compile leaves the struct alone.\<close>

definition inventory_impl :: snapshot_impl where
  "inventory_impl =
     \<lparr>sn_snapshot_name = ''InventorySnapshot'', sn_entity_field = ''entity'',
      sn_struct_fields = [(''sku'', [TIdent ''String'']), (''available'', [TIdent ''u32''])],
      sn_assignments = [(''sku'', Own_Field ''sku''), (''available'', Own_Field ''available'')],
      sn_id_field = ''sku'', sn_restore = [''sku'', ''available'']\<rparr>"

definition inventory_aggregate ::
    "inventory_codec \<Rightarrow> system_time \<Rightarrow> (inventory, field_value snapshot_value) snapshottable" where
  "inventory_aggregate C now =
     \<lparr>ag_new_empty = inventory_new now, ag_entity = iv_entity, ag_set_entity = (\<lambda>e v. v\<lparr>iv_entity := e\<rparr>),
      ag_replay = inventory_replay C now, ag_upcasters = [],
      sp_create_snapshot = generated_snapshot inventory_struct inventory_impl,
      sp_restore = (\<lambda>s v. case generated_restore inventory_struct inventory_impl s v of Some v' \<Rightarrow> v' | None \<Rightarrow> v),
      sp_serialize = ic_ser_snap C, sp_deserialize = ic_de_snap C\<rparr>"

lemma inventory_impl_derived: "derive_snapshot (\<lambda>_. True) inventory_input = Inr inventory_impl"
  by (simp add: inventory_derive inventory_impl_def)

lemma inventory_simps [simp]:
  "ag_entity (inventory_aggregate C now) = iv_entity"
  "ag_set_entity (inventory_aggregate C now) e v = v\<lparr>iv_entity := e\<rparr>"
  "ag_new_empty (inventory_aggregate C now) = inventory_new now"
  "ag_upcasters (inventory_aggregate C now) = []"
  "ag_replay (inventory_aggregate C now) = inventory_replay C now"
  "sp_create_snapshot (inventory_aggregate C now) v = [(''sku'', V_String (iv_sku v)), (''available'', V_U32 (iv_available v))]"
  "sp_restore (inventory_aggregate C now) [(''sku'', V_String s), (''available'', V_U32 n)] v =
     v\<lparr>iv_sku := s, iv_available := n, iv_entity := (iv_entity v)\<lparr>en_id := s\<rparr>\<rparr>"
  "sp_serialize (inventory_aggregate C now) = ic_ser_snap C"
  "sp_deserialize (inventory_aggregate C now) = ic_de_snap C"
  by (simp_all add: inventory_aggregate_def generated_snapshot_def generated_restore_def inventory_impl_def
      inventory_struct_def set_id_def)

section \<open>What a restored aggregate commits to\<close>

lemma maybe_snapshot_streams:
  "hm_streams (fst (snd (maybe_snapshot A hashmap_snapshots f (r, a)))) = hm_streams r"
  by (auto simp: maybe_snapshot_def Let_def hashmap_snapshots_def on_snapshots_def hm_streams_def
      split: sum.splits prod.splits outcome.splits)

lemma maybe_snapshot_inv: "hm_inv ord r \<Longrightarrow> hm_inv ord (fst (snd (maybe_snapshot A hashmap_snapshots f (r, a))))"
  by (auto simp: maybe_snapshot_def Let_def hashmap_snapshots_def on_snapshots_def hm_inv_def
      split: sum.splits prod.splits outcome.splits)

text \<open>A new inventory: one event, nothing committed, under the id it was created with.\<close>

lemma inventory_create_new:
  assumes "ic_ser_created C (i, sku, n) = Some bs"
  shows "\<exists>v. inventory_create C now i sku n (inventory_new now) = Some v \<and> iv_sku v = sku \<and> iv_available v = n \<and>
    entity_wf (iv_entity v) \<and> en_id (iv_entity v) = i \<and> en_committed_version (iv_entity v) = 0 \<and>
    en_version (iv_entity v) = 1 \<and> en_snapshot_version (iv_entity v) = 0 \<and> \<not> en_replaying (iv_entity v) \<and>
    length (en_events (iv_entity v)) = 1 \<and> uncommitted (iv_entity v) = en_events (iv_entity v)"
  using assms
  by (simp add: inventory_create_def inventory_new_def digest_def entity_default_def push_record_def set_id_def
      event_record_new_def uncommitted_def entity_wf_def seq_ok_def len_u64_def Let_def)

text \<open>The first commit, with a snapshot of the state it committed.\<close>

lemma inventory_first_commit:
  assumes "hm_inv ord r" and "ss_inv (hr_snapshots r)" and "hm_streams r i = None"
    and "ic_ser_created C (i, sku, n) = Some b1"
    and "ic_ser_snap C [(''sku'', V_String sku), (''available'', V_U32 n)] = Inr b3"
  obtains v r1 v1 evs where "inventory_create C now i sku n (inventory_new now) = Some v"
    "sr_commit (inventory_aggregate C now) (hashmap_repo now ord) hashmap_snapshots 1 (r, v) = (Ok (), r1, v1)"
    "hm_inv ord r1" "hm_streams r1 = (hm_streams r)(i \<mapsto> evs)" "seq_ok evs" "length evs = 1"
    "so_get_snapshot hashmap_snapshots i r1 = (Ok (Some \<lparr>sn_aggregate_id = i, sn_version = 1, sn_data = b3\<rparr>), r1)"
proof -
  let ?A = "inventory_aggregate C now" and ?P = hashmap_snapshots
  obtain v where v: "inventory_create C now i sku n (inventory_new now) = Some v" "iv_sku v = sku" "iv_available v = n"
    "entity_wf (iv_entity v)" "en_id (iv_entity v) = i" "en_committed_version (iv_entity v) = 0"
    "en_version (iv_entity v) = 1" "en_snapshot_version (iv_entity v) = 0"
    "length (en_events (iv_entity v)) = 1" "uncommitted (iv_entity v) = en_events (iv_entity v)"
    using inventory_create_new [OF assms(4)] by blast
  have cur: "current (hm_streams r) (iv_entity v)"
    using v(5,6) assms(3) by (simp add: current_def stream_of_def)
  obtain ra where ra: "hm_commit (r, [iv_entity v]) = (Ok (), ra, [mark_committed (iv_entity v)])" "hm_inv ord ra"
    "hm_streams ra = (hm_streams r)(i \<mapsto> en_events (iv_entity v))"
    using hm.commit [OF assms(1), of "[iv_entity v]" now] v(4,5,10) cur assms(3)
    by (auto simp: hashmap_repo_def stream_of_def)
  have "hr_snapshots ra = hr_snapshots r"
    using ra(1) by (auto simp: hm_commit_def split: prod.splits outcome.splits if_splits)
  then have ss: "\<not> ss_poisoned (hr_snapshots ra)" using assms(2) by (simp add: ss_inv_def)
  let ?va = "v\<lparr>iv_entity := mark_committed (iv_entity v)\<rparr>"
  let ?snap = "\<lparr>sn_aggregate_id = i, sn_version = 1, sn_data = b3\<rparr>"
  define r1 where "r1 = ra\<lparr>hr_snapshots := (hr_snapshots ra)\<lparr>ss_storage := Mapping.update i ?snap (ss_storage (hr_snapshots ra))\<rparr>\<rparr>"
  have "maybe_snapshot ?A ?P 1 (ra, ?va) = (Ok (), r1, on_entity ?A (set_snapshot_version 1) ?va)"
    using v(2,3,5,7,8) assms(5) ss
    by (simp add: maybe_snapshot_def Let_def mark_committed_def hashmap_snapshots_def on_snapshots_def save_snapshot_def r1_def)
  then have "sr_commit ?A (hashmap_repo now ord) ?P 1 (r, v) = (Ok (), r1, on_entity ?A (set_snapshot_version 1) ?va)"
    using ra(1) by (simp add: sr_commit_def ar_commit_def hashmap_repo_def)
  moreover have "so_get_snapshot ?P i r1 = (Ok (Some ?snap), r1)"
    using ss by (simp add: hashmap_snapshots_def on_snapshots_def get_snapshot_def r1_def lookup_update')
  ultimately show thesis
    using v(1,9) ra(2,3) entity_wfD(3) [OF v(4)]
    by (intro that [of v r1]) (simp_all add: r1_def hm_streams_def hm_inv_def)
qed

text \<open>What the aggregate is when it is read back from that snapshot.\<close>

definition restored_inventory :: "system_time \<Rightarrow> string \<Rightarrow> event_record list \<Rightarrow> string \<Rightarrow> u32 \<Rightarrow> inventory" where
  "restored_inventory now i evs sku n =
     \<lparr>iv_entity = (entity_from now i evs)\<lparr>en_snapshot_version := 1, en_id := sku\<rparr>, iv_sku = sku, iv_available = n\<rparr>"

lemma inventory_restored:
  assumes "seq_ok evs" and "length evs = 1"
    and "ic_de_snap C b3 = Inr [(''sku'', V_String sku), (''available'', V_U32 n)]"
  shows "hydrate_with_optional_snapshot (inventory_aggregate C now) (entity_from now i evs)
      (Some \<lparr>sn_aggregate_id = i, sn_version = 1, sn_data = b3\<rparr>) = Ok (restored_inventory now i evs sku n)"
proof -
  have "map (\<lambda>x. unat (er_sequence x)) evs = [1]" using assms(1,2) by (simp add: seq_ok_def)
  then have "filter (\<lambda>ev. er_sequence ev > 1) evs = []" by (auto simp: filter_empty_conv word_less_nat_alt)
  moreover have "en_version (entity_from now i evs) = 1"
    using assms(2) by (simp add: entity_from_def load_from_history_def len_u64_def)
  ultimately show ?thesis
    using assms(3)
    by (simp add: hydrate_with_optional_snapshot_def hydrate_from_snapshot_def Let_def on_entity_def set_snapshot_version_def
        upcast_all_def replay_loop_def set_replaying_def restored_inventory_def inventory_new_def
        entity_from_def load_from_history_def set_id_def entity_new_def entity_default_def)
qed

lemma inventory_restocked:
  assumes "seq_ok evs" and "length evs = 1" and "ic_ser_restocked C q = Some b2"
  obtains w1 e1 ev where "inventory_restock C now q (restored_inventory now i evs sku n) = Some w1"
    "iv_entity w1 = e1" "entity_wf e1" "en_id e1 = sku" "en_committed_version e1 = 1" "uncommitted e1 = [ev]"
    "er_event_name ev = ''Restocked''"
proof -
  let ?e = "(entity_from now i evs)\<lparr>en_snapshot_version := 1, en_id := sku\<rparr>"
  let ?rec = "event_record_new ''Restocked'' b2 2 now"
  let ?e1 = "push_record ?rec now ?e"
  let ?w1 = "(restored_inventory now i evs sku n)\<lparr>iv_entity := ?e1, iv_available := n + q\<rparr>"
  have e: "Mapping.is_empty (en_metadata ?e)" "\<not> en_replaying ?e" "en_committed_version ?e = 1" "en_events ?e = evs"
    using assms(2) by (simp_all add: entity_from_def load_from_history_def set_id_def entity_new_def entity_default_def len_u64_def)
  have "entity_wf (entity_from now i evs)" using entity_from_wf [of evs now i] assms(1,2) by simp
  then have "entity_wf ?e" by (simp add: entity_wf_def)
  then have "entity_wf ?e1" using e assms(2) by (intro push_record_wf) (simp_all add: event_record_new_def)
  moreover have "inventory_restock C now q (restored_inventory now i evs sku n) =
      Some ?w1"
    using assms(2,3) e by (simp add: inventory_restock_def digest_def restored_inventory_def len_u64_def Let_def)
  moreover have "en_id ?e1 = sku" "en_committed_version ?e1 = 1" "uncommitted ?e1 = [?rec]"
    using e assms(2) by (simp_all add: push_record_def Let_def uncommitted_def)
  moreover have "iv_entity ?w1 = ?e1" "er_event_name ?rec = ''Restocked''" by (simp_all add: event_record_new_def)
  ultimately show thesis using that [of ?w1 ?e1 ?rec] by blast
qed

text \<open>
  One restock of an entity that carries another id than its stream and claims one stored event:
  the commit is checked against the stream with that id, and no other stream changes.
\<close>

lemma moved_commit:
  assumes "hm_inv ord r" and "streams_ok (hm_streams r)" and "iv_entity w = e" and "entity_wf e"
    and "en_committed_version e = 1" and "uncommitted e = [ev]"
    and "sr_commit (inventory_aggregate C now) (hashmap_repo now ord) hashmap_snapshots 1 (r, w) = (res, r2, w2)"
  defines "evs \<equiv> stream_of (hm_streams r) (en_id e)"
  shows "if length evs = 1 then hm_streams r2 = (hm_streams r)(en_id e \<mapsto> evs @ [ev])
    else res = Err (RE_ConcurrentWrite (en_id e) 1 (len_u64 evs)) \<and> r2 = r"
proof -
  let ?A = "inventory_aggregate C now"
  have cur: "current (hm_streams r) e \<longleftrightarrow> length evs = 1"
    using u64_eq_len_iff [of evs 1] streams_ok_stream [OF assms(2), of "en_id e"]
    by (auto simp: current_def assms(5) evs_def)
  show ?thesis
  proof (cases "length evs = 1")
    case True
    then obtain rb where rb: "hm_commit (r, [e]) = (Ok (), rb, [mark_committed e])"
      "hm_streams rb = (hm_streams r)(en_id e \<mapsto> evs @ [ev])"
      using hm.commit [OF assms(1), of "[e]" now] assms(4,6) cur by (auto simp: hashmap_repo_def evs_def)
    then have "sr_commit ?A (hashmap_repo now ord) hashmap_snapshots 1 (r, w) =
        maybe_snapshot ?A hashmap_snapshots 1 (rb, w\<lparr>iv_entity := mark_committed e\<rparr>)"
      using assms(3) by (simp add: sr_commit_def ar_commit_def hashmap_repo_def)
    with maybe_snapshot_streams [of ?A 1 rb "w\<lparr>iv_entity := mark_committed e\<rparr>"] assms(7) rb(2) True
    show ?thesis by simp
  next
    case False
    then have "hm_commit (r, [e]) = (Err (RE_ConcurrentWrite (en_id e) 1 (len_u64 evs)), r, [e])"
      using hm.commit_conflict [OF assms(1), of "[e]" "[]" e "[]" now] cur assms(4-6)
      by (simp add: hashmap_repo_def conflict_of_def evs_def)
    with assms(7) False show ?thesis by (simp add: sr_commit_def ar_commit_def hashmap_repo_def assms(3))
  qed
qed

text \<open>
  C10: A custom snapshot id moves the aggregate to another stream.  An inventory is created under
  an id other than its \<open>sku\<close> and committed to a repository that takes a snapshot at once; it is
  read back, and its entity now has the sku as its id.  The next event it records goes to the
  stream of the sku: the commit is refused as a concurrent write of that stream, unless that stream
  happens to have one event, and then the event is appended to the
  history of the other aggregate.  The stream it was read from never gets the event.
\<close>

theorem custom_snapshot_id_moves_stream:
  assumes "hm_inv ord r" and "streams_ok (hm_streams r)" and "ss_inv (hr_snapshots r)"
    and "hm_streams r i = None" and "i \<noteq> sku"
    and "ic_ser_created C (i, sku, n) = Some b1" and "ic_ser_restocked C q = Some b2"
    and "ic_ser_snap C [(''sku'', V_String sku), (''available'', V_U32 n)] = Inr b3"
    and "ic_de_snap C b3 = Inr [(''sku'', V_String sku), (''available'', V_U32 n)]"
  shows "\<exists>v r1 v1 w w1 res r2 w2.
    inventory_create C now i sku n (inventory_new now) = Some v \<and>
    sr_commit (inventory_aggregate C now) (hashmap_repo now ord) hashmap_snapshots 1 (r, v) = (Ok (), r1, v1) \<and>
    sr_get (inventory_aggregate C now) (hashmap_repo now ord) hashmap_snapshots i r1 = (Ok (Some w), r1) \<and>
    en_id (iv_entity w) = sku \<and> inventory_restock C now q w = Some w1 \<and>
    sr_commit (inventory_aggregate C now) (hashmap_repo now ord) hashmap_snapshots 1 (r1, w1) = (res, r2, w2) \<and>
    hm_streams r2 i = hm_streams r1 i \<and>
    (if length (stream_of (hm_streams r) sku) = 1
     then \<exists>ev. er_event_name ev = ''Restocked'' \<and> hm_streams r2 sku = Some (stream_of (hm_streams r) sku @ [ev])
     else res = Err (RE_ConcurrentWrite sku 1 (len_u64 (stream_of (hm_streams r) sku))) \<and>
       hm_streams r2 = hm_streams r1)"
proof -
  let ?A = "inventory_aggregate C now" and ?R = "hashmap_repo now ord" and ?P = hashmap_snapshots
  obtain v r1 v1 evs where a: "inventory_create C now i sku n (inventory_new now) = Some v"
    "sr_commit ?A ?R ?P 1 (r, v) = (Ok (), r1, v1)" "hm_inv ord r1" "hm_streams r1 = (hm_streams r)(i \<mapsto> evs)"
    "seq_ok evs" "length evs = 1"
    "so_get_snapshot ?P i r1 = (Ok (Some \<lparr>sn_aggregate_id = i, sn_version = 1, sn_data = b3\<rparr>), r1)"
    by (rule inventory_first_commit [OF assms(1,3,4,6,8)])
  define w where "w = restored_inventory now i evs sku n"
  have get: "sr_get ?A ?R ?P i r1 = (Ok (Some w), r1)"
    using hm.get_one [OF a(3), of now i] a(4,7) inventory_restored [OF a(5,6) assms(9)]
    by (simp add: sr_get_def entity_at_def w_def)
  obtain w1 e1 ev where w1: "inventory_restock C now q w = Some w1" "iv_entity w1 = e1" "entity_wf e1" "en_id e1 = sku"
    "en_committed_version e1 = 1" "uncommitted e1 = [ev]" "er_event_name ev = ''Restocked''"
    unfolding w_def by (rule inventory_restocked [OF a(5,6) assms(7)])
  let ?s = "stream_of (hm_streams r) sku"
  have ok1: "streams_ok (hm_streams r1)" using assms(2) a(4,6) by (simp add: streams_ok_def a(5))
  obtain res r2 w2 where c: "sr_commit ?A ?R ?P 1 (r1, w1) = (res, r2, w2)" using prod_cases3 by blast
  have "if length ?s = 1 then hm_streams r2 = (hm_streams r1)(sku \<mapsto> ?s @ [ev])
        else res = Err (RE_ConcurrentWrite sku 1 (len_u64 ?s)) \<and> r2 = r1"
    using moved_commit [OF a(3) ok1 w1(2,3,5,6) c] assms(5) by (simp add: a(4) w1(4))
  then have "hm_streams r2 i = hm_streams r1 i"
    "if length ?s = 1 then \<exists>ev. er_event_name ev = ''Restocked'' \<and> hm_streams r2 sku = Some (?s @ [ev])
     else res = Err (RE_ConcurrentWrite sku 1 (len_u64 ?s)) \<and> hm_streams r2 = hm_streams r1"
    using assms(5) w1(7) by (auto split: if_splits)
  moreover have "en_id (iv_entity w) = sku" by (simp add: w_def restored_inventory_def)
  ultimately show ?thesis using a(1,2) get w1(1) c by blast
qed

text \<open>For the witness: codecs for the values of one example.\<close>

definition sample_inventory_codec :: inventory_codec where
  "sample_inventory_codec =
     \<lparr>ic_ser_created = (\<lambda>x. Some [1]), ic_de_created = (\<lambda>bs. Inr (''inv-1'', ''SKU-A'', 10)),
      ic_ser_restocked = (\<lambda>q. Some [2]), ic_de_restocked = (\<lambda>bs. Inr 5),
      ic_ser_snap = (\<lambda>x. Inr [3]),
      ic_de_snap = (\<lambda>bs. Inr [(''sku'', V_String ''SKU-A''), (''available'', V_U32 10)])\<rparr>"

theorem custom_snapshot_id_moves_stream_witness:
  "\<exists>r1 w w1 w2.
     sr_get (inventory_aggregate sample_inventory_codec 0) (hashmap_repo 0 Mapping.ordered_keys) hashmap_snapshots ''inv-1'' r1 =
       (Ok (Some w), r1) \<and>
     inventory_restock sample_inventory_codec 0 5 w = Some w1 \<and>
     sr_commit (inventory_aggregate sample_inventory_codec 0) (hashmap_repo 0 Mapping.ordered_keys) hashmap_snapshots 1 (r1, w1) =
       (Err (RE_ConcurrentWrite ''SKU-A'' 1 0), w2)"
proof -
  have "hm_streams hm_repo_new = Map.empty" by (simp add: hm_repo_new_def hm_streams_def lookup_empty fun_eq_iff)
  then have r: "streams_ok (hm_streams hm_repo_new)" "hm_streams hm_repo_new ''inv-1'' = None"
    "stream_of (hm_streams hm_repo_new) ''SKU-A'' = []"
    by (simp_all add: streams_ok_def stream_of_def)
  have "ss_inv (hr_snapshots hm_repo_new)" by (simp add: hm_repo_new_def snap_store_new_def ss_inv_def lookup_empty)
  from custom_snapshot_id_moves_stream [OF hm_inv_ordered_new r(1) this r(2), of "''SKU-A''" sample_inventory_codec 10 "[1]"
      5 "[2]" "[3]" 0] r(3)
  show ?thesis by (simp add: sample_inventory_codec_def) blast
qed

end
