(* ===== verification/Test_Support.thy ===== *)
theory Test_Support
  imports Prelude "HOL-Library.Monad_Syntax"
begin

text \<open>
  What the unit tests of the crate are written with.  A test runs in the option monad: \<open>None\<close>
  is a panic, that is, an assertion that fails, an index out of range, or an \<open>unwrap\<close> of an
  error; a test passes when it returns.  The theories \<open>Tests_*\<close> translate the tests beside each
  module and show that the model passes them, which compares the model with what the authors of
  the code expect of it.
\<close>

definition passes :: "unit option \<Rightarrow> bool" where
  "passes t \<longleftrightarrow> t = Some ()"

definition assert_that :: "bool \<Rightarrow> unit option" where
  "assert_that b = (if b then Some () else None)"

definition assert_eq :: "'a \<Rightarrow> 'a \<Rightarrow> unit option" where
  "assert_eq a b = assert_that (a = b)"

definition index_at :: "'a list \<Rightarrow> nat \<Rightarrow> 'a option" where
  "index_at xs i = (if i < length xs then Some (xs ! i) else None)"

text \<open>\<open>s.contains(t)\<close> for strings.\<close>

definition contains :: "string \<Rightarrow> string \<Rightarrow> bool" where
  "contains s t \<longleftrightarrow> sublist t s"

text \<open>\<open>unwrap\<close> and \<open>unwrap_err\<close>, of a value and of the result of a call on the state of the test.\<close>

fun unwrap :: "('e, 'a) outcome \<Rightarrow> 'a option" where
  "unwrap (Ok a) = Some a"
| "unwrap _ = None"

fun unwrap_err :: "('e, 'a) outcome \<Rightarrow> 'e option" where
  "unwrap_err (Err e) = Some e"
| "unwrap_err _ = None"

definition calling :: "('s, 'e, 'a) call \<Rightarrow> 's \<Rightarrow> ('a \<times> 's) option" where
  "calling f s = (case f s of (res, s') \<Rightarrow> map_option (\<lambda>a. (a, s')) (unwrap res))"

definition failing :: "('s, 'e, 'a) call \<Rightarrow> 's \<Rightarrow> ('e \<times> 's) option" where
  "failing f s = (case f s of (res, s') \<Rightarrow> map_option (\<lambda>e. (e, s')) (unwrap_err res))"

text \<open>A codec that undoes itself on every value, which is what the tests rely on.\<close>

definition codec :: "('a \<Rightarrow> 'b option) \<Rightarrow> ('b \<Rightarrow> 'err + 'a) \<Rightarrow> bool" where
  "codec ser de \<longleftrightarrow> (\<forall>a. \<exists>b. ser a = Some b \<and> de b = Inr a)"

definition encodes :: "('a \<Rightarrow> 'b option) \<Rightarrow> bool" where
  "encodes ser \<longleftrightarrow> (\<forall>a. ser a \<noteq> None)"

lemma codecE:
  assumes "codec ser de"
  obtains b where "ser a = Some b" and "de b = Inr a"
  using assms by (auto simp: codec_def)

lemma encodesE:
  assumes "encodes ser"
  obtains f where "ser = (\<lambda>a. Some (f a))"
proof -
  from assms have "ser = (\<lambda>a. Some (the (ser a)))" by (auto simp: encodes_def)
  then show thesis by (rule that)
qed

lemma codec_encodes: "codec ser de \<Longrightarrow> encodes ser"
  unfolding codec_def encodes_def by (metis option.distinct(1))

lemma codec_total:
  assumes "codec ser de"
  obtains f where "ser = (\<lambda>a. Some (f a))" and "\<And>a. de (f a) = Inr a"
proof -
  obtain f where "ser = (\<lambda>a. Some (f a))" using encodesE [OF codec_encodes [OF assms]] by blast
  moreover from this assms have "\<And>a. de (f a) = Inr a" by (simp add: codec_def)
  ultimately show thesis using that by blast
qed

named_theorems test_simps "unfolding the statements of a test"

declare Let_def [test_simps]

lemma passes_simps [test_simps]:
  "passes (Some ())" "\<not> passes None"
  by (simp_all add: passes_def)

lemma assert_bind [test_simps]:
  "passes (Option.bind (assert_that b) f) \<longleftrightarrow> b \<and> passes (f ())"
  "passes (assert_that b) \<longleftrightarrow> b"
  by (simp_all add: assert_that_def passes_def)

lemma assert_eq_bind [test_simps]:
  "passes (Option.bind (assert_eq a b) f) \<longleftrightarrow> a = b \<and> passes (f ())"
  "passes (assert_eq a b) \<longleftrightarrow> a = b"
  by (simp_all add: assert_eq_def test_simps)

lemma index_at_simps [test_simps]:
  "index_at (x # xs) 0 = Some x"
  "index_at (x # xs) (Suc i) = index_at xs i"
  "index_at (x # xs) 1 = index_at xs 0"
  "index_at (x # xs) (numeral n) = index_at xs (pred_numeral n)"
  by (simp_all add: index_at_def numeral_eq_Suc)

lemma calling_simps [test_simps]:
  "f s = (Ok a, s') \<Longrightarrow> calling f s = Some (a, s')"
  "f s = (Err e, s') \<Longrightarrow> failing f s = Some (e, s')"
  by (simp_all add: calling_def failing_def)


section \<open>Iterating a map in any order\<close>

definition orders :: "(('k, 'v) mapping \<Rightarrow> 'k list) \<Rightarrow> bool" where
  "orders ord \<longleftrightarrow> (\<forall>m. finite (Mapping.keys m) \<longrightarrow> iteration m (ord m))"

lemma length_filter_iteration:
  assumes "iteration m ks"
  shows "length (filter q (hm_iter m ks)) =
    (\<Sum>k \<in> Mapping.keys m. if q (k, the (Mapping.lookup m k)) then 1 else 0)"
proof -
  have "length (filter q (hm_iter m ks)) = (\<Sum>k \<leftarrow> ks. if q (k, the (Mapping.lookup m k)) then 1 else 0)"
    if "set ks \<subseteq> Mapping.keys m" for ks
    using that by (induction ks) (auto simp: hm_iter_Cons in_keys_iff_lookup split: option.splits)
  with assms show ?thesis by (simp add: iteration_def sum_list_distinct_conv_sum_set)
qed

lemma length_filter_orders:
  assumes "orders ord" and "finite (Mapping.keys m)"
  shows "length (filter q (map f (hm_iter m (ord m)))) =
    (\<Sum>k \<in> Mapping.keys m. if q (f (k, the (Mapping.lookup m k))) then 1 else 0)"
  using length_filter_iteration [of m "ord m" "\<lambda>kv. q (f kv)"] assms
  by (simp add: orders_def filter_map comp_def)

end
