(* ===== verification/Debug_Text.thy ===== *)
theory Debug_Text
  imports Entity
begin

text \<open>
  The \<open>Debug\<close> text of events and entities: derived for \<open>EventRecord\<close> (\<open>event_record.rs\<close>), written with
  \<open>debug_struct\<close> for \<open>Entity\<close> (\<open>entity.rs\<close>).  Strings are those of ASCII.  How a \<open>SystemTime\<close> is
  shown depends on the platform (\<open>show_time\<close>), and a hash map shows its entries in its own order
  (\<open>mord\<close>).
\<close>

fun escape_char :: "char \<Rightarrow> string" where
  "escape_char c =
     (if c = CHR 0x22 then [CHR 0x5C, CHR 0x22]
      else if c = CHR 0x5C then [CHR 0x5C, CHR 0x5C]
      else if c = CHR 0x0A then [CHR 0x5C, CHR ''n'']
      else if c = CHR 0x0D then [CHR 0x5C, CHR ''r'']
      else if c = CHR 0x09 then [CHR 0x5C, CHR ''t'']
      else if c = CHR 0x00 then [CHR 0x5C, CHR ''0'']
      else [c])"

definition debug_str :: "string \<Rightarrow> string" where
  "debug_str s = [CHR 0x22] @ concat (map escape_char s) @ [CHR 0x22]"

fun separated :: "string list \<Rightarrow> string" where
  "separated [] = []"
| "separated [s] = s"
| "separated (s # ss) = s @ '', '' @ separated ss"

definition debug_struct :: "string \<Rightarrow> (string \<times> string) list \<Rightarrow> string" where
  "debug_struct name fs = name @ '' { '' @ separated (map (\<lambda>(f, v). f @ '': '' @ v) fs) @ '' }''"

definition debug_list :: "('a \<Rightarrow> string) \<Rightarrow> 'a list \<Rightarrow> string" where
  "debug_list show xs = ''['' @ separated (map show xs) @ '']''"

definition debug_map :: "(metadata \<Rightarrow> string list) \<Rightarrow> metadata \<Rightarrow> string" where
  "debug_map mord md =
     ''{'' @ separated (map (\<lambda>(k, v). debug_str k @ '': '' @ debug_str v) (hm_iter md (mord md))) @ ''}''"

definition debug_bool :: "bool \<Rightarrow> string" where
  "debug_bool b = (if b then ''true'' else ''false'')"

definition event_record_debug ::
    "(system_time \<Rightarrow> string) \<Rightarrow> (metadata \<Rightarrow> string list) \<Rightarrow> event_record \<Rightarrow> string" where
  "event_record_debug show_time mord r =
     debug_struct ''EventRecord''
       [(''event_name'', debug_str (er_event_name r)),
        (''payload'', debug_list (\<lambda>b. show_nat (unat b)) (er_payload r)),
        (''event_version'', show_u64 (er_event_version r)),
        (''sequence'', show_u64 (er_sequence r)),
        (''timestamp'', show_time (er_timestamp r)),
        (''metadata'', debug_map mord (er_metadata r))]"

definition entity_debug ::
    "(system_time \<Rightarrow> string) \<Rightarrow> (metadata \<Rightarrow> string list) \<Rightarrow> entity \<Rightarrow> string" where
  "entity_debug show_time mord e =
     debug_struct ''Entity''
       [(''id'', debug_str (en_id e)),
        (''version'', show_u64 (en_version e)),
        (''events'', debug_list (event_record_debug show_time mord) (en_events e)),
        (''replaying'', debug_bool (en_replaying e)),
        (''snapshot_version'', show_u64 (en_snapshot_version e)),
        (''committed_version'', show_u64 (en_committed_version e)),
        (''timestamp'', show_time (en_timestamp e)),
        (''metadata'', debug_map mord (en_metadata e))]"

text \<open>The text of every field is in the text of the value.\<close>

lemma separated_shows: "s \<in> set ss \<Longrightarrow> \<exists>pre post. separated ss = pre @ s @ post"
proof (induction ss rule: separated.induct)
  case (3 s1 s2 ss)
  then show ?case
  proof (cases "s = s1")
    case True
    then show ?thesis by (intro exI [of _ "[]"] exI [of _ "'', '' @ separated (s2 # ss)"]) simp
  next
    case False
    with 3 obtain pre post where "separated (s2 # ss) = pre @ s @ post" by auto
    then show ?thesis by (intro exI [of _ "s1 @ '', '' @ pre"] exI [of _ post]) simp
  qed
qed (auto intro: exI [of _ "[]"])

lemma debug_struct_shows:
  assumes "(f, v) \<in> set fs"
  shows "\<exists>pre post. debug_struct name fs = pre @ (f @ '': '' @ v) @ post"
proof -
  have "f @ '': '' @ v \<in> set (map (\<lambda>(f, v). f @ '': '' @ v) fs)" using assms by force
  from separated_shows [OF this] obtain pre post where
    "separated (map (\<lambda>(f, v). f @ '': '' @ v) fs) = pre @ (f @ '': '' @ v) @ post" by blast
  then show ?thesis
    unfolding debug_struct_def
    by (intro exI [of _ "name @ '' { '' @ pre"] exI [of _ "post @ '' }''"]) simp
qed

end
