(* ===== verification/Tests_Entity.thy ===== *)
theory Tests_Entity
  imports Test_Support Upcaster Debug_Text
begin

text \<open>
  The unit tests of \<open>src/entity\<close>.  A test that calls the clock takes its readings in the order of
  the calls; \<open>ser\<close> and \<open>de\<close> are \<open>bitcode\<close> at the type of the payload of the test.
\<close>

section \<open>Entities\<close>

definition entity_test_new :: "system_time \<Rightarrow> unit option" where
  "entity_test_new now = do {
     let entity = entity_new now;
     assert_eq (en_id entity) '''';
     assert_eq (en_version entity) 0;
     assert_that (en_events entity = []);
     assert_that (\<not> en_replaying entity);
     assert_eq (en_snapshot_version entity) 0;
     assert_eq (en_committed_version entity) 0
   }"

definition entity_test_digest ::
    "(string \<times> string \<Rightarrow> bytes option) \<Rightarrow> (bytes \<Rightarrow> string + string \<times> string) \<Rightarrow>
     (nat \<Rightarrow> system_time) \<Rightarrow> unit option" where
  "entity_test_digest ser de now = do {
     entity \<leftarrow> digest ser (now 1) ''test_event'' (''arg1'', ''arg2'') (entity_new (now 0));
     assert_eq (en_version entity) 1;
     assert_eq (length (en_events entity)) 1;
     event \<leftarrow> index_at (en_events entity) 0;
     assert_eq (er_event_name event) ''test_event'';
     decoded \<leftarrow> unwrap (event_record_decode de event);
     assert_eq decoded (''arg1'', ''arg2'');
     assert_eq (er_sequence event) 1
   }"

definition entity_test_rehydrate ::
    "(string \<Rightarrow> bytes option) \<Rightarrow> (nat \<Rightarrow> system_time) \<Rightarrow> unit option" where
  "entity_test_rehydrate ser now = do {
     entity \<leftarrow> digest ser (now 1) ''test_event1'' ''arg1'' (entity_new (now 0));
     entity \<leftarrow> digest ser (now 2) ''test_event2'' ''arg2'' entity;
     let (result, replayed, entity) =
       rehydrate (\<lambda>event replayed. (Ok () :: (unit, unit) outcome, replayed @ [er_event_name event])) [] entity;
     assert_that (is_ok result);
     assert_eq replayed [''test_event1'', ''test_event2''];
     assert_that (\<not> en_replaying entity)
   }"

definition entity_test_clone :: "system_time \<Rightarrow> unit option" where
  "entity_test_clone now = do {
     let entity = entity_new now;
     let cloned_entity = entity_clone entity;
     assert_eq (en_id entity) (en_id cloned_entity);
     assert_eq (en_version entity) (en_version cloned_entity);
     assert_eq (en_events entity) (en_events cloned_entity);
     assert_eq (en_snapshot_version entity) (en_snapshot_version cloned_entity);
     assert_eq (en_committed_version entity) (en_committed_version cloned_entity)
   }"

definition entity_test_debug ::
    "(system_time \<Rightarrow> string) \<Rightarrow> (metadata \<Rightarrow> string list) \<Rightarrow> system_time \<Rightarrow> unit option" where
  "entity_test_debug show_time mord now = do {
     let entity = entity_new now;
     let text = entity_debug show_time mord entity;
     assert_that (contains text ''Entity'');
     assert_that (contains text ''id: \"\"'');
     assert_that (contains text ''version: 0'')
   }"

text \<open>\<open>serde_json\<close> between the fields and the text and back is \<open>to_string\<close>, \<open>from_str\<close>.\<close>

definition entity_test_serialize_deserialize ::
    "(stored_entity \<Rightarrow> string option) \<Rightarrow> (string \<Rightarrow> string + stored_entity) \<Rightarrow>
     (string \<Rightarrow> bytes option) \<Rightarrow> (nat \<Rightarrow> system_time) \<Rightarrow> unit option" where
  "entity_test_serialize_deserialize to_string from_str ser now = do {
     entity \<leftarrow> digest ser (now 1) ''test_event1'' ''arg1'' (entity_new (now 0));
     serialized \<leftarrow> to_string (entity_serialize entity);
     stored \<leftarrow> (case from_str serialized of Inl err \<Rightarrow> None | Inr stored \<Rightarrow> Some stored);
     let deserialized = entity_deserialize stored;
     assert_eq (en_id entity) (en_id deserialized);
     assert_eq (en_version entity) (en_version deserialized);
     assert_eq (en_events entity) (en_events deserialized);
     assert_eq (en_snapshot_version entity) (en_snapshot_version deserialized);
     assert_eq (en_timestamp entity) (en_timestamp deserialized);
     assert_eq (en_committed_version deserialized) 0
   }"

definition entity_test_replaying_state_blocks_changes ::
    "(string \<Rightarrow> bytes option) \<Rightarrow> (nat \<Rightarrow> system_time) \<Rightarrow> unit option" where
  "entity_test_replaying_state_blocks_changes ser now = do {
     let entity = (entity_new (now 0))\<lparr>en_replaying := True\<rparr>;
     entity \<leftarrow> digest ser (now 1) ''test_event'' ''arg1'' entity;
     assert_that (en_events entity = [])
   }"

definition entity_test_load_from_history_sets_committed_version ::
    "(string \<Rightarrow> bytes option) \<Rightarrow> (nat \<Rightarrow> system_time) \<Rightarrow> unit option" where
  "entity_test_load_from_history_sets_committed_version ser now = do {
     let entity = entity_new (now 0);
     assert_eq (en_committed_version entity) 0;
     source \<leftarrow> digest ser (now 2) ''e1'' ''a'' (entity_new (now 1));
     source \<leftarrow> digest ser (now 3) ''e2'' ''b'' source;
     let entity = load_from_history (en_events source) entity;
     assert_eq (en_version entity) 2;
     assert_eq (en_committed_version entity) 2;
     assert_eq (en_snapshot_version entity) 0
   }"

definition entity_test_new_events_on_fresh_entity ::
    "(string \<Rightarrow> bytes option) \<Rightarrow> (nat \<Rightarrow> system_time) \<Rightarrow> unit option" where
  "entity_test_new_events_on_fresh_entity ser now = do {
     let entity = entity_new (now 0);
     fresh \<leftarrow> new_events entity;
     assert_that (fresh = []);
     entity \<leftarrow> digest ser (now 1) ''e1'' ''a'' entity;
     entity \<leftarrow> digest ser (now 2) ''e2'' ''b'' entity;
     fresh \<leftarrow> new_events entity;
     assert_eq (length fresh) 2;
     e1 \<leftarrow> index_at fresh 0;
     assert_eq (er_event_name e1) ''e1'';
     e2 \<leftarrow> index_at fresh 1;
     assert_eq (er_event_name e2) ''e2''
   }"

definition entity_test_new_events_after_load_and_digest ::
    "(string \<Rightarrow> bytes option) \<Rightarrow> (nat \<Rightarrow> system_time) \<Rightarrow> unit option" where
  "entity_test_new_events_after_load_and_digest ser now = do {
     source \<leftarrow> digest ser (now 1) ''e1'' ''a'' (entity_new (now 0));
     source \<leftarrow> digest ser (now 2) ''e2'' ''b'' source;
     let entity = load_from_history (en_events source) (entity_new (now 3));
     fresh \<leftarrow> new_events entity;
     assert_that (fresh = []);
     entity \<leftarrow> digest ser (now 4) ''e3'' ''c'' entity;
     fresh \<leftarrow> new_events entity;
     assert_eq (length fresh) 1;
     e3 \<leftarrow> index_at fresh 0;
     assert_eq (er_event_name e3) ''e3''
   }"

definition entity_test_mark_committed_resets_new_events ::
    "(string \<Rightarrow> bytes option) \<Rightarrow> (nat \<Rightarrow> system_time) \<Rightarrow> unit option" where
  "entity_test_mark_committed_resets_new_events ser now = do {
     entity \<leftarrow> digest ser (now 1) ''e1'' ''a'' (entity_new (now 0));
     entity \<leftarrow> digest ser (now 2) ''e2'' ''b'' entity;
     fresh \<leftarrow> new_events entity;
     assert_eq (length fresh) 2;
     let entity = mark_committed entity;
     fresh \<leftarrow> new_events entity;
     assert_that (fresh = []);
     assert_eq (en_committed_version entity) 2;
     assert_eq (en_snapshot_version entity) 0;
     assert_eq (en_version entity) 2;
     assert_eq (length (en_events entity)) 2
   }"

definition entity_test_digest_propagates_metadata_to_event_record ::
    "(string \<Rightarrow> bytes option) \<Rightarrow> (nat \<Rightarrow> system_time) \<Rightarrow> unit option" where
  "entity_test_digest_propagates_metadata_to_event_record ser now = do {
     let entity = set_correlation_id ''req-abc'' (entity_new (now 0));
     let entity = set_causation_id ''cmd-xyz'' entity;
     let entity = set_meta ''user_id'' ''u-42'' entity;
     entity \<leftarrow> digest ser (now 1) ''e1'' ''payload'' entity;
     event \<leftarrow> index_at (en_events entity) 0;
     assert_eq (event_record_correlation_id event) (Some ''req-abc'');
     assert_eq (event_record_causation_id event) (Some ''cmd-xyz'');
     assert_eq (event_record_meta event ''user_id'') (Some ''u-42'')
   }"

definition entity_test_digest_without_metadata_leaves_event_record_empty ::
    "(string \<Rightarrow> bytes option) \<Rightarrow> (nat \<Rightarrow> system_time) \<Rightarrow> unit option" where
  "entity_test_digest_without_metadata_leaves_event_record_empty ser now = do {
     entity \<leftarrow> digest ser (now 1) ''e1'' ''payload'' (entity_new (now 0));
     event \<leftarrow> index_at (en_events entity) 0;
     assert_that (Mapping.is_empty (er_metadata event));
     assert_eq (event_record_correlation_id event) None
   }"

definition entity_test_metadata_is_transient_not_serialized ::
    "(stored_entity \<Rightarrow> string option) \<Rightarrow> (string \<Rightarrow> string + stored_entity) \<Rightarrow>
     (string \<Rightarrow> bytes option) \<Rightarrow> (nat \<Rightarrow> system_time) \<Rightarrow> unit option" where
  "entity_test_metadata_is_transient_not_serialized to_string from_str ser now = do {
     let entity = set_correlation_id ''req-abc'' (entity_new (now 0));
     entity \<leftarrow> digest ser (now 1) ''e1'' ''payload'' entity;
     serialized \<leftarrow> to_string (entity_serialize entity);
     stored \<leftarrow> (case from_str serialized of Inl err \<Rightarrow> None | Inr stored \<Rightarrow> Some stored);
     let deserialized = entity_deserialize stored;
     assert_that (Mapping.is_empty (en_metadata deserialized));
     event \<leftarrow> index_at (en_events deserialized) 0;
     assert_eq (event_record_correlation_id event) (Some ''req-abc'')
   }"

definition entity_test_clear_metadata_stops_propagation ::
    "(string \<Rightarrow> bytes option) \<Rightarrow> (nat \<Rightarrow> system_time) \<Rightarrow> unit option" where
  "entity_test_clear_metadata_stops_propagation ser now = do {
     let entity = set_correlation_id ''req-abc'' (entity_new (now 0));
     entity \<leftarrow> digest ser (now 1) ''e1'' ''first'' entity;
     let entity = clear_metadata entity;
     entity \<leftarrow> digest ser (now 2) ''e2'' ''second'' entity;
     event \<leftarrow> index_at (en_events entity) 0;
     assert_eq (event_record_correlation_id event) (Some ''req-abc'');
     event \<leftarrow> index_at (en_events entity) 1;
     assert_that (Mapping.is_empty (er_metadata event))
   }"

definition entity_test_snapshot_version_not_affected_by_load_or_commit ::
    "(string \<Rightarrow> bytes option) \<Rightarrow> (nat \<Rightarrow> system_time) \<Rightarrow> unit option" where
  "entity_test_snapshot_version_not_affected_by_load_or_commit ser now = do {
     let entity = entity_new (now 0);
     assert_eq (en_snapshot_version entity) 0;
     entity \<leftarrow> digest ser (now 1) ''e1'' ''a'' entity;
     entity \<leftarrow> digest ser (now 2) ''e2'' ''b'' entity;
     assert_eq (en_snapshot_version entity) 0;
     let entity = mark_committed entity;
     assert_eq (en_snapshot_version entity) 0;
     let entity2 = load_from_history (en_events entity) (entity_new (now 3));
     assert_eq (en_snapshot_version entity2) 0;
     assert_eq (en_committed_version entity2) 2
   }"

lemmas entity_ops =
  entity_new_def entity_default_def digest_def push_record_def event_record_new_def len_u64_def
  load_from_history_def mark_committed_def new_events_def event_record_decode_def
  set_correlation_id_def set_causation_id_def set_meta_def clear_metadata_def
  event_record_meta_def event_record_correlation_id_def event_record_causation_id_def
  entity_serialize_def entity_deserialize_def

text \<open>The three texts that each \<open>Debug\<close> test looks for: the name, and the text of two fields.\<close>

lemma struct_contains:
  assumes "(f, v) \<in> set fs" and "t = f @ '': '' @ v"
  shows "contains (debug_struct name fs) t"
  using debug_struct_shows [OF assms(1), of name] assms(2) by (auto simp: contains_def sublist_def)

lemma show_small: "show_u64 0 = ''0''" "show_u64 1 = ''1''"
  by code_simp+

lemma struct_contains_name: "contains (debug_struct name fs) name"
  by (simp add: contains_def debug_struct_def)

lemma entity_debug_shows:
  "contains (entity_debug show_time mord e) ''Entity''"
  "en_id e = [] \<Longrightarrow> contains (entity_debug show_time mord e) ''id: \"\"''"
  "en_version e = 0 \<Longrightarrow> contains (entity_debug show_time mord e) ''version: 0''"
proof -
  show "contains (entity_debug show_time mord e) ''Entity''"
    unfolding entity_debug_def by (rule struct_contains_name)
  show "contains (entity_debug show_time mord e) ''id: \"\"''" if "en_id e = []"
    unfolding entity_debug_def
    by (rule struct_contains [of "''id''" "debug_str []"]) (simp_all add: that debug_str_def)
  show "contains (entity_debug show_time mord e) ''version: 0''" if "en_version e = 0"
    unfolding entity_debug_def
    by (rule struct_contains [of "''version''" "show_u64 0"]) (simp_all add: that show_small)
qed

lemma event_record_debug_shows:
  "contains (event_record_debug show_time mord r) ''EventRecord''"
  "er_event_name r = ''test_event'' \<Longrightarrow> contains (event_record_debug show_time mord r) ''event_name: \"test_event\"''"
  "er_sequence r = 1 \<Longrightarrow> contains (event_record_debug show_time mord r) ''sequence: 1''"
proof -
  show "contains (event_record_debug show_time mord r) ''EventRecord''"
    unfolding event_record_debug_def by (rule struct_contains_name)
  show "contains (event_record_debug show_time mord r) ''event_name: \"test_event\"''"
    if "er_event_name r = ''test_event''"
    unfolding event_record_debug_def
    by (rule struct_contains [of "''event_name''" "debug_str ''test_event''"]) (simp_all add: that debug_str_def)
  show "contains (event_record_debug show_time mord r) ''sequence: 1''" if "er_sequence r = 1"
    unfolding event_record_debug_def
    by (rule struct_contains [of "''sequence''" "show_u64 1"]) (simp_all add: that show_small)
qed

theorem entity_tests_pass:
  assumes "codec ser2 de2" and "encodes ser" and "codec to_string from_str"
  shows "passes (entity_test_new t)"
    and "passes (entity_test_digest ser2 de2 now)"
    and "passes (entity_test_rehydrate ser now)"
    and "passes (entity_test_clone t)"
    and "passes (entity_test_debug show_time mord t)"
    and "passes (entity_test_serialize_deserialize to_string from_str ser now)"
    and "passes (entity_test_replaying_state_blocks_changes ser now)"
    and "passes (entity_test_load_from_history_sets_committed_version ser now)"
    and "passes (entity_test_new_events_on_fresh_entity ser now)"
    and "passes (entity_test_new_events_after_load_and_digest ser now)"
    and "passes (entity_test_mark_committed_resets_new_events ser now)"
    and "passes (entity_test_digest_propagates_metadata_to_event_record ser now)"
    and "passes (entity_test_digest_without_metadata_leaves_event_record_empty ser now)"
    and "passes (entity_test_metadata_is_transient_not_serialized to_string from_str ser now)"
    and "passes (entity_test_clear_metadata_stops_propagation ser now)"
    and "passes (entity_test_snapshot_version_not_affected_by_load_or_commit ser now)"
proof -
  obtain f where f: "ser = (\<lambda>a. Some (f a))" using encodesE [OF assms(2)] by blast
  obtain g where g: "ser2 = (\<lambda>a. Some (g a))" "\<And>a. de2 (g a) = Inr a"
    using codec_total [OF assms(1)] by metis
  obtain j where j: "to_string = (\<lambda>a. Some (j a))" "\<And>a. from_str (j a) = Inr a"
    using codec_total [OF assms(3)] by metis
  show "passes (entity_test_new t)"
    by (simp add: entity_test_new_def entity_ops test_simps)
  show "passes (entity_test_digest ser2 de2 now)"
    by (simp add: entity_test_digest_def entity_ops test_simps g)
  show "passes (entity_test_rehydrate ser now)"
    by (simp add: entity_test_rehydrate_def entity_ops test_simps f rehydrate_def replay_guard_new_def
        replay_guard_drop_def st_bind_def)
  show "passes (entity_test_clone t)"
    by (simp add: entity_test_clone_def entity_clone_def test_simps)
  show "passes (entity_test_debug show_time mord t)"
    by (simp add: entity_test_debug_def entity_debug_shows entity_new_def entity_default_def test_simps)
  show "passes (entity_test_serialize_deserialize to_string from_str ser now)"
    by (simp add: entity_test_serialize_deserialize_def entity_ops test_simps f j)
  show "passes (entity_test_replaying_state_blocks_changes ser now)"
    by (simp add: entity_test_replaying_state_blocks_changes_def entity_ops test_simps)
  show "passes (entity_test_load_from_history_sets_committed_version ser now)"
    by (simp add: entity_test_load_from_history_sets_committed_version_def entity_ops test_simps f)
  show "passes (entity_test_new_events_on_fresh_entity ser now)"
    by (simp add: entity_test_new_events_on_fresh_entity_def entity_ops test_simps f)
  show "passes (entity_test_new_events_after_load_and_digest ser now)"
    by (simp add: entity_test_new_events_after_load_and_digest_def entity_ops test_simps f)
  show "passes (entity_test_mark_committed_resets_new_events ser now)"
    by (simp add: entity_test_mark_committed_resets_new_events_def entity_ops test_simps f)
  show "passes (entity_test_digest_propagates_metadata_to_event_record ser now)"
    by (simp add: entity_test_digest_propagates_metadata_to_event_record_def entity_ops test_simps f)
  show "passes (entity_test_digest_without_metadata_leaves_event_record_empty ser now)"
    by (simp add: entity_test_digest_without_metadata_leaves_event_record_empty_def entity_ops test_simps f)
  show "passes (entity_test_metadata_is_transient_not_serialized to_string from_str ser now)"
    by (simp add: entity_test_metadata_is_transient_not_serialized_def entity_ops test_simps f j)
  show "passes (entity_test_clear_metadata_stops_propagation ser now)"
    by (simp add: entity_test_clear_metadata_stops_propagation_def entity_ops test_simps f)
  show "passes (entity_test_snapshot_version_not_affected_by_load_or_commit ser now)"
    by (simp add: entity_test_snapshot_version_not_affected_by_load_or_commit_def entity_ops test_simps f)
qed

section \<open>Event records\<close>

definition event_record_test_new :: "(string \<times> string \<Rightarrow> bytes option) \<Rightarrow> system_time \<Rightarrow> unit option" where
  "event_record_test_new ser now = do {
     payload \<leftarrow> ser (''arg1'', ''arg2'');
     let event_record = event_record_new ''test_event'' payload 1 now;
     assert_eq (er_event_name event_record) ''test_event'';
     assert_eq (er_payload event_record) payload;
     assert_eq (er_sequence event_record) 1
   }"

definition event_record_test_clone :: "(string \<times> string \<Rightarrow> bytes option) \<Rightarrow> system_time \<Rightarrow> unit option" where
  "event_record_test_clone ser now = do {
     payload \<leftarrow> ser (''arg1'', ''arg2'');
     let original = event_record_new ''test_event'' payload 1 now;
     let cloned = original;
     assert_eq (er_event_name cloned) ''test_event'';
     assert_eq (er_payload cloned) (er_payload original);
     assert_eq (er_sequence cloned) 1
   }"

definition event_record_test_debug ::
    "(system_time \<Rightarrow> string) \<Rightarrow> (metadata \<Rightarrow> string list) \<Rightarrow> (string \<times> string \<Rightarrow> bytes option) \<Rightarrow>
     system_time \<Rightarrow> unit option" where
  "event_record_test_debug show_time mord ser now = do {
     payload \<leftarrow> ser (''arg1'', ''arg2'');
     let event_record = event_record_new ''test_event'' payload 1 now;
     let text = event_record_debug show_time mord event_record;
     assert_that (contains text ''EventRecord'');
     assert_that (contains text ''event_name: \"test_event\"'');
     assert_that (contains text ''sequence: 1'')
   }"

text \<open>The text of the payload is base64; \<open>to_string\<close> and \<open>from_str\<close> are \<open>serde_json\<close> on the fields.\<close>

definition event_record_test_serialize_deserialize ::
    "(bytes \<Rightarrow> string) \<Rightarrow> (string \<Rightarrow> bytes option) \<Rightarrow>
     (wire_object \<Rightarrow> string option) \<Rightarrow> (string \<Rightarrow> string + wire_object) \<Rightarrow>
     (string \<times> string \<Rightarrow> bytes option) \<Rightarrow> system_time \<Rightarrow> unit option" where
  "event_record_test_serialize_deserialize b64 unb64 to_string from_str ser now = do {
     payload \<leftarrow> ser (''arg1'', ''arg2'');
     let event_record = event_record_new ''test_event'' payload 1 now;
     serialized \<leftarrow> to_string (event_record_serialize b64 event_record);
     wire \<leftarrow> (case from_str serialized of Inl err \<Rightarrow> None | Inr wire \<Rightarrow> Some wire);
     deserialized \<leftarrow> event_record_deserialize unb64 wire;
     assert_eq (er_event_name deserialized) ''test_event'';
     assert_eq (er_payload deserialized) payload;
     assert_eq (er_sequence deserialized) 1;
     assert_eq (er_timestamp deserialized) (er_timestamp event_record)
   }"

definition event_record_test_decode_payload ::
    "(string \<times> 32 word \<times> bool \<Rightarrow> bytes option) \<Rightarrow> (bytes \<Rightarrow> string + string \<times> 32 word \<times> bool) \<Rightarrow>
     system_time \<Rightarrow> unit option" where
  "event_record_test_decode_payload ser de now = do {
     payload \<leftarrow> ser (''hello'', 42, True);
     let event_record = event_record_new ''test_event'' payload 1 now;
     decoded \<leftarrow> unwrap (event_record_decode de event_record);
     assert_eq decoded (''hello'', 42, True)
   }"

definition event_record_test_payload_bytes :: "system_time \<Rightarrow> unit option" where
  "event_record_test_payload_bytes now = do {
     let payload = [0xff, 0x00, 0xab];
     let event_record = event_record_new ''test_event'' payload 1 now;
     assert_eq (event_record_payload_bytes event_record) payload
   }"

definition event_record_test_with_metadata_constructor :: "system_time \<Rightarrow> unit option" where
  "event_record_test_with_metadata_constructor now = do {
     let meta = Mapping.update ''correlation_id'' ''req-123'' Mapping.empty;
     let meta = Mapping.update ''user_id'' ''u-1'' meta;
     let event = event_record_with_metadata ''test_event'' [] 1 meta now;
     assert_eq (event_record_correlation_id event) (Some ''req-123'');
     assert_eq (event_record_meta event ''user_id'') (Some ''u-1'');
     assert_eq (event_record_causation_id event) None
   }"

text \<open>The old event of the test, as the fields its text has: the epoch is the clock reading 0.\<close>

definition event_record_test_deserialize_without_metadata_field ::
    "(string \<Rightarrow> bytes option) \<Rightarrow> unit option" where
  "event_record_test_deserialize_without_metadata_field unb64 = do {
     event \<leftarrow> event_record_deserialize unb64
       [(''event_name'', WString ''old_event''), (''payload'', WString ''''), (''sequence'', WU64 1),
        (''timestamp'', WTime 0)];
     assert_that (Mapping.is_empty (er_metadata event));
     assert_eq (event_record_correlation_id event) None
   }"

theorem event_record_tests_pass:
  assumes "encodes ser2" and "codec ser3 de3" and "codec to_string from_str"
    and unb64: "\<And>bs. unb64 (b64 bs) = Some bs" and "b64 [] = ''''"
  shows "passes (event_record_test_new ser2 now)"
    and "passes (event_record_test_clone ser2 now)"
    and "passes (event_record_test_debug show_time mord ser2 now)"
    and "passes (event_record_test_serialize_deserialize b64 unb64 to_string from_str ser2 now)"
    and "passes (event_record_test_decode_payload ser3 de3 now)"
    and "passes (event_record_test_payload_bytes now)"
    and "passes (event_record_test_with_metadata_constructor now)"
    and "passes (event_record_test_deserialize_without_metadata_field unb64)"
proof -
  obtain f where f: "ser2 = (\<lambda>a. Some (f a))" using encodesE [OF assms(1)] by blast
  obtain g where g: "ser3 = (\<lambda>a. Some (g a))" "\<And>a. de3 (g a) = Inr a"
    using codec_total [OF assms(2)] by metis
  obtain j where j: "to_string = (\<lambda>a. Some (j a))" "\<And>a. from_str (j a) = Inr a"
    using codec_total [OF assms(3)] by metis
  have empty: "unb64 '''' = Some []" using assms(4) [of "[]"] assms(5) by simp
  show "passes (event_record_test_new ser2 now)"
    by (simp add: event_record_test_new_def test_simps f)
  show "passes (event_record_test_clone ser2 now)"
    by (simp add: event_record_test_clone_def test_simps f)
  show "passes (event_record_test_debug show_time mord ser2 now)"
    by (simp add: event_record_test_debug_def event_record_debug_shows test_simps f)
  show "passes (event_record_test_serialize_deserialize b64 unb64 to_string from_str ser2 now)"
    by (simp add: event_record_test_serialize_deserialize_def test_simps f j event_record_roundtrip_lemma unb64)
  show "passes (event_record_test_decode_payload ser3 de3 now)"
    by (simp add: event_record_test_decode_payload_def event_record_decode_def test_simps g)
  show "passes (event_record_test_payload_bytes now)"
    by (simp add: event_record_test_payload_bytes_def event_record_payload_bytes_def test_simps)
  show "passes (event_record_test_with_metadata_constructor now)"
    by (simp add: event_record_test_with_metadata_constructor_def event_record_with_metadata_def
        entity_ops test_simps)
  show "passes (event_record_test_deserialize_without_metadata_field unb64)"
    by (simp add: event_record_test_deserialize_without_metadata_field_def event_record_deserialize_def
        entity_ops test_simps empty)
qed

section \<open>Upcasters\<close>

text \<open>The closures of the tests that push one byte.\<close>

definition pushing :: "8 word \<Rightarrow> bytes \<Rightarrow> bytes" where
  "pushing b payload = payload @ [b]"

definition upcaster_test_no_upcasters_leaves_events_unchanged :: "system_time \<Rightarrow> unit option" where
  "upcaster_test_no_upcasters_leaves_events_unchanged now = do {
     let event = event_record_new ''TestEvent'' [1, 2, 3] 1 now;
     events \<leftarrow> upcast_events [event] [];
     e \<leftarrow> index_at events 0;
     assert_eq (er_payload e) [1, 2, 3];
     assert_eq (er_event_version e) 1
   }"

definition upcaster_test_single_upcaster_transforms_matching_event :: "system_time \<Rightarrow> unit option" where
  "upcaster_test_single_upcaster_transforms_matching_event now = do {
     let event = event_record_new ''TestEvent'' [1, 2] 1 now;
     let upcasters = [\<lparr>up_event_type = ''TestEvent'', up_from_version = 1, up_to_version = 2,
                       up_transform = pushing 99\<rparr>];
     events \<leftarrow> upcast_events [event] upcasters;
     e \<leftarrow> index_at events 0;
     assert_eq (er_payload e) [1, 2, 99];
     assert_eq (er_event_version e) 2
   }"

definition upcaster_test_upcaster_does_not_affect_non_matching_events :: "system_time \<Rightarrow> unit option" where
  "upcaster_test_upcaster_does_not_affect_non_matching_events now = do {
     let event = event_record_new ''OtherEvent'' [1, 2] 1 now;
     let upcasters = [\<lparr>up_event_type = ''TestEvent'', up_from_version = 1, up_to_version = 2,
                       up_transform = (\<lambda>_. [99])\<rparr>];
     events \<leftarrow> upcast_events [event] upcasters;
     e \<leftarrow> index_at events 0;
     assert_eq (er_payload e) [1, 2];
     assert_eq (er_event_version e) 1
   }"

definition upcaster_test_chained_upcasters_v1_to_v3 :: "system_time \<Rightarrow> unit option" where
  "upcaster_test_chained_upcasters_v1_to_v3 now = do {
     let event = event_record_new ''TestEvent'' [1] 1 now;
     let upcasters = [\<lparr>up_event_type = ''TestEvent'', up_from_version = 1, up_to_version = 2,
                       up_transform = pushing 2\<rparr>,
                      \<lparr>up_event_type = ''TestEvent'', up_from_version = 2, up_to_version = 3,
                       up_transform = pushing 3\<rparr>];
     events \<leftarrow> upcast_events [event] upcasters;
     e \<leftarrow> index_at events 0;
     assert_eq (er_payload e) [1, 2, 3];
     assert_eq (er_event_version e) 3
   }"

definition upcaster_test_mixed_events_some_upcasted_some_not :: "(nat \<Rightarrow> system_time) \<Rightarrow> unit option" where
  "upcaster_test_mixed_events_some_upcasted_some_not now = do {
     let events = [event_record_new ''A'' [10] 1 (now 0), event_record_new ''B'' [20] 1 (now 1),
                   event_record_new_versioned ''A'' [10, 99] 3 2 (now 2)];
     let upcasters = [\<lparr>up_event_type = ''A'', up_from_version = 1, up_to_version = 2,
                       up_transform = pushing 99\<rparr>];
     result \<leftarrow> upcast_events events upcasters;
     first \<leftarrow> index_at result 0;
     assert_eq (er_payload first) [10, 99];
     assert_eq (er_event_version first) 2;
     second \<leftarrow> index_at result 1;
     assert_eq (er_payload second) [20];
     assert_eq (er_event_version second) 1;
     third \<leftarrow> index_at result 2;
     assert_eq (er_payload third) [10, 99];
     assert_eq (er_event_version third) 2
   }"

lemmas upcast_ops =
  upcast_one_no_match upcast_one_match upcaster_matches_def pushing_def

theorem upcaster_tests_pass:
  "passes (upcaster_test_no_upcasters_leaves_events_unchanged t)"
  "passes (upcaster_test_single_upcaster_transforms_matching_event t)"
  "passes (upcaster_test_upcaster_does_not_affect_non_matching_events t)"
  "passes (upcaster_test_chained_upcasters_v1_to_v3 t)"
  "passes (upcaster_test_mixed_events_some_upcasted_some_not now)"
  by (simp_all add: upcaster_test_no_upcasters_leaves_events_unchanged_def
      upcaster_test_single_upcaster_transforms_matching_event_def
      upcaster_test_upcaster_does_not_affect_non_matching_events_def
      upcaster_test_chained_upcasters_v1_to_v3_def
      upcaster_test_mixed_events_some_upcasted_some_not_def upcast_ops test_simps)

section \<open>Committables and local events\<close>

definition committable_test_single_entity :: "system_time \<Rightarrow> unit option" where
  "committable_test_single_entity now = do {
     let entity = entity_with_id ''test'' now;
     let entities = entities_mut (CEntity entity);
     assert_eq (length entities) 1;
     e \<leftarrow> index_at entities 0;
     assert_eq (en_id e) ''test''
   }"

definition committable_test_array_of_entities :: "(nat \<Rightarrow> system_time) \<Rightarrow> unit option" where
  "committable_test_array_of_entities now = do {
     let a = entity_with_id ''a'' (now 0);
     let b = entity_with_id ''b'' (now 1);
     let entities = entities_mut (CArray [a, b]);
     assert_eq (length entities) 2;
     e \<leftarrow> index_at entities 0;
     assert_eq (en_id e) ''a'';
     e \<leftarrow> index_at entities 1;
     assert_eq (en_id e) ''b''
   }"

definition committable_test_vec_of_entities :: "(nat \<Rightarrow> system_time) \<Rightarrow> unit option" where
  "committable_test_vec_of_entities now = do {
     let a = entity_with_id ''a'' (now 0);
     let b = entity_with_id ''b'' (now 1);
     let c = entity_with_id ''c'' (now 2);
     let entities = entities_mut (CVec [a, b, c]);
     assert_eq (length entities) 3
   }"

definition local_event_test_get_event_type_and_data :: "unit option" where
  "local_event_test_get_event_type_and_data = do {
     let event = \<lparr>le_event_type = ''test_event'', le_data = ''test_data''\<rparr>;
     assert_eq (local_event_type event) ''test_event'';
     assert_eq (local_event_get_data event) ''test_data''
   }"

text \<open>The trait of \<open>event.rs\<close> with its two methods, and the type of its test.\<close>

record 'e event_trait =
  ev_event_type :: "'e \<Rightarrow> string"
  ev_get_data :: "'e \<Rightarrow> string"

definition test_event_impl :: "unit event_trait" where
  "test_event_impl = \<lparr>ev_event_type = (\<lambda>_. ''test_event''), ev_get_data = (\<lambda>_. ''test_data'')\<rparr>"

definition event_test_test_event_trait :: "unit option" where
  "event_test_test_event_trait = do {
     let event = ();
     assert_eq (ev_event_type test_event_impl event) ''test_event'';
     assert_eq (ev_get_data test_event_impl event) ''test_data''
   }"

theorem committable_tests_pass:
  "passes (committable_test_single_entity t)"
  "passes (committable_test_array_of_entities now)"
  "passes (committable_test_vec_of_entities now)"
  "passes local_event_test_get_event_type_and_data"
  "passes event_test_test_event_trait"
  by (simp_all add: event_test_test_event_trait_def test_event_impl_def committable_test_single_entity_def committable_test_array_of_entities_def
      committable_test_vec_of_entities_def local_event_test_get_event_type_and_data_def
      local_event_type_def local_event_get_data_def entity_with_id_def entity_default_def test_simps)

end
