(* ===== verification/Tests_Repository.thy ===== *)
theory Tests_Repository
  imports Test_Support Hashmap_Repo
begin

text \<open>
  The unit tests of \<open>src/lock\<close>, \<open>src/repository\<close>, \<open>src/snapshot/in_memory.rs\<close> and
  \<open>src/hashmap_repo\<close>.
\<close>

section \<open>Locks\<close>

definition lock_test_lock_new :: "unit option" where
  "lock_test_lock_new = do {
     let lock = in_memory_lock_new;
     (free, lock) \<leftarrow> calling lock_try_lock lock;
     assert_that free;
     (_, lock) \<leftarrow> calling lock_unlock lock;
     Some ()
   }"

definition lock_test_lock_lock :: "unit option" where
  "lock_test_lock_lock = do {
     let lock = in_memory_lock_new;
     (_, lock) \<leftarrow> calling lock_lock lock;
     (free, lock) \<leftarrow> calling lock_try_lock lock;
     assert_that (\<not> free);
     (_, lock) \<leftarrow> calling lock_unlock lock;
     Some ()
   }"

definition lock_test_lock_try_lock :: "unit option" where
  "lock_test_lock_try_lock = do {
     let lock = in_memory_lock_new;
     (free, lock) \<leftarrow> calling lock_try_lock lock;
     assert_that free;
     (free, lock) \<leftarrow> calling lock_try_lock lock;
     assert_that (\<not> free);
     (_, lock) \<leftarrow> calling lock_unlock lock;
     (free, lock) \<leftarrow> calling lock_try_lock lock;
     assert_that free;
     (_, lock) \<leftarrow> calling lock_unlock lock;
     Some ()
   }"

definition lock_test_lock_unlock :: "unit option" where
  "lock_test_lock_unlock = do {
     let lock = in_memory_lock_new;
     (_, lock) \<leftarrow> calling lock_lock lock;
     (_, lock) \<leftarrow> calling lock_unlock lock;
     (free, lock) \<leftarrow> calling lock_try_lock lock;
     assert_that free;
     (_, lock) \<leftarrow> calling lock_unlock lock;
     Some ()
   }"

text \<open>Handles of the manager are compared as \<open>Arc::ptr_eq\<close> compares them: by the lock they name.\<close>

definition lock_test_same_id_returns_same_arc :: "unit option" where
  "lock_test_same_id_returns_same_arc = do {
     let manager = lock_manager_new;
     (lock1, manager) \<leftarrow> calling (lm_get_lock ''entity-1'') manager;
     (lock2, manager) \<leftarrow> calling (lm_get_lock ''entity-1'') manager;
     assert_that (lock1 = lock2)
   }"

definition lock_test_different_id_returns_different_arc :: "unit option" where
  "lock_test_different_id_returns_different_arc = do {
     let manager = lock_manager_new;
     (lock1, manager) \<leftarrow> calling (lm_get_lock ''entity-1'') manager;
     (lock2, manager) \<leftarrow> calling (lm_get_lock ''entity-2'') manager;
     assert_that (\<not> lock1 = lock2)
   }"

definition lock_test_manager_locks_are_functional :: "unit option" where
  "lock_test_manager_locks_are_functional = do {
     let manager = lock_manager_new;
     (lock, manager) \<leftarrow> calling (lm_get_lock ''test'') manager;
     (free, manager) \<leftarrow> calling (lm_on_lock lock_try_lock lock) manager;
     assert_that free;
     (free, manager) \<leftarrow> calling (lm_on_lock lock_try_lock lock) manager;
     assert_that (\<not> free);
     (_, manager) \<leftarrow> calling (lm_on_lock lock_unlock lock) manager;
     (free, manager) \<leftarrow> calling (lm_on_lock lock_try_lock lock) manager;
     assert_that free;
     (_, manager) \<leftarrow> calling (lm_on_lock lock_unlock lock) manager;
     Some ()
   }"

lemmas lock_ops_defs =
  in_memory_lock_new_def lock_lock_def lock_try_lock_def lock_unlock_def lock_manager_new_def
  lm_get_lock_def lm_on_lock_def calling_def

theorem lock_tests_pass:
  "passes lock_test_lock_new"
  "passes lock_test_lock_lock"
  "passes lock_test_lock_try_lock"
  "passes lock_test_lock_unlock"
  "passes lock_test_same_id_returns_same_arc"
  "passes lock_test_different_id_returns_different_arc"
  "passes lock_test_manager_locks_are_functional"
  by (simp_all add: lock_test_lock_new_def lock_test_lock_lock_def lock_test_lock_try_lock_def
      lock_test_lock_unlock_def lock_test_same_id_returns_same_arc_def
      lock_test_different_id_returns_different_arc_def lock_test_manager_locks_are_functional_def
      lock_ops_defs test_simps lookup_default_update' lookup_default_empty)

section \<open>What \<open>get\<close> accepts\<close>

text \<open>The mock has the two operations that \<open>get\<close> calls; of the others nothing is said (\<open>R\<close>).\<close>

definition mock_get_one :: "system_time \<Rightarrow> string \<Rightarrow> ('r, repository_error, entity option) call" where
  "mock_get_one now ident = st_return (Some (entity_with_id ident now))"

definition mock_get_many :: "system_time \<Rightarrow> string list \<Rightarrow> ('r, repository_error, entity list) call" where
  "mock_get_many now ids = st_return (map (\<lambda>ident. entity_with_id ident now) ids)"

definition mock_repo :: "system_time \<Rightarrow> 'r repo_ops \<Rightarrow> 'r repo_ops" where
  "mock_repo now R = R\<lparr>op_get_one := mock_get_one now, op_get_many := mock_get_many now\<rparr>"

fun got_one :: "get_output \<Rightarrow> entity option option" where
  "got_one (GOne found) = Some found"
| "got_one (GMany _) = None"

fun got_many :: "get_output \<Rightarrow> entity list option" where
  "got_many (GMany found) = Some found"
| "got_many (GOne _) = None"

definition gettable_test_single_str :: "system_time \<Rightarrow> 'r repo_ops \<Rightarrow> 'r \<Rightarrow> unit option" where
  "gettable_test_single_str now R r = do {
     (out, r) \<leftarrow> calling (get_from (mock_repo now R) (GStr ''test-id'')) r;
     result \<leftarrow> got_one out;
     assert_that (result \<noteq> None);
     found \<leftarrow> result;
     assert_eq (en_id found) ''test-id''
   }"

definition gettable_test_single_string :: "system_time \<Rightarrow> 'r repo_ops \<Rightarrow> 'r \<Rightarrow> unit option" where
  "gettable_test_single_string now R r = do {
     (out, r) \<leftarrow> calling (get_from (mock_repo now R) (GString ''test-id'')) r;
     result \<leftarrow> got_one out;
     assert_that (result \<noteq> None);
     found \<leftarrow> result;
     assert_eq (en_id found) ''test-id''
   }"

definition gettable_test_slice_of_ids :: "system_time \<Rightarrow> 'r repo_ops \<Rightarrow> 'r \<Rightarrow> unit option" where
  "gettable_test_slice_of_ids now R r = do {
     (out, r) \<leftarrow> calling (get_from (mock_repo now R) (GSlice [''a'', ''b'', ''c''])) r;
     result \<leftarrow> got_many out;
     assert_eq (length result) 3
   }"

definition gettable_test_array_of_ids :: "system_time \<Rightarrow> 'r repo_ops \<Rightarrow> 'r \<Rightarrow> unit option" where
  "gettable_test_array_of_ids now R r = do {
     (out, r) \<leftarrow> calling (get_from (mock_repo now R) (GArray [''a'', ''b''])) r;
     result \<leftarrow> got_many out;
     assert_eq (length result) 2
   }"

definition gettable_test_vec_of_ids :: "system_time \<Rightarrow> 'r repo_ops \<Rightarrow> 'r \<Rightarrow> unit option" where
  "gettable_test_vec_of_ids now R r = do {
     (out, r) \<leftarrow> calling (get_from (mock_repo now R) (GVec [''a'', ''b'', ''c'', ''d''])) r;
     result \<leftarrow> got_many out;
     assert_eq (length result) 4
   }"

theorem gettable_tests_pass:
  "passes (gettable_test_single_str now R r)"
  "passes (gettable_test_single_string now R r)"
  "passes (gettable_test_slice_of_ids now R r)"
  "passes (gettable_test_array_of_ids now R r)"
  "passes (gettable_test_vec_of_ids now R r)"
  by (simp_all add: gettable_test_single_str_def gettable_test_single_string_def
      gettable_test_slice_of_ids_def gettable_test_array_of_ids_def gettable_test_vec_of_ids_def
      mock_repo_def mock_get_one_def mock_get_many_def st_return_def entity_with_id_def calling_def
      test_simps)

section \<open>Snapshots in memory\<close>

definition snap_test_save_and_get :: "unit option" where
  "snap_test_save_and_get = do {
     let store = snap_store_new;
     let saved = \<lparr>sn_aggregate_id = ''agg-1'', sn_version = 5, sn_data = [1, 2, 3]\<rparr>;
     (_, store) \<leftarrow> calling (save_snapshot saved) store;
     (found, store) \<leftarrow> calling (get_snapshot ''agg-1'') store;
     loaded \<leftarrow> found;
     assert_eq (sn_version loaded) 5;
     assert_eq (sn_data loaded) [1, 2, 3]
   }"

definition snap_test_get_missing_returns_none :: "unit option" where
  "snap_test_get_missing_returns_none = do {
     let store = snap_store_new;
     (found, store) \<leftarrow> calling (get_snapshot ''missing'') store;
     assert_that (found = None)
   }"

definition snap_test_save_overwrites :: "unit option" where
  "snap_test_save_overwrites = do {
     let store = snap_store_new;
     (_, store) \<leftarrow> calling (save_snapshot
       \<lparr>sn_aggregate_id = ''agg-1'', sn_version = 1, sn_data = [1]\<rparr>) store;
     (_, store) \<leftarrow> calling (save_snapshot
       \<lparr>sn_aggregate_id = ''agg-1'', sn_version = 5, sn_data = [5]\<rparr>) store;
     (found, store) \<leftarrow> calling (get_snapshot ''agg-1'') store;
     loaded \<leftarrow> found;
     assert_eq (sn_version loaded) 5;
     assert_eq (sn_data loaded) [5]
   }"

definition snap_test_delete_existing :: "unit option" where
  "snap_test_delete_existing = do {
     let store = snap_store_new;
     (_, store) \<leftarrow> calling (save_snapshot
       \<lparr>sn_aggregate_id = ''agg-1'', sn_version = 1, sn_data = [1]\<rparr>) store;
     (deleted, store) \<leftarrow> calling (delete_snapshot ''agg-1'') store;
     assert_that deleted;
     (found, store) \<leftarrow> calling (get_snapshot ''agg-1'') store;
     assert_that (found = None)
   }"

definition snap_test_delete_missing_returns_false :: "unit option" where
  "snap_test_delete_missing_returns_false = do {
     let store = snap_store_new;
     (deleted, store) \<leftarrow> calling (delete_snapshot ''missing'') store;
     assert_that (\<not> deleted)
   }"

text \<open>A clone of the store shares the map, so it is the same state.\<close>

definition snap_test_clone_shares_storage :: "unit option" where
  "snap_test_clone_shares_storage = do {
     let store = snap_store_new;
     (_, store) \<leftarrow> calling (save_snapshot
       \<lparr>sn_aggregate_id = ''agg-1'', sn_version = 3, sn_data = [3]\<rparr>) store;
     let clone = store;
     (found, clone) \<leftarrow> calling (get_snapshot ''agg-1'') clone;
     loaded \<leftarrow> found;
     assert_eq (sn_version loaded) 3
   }"

theorem snap_tests_pass:
  "passes snap_test_save_and_get"
  "passes snap_test_get_missing_returns_none"
  "passes snap_test_save_overwrites"
  "passes snap_test_delete_existing"
  "passes snap_test_delete_missing_returns_false"
  "passes snap_test_clone_shares_storage"
  by (simp_all add: snap_test_save_and_get_def snap_test_get_missing_returns_none_def
      snap_test_save_overwrites_def snap_test_delete_existing_def
      snap_test_delete_missing_returns_false_def snap_test_clone_shares_storage_def
      snap_store_new_def save_snapshot_def get_snapshot_def delete_snapshot_def calling_def
      lookup_empty lookup_update' lookup_delete test_simps)

section \<open>The repository in memory\<close>

text \<open>\<open>commit\<close> leaves the repository and the entities it was given, marked as committed.\<close>

definition committing :: "'r repo_ops \<Rightarrow> committable \<Rightarrow> 'r \<Rightarrow> ('r \<times> entity list) option" where
  "committing R c r = (case commit_with R c r of (res, r', es) \<Rightarrow> map_option (\<lambda>_. (r', es)) (unwrap res))"

definition hm_test_new :: "unit option" where
  "hm_test_new = do {
     let repo = hm_repo_new;
     assert_that (\<not> hr_poisoned repo \<and> Mapping.is_empty (hr_events repo))
   }"

definition hm_test_single_entity_commit ::
    "event_order \<Rightarrow> (string \<times> string \<Rightarrow> bytes option) \<Rightarrow> (nat \<Rightarrow> system_time) \<Rightarrow> unit option" where
  "hm_test_single_entity_commit ord ser now = do {
     let repo = hm_repo_new;
     let ident = ''test_id'';
     entity \<leftarrow> digest ser (now 1) ''test_event'' (''arg1'', ''arg2'') (entity_with_id ident (now 0));
     (repo, es) \<leftarrow> committing (hashmap_repo (now 2) ord) (CEntity entity) repo;
     entity \<leftarrow> index_at es 0;
     (out, repo) \<leftarrow> calling (repo_get (hashmap_repo (now 3) ord) (GStr ident)) repo;
     found \<leftarrow> got_one out;
     fetched_entity \<leftarrow> found;
     assert_eq (en_id fetched_entity) ident;
     assert_eq (en_events fetched_entity) (en_events entity)
   }"

definition hm_test_multiple_entity_commit ::
    "event_order \<Rightarrow> (string \<Rightarrow> bytes option) \<Rightarrow> (nat \<Rightarrow> system_time) \<Rightarrow> unit option" where
  "hm_test_multiple_entity_commit ord ser now = do {
     let repo = hm_repo_new;
     entity1 \<leftarrow> digest ser (now 1) ''event1'' ''arg1'' (entity_with_id ''id_1'' (now 0));
     entity2 \<leftarrow> digest ser (now 3) ''event2'' ''arg2'' (entity_with_id ''id_2'' (now 2));
     (repo, _) \<leftarrow> committing (hashmap_repo (now 4) ord) (CArray [entity1, entity2]) repo;
     (out, repo) \<leftarrow> calling (repo_get (hashmap_repo (now 5) ord) (GArrayRef [''id_1'', ''id_2''])) repo;
     all_entities \<leftarrow> got_many out;
     assert_eq (length all_entities) 2
   }"

text \<open>What three of the tests start with.\<close>

definition two_todos_and_a_user ::
    "event_order \<Rightarrow> (string \<Rightarrow> bytes option) \<Rightarrow> (nat \<Rightarrow> system_time) \<Rightarrow> hm_repo option" where
  "two_todos_and_a_user ord ser now = do {
     let repo = hm_repo_new;
     todo1 \<leftarrow> digest ser (now 1) ''Created'' ''todo-1'' (entity_with_id ''todo-1'' (now 0));
     todo2 \<leftarrow> digest ser (now 3) ''Created'' ''todo-2'' (entity_with_id ''todo-2'' (now 2));
     user1 \<leftarrow> digest ser (now 5) ''Created'' ''user-1'' (entity_with_id ''user-1'' (now 4));
     (repo, _) \<leftarrow> committing (hashmap_repo (now 6) ord) (CArray [todo1, todo2, user1]) repo;
     Some repo
   }"

definition hm_test_find_returns_matching_entities ::
    "event_order \<Rightarrow> (string \<Rightarrow> bytes option) \<Rightarrow> (nat \<Rightarrow> system_time) \<Rightarrow> unit option" where
  "hm_test_find_returns_matching_entities ord ser now = do {
     repo \<leftarrow> two_todos_and_a_user ord ser now;
     (todos, repo) \<leftarrow> calling (hm_find (now 7) ord (\<lambda>e. prefix ''todo-'' (en_id e))) repo;
     assert_eq (length todos) 2;
     (users, repo) \<leftarrow> calling (hm_find (now 8) ord (\<lambda>e. prefix ''user-'' (en_id e))) repo;
     assert_eq (length users) 1;
     (none, repo) \<leftarrow> calling (hm_find (now 9) ord (\<lambda>e. prefix ''order-'' (en_id e))) repo;
     assert_that (none = [])
   }"

definition hm_test_find_one_returns_first_match ::
    "event_order \<Rightarrow> (string \<Rightarrow> bytes option) \<Rightarrow> (nat \<Rightarrow> system_time) \<Rightarrow> unit option" where
  "hm_test_find_one_returns_first_match ord ser now = do {
     let repo = hm_repo_new;
     entity1 \<leftarrow> digest ser (now 1) ''Created'' ''item-1'' (entity_with_id ''item-1'' (now 0));
     entity2 \<leftarrow> digest ser (now 3) ''Created'' ''item-2'' (entity_with_id ''item-2'' (now 2));
     (repo, _) \<leftarrow> committing (hashmap_repo (now 4) ord) (CArray [entity1, entity2]) repo;
     (found, repo) \<leftarrow> calling (hm_find_one (now 5) ord (\<lambda>e. prefix ''item-'' (en_id e))) repo;
     assert_that (found \<noteq> None);
     e \<leftarrow> found;
     assert_that (prefix ''item-'' (en_id e));
     (not_found, repo) \<leftarrow> calling (hm_find_one (now 6) ord (\<lambda>e. prefix ''missing-'' (en_id e))) repo;
     assert_that (not_found = None)
   }"

definition hm_test_find_on_empty_repo :: "event_order \<Rightarrow> (nat \<Rightarrow> system_time) \<Rightarrow> unit option" where
  "hm_test_find_on_empty_repo ord now = do {
     let repo = hm_repo_new;
     (results, repo) \<leftarrow> calling (hm_find (now 0) ord (\<lambda>_. True)) repo;
     assert_that (results = []);
     (result, repo) \<leftarrow> calling (hm_find_one (now 1) ord (\<lambda>_. True)) repo;
     assert_that (result = None)
   }"

definition hm_test_exists_returns_true_when_match_found ::
    "event_order \<Rightarrow> (string \<Rightarrow> bytes option) \<Rightarrow> (nat \<Rightarrow> system_time) \<Rightarrow> unit option" where
  "hm_test_exists_returns_true_when_match_found ord ser now = do {
     let repo = hm_repo_new;
     entity \<leftarrow> digest ser (now 1) ''Created'' ''todo-1'' (entity_with_id ''todo-1'' (now 0));
     (repo, _) \<leftarrow> committing (hashmap_repo (now 2) ord) (CEntity entity) repo;
     (found, repo) \<leftarrow> calling (hm_exists (now 3) ord (\<lambda>e. en_id e = ''todo-1'')) repo;
     assert_that found;
     (found, repo) \<leftarrow> calling (hm_exists (now 4) ord (\<lambda>e. en_id e = ''todo-2'')) repo;
     assert_that (\<not> found)
   }"

definition hm_test_count_returns_matching_count ::
    "event_order \<Rightarrow> (string \<Rightarrow> bytes option) \<Rightarrow> (nat \<Rightarrow> system_time) \<Rightarrow> unit option" where
  "hm_test_count_returns_matching_count ord ser now = do {
     repo \<leftarrow> two_todos_and_a_user ord ser now;
     (n, repo) \<leftarrow> calling (hm_count (now 7) ord (\<lambda>e. prefix ''todo-'' (en_id e))) repo;
     assert_eq n 2;
     (n, repo) \<leftarrow> calling (hm_count (now 8) ord (\<lambda>e. prefix ''user-'' (en_id e))) repo;
     assert_eq n 1;
     (n, repo) \<leftarrow> calling (hm_count (now 9) ord (\<lambda>_. True)) repo;
     assert_eq n 3;
     (n, repo) \<leftarrow> calling (hm_count (now 10) ord (\<lambda>e. prefix ''order-'' (en_id e))) repo;
     assert_eq n 0
   }"

definition hm_test_exists_and_count_on_empty_repo :: "event_order \<Rightarrow> (nat \<Rightarrow> system_time) \<Rightarrow> unit option" where
  "hm_test_exists_and_count_on_empty_repo ord now = do {
     let repo = hm_repo_new;
     (found, repo) \<leftarrow> calling (hm_exists (now 0) ord (\<lambda>_. True)) repo;
     assert_that (\<not> found);
     (n, repo) \<leftarrow> calling (hm_count (now 1) ord (\<lambda>_. True)) repo;
     assert_eq n 0
   }"

lemma orders_empty: "orders ord \<Longrightarrow> ord Mapping.empty = []"
  by (metis orders_def iteration_empty keys_empty finite.emptyI)

lemma found_count:
  assumes "orders ord" and "finite (Mapping.keys (hr_events r))"
  shows "length (filter p (hm_entities now ord r)) =
    (\<Sum>k \<in> Mapping.keys (hr_events r). if p (entity_from now k (the (Mapping.lookup (hr_events r) k))) then 1 else 0)"
  unfolding hm_entities_def by (subst length_filter_orders [OF assms]) simp

lemma found_none:
  assumes "orders ord" and "finite (Mapping.keys (hr_events r))"
  shows "filter p (hm_entities now ord r) = [] \<longleftrightarrow>
    (\<Sum>k \<in> Mapping.keys (hr_events r). if p (entity_from now k (the (Mapping.lookup (hr_events r) k))) then 1 else 0) = (0::nat)"
  unfolding found_count [OF assms, symmetric] by simp

lemma found_all:
  assumes "orders ord" and "finite (Mapping.keys (hr_events r))"
  shows "length (hm_entities now ord r) = card (Mapping.keys (hr_events r))"
  using found_count [OF assms, of "\<lambda>_. True"] by simp

lemma found_empty: "orders ord \<Longrightarrow> hr_events r = Mapping.empty \<Longrightarrow> hm_entities now ord r = []"
  by (simp add: hm_entities_def orders_empty)

lemma first_iff:
  "(\<exists>y. (case filter p xs of [] \<Rightarrow> None | x # _ \<Rightarrow> Some x) = Some y) \<longleftrightarrow> filter p xs \<noteq> []"
  "(case filter p xs of [] \<Rightarrow> None | x # _ \<Rightarrow> Some x) = None \<longleftrightarrow> filter p xs = []"
  by (auto split: list.splits)

lemma first_found:
  assumes "filter p xs \<noteq> []"
  shows "passes (Option.bind (case filter p xs of [] \<Rightarrow> None | x # _ \<Rightarrow> Some x) (\<lambda>e. Option.bind (assert_that (p e)) f))
    \<longleftrightarrow> passes (f ())"
  using assms by (auto simp: test_simps split: list.split dest: filter_eq_ConsD)

lemmas repo_ops_defs =
  commit_with_def hm_commit_def hashmap_repo_def new_events_def digest_def push_record_def event_record_new_def
  mark_committed_def entity_with_id_def entity_default_def len_u64_def hm_repo_new_def lookup_empty lookup_update'
  lookup_default_empty lookup_default_update' repo_get_def hm_get_one_def entity_from_def load_from_history_def
  st_bind_def st_return_def hm_find_def hm_find_one_def hm_exists_def hm_count_def calling_def committing_def

lemmas found_simps =
  found_count found_none found_all found_empty first_found first_iff list_ex_filter count_loop_filter find_loop_filter entity_from_def load_from_history_def
  set_id_def

theorem hm_tests_pass:
  assumes "orders ord" and "encodes ser2" and "encodes ser"
  shows "passes hm_test_new"
    and "passes (hm_test_single_entity_commit ord ser2 now)"
    and "passes (hm_test_multiple_entity_commit ord ser now)"
    and "passes (hm_test_find_returns_matching_entities ord ser now)"
    and "passes (hm_test_find_one_returns_first_match ord ser now)"
    and "passes (hm_test_find_on_empty_repo ord now)"
    and "passes (hm_test_exists_returns_true_when_match_found ord ser now)"
    and "passes (hm_test_count_returns_matching_count ord ser now)"
    and "passes (hm_test_exists_and_count_on_empty_repo ord now)"
proof -
  obtain f where f: "ser = (\<lambda>a. Some (f a))" using encodesE [OF assms(3)] by blast
  obtain g where g: "ser2 = (\<lambda>a. Some (g a))" using encodesE [OF assms(2)] by blast
  show "passes hm_test_new"
    by (simp add: hm_test_new_def repo_ops_defs test_simps)
  show "passes (hm_test_single_entity_commit ord ser2 now)"
    by (simp add: hm_test_single_entity_commit_def repo_ops_defs test_simps g set_id_def)
  show "passes (hm_test_multiple_entity_commit ord ser now)"
    by (simp add: hm_test_multiple_entity_commit_def repo_ops_defs test_simps f set_id_def)
  show "passes (hm_test_find_returns_matching_entities ord ser now)"
    by (simp add: hm_test_find_returns_matching_entities_def two_todos_and_a_user_def repo_ops_defs
        test_simps f found_simps assms(1))
  show "passes (hm_test_find_one_returns_first_match ord ser now)"
    by (simp add: hm_test_find_one_returns_first_match_def repo_ops_defs test_simps f found_simps assms(1))
  show "passes (hm_test_find_on_empty_repo ord now)"
    by (simp add: hm_test_find_on_empty_repo_def repo_ops_defs test_simps found_simps assms(1))
  show "passes (hm_test_exists_returns_true_when_match_found ord ser now)"
    by (simp add: hm_test_exists_returns_true_when_match_found_def repo_ops_defs test_simps f found_simps assms(1))
  show "passes (hm_test_count_returns_matching_count ord ser now)"
    by (simp add: hm_test_count_returns_matching_count_def two_todos_and_a_user_def repo_ops_defs
        test_simps f found_simps assms(1))
  show "passes (hm_test_exists_and_count_on_empty_repo ord now)"
    by (simp add: hm_test_exists_and_count_on_empty_repo_def repo_ops_defs test_simps found_simps assms(1))
qed

end
