(* ===== verification/Tests_Read_Model.thy ===== *)
theory Tests_Read_Model
  imports Test_Support Queued_Read_Model
begin

text \<open>
  The unit tests of \<open>src/read_model/in_memory.rs\<close> and \<open>queued.rs\<close>.  Both modules test with the
  same model type; \<open>enc\<close> and \<open>dec\<close> are \<open>serde_json\<close> at it.
\<close>

record test_model =
  tm_id :: string
  tm_value :: "32 word"

definition test_models ::
    "(test_model \<Rightarrow> string + bytes) \<Rightarrow> (bytes \<Rightarrow> string + test_model) \<Rightarrow> test_model read_model" where
  "test_models enc dec =
     \<lparr>md_collection = ''test_models'', md_id = tm_id, md_to_vec = enc, md_from_slice = dec\<rparr>"

definition json :: "('a \<Rightarrow> string + bytes) \<Rightarrow> (bytes \<Rightarrow> string + 'a) \<Rightarrow> bool" where
  "json enc dec \<longleftrightarrow> (\<forall>a. \<exists>b. enc a = Inr b \<and> dec b = Inr a)"

lemma json_total:
  assumes "json enc dec"
  obtains f where "enc = (\<lambda>a. Inr (f a))" and "\<And>a. dec (f a) = Inr a"
proof -
  have "\<forall>a. \<exists>b. enc a = Inr b \<and> dec b = Inr a" using assms by (simp add: json_def)
  then obtain f where "\<And>a. enc a = Inr (f a) \<and> dec (f a) = Inr a" by metis
  then show thesis by (intro that [of f]) auto
qed

fun conflict :: "read_model_error \<Rightarrow> bool" where
  "conflict (RM_ConcurrencyConflict coll ident expected actual) = True"
| "conflict _ = False"

type_synonym storage_order = "(string, stored_model) mapping \<Rightarrow> string list"

section \<open>The store in memory\<close>

definition rm_test_upsert_and_get :: "test_model read_model \<Rightarrow> unit option" where
  "rm_test_upsert_and_get M = do {
     let store = rm_store_new;
     let model = \<lparr>tm_id = ''1'', tm_value = 42\<rparr>;
     (saved, store) \<leftarrow> calling (upsert M model) store;
     assert_eq (vs_version saved) 1;
     assert_eq (tm_value (vs_data saved)) 42;
     (found, store) \<leftarrow> calling (get_model M ''1'') store;
     loaded \<leftarrow> found;
     assert_eq (vs_version loaded) 1;
     assert_eq (tm_value (vs_data loaded)) 42
   }"

definition rm_test_upsert_increments_version :: "test_model read_model \<Rightarrow> unit option" where
  "rm_test_upsert_increments_version M = do {
     let store = rm_store_new;
     let model = \<lparr>tm_id = ''1'', tm_value = 1\<rparr>;
     (_, store) \<leftarrow> calling (upsert M model) store;
     let updated = \<lparr>tm_id = ''1'', tm_value = 2\<rparr>;
     (saved, store) \<leftarrow> calling (upsert M updated) store;
     assert_eq (vs_version saved) 2
   }"

definition rm_test_get_missing_returns_none :: "test_model read_model \<Rightarrow> unit option" where
  "rm_test_get_missing_returns_none M = do {
     let store = rm_store_new;
     (result, store) \<leftarrow> calling (get_model M ''missing'') store;
     assert_that (result = None)
   }"

definition rm_test_insert_fails_on_existing :: "test_model read_model \<Rightarrow> unit option" where
  "rm_test_insert_fails_on_existing M = do {
     let store = rm_store_new;
     let model = \<lparr>tm_id = ''1'', tm_value = 1\<rparr>;
     (_, store) \<leftarrow> calling (insert_model M model) store;
     (err, store) \<leftarrow> failing (insert_model M model) store;
     assert_that (conflict err)
   }"

definition rm_test_update_with_correct_version :: "test_model read_model \<Rightarrow> unit option" where
  "rm_test_update_with_correct_version M = do {
     let store = rm_store_new;
     let model = \<lparr>tm_id = ''1'', tm_value = 1\<rparr>;
     (_, store) \<leftarrow> calling (upsert M model) store;
     let updated = \<lparr>tm_id = ''1'', tm_value = 2\<rparr>;
     (result, store) \<leftarrow> calling (update_model M updated 1) store;
     assert_eq (vs_version result) 2;
     assert_eq (tm_value (vs_data result)) 2
   }"

definition rm_test_update_with_wrong_version_fails :: "test_model read_model \<Rightarrow> unit option" where
  "rm_test_update_with_wrong_version_fails M = do {
     let store = rm_store_new;
     let model = \<lparr>tm_id = ''1'', tm_value = 1\<rparr>;
     (_, store) \<leftarrow> calling (upsert M model) store;
     let updated = \<lparr>tm_id = ''1'', tm_value = 2\<rparr>;
     (err, store) \<leftarrow> failing (update_model M updated 99) store;
     assert_that (conflict err)
   }"

definition rm_test_delete_existing :: "test_model read_model \<Rightarrow> unit option" where
  "rm_test_delete_existing M = do {
     let store = rm_store_new;
     let model = \<lparr>tm_id = ''1'', tm_value = 1\<rparr>;
     (_, store) \<leftarrow> calling (upsert M model) store;
     (deleted, store) \<leftarrow> calling (delete_model M ''1'') store;
     assert_that deleted;
     (result, store) \<leftarrow> calling (get_model M ''1'') store;
     assert_that (result = None)
   }"

definition rm_test_delete_missing_returns_false :: "test_model read_model \<Rightarrow> unit option" where
  "rm_test_delete_missing_returns_false M = do {
     let store = rm_store_new;
     (deleted, store) \<leftarrow> calling (delete_model M ''missing'') store;
     assert_that (\<not> deleted)
   }"

definition rm_test_find_with_predicate :: "storage_order \<Rightarrow> test_model read_model \<Rightarrow> unit option" where
  "rm_test_find_with_predicate ord M = do {
     let store = rm_store_new;
     (_, store) \<leftarrow> calling (upsert M \<lparr>tm_id = ''1'', tm_value = 10\<rparr>) store;
     (_, store) \<leftarrow> calling (upsert M \<lparr>tm_id = ''2'', tm_value = 20\<rparr>) store;
     (_, store) \<leftarrow> calling (upsert M \<lparr>tm_id = ''3'', tm_value = 5\<rparr>) store;
     (results, store) \<leftarrow> calling (find_models M ord (\<lambda>m. 8 < sint (tm_value m))) store;
     assert_eq (length results) 2
   }"

definition rm_test_find_one_with_predicate :: "storage_order \<Rightarrow> test_model read_model \<Rightarrow> unit option" where
  "rm_test_find_one_with_predicate ord M = do {
     let store = rm_store_new;
     (_, store) \<leftarrow> calling (upsert M \<lparr>tm_id = ''1'', tm_value = 10\<rparr>) store;
     (_, store) \<leftarrow> calling (upsert M \<lparr>tm_id = ''2'', tm_value = 20\<rparr>) store;
     (result, store) \<leftarrow> calling (find_one_model M ord (\<lambda>m. 15 < sint (tm_value m))) store;
     assert_that (result \<noteq> None);
     found \<leftarrow> result;
     assert_eq (tm_value (vs_data found)) 20;
     (none, store) \<leftarrow> calling (find_one_model M ord (\<lambda>m. 100 < sint (tm_value m))) store;
     assert_that (none = None)
   }"

definition rm_test_clone_shares_storage :: "test_model read_model \<Rightarrow> unit option" where
  "rm_test_clone_shares_storage M = do {
     let store = rm_store_new;
     (_, store) \<leftarrow> calling (upsert M \<lparr>tm_id = ''1'', tm_value = 42\<rparr>) store;
     let clone = store;
     (found, clone) \<leftarrow> calling (get_model M ''1'') clone;
     loaded \<leftarrow> found;
     assert_eq (tm_value (vs_data loaded)) 42
   }"

lemma length_map_filter: "length (List.map_filter f xs) = length (filter (\<lambda>x. f x \<noteq> None) xs)"
  by (induction xs) (auto simp: map_filter_simps split: option.split)

lemma find_models_length:
  assumes "orders ord" and "finite (Mapping.keys m)"
  shows "length (List.map_filter f (hm_iter m (ord m))) =
    (\<Sum>k \<in> Mapping.keys m. if f (k, the (Mapping.lookup m k)) \<noteq> None then 1 else 0)"
  using length_filter_iteration [of m "ord m"] assms by (simp add: length_map_filter orders_def)

lemma find_loop_set: "find_loop f xs = Some y \<Longrightarrow> \<exists>x \<in> set xs. f x = Some y"
  by (induction xs) (auto split: option.splits)

lemma find_loop_none: "find_loop f xs = None \<longleftrightarrow> (\<forall>x \<in> set xs. f x = None)"
  by (induction xs) (auto split: option.splits)

lemma find_one_unique:
  assumes "orders ord" and "finite (Mapping.keys m)" and "Mapping.lookup m k = Some v" and "f (k, v) = Some y"
    and "\<And>j w. Mapping.lookup m j = Some w \<Longrightarrow> f (j, w) \<noteq> None \<Longrightarrow> j = k"
  shows "find_loop f (hm_iter m (ord m)) = Some y"
proof -
  have it: "(j, w) \<in> set (hm_iter m (ord m)) \<longleftrightarrow> Mapping.lookup m j = Some w" for j w
    using assms(1,2) by (simp add: orders_def set_hm_iter_iteration)
  then have "(k, v) \<in> set (hm_iter m (ord m))" using assms(3) by blast
  then have "find_loop f (hm_iter m (ord m)) \<noteq> None"
    using assms(4) find_loop_none [of f] by (metis option.distinct(1))
  then obtain z where z: "find_loop f (hm_iter m (ord m)) = Some z" by blast
  from find_loop_set [OF this] it obtain j w where "Mapping.lookup m j = Some w" "f (j, w) = Some z" by force
  moreover from this have "j = k" using assms(5) by blast
  ultimately show ?thesis using assms(3,4) z by simp
qed

lemma find_one_missing:
  assumes "orders ord" and "finite (Mapping.keys m)"
    and "\<And>j w. Mapping.lookup m j = Some w \<Longrightarrow> f (j, w) = None"
  shows "find_loop f (hm_iter m (ord m)) = None"
  using assms by (auto simp: find_loop_none orders_def set_hm_iter)

lemmas rm_ops_defs =
  test_models_def rm_store_new_def upsert_def insert_model_def update_model_def delete_model_def get_model_def
  next_version_def put_model_def make_key_def lookup_empty lookup_update' lookup_delete calling_def failing_def
  find_models_def find_one_model_def match_model_def

theorem rm_tests_pass:
  assumes "json enc dec" and "orders ord"
  defines "M \<equiv> test_models enc dec"
  shows "passes (rm_test_upsert_and_get M)"
    and "passes (rm_test_upsert_increments_version M)"
    and "passes (rm_test_get_missing_returns_none M)"
    and "passes (rm_test_insert_fails_on_existing M)"
    and "passes (rm_test_update_with_correct_version M)"
    and "passes (rm_test_update_with_wrong_version_fails M)"
    and "passes (rm_test_delete_existing M)"
    and "passes (rm_test_delete_missing_returns_false M)"
    and "passes (rm_test_find_with_predicate ord M)"
    and "passes (rm_test_find_one_with_predicate ord M)"
    and "passes (rm_test_clone_shares_storage M)"
proof -
  obtain f where f: "enc = (\<lambda>a. Inr (f a))" "\<And>a. dec (f a) = Inr a"
    using json_total [OF assms(1)] by metis
  note ops = M_def rm_ops_defs test_simps f
  show "passes (rm_test_upsert_and_get M)" by (simp add: rm_test_upsert_and_get_def ops)
  show "passes (rm_test_upsert_increments_version M)" by (simp add: rm_test_upsert_increments_version_def ops)
  show "passes (rm_test_get_missing_returns_none M)" by (simp add: rm_test_get_missing_returns_none_def ops)
  show "passes (rm_test_insert_fails_on_existing M)" by (simp add: rm_test_insert_fails_on_existing_def ops)
  show "passes (rm_test_update_with_correct_version M)" by (simp add: rm_test_update_with_correct_version_def ops)
  show "passes (rm_test_update_with_wrong_version_fails M)"
    by (simp add: rm_test_update_with_wrong_version_fails_def ops)
  show "passes (rm_test_delete_existing M)" by (simp add: rm_test_delete_existing_def ops)
  show "passes (rm_test_delete_missing_returns_false M)" by (simp add: rm_test_delete_missing_returns_false_def ops)
  show "passes (rm_test_find_with_predicate ord M)"
    by (simp add: rm_test_find_with_predicate_def ops find_models_length assms(2))
  show "passes (rm_test_clone_shares_storage M)" by (simp add: rm_test_clone_shares_storage_def ops)
  let ?m = "Mapping.update ''test_models:2'' \<lparr>sm_bytes = f \<lparr>tm_id = ''2'', tm_value = 20\<rparr>, sm_version = 1\<rparr>
    (Mapping.update ''test_models:1'' \<lparr>sm_bytes = f \<lparr>tm_id = ''1'', tm_value = 10\<rparr>, sm_version = 1\<rparr> Mapping.empty)"
  have "find_loop (match_model M (\<lambda>m. 15 < sint (tm_value m))) (hm_iter ?m (ord ?m)) =
      Some \<lparr>vs_data = \<lparr>tm_id = ''2'', tm_value = 20\<rparr>, vs_version = 1\<rparr>"
    by (rule find_one_unique [OF assms(2), of _ "''test_models:2''"])
      (auto simp: ops split: if_splits)
  moreover have "find_loop (match_model M (\<lambda>m. 100 < sint (tm_value m))) (hm_iter ?m (ord ?m)) = None"
    by (rule find_one_missing [OF assms(2)]) (auto simp: ops split: if_splits)
  ultimately show "passes (rm_test_find_one_with_predicate ord M)"
    by (simp add: rm_test_find_one_with_predicate_def ops)
qed

section \<open>The queued store\<close>

text \<open>
  The store of the tests: \<open>QueuedReadModelStore\<close> over the store in memory, with the locks in memory.
  \<open>seed\<close> writes through \<open>inner()\<close>.
\<close>

type_synonym queued_store = "(rm_store, lock_manager) queued"

definition qs_new :: queued_store where
  "qs_new = queued_new rm_store_new"

definition seed :: "'m read_model \<Rightarrow> 'm \<Rightarrow> queued_store \<Rightarrow> queued_store option" where
  "seed M model store = map_option snd (calling (q_inner (upsert M model)) store)"

definition qs_get ::
    "storage_order \<Rightarrow> 'm read_model \<Rightarrow> string \<Rightarrow> (queued_store, read_model_error, 'm versioned option) call" where
  "qs_get ord M = qm_get_model M (in_memory_models M ord) in_memory_locks"

definition qs_get_with ::
    "storage_order \<Rightarrow> 'm read_model \<Rightarrow> string \<Rightarrow> read_opts \<Rightarrow>
     (queued_store, read_model_error, 'm versioned option) call" where
  "qs_get_with ord M = qm_get_model_with M (in_memory_models M ord) in_memory_locks"

definition qs_upsert ::
    "storage_order \<Rightarrow> 'm read_model \<Rightarrow> 'm \<Rightarrow> (queued_store, read_model_error, 'm versioned) call" where
  "qs_upsert ord M = qm_upsert M (in_memory_models M ord) in_memory_locks"

definition qs_unlock :: "'m read_model \<Rightarrow> string \<Rightarrow> (queued_store, read_model_error, unit) call" where
  "qs_unlock M = qm_unlock M in_memory_locks"

definition qm_test_get_locks_upsert_unlocks :: "storage_order \<Rightarrow> test_model read_model \<Rightarrow> unit option" where
  "qm_test_get_locks_upsert_unlocks ord M = do {
     store \<leftarrow> seed M \<lparr>tm_id = ''1'', tm_value = 10\<rparr> qs_new;
     (found, store) \<leftarrow> calling (qs_get ord M ''1'') store;
     loaded \<leftarrow> found;
     assert_eq (tm_value (vs_data loaded)) 10;
     let updated = \<lparr>tm_id = ''1'', tm_value = 20\<rparr>;
     (_, store) \<leftarrow> calling (qs_upsert ord M updated) store;
     (found, store) \<leftarrow> calling (qs_get ord M ''1'') store;
     reloaded \<leftarrow> found;
     assert_eq (tm_value (vs_data reloaded)) 20;
     (_, store) \<leftarrow> calling (qs_upsert ord M (vs_data reloaded)) store;
     Some ()
   }"

definition qm_test_get_locks_delete_unlocks :: "storage_order \<Rightarrow> test_model read_model \<Rightarrow> unit option" where
  "qm_test_get_locks_delete_unlocks ord M = do {
     store \<leftarrow> seed M \<lparr>tm_id = ''1'', tm_value = 10\<rparr> qs_new;
     (_, store) \<leftarrow> calling (qs_get ord M ''1'') store;
     (_, store) \<leftarrow> calling (qm_delete M (in_memory_models M ord) in_memory_locks ''1'') store;
     (result, store) \<leftarrow> calling (qs_get ord M ''1'') store;
     assert_that (result = None);
     (_, store) \<leftarrow> calling (qs_unlock M ''1'') store;
     Some ()
   }"

definition qm_test_manual_unlock :: "storage_order \<Rightarrow> test_model read_model \<Rightarrow> unit option" where
  "qm_test_manual_unlock ord M = do {
     store \<leftarrow> seed M \<lparr>tm_id = ''1'', tm_value = 10\<rparr> qs_new;
     (_, store) \<leftarrow> calling (qs_get ord M ''1'') store;
     (_, store) \<leftarrow> calling (qm_abort M in_memory_locks ''1'') store;
     (found, store) \<leftarrow> calling (qs_get ord M ''1'') store;
     loaded \<leftarrow> found;
     assert_eq (tm_value (vs_data loaded)) 10;
     (_, store) \<leftarrow> calling (qs_unlock M ''1'') store;
     Some ()
   }"

definition qm_test_get_with_no_lock_does_not_block :: "storage_order \<Rightarrow> test_model read_model \<Rightarrow> unit option" where
  "qm_test_get_with_no_lock_does_not_block ord M = do {
     store \<leftarrow> seed M \<lparr>tm_id = ''1'', tm_value = 10\<rparr> qs_new;
     (_, store) \<leftarrow> calling (qs_get ord M ''1'') store;
     (found, store) \<leftarrow> calling (qs_get_with ord M ''1'' no_lock) store;
     peek \<leftarrow> found;
     assert_eq (tm_value (vs_data peek)) 10;
     (_, store) \<leftarrow> calling (qs_unlock M ''1'') store;
     Some ()
   }"

text \<open>
  The two threads in the order the sleeps of the test give them: the second reads while the first
  holds the lock, so its call waits, and goes on when the first has written.
\<close>

definition qm_test_concurrent_access_serialized :: "storage_order \<Rightarrow> test_model read_model \<Rightarrow> unit option" where
  "qm_test_concurrent_access_serialized ord M = do {
     store \<leftarrow> seed M \<lparr>tm_id = ''1'', tm_value = 0\<rparr> qs_new;
     (found, store) \<leftarrow> calling (qs_get ord M ''1'') store;
     loaded1 \<leftarrow> found;
     assert_that (fst (qs_get ord M ''1'' store) = Stuck);
     let updated1 = \<lparr>tm_id = ''1'', tm_value = tm_value (vs_data loaded1) + 1\<rparr>;
     (_, store) \<leftarrow> calling (qs_upsert ord M updated1) store;
     (found, store) \<leftarrow> calling (qs_get ord M ''1'') store;
     loaded2 \<leftarrow> found;
     let updated2 = \<lparr>tm_id = ''1'', tm_value = tm_value (vs_data loaded2) + 1\<rparr>;
     (_, store) \<leftarrow> calling (qs_upsert ord M updated2) store;
     (found, store) \<leftarrow> calling (qs_get_with ord M ''1'' no_lock) store;
     final_val \<leftarrow> found;
     assert_eq (tm_value (vs_data final_val)) 2
   }"

record other_model =
  ot_id :: string

definition other_models ::
    "(other_model \<Rightarrow> string + bytes) \<Rightarrow> (bytes \<Rightarrow> string + other_model) \<Rightarrow> other_model read_model" where
  "other_models enc dec =
     \<lparr>md_collection = ''other_models'', md_id = ot_id, md_to_vec = enc, md_from_slice = dec\<rparr>"

definition qm_test_different_collections_do_not_contend ::
    "storage_order \<Rightarrow> test_model read_model \<Rightarrow> other_model read_model \<Rightarrow> unit option" where
  "qm_test_different_collections_do_not_contend ord M N = do {
     store \<leftarrow> seed M \<lparr>tm_id = ''1'', tm_value = 10\<rparr> qs_new;
     store \<leftarrow> seed N \<lparr>ot_id = ''1''\<rparr> store;
     (_, store) \<leftarrow> calling (qs_get ord M ''1'') store;
     (_, store) \<leftarrow> calling (qs_get ord N ''1'') store;
     (_, store) \<leftarrow> calling (qs_unlock M ''1'') store;
     (_, store) \<leftarrow> calling (qs_unlock N ''1'') store;
     Some ()
   }"

definition qm_test_find_one_locks_result :: "storage_order \<Rightarrow> test_model read_model \<Rightarrow> unit option" where
  "qm_test_find_one_locks_result ord M = do {
     store \<leftarrow> seed M \<lparr>tm_id = ''1'', tm_value = 10\<rparr> qs_new;
     store \<leftarrow> seed M \<lparr>tm_id = ''2'', tm_value = 20\<rparr> store;
     (result, store) \<leftarrow> calling (qm_find_one_model M (in_memory_models M ord) in_memory_locks id
        (\<lambda>m. 15 < sint (tm_value m))) store;
     found \<leftarrow> result;
     assert_eq (tm_id (vs_data found)) ''2'';
     (peek, store) \<leftarrow> calling (qs_get_with ord M ''2'' no_lock) store;
     let locked = (peek \<noteq> None);
     assert_that locked;
     (_, store) \<leftarrow> calling (qs_unlock M ''2'') store;
     Some ()
   }"

definition qm_test_upsert_raw_releases_lock :: "storage_order \<Rightarrow> test_model read_model \<Rightarrow> unit option" where
  "qm_test_upsert_raw_releases_lock ord M = do {
     let key = ''test_models:1'';
     store \<leftarrow> seed M \<lparr>tm_id = ''1'', tm_value = 10\<rparr> qs_new;
     (_, store) \<leftarrow> calling (qs_get ord M ''1'') store;
     bs \<leftarrow> (case md_to_vec M \<lparr>tm_id = ''1'', tm_value = 99\<rparr> of Inl err \<Rightarrow> None | Inr bs \<Rightarrow> Some bs);
     (_, store) \<leftarrow> calling (qm_upsert_raw (in_memory_models M ord) in_memory_locks key bs) store;
     (found, store) \<leftarrow> calling (qs_get ord M ''1'') store;
     reloaded \<leftarrow> found;
     assert_eq (tm_value (vs_data reloaded)) 99;
     (_, store) \<leftarrow> calling (qs_unlock M ''1'') store;
     Some ()
   }"

lemmas qs_defs =
  qs_new_def queued_new_def seed_def qs_get_def qs_get_with_def qs_upsert_def qs_unlock_def qm_get_model_def
  qm_get_model_with_def qm_upsert_def qm_delete_def qm_abort_def qm_unlock_def qm_upsert_raw_def
  qm_releasing_def qm_release_def qm_ensure_lock_def qm_locks_def qm_key_def q_inner_def in_memory_models_def
  in_memory_locks_def lm_get_lock_def lm_on_lock_def lock_lock_def lock_unlock_def lock_manager_new_def
  in_memory_lock_new_def no_lock_def lookup_default_update' lookup_default_empty st_bind_def st_return_def
  upsert_raw_def save_raw_def

theorem qm_tests_pass:
  assumes "json enc dec" and "json enc2 dec2" and "orders ord"
  defines "M \<equiv> test_models enc dec" and "N \<equiv> other_models enc2 dec2"
  shows "passes (qm_test_get_locks_upsert_unlocks ord M)"
    and "passes (qm_test_get_locks_delete_unlocks ord M)"
    and "passes (qm_test_manual_unlock ord M)"
    and "passes (qm_test_get_with_no_lock_does_not_block ord M)"
    and "passes (qm_test_concurrent_access_serialized ord M)"
    and "passes (qm_test_different_collections_do_not_contend ord M N)"
    and "passes (qm_test_find_one_locks_result ord M)"
    and "passes (qm_test_upsert_raw_releases_lock ord M)"
proof -
  obtain f where f: "enc = (\<lambda>a. Inr (f a))" "\<And>a. dec (f a) = Inr a"
    using json_total [OF assms(1)] by metis
  obtain g where g: "enc2 = (\<lambda>a. Inr (g a))" "\<And>a. dec2 (g a) = Inr a"
    using json_total [OF assms(2)] by metis
  note ops = M_def rm_ops_defs test_simps f qs_defs
  show "passes (qm_test_get_locks_upsert_unlocks ord M)" by (simp add: qm_test_get_locks_upsert_unlocks_def ops)
  show "passes (qm_test_get_locks_delete_unlocks ord M)" by (simp add: qm_test_get_locks_delete_unlocks_def ops)
  show "passes (qm_test_manual_unlock ord M)" by (simp add: qm_test_manual_unlock_def ops)
  show "passes (qm_test_get_with_no_lock_does_not_block ord M)"
    by (simp add: qm_test_get_with_no_lock_does_not_block_def ops)
  show "passes (qm_test_concurrent_access_serialized ord M)"
    by (simp add: qm_test_concurrent_access_serialized_def ops)
  show "passes (qm_test_different_collections_do_not_contend ord M N)"
    by (simp add: qm_test_different_collections_do_not_contend_def ops N_def other_models_def g)
  show "passes (qm_test_upsert_raw_releases_lock ord M)" by (simp add: qm_test_upsert_raw_releases_lock_def ops)
  let ?m = "Mapping.update ''test_models:2'' \<lparr>sm_bytes = f \<lparr>tm_id = ''2'', tm_value = 20\<rparr>, sm_version = 1\<rparr>
    (Mapping.update ''test_models:1'' \<lparr>sm_bytes = f \<lparr>tm_id = ''1'', tm_value = 10\<rparr>, sm_version = 1\<rparr> Mapping.empty)"
  have "find_loop (match_model M (\<lambda>m. 15 < sint (tm_value m))) (hm_iter ?m (ord ?m)) =
      Some \<lparr>vs_data = \<lparr>tm_id = ''2'', tm_value = 20\<rparr>, vs_version = 1\<rparr>"
    by (rule find_one_unique [OF assms(3), of _ "''test_models:2''"]) (auto simp: ops split: if_splits)
  then show "passes (qm_test_find_one_locks_result ord M)"
    by (simp add: qm_test_find_one_locks_result_def ops qm_find_one_model_def qm_others_def)
qed

end
