(* ===== verification/Tests_Outbox.thy ===== *)
theory Tests_Outbox
  imports Test_Support Outbox_Worker Commit_Builder
begin

text \<open>
  The unit tests of \<open>src/outbox\<close> and \<open>src/outbox_worker\<close>.  \<open>C\<close> is \<open>bitcode\<close> at the arguments that the
  commands of a message record, and \<open>now i\<close> the clock at the call number \<open>i\<close> of a test.
\<close>

section \<open>Messages\<close>

definition message_test_new_message_is_pending :: "outbox_codec \<Rightarrow> (nat \<Rightarrow> system_time) \<Rightarrow> unit option" where
  "message_test_new_message_is_pending C now = do {
     let message = outbox_message_new (now 0);
     message \<leftarrow> initialize C (now 1) ''msg-1'' ''UserCreated'' (string_bytes ''{\"id\":\"123\"}'') None Mapping.empty message;
     assert_eq (om_event_type message) ''UserCreated'';
     assert_that (is_pending message)
   }"

definition message_test_claim_and_complete :: "outbox_codec \<Rightarrow> (nat \<Rightarrow> system_time) \<Rightarrow> unit option" where
  "message_test_claim_and_complete C now = do {
     let message = outbox_message_new (now 0);
     message \<leftarrow> initialize C (now 1) ''msg-1'' ''Event1'' (string_bytes ''{}'') None Mapping.empty message;
     message \<leftarrow> claim_for C (now 2) ''worker-1'' (duration_from_secs 60) message;
     assert_that (is_in_flight message);
     assert_eq (om_attempts message) 1;
     message \<leftarrow> complete C (now 3) message;
     assert_that (is_published message)
   }"

definition message_test_create_with_metadata :: "outbox_codec \<Rightarrow> (nat \<Rightarrow> system_time) \<Rightarrow> unit option" where
  "message_test_create_with_metadata C now = do {
     let meta = Mapping.update ''correlation_id'' ''req-abc'' Mapping.empty;
     let meta = Mapping.update ''trace_id'' ''t-999'' meta;
     message \<leftarrow> create_with_metadata C (now 0) ''msg-1'' ''UserCreated'' (string_bytes ''{}'') meta;
     assert_eq (om_correlation_id message) (Some ''req-abc'');
     assert_eq (om_meta message ''trace_id'') (Some ''t-999'')
   }"

definition message_test_encode_with_metadata ::
    "(string \<times> 32 word \<Rightarrow> string + bytes) \<Rightarrow> (bytes \<Rightarrow> string + string \<times> 32 word) \<Rightarrow>
     outbox_codec \<Rightarrow> (nat \<Rightarrow> system_time) \<Rightarrow> unit option" where
  "message_test_encode_with_metadata ser de C now = do {
     let meta = Mapping.update ''correlation_id'' ''req-456'' Mapping.empty;
     let payload = (''hello'', 42);
     message \<leftarrow> unwrap (encode_with_metadata C (now 0) ser ''msg-2'' ''SomeEvent'' payload meta);
     assert_eq (om_correlation_id message) (Some ''req-456'');
     decoded \<leftarrow> (case om_decode de message of Inl err \<Rightarrow> None | Inr decoded \<Rightarrow> Some decoded);
     assert_eq decoded (''hello'', 42)
   }"

definition message_test_set_metadata_individually :: "outbox_codec \<Rightarrow> (nat \<Rightarrow> system_time) \<Rightarrow> unit option" where
  "message_test_set_metadata_individually C now = do {
     message \<leftarrow> create C (now 0) ''msg-1'' ''Event'' (string_bytes ''{}'');
     let message = om_set_correlation_id ''req-abc'' message;
     let message = om_set_causation_id ''evt-prior'' message;
     let message = om_set_meta ''tenant'' ''acme'' message;
     assert_eq (om_correlation_id message) (Some ''req-abc'');
     assert_eq (om_causation_id message) (Some ''evt-prior'');
     assert_eq (om_meta message ''tenant'') (Some ''acme'')
   }"

definition message_test_release_and_fail :: "outbox_codec \<Rightarrow> (nat \<Rightarrow> system_time) \<Rightarrow> unit option" where
  "message_test_release_and_fail C now = do {
     let message = outbox_message_new (now 0);
     message \<leftarrow> initialize C (now 1) ''msg-1'' ''Event1'' (string_bytes ''{}'') None Mapping.empty message;
     message \<leftarrow> claim_for C (now 2) ''worker-1'' (duration_from_secs 60) message;
     message \<leftarrow> release C (now 3) ''timeout'' message;
     assert_that (is_pending message);
     assert_eq (om_last_error message) (Some ''timeout'');
     message \<leftarrow> claim_for C (now 4) ''worker-1'' (duration_from_secs 60) message;
     message \<leftarrow> fail C (now 5) ''max retries'' message;
     assert_that (is_failed message)
   }"

text \<open>The codec of a test encodes, and a lease of a minute from any reading of its clock has an end.\<close>

definition codec_encodes_all :: "outbox_codec \<Rightarrow> bool" where
  "codec_encodes_all C \<longleftrightarrow> encodes (oc_ser_created C) \<and> encodes (oc_ser_claimed C) \<and> encodes (oc_ser_unit C) \<and>
     encodes (oc_ser_error C)"

definition minutes_fit :: "(nat \<Rightarrow> system_time) \<Rightarrow> bool" where
  "minutes_fit now \<longleftrightarrow> (\<forall>i. system_time_add (now i) (duration_from_secs 60) \<noteq> None)"

lemma minutes_fit_second: "minutes_fit now \<Longrightarrow> system_time_add (now i) (duration_from_secs 1) \<noteq> None"
  by (auto simp: minutes_fit_def system_time_add_def duration_from_secs_def split: if_splits dest!: spec [of _ i])

lemma claim_for_pending:
  assumes "oc_ser_claimed C = (\<lambda>a. Some (f a))" and "system_time_add now lease \<noteq> None" and "is_pending m"
    and "\<not> en_replaying (om_entity m)"
  shows "claim_for C now w lease m = Some (m\<lparr>om_entity := push_record (event_record_new ''MessageClaimed''
       (f (w, duration_as_secs (nat (the (system_time_add now lease))))) (len_u64 (en_events (om_entity m)) + 1) now)
       now (om_entity m), om_status := InFlight, om_attempts := om_attempts m + 1, om_worker_id := Some w,
     om_leased_until := system_time_add unix_epoch
       (duration_from_secs (duration_as_secs (nat (the (system_time_add now lease)))))\<rparr>)"
proof -
  obtain u where u: "system_time_add now lease = Some u" using assms(2) by blast
  obtain t where "system_time_add unix_epoch (duration_from_secs (duration_as_secs (nat u))) = Some t"
    using claim_time [OF u] by auto
  with assms(1,3,4) u show ?thesis by (simp add: claim_for_def claim_def digest_def Let_def)
qed

lemmas message_defs =
  initialize_def complete_def release_def fail_def can_fail_def digest_empty_def digest_def entity_default_def
  outbox_message_new_def is_pending_def is_in_flight_def is_published_def is_failed_def set_id_def
  create_def create_with_metadata_def encode_with_metadata_def encode_with_def om_decode_def om_correlation_id_def
  om_causation_id_def om_meta_def om_set_correlation_id_def om_set_causation_id_def om_set_meta_def
  lookup_empty lookup_update'

theorem message_tests_pass:
  assumes "codec_encodes_all C" and "minutes_fit now"
    and "\<And>p. \<exists>b. ser p = Inr b \<and> de b = Inr p"
  shows "passes (message_test_new_message_is_pending C now)"
    and "passes (message_test_claim_and_complete C now)"
    and "passes (message_test_create_with_metadata C now)"
    and "passes (message_test_encode_with_metadata ser de C now)"
    and "passes (message_test_set_metadata_individually C now)"
    and "passes (message_test_release_and_fail C now)"
proof -
  obtain f where f: "oc_ser_created C = (\<lambda>a. Some (f a))"
    using assms(1) encodesE [of "oc_ser_created C"] unfolding codec_encodes_all_def by metis
  obtain g where g: "oc_ser_claimed C = (\<lambda>a. Some (g a))"
    using assms(1) encodesE [of "oc_ser_claimed C"] unfolding codec_encodes_all_def by metis
  obtain h where h: "oc_ser_unit C = (\<lambda>a. Some (h a))"
    using assms(1) encodesE [of "oc_ser_unit C"] unfolding codec_encodes_all_def by metis
  obtain k where k: "oc_ser_error C = (\<lambda>a. Some (k a))"
    using assms(1) encodesE [of "oc_ser_error C"] unfolding codec_encodes_all_def by metis
  obtain j where j: "\<And>p. ser p = Inr (j p)" "\<And>p. de (j p) = Inr p" using assms(3) by metis
  have fit: "system_time_add (now i) (duration_from_secs 60) \<noteq> None" for i
    using assms(2) by (simp add: minutes_fit_def)
  note ops = message_defs claim_for_pending [OF g fit] test_simps f g h k j
  show "passes (message_test_new_message_is_pending C now)"
    by (simp add: message_test_new_message_is_pending_def ops)
  show "passes (message_test_claim_and_complete C now)"
    by (simp add: message_test_claim_and_complete_def ops)
  show "passes (message_test_create_with_metadata C now)"
    by (simp add: message_test_create_with_metadata_def ops)
  show "passes (message_test_encode_with_metadata ser de C now)"
    by (simp add: message_test_encode_with_metadata_def ops)
  show "passes (message_test_set_metadata_individually C now)"
    by (simp add: message_test_set_metadata_individually_def ops)
  show "passes (message_test_release_and_fail C now)"
    by (simp add: message_test_release_and_fail_def ops)
qed

section \<open>Publishers\<close>

text \<open>The line of a call, as the test reads it back from the shared buffer.\<close>

definition logged :: "log_publisher \<Rightarrow> string list option" where
  "logged p = map_option snd (lp_buffer p)"

definition publisher_test_log_publisher_to_buffer :: "(metadata \<Rightarrow> string) \<Rightarrow> unit option" where
  "publisher_test_log_publisher_to_buffer debug = do {
     let publisher = log_publisher_with_buffer (False, []);
     let empty = Mapping.empty;
     (_, publisher) \<leftarrow> calling (log_publish debug ''UserCreated'' (string_bytes ''{\"id\":\"123\"}'') empty) publisher;
     (_, publisher) \<leftarrow> calling (log_publish debug ''UserUpdated''
       (string_bytes ''{\"id\":\"123\",\"name\":\"Alice\"}'') empty) publisher;
     logs \<leftarrow> logged publisher;
     assert_eq (length logs) 2;
     line \<leftarrow> index_at logs 0;
     assert_that (contains line ''UserCreated'');
     line \<leftarrow> index_at logs 1;
     assert_that (contains line ''UserUpdated'')
   }"

definition publisher_test_log_publisher_includes_metadata :: "(metadata \<Rightarrow> string) \<Rightarrow> unit option" where
  "publisher_test_log_publisher_includes_metadata debug = do {
     let publisher = log_publisher_with_buffer (False, []);
     let meta = Mapping.update ''correlation_id'' ''req-123'' Mapping.empty;
     (_, publisher) \<leftarrow> calling (log_publish debug ''UserCreated'' (string_bytes ''{}'') meta) publisher;
     logs \<leftarrow> logged publisher;
     line \<leftarrow> index_at logs 0;
     assert_that (contains line ''correlation_id'');
     assert_that (contains line ''req-123'')
   }"

section \<open>The worker\<close>

definition worker_test_worker_builder :: "nat \<Rightarrow> unit option" where
  "worker_test_worker_builder pid = do {
     let worker = with_max_attempts 2 (with_lease (duration_from_secs 30) (with_batch_size 5
       (with_worker_id ''test-worker'' (outbox_worker_new pid log_publisher_new))));
     assert_eq (ow_worker_id worker) ''test-worker'';
     assert_eq (ow_batch_size worker) 5;
     assert_eq (ow_lease worker) (duration_from_secs 30);
     assert_eq (ow_max_attempts worker) 2
   }"

definition worker_test_process_message_noop_for_published ::
    "(metadata \<Rightarrow> string) \<Rightarrow> nat \<Rightarrow> outbox_codec \<Rightarrow> (nat \<Rightarrow> system_time) \<Rightarrow> unit option" where
  "worker_test_process_message_noop_for_published debug pid C now = do {
     message \<leftarrow> create C (now 0) ''msg-1'' ''Event'' (string_bytes ''{}'');
     message \<leftarrow> claim_for C (now 1) ''worker'' (duration_from_secs 1) message;
     message \<leftarrow> complete C (now 2) message;
     let worker = outbox_worker_new pid log_publisher_new;
     (result, _) \<leftarrow> calling (process_message C (log_outbox_publisher debug) (now 3)) (worker, message);
     assert_that (\<not> po_did_work result)
   }"

definition worker_test_process_message_passes_metadata_to_publisher ::
    "(metadata \<Rightarrow> string) \<Rightarrow> nat \<Rightarrow> outbox_codec \<Rightarrow> (nat \<Rightarrow> system_time) \<Rightarrow> unit option" where
  "worker_test_process_message_passes_metadata_to_publisher debug pid C now = do {
     let publisher = log_publisher_with_buffer (False, []);
     let worker = outbox_worker_new pid publisher;
     message \<leftarrow> create C (now 0) ''msg-1'' ''UserCreated'' (string_bytes ''{}'');
     let message = om_set_correlation_id ''req-abc'' message;
     (result, worker, message) \<leftarrow>
       calling (process_message C (log_outbox_publisher debug) (now 1)) (worker, message);
     assert_that (po_completed result);
     logs \<leftarrow> logged (ow_publisher worker);
     line \<leftarrow> index_at logs 0;
     assert_that (contains line ''correlation_id'');
     assert_that (contains line ''req-abc'')
   }"

text \<open>The \<open>Debug\<close> text of a map shows its keys and values, where nothing in them is escaped.\<close>

definition plain :: "string \<Rightarrow> bool" where
  "plain s \<longleftrightarrow> list_all (\<lambda>c. c \<in> set ''abcdefghijklmnopqrstuvwxyz0123456789-_'') s"

definition shows_entries :: "(metadata \<Rightarrow> string) \<Rightarrow> bool" where
  "shows_entries debug \<longleftrightarrow> (\<forall>md k v. Mapping.lookup md k = Some v \<and> plain k \<and> plain v \<longrightarrow>
     contains (debug md) k \<and> contains (debug md) v)"

definition log_line :: "(metadata \<Rightarrow> string) \<Rightarrow> string \<Rightarrow> bytes \<Rightarrow> metadata \<Rightarrow> string" where
  "log_line debug event_type payload md =
     ''[OUTBOX] '' @ event_type @ '' '' @ from_utf8_lossy payload @
     (if Mapping.is_empty md then [] else '' meta='' @ debug md)"

lemma log_publish_line:
  "log_publish debug event_type payload md (log_publisher_with_buffer (False, ls)) =
     (Ok (), log_publisher_with_buffer (False, ls @ [log_line debug event_type payload md]))"
  by (simp add: log_publish_def log_publisher_with_buffer_def log_line_def Let_def)

lemma contains_append: "contains s t \<Longrightarrow> contains (a @ s @ b) t"
  unfolding contains_def sublist_def by (metis append.assoc)

lemma log_line_type: "contains (log_line debug event_type payload md) event_type"
  unfolding log_line_def by (rule contains_append) (simp add: contains_def)

lemma log_line_metadata:
  assumes "shows_entries debug" and "Mapping.lookup md k = Some v" and "plain k" and "plain v"
  shows "contains (log_line debug event_type payload md) k" and "contains (log_line debug event_type payload md) v"
proof -
  have "\<not> Mapping.is_empty md" using assms(2) by (auto simp: mapping_is_empty_iff lookup_empty)
  then obtain pre where line: "log_line debug event_type payload md = pre @ debug md @ []"
    by (simp add: log_line_def)
  from assms have "contains (debug md) k" "contains (debug md) v" unfolding shows_entries_def by blast+
  then show "contains (log_line debug event_type payload md) k" "contains (log_line debug event_type payload md) v"
    unfolding line by (simp_all only: contains_append)
qed

lemma logged_buffer: "logged (log_publisher_with_buffer b) = Some (snd b)"
  by (simp add: logged_def log_publisher_with_buffer_def)

lemma correlation_shown:
  assumes "shows_entries debug" and "plain v"
  shows "contains (log_line debug event_type payload (Mapping.update ''correlation_id'' v md)) ''correlation_id''"
    and "contains (log_line debug event_type payload (Mapping.update ''correlation_id'' v md)) v"
  using assms log_line_metadata [of debug _ "''correlation_id''" v]
  by (simp_all add: lookup_update' plain_def)

theorem publisher_tests_pass:
  assumes "shows_entries debug"
  shows "passes (publisher_test_log_publisher_to_buffer debug)"
    and "passes (publisher_test_log_publisher_includes_metadata debug)"
proof -
  show "passes (publisher_test_log_publisher_to_buffer debug)"
    by (simp add: publisher_test_log_publisher_to_buffer_def log_publish_line calling_def test_simps
        logged_buffer log_line_type)
  have "plain ''req-123''" by (simp add: plain_def)
  then show "passes (publisher_test_log_publisher_includes_metadata debug)"
    by (simp add: publisher_test_log_publisher_includes_metadata_def log_publish_line calling_def test_simps
        logged_buffer correlation_shown assms)
qed

theorem worker_tests_pass:
  assumes "codec_encodes_all C" and "minutes_fit now" and "shows_entries debug"
  shows "passes (worker_test_worker_builder pid)"
    and "passes (worker_test_process_message_noop_for_published debug pid C now)"
    and "passes (worker_test_process_message_passes_metadata_to_publisher debug pid C now)"
proof -
  obtain f where f: "oc_ser_created C = (\<lambda>a. Some (f a))"
    using assms(1) encodesE [of "oc_ser_created C"] unfolding codec_encodes_all_def by metis
  obtain g where g: "oc_ser_claimed C = (\<lambda>a. Some (g a))"
    using assms(1) encodesE [of "oc_ser_claimed C"] unfolding codec_encodes_all_def by metis
  obtain h where h: "oc_ser_unit C = (\<lambda>a. Some (h a))"
    using assms(1) encodesE [of "oc_ser_unit C"] unfolding codec_encodes_all_def by metis
  have fit: "system_time_add (now i) (duration_from_secs 60) \<noteq> None" for i
    using assms(2) by (simp add: minutes_fit_def)
  have abc: "plain ''req-abc''" by (simp add: plain_def)
  note ops = message_defs test_simps f g h claim_for_pending [OF g fit]
    claim_for_pending [OF g minutes_fit_second [OF assms(2)]] outbox_worker_new_def
  show "passes (worker_test_worker_builder pid)"
    by (simp add: worker_test_worker_builder_def with_max_attempts_def with_lease_def with_batch_size_def
        with_worker_id_def outbox_worker_new_def test_simps)
  show "passes (worker_test_process_message_noop_for_published debug pid C now)"
    by (simp add: worker_test_process_message_noop_for_published_def ops process_message_def
        process_one_result_default_def calling_def)
  show "passes (worker_test_process_message_passes_metadata_to_publisher debug pid C now)"
    by (simp add: worker_test_process_message_passes_metadata_to_publisher_def ops process_message_def
        publish_message_def log_outbox_publisher_def log_publish_line process_one_result_default_def calling_def
        logged_buffer correlation_shown assms(3) abc)
qed

end
