(* ===== verification/Tests_Commit.thy ===== *)
theory Tests_Commit
  imports Tests_Repository Tests_Read_Model Tests_Outbox
begin

text \<open>
  The unit tests of \<open>src/outbox/commit.rs\<close> and \<open>src/commit_builder\<close>: commits of several things to
  the repository in memory.
\<close>

section \<open>The aggregates of the tests\<close>

text \<open>
  Both modules have an aggregate that holds an entity and nothing else, whose one command records
  an event without payload and whose replay accepts every event.
\<close>

record dummy_state =
  du_entity :: entity

definition dummy_default :: "system_time \<Rightarrow> dummy_state" where
  "dummy_default now = \<lparr>du_entity = entity_default now\<rparr>"

definition touch_as :: "string \<Rightarrow> (unit \<Rightarrow> bytes option) \<Rightarrow> system_time \<Rightarrow> dummy_state \<Rightarrow> dummy_state option" where
  "touch_as ident ser now d =
     (let e = (if en_id (du_entity d) = [] then set_id ident (du_entity d) else du_entity d)
      in map_option (\<lambda>e'. d\<lparr>du_entity := e'\<rparr>) (digest_empty ser now ''Touched'' e))"

definition dummy_touch :: "(unit \<Rightarrow> bytes option) \<Rightarrow> system_time \<Rightarrow> dummy_state \<Rightarrow> dummy_state option" where
  "dummy_touch = touch_as ''dummy-1''"

definition test_aggregate_touch :: "(unit \<Rightarrow> bytes option) \<Rightarrow> system_time \<Rightarrow> dummy_state \<Rightarrow> dummy_state option" where
  "test_aggregate_touch = touch_as ''agg-1''"

definition dummy_replay :: "event_record \<Rightarrow> (dummy_state, string, unit) call" where
  "dummy_replay event = st_return ()"

definition dummy_aggregate :: "system_time \<Rightarrow> dummy_state aggregate" where
  "dummy_aggregate now =
     impl_aggregate (dummy_default now) du_entity (\<lambda>e d. d\<lparr>du_entity := e\<rparr>) dummy_replay"

section \<open>An aggregate with a message\<close>

definition commit_test_outbox_helper_commits_both_entities ::
    "event_order \<Rightarrow> (unit \<Rightarrow> bytes option) \<Rightarrow> outbox_codec \<Rightarrow> (nat \<Rightarrow> system_time) \<Rightarrow> unit option" where
  "commit_test_outbox_helper_commits_both_entities ord ser C now = do {
     let repo = hm_repo_new;
     aggregate \<leftarrow> dummy_touch ser (now 1) (dummy_default (now 0));
     event \<leftarrow> create C (now 2) ''msg-1'' ''DummyTouched'' (string_bytes ''{}'');
     (_, repo, aggregate, event) \<leftarrow>
       calling (outbox_commit (dummy_aggregate (now 3)) (hashmap_repo (now 3) ord)) (repo, aggregate, event);
     (out, repo) \<leftarrow> calling (repo_get (hashmap_repo (now 4) ord) (GStr ''dummy-1'')) repo;
     stored_agg \<leftarrow> got_one out;
     assert_that (stored_agg \<noteq> None);
     (out, repo) \<leftarrow> calling (repo_get (hashmap_repo (now 5) ord) (GStr (om_id event))) repo;
     stored_event \<leftarrow> got_one out;
     assert_that (stored_event \<noteq> None)
   }"

section \<open>The commit builder\<close>

record test_view =
  tv_id :: string
  tv_counter :: "32 word"

definition test_views ::
    "(test_view \<Rightarrow> string + bytes) \<Rightarrow> (bytes \<Rightarrow> string + test_view) \<Rightarrow> test_view read_model" where
  "test_views enc dec =
     \<lparr>md_collection = ''test_view'', md_id = tv_id, md_to_vec = enc, md_from_slice = dec\<rparr>"

text \<open>\<open>repo.read_models::<TestView>().get(id)\<close>, and the three commits of a builder.\<close>

definition view_get ::
    "storage_order \<Rightarrow> test_view read_model \<Rightarrow> string \<Rightarrow> hm_repo \<Rightarrow> (test_view versioned option \<times> hm_repo) option" where
  "view_get mord V ident repo = calling (rmr_get (hashmap_models V mord) ident) repo"

definition committing_with ::
    "event_order \<Rightarrow> system_time \<Rightarrow> commit_builder \<Rightarrow> dummy_state \<Rightarrow> hm_repo \<Rightarrow> (hm_repo \<times> dummy_state) option" where
  "committing_with ord now b agg repo =
     map_option snd (calling (cb_commit (dummy_aggregate now) (hashmap_repo now ord) hashmap_upsert_raw b) (repo, agg))"

definition builder_test_commit_readmodel_and_aggregate ::
    "event_order \<Rightarrow> storage_order \<Rightarrow> test_view read_model \<Rightarrow> (unit \<Rightarrow> bytes option) \<Rightarrow> (nat \<Rightarrow> system_time) \<Rightarrow>
     unit option" where
  "builder_test_commit_readmodel_and_aggregate ord mord V ser now = do {
     let repo = hm_repo_new;
     let view = \<lparr>tv_id = ''1'', tv_counter = 42\<rparr>;
     agg \<leftarrow> test_aggregate_touch ser (now 1) (dummy_default (now 0));
     builder \<leftarrow> repo_readmodel V view;
     (repo, agg) \<leftarrow> committing_with ord (now 2) builder agg repo;
     (loaded, repo) \<leftarrow> view_get mord V ''1'' repo;
     assert_that (loaded \<noteq> None);
     found \<leftarrow> loaded;
     assert_eq (tv_counter (vs_data found)) 42
   }"

definition builder_test_commit_multiple_readmodels ::
    "event_order \<Rightarrow> storage_order \<Rightarrow> test_view read_model \<Rightarrow> (unit \<Rightarrow> bytes option) \<Rightarrow> (nat \<Rightarrow> system_time) \<Rightarrow>
     unit option" where
  "builder_test_commit_multiple_readmodels ord mord V ser now = do {
     let repo = hm_repo_new;
     let view1 = \<lparr>tv_id = ''1'', tv_counter = 10\<rparr>;
     let view2 = \<lparr>tv_id = ''2'', tv_counter = 20\<rparr>;
     agg \<leftarrow> test_aggregate_touch ser (now 1) (dummy_default (now 0));
     builder \<leftarrow> repo_readmodel V view1;
     builder \<leftarrow> cb_readmodel V view2 builder;
     (repo, agg) \<leftarrow> committing_with ord (now 2) builder agg repo;
     (found, repo) \<leftarrow> view_get mord V ''1'' repo;
     loaded1 \<leftarrow> found;
     (found, repo) \<leftarrow> view_get mord V ''2'' repo;
     loaded2 \<leftarrow> found;
     assert_eq (tv_counter (vs_data loaded1)) 10;
     assert_eq (tv_counter (vs_data loaded2)) 20
   }"

definition builder_test_commit_readmodel_with_outbox ::
    "event_order \<Rightarrow> storage_order \<Rightarrow> test_view read_model \<Rightarrow> (unit \<Rightarrow> bytes option) \<Rightarrow> outbox_codec \<Rightarrow>
     (nat \<Rightarrow> system_time) \<Rightarrow> unit option" where
  "builder_test_commit_readmodel_with_outbox ord mord V ser C now = do {
     let repo = hm_repo_new;
     let view = \<lparr>tv_id = ''1'', tv_counter = 42\<rparr>;
     outbox \<leftarrow> create C (now 0) ''msg-1'' ''TestEvent'' (string_bytes ''{}'');
     agg \<leftarrow> test_aggregate_touch ser (now 2) (dummy_default (now 1));
     builder \<leftarrow> repo_readmodel V view;
     let builder = cb_outbox outbox builder;
     (repo, agg) \<leftarrow> committing_with ord (now 3) builder agg repo;
     (loaded, repo) \<leftarrow> view_get mord V ''1'' repo;
     assert_that (loaded \<noteq> None);
     found \<leftarrow> loaded;
     assert_eq (tv_counter (vs_data found)) 42
   }"

definition builder_test_commit_outbox_then_readmodel ::
    "event_order \<Rightarrow> storage_order \<Rightarrow> test_view read_model \<Rightarrow> (unit \<Rightarrow> bytes option) \<Rightarrow> outbox_codec \<Rightarrow>
     (nat \<Rightarrow> system_time) \<Rightarrow> unit option" where
  "builder_test_commit_outbox_then_readmodel ord mord V ser C now = do {
     let repo = hm_repo_new;
     let view = \<lparr>tv_id = ''1'', tv_counter = 99\<rparr>;
     outbox \<leftarrow> create C (now 0) ''msg-2'' ''TestEvent'' (string_bytes ''{}'');
     agg \<leftarrow> test_aggregate_touch ser (now 2) (dummy_default (now 1));
     let builder = repo_outbox outbox;
     builder \<leftarrow> cb_readmodel V view builder;
     (repo, agg) \<leftarrow> committing_with ord (now 3) builder agg repo;
     (loaded, repo) \<leftarrow> view_get mord V ''1'' repo;
     assert_that (loaded \<noteq> None);
     found \<leftarrow> loaded;
     assert_eq (tv_counter (vs_data found)) 99
   }"

definition builder_test_commit_all_without_aggregate ::
    "event_order \<Rightarrow> storage_order \<Rightarrow> test_view read_model \<Rightarrow> (nat \<Rightarrow> system_time) \<Rightarrow> unit option" where
  "builder_test_commit_all_without_aggregate ord mord V now = do {
     let repo = hm_repo_new;
     let view1 = \<lparr>tv_id = ''standalone-1'', tv_counter = 1\<rparr>;
     let view2 = \<lparr>tv_id = ''standalone-2'', tv_counter = 2\<rparr>;
     builder \<leftarrow> repo_readmodel V view1;
     builder \<leftarrow> cb_readmodel V view2 builder;
     (_, repo) \<leftarrow> calling (cb_commit_all (hashmap_repo (now 0) ord) hashmap_upsert_raw builder) repo;
     (found, repo) \<leftarrow> view_get mord V ''standalone-1'' repo;
     loaded1 \<leftarrow> found;
     (found, repo) \<leftarrow> view_get mord V ''standalone-2'' repo;
     loaded2 \<leftarrow> found;
     assert_eq (tv_id (vs_data loaded1)) ''standalone-1'';
     assert_eq (tv_id (vs_data loaded2)) ''standalone-2''
   }"

definition builder_test_commit_many_multiple_aggregates ::
    "event_order \<Rightarrow> storage_order \<Rightarrow> test_view read_model \<Rightarrow> (unit \<Rightarrow> bytes option) \<Rightarrow> (nat \<Rightarrow> system_time) \<Rightarrow>
     unit option" where
  "builder_test_commit_many_multiple_aggregates ord mord V ser now = do {
     let repo = hm_repo_new;
     let view = \<lparr>tv_id = ''multi'', tv_counter = 77\<rparr>;
     agg1 \<leftarrow> test_aggregate_touch ser (now 1) (dummy_default (now 0));
     let agg1 = agg1\<lparr>du_entity := set_id ''agg-1'' (du_entity agg1)\<rparr>;
     agg2 \<leftarrow> test_aggregate_touch ser (now 3) (dummy_default (now 2));
     let agg2 = agg2\<lparr>du_entity := set_id ''agg-2'' (du_entity agg2)\<rparr>;
     builder \<leftarrow> repo_readmodel V view;
     (_, repo, _) \<leftarrow> calling (cb_commit_many (hashmap_repo (now 4) ord) hashmap_upsert_raw builder)
       (repo, [du_entity agg1, du_entity agg2]);
     (found, repo) \<leftarrow> view_get mord V ''multi'' repo;
     loaded \<leftarrow> found;
     assert_eq (tv_counter (vs_data loaded)) 77;
     (out, repo) \<leftarrow> calling (repo_get (hashmap_repo (now 5) ord) (GStr ''agg-1'')) repo;
     e1 \<leftarrow> got_one out;
     assert_that (e1 \<noteq> None);
     (out, repo) \<leftarrow> calling (repo_get (hashmap_repo (now 6) ord) (GStr ''agg-2'')) repo;
     e2 \<leftarrow> got_one out;
     assert_that (e2 \<noteq> None)
   }"

lemmas commit_defs =
  dummy_default_def touch_as_def dummy_touch_def test_aggregate_touch_def dummy_aggregate_def impl_aggregate_def
  outbox_commit_def om_id_def normalize_id_def id_prefix_def
  view_get_def rmr_get_def hashmap_models_def in_memory_models_def committing_with_def cb_commit_def
  cb_commit_many_def cb_commit_all_def repo_readmodel_def cb_readmodel_def commit_builder_new_def repo_outbox_def
  cb_outbox_def into_entity_def test_views_def hashmap_upsert_raw_def on_models_def upsert_raw_def save_raw_def
  st_map_err_def

theorem commit_tests_pass:
  assumes "encodes ser" and "codec_encodes_all C" and "json enc dec"
  defines "V \<equiv> test_views enc dec"
  shows "passes (commit_test_outbox_helper_commits_both_entities ord ser C now)"
    and "passes (builder_test_commit_readmodel_and_aggregate ord mord V ser now)"
    and "passes (builder_test_commit_multiple_readmodels ord mord V ser now)"
    and "passes (builder_test_commit_readmodel_with_outbox ord mord V ser C now)"
    and "passes (builder_test_commit_outbox_then_readmodel ord mord V ser C now)"
    and "passes (builder_test_commit_all_without_aggregate ord mord V now)"
    and "passes (builder_test_commit_many_multiple_aggregates ord mord V ser now)"
proof -
  obtain f where f: "ser = (\<lambda>a. Some (f a))" using encodesE [OF assms(1)] by blast
  obtain g where g: "oc_ser_created C = (\<lambda>a. Some (g a))"
    using assms(2) encodesE [of "oc_ser_created C"] unfolding codec_encodes_all_def by metis
  obtain j where j: "enc = (\<lambda>a. Inr (j a))" "\<And>a. dec (j a) = Inr a"
    using json_total [OF assms(3)] by metis
  note ops = commit_defs repo_ops_defs rm_ops_defs message_defs test_simps f g j V_def
  show "passes (commit_test_outbox_helper_commits_both_entities ord ser C now)"
    by (simp add: commit_test_outbox_helper_commits_both_entities_def ops)
  show "passes (builder_test_commit_readmodel_and_aggregate ord mord V ser now)"
    by (simp add: builder_test_commit_readmodel_and_aggregate_def ops)
  show "passes (builder_test_commit_multiple_readmodels ord mord V ser now)"
    by (simp add: builder_test_commit_multiple_readmodels_def ops)
  show "passes (builder_test_commit_readmodel_with_outbox ord mord V ser C now)"
    by (simp add: builder_test_commit_readmodel_with_outbox_def ops)
  show "passes (builder_test_commit_outbox_then_readmodel ord mord V ser C now)"
    by (simp add: builder_test_commit_outbox_then_readmodel_def ops)
  show "passes (builder_test_commit_all_without_aggregate ord mord V now)"
    by (simp add: builder_test_commit_all_without_aggregate_def ops)
  show "passes (builder_test_commit_many_multiple_aggregates ord mord V ser now)"
    by (simp add: builder_test_commit_many_multiple_aggregates_def ops)
qed

end
