(* ===== verification/Tests_Bus.thy ===== *)
theory Tests_Bus
  imports Test_Support In_Memory_Queue
begin

text \<open>
  The unit tests of \<open>src/bus\<close>.  A waiting call takes the clock readings it makes as an argument:
  \<open>ticks i\<close> are those of the waiting call number \<open>i\<close> of a test, and \<open>clocks i\<close> those of the receiver
  around it.  Nobody else uses the queue of a test, and its clock advances.
\<close>

section \<open>Waiting in a test\<close>

text \<open>A call that waits returns when the clock passes \<open>ms\<close> milliseconds after its first reading.\<close>

definition runs_out :: "nat \<Rightarrow> tick list \<Rightarrow> bool" where
  "runs_out ms ts \<longleftrightarrow> (\<forall>t \<in> set ts. tk_others t = []) \<and>
     (case ts of [] \<Rightarrow> False | t # rest \<Rightarrow> \<exists>u \<in> set rest. tk_now u \<ge> tk_now t + ms * 1000000)"

text \<open>A receiver whose clock readings are all made in the first \<open>ms\<close> milliseconds.\<close>

definition prompt :: "nat \<Rightarrow> nat list \<Rightarrow> bool" where
  "prompt ms cs \<longleftrightarrow>
     (case cs of [] \<Rightarrow> False
      | start # rest \<Rightarrow> 5 \<le> length rest \<and> (\<forall>c \<in> set rest. start \<le> c \<and> c < start + ms * 1000000))"

definition polled ::
    "tick list \<Rightarrow> nat \<Rightarrow> u64 \<Rightarrow> queue_state \<Rightarrow> (bus_event option \<times> queue_state) option" where
  "polled ts h ms q = map_option (\<lambda>(found, w). (found, fst w)) (calling (iq_poll h ms) (q, ts))"

definition listening ::
    "tick list \<Rightarrow> string \<Rightarrow> u64 \<Rightarrow> queue_state \<Rightarrow> (bus_event option \<times> queue_state) option" where
  "listening ts name ms q = map_option (\<lambda>(found, w). (found, fst w)) (calling (iq_listen name ms) (q, ts))"

definition subscribing ::
    "string list \<Rightarrow> queue_state \<Rightarrow> (queue_world event_receiver \<times> queue_state) option" where
  "subscribing types q = map_option (\<lambda>(E, w). (E, fst w)) (calling (iq_subscribe types) (q, []))"

definition receiving ::
    "nat list \<Rightarrow> tick list \<Rightarrow> queue_world event_receiver \<Rightarrow> u64 \<Rightarrow> queue_state \<Rightarrow>
     (bus_event option \<times> queue_state) option" where
  "receiving cs ts E ms q = map_option (\<lambda>(found, w). (found, fst w)) (calling (recv E ms cs) (q, ts))"

lemma runs_out_less: "runs_out n ts \<Longrightarrow> m \<le> n \<Longrightarrow> runs_out m ts"
proof (cases ts)
  case (Cons t rest)
  assume "runs_out n ts" and le: "m \<le> n"
  with Cons obtain u where "u \<in> set rest" "tk_now t + n * 1000000 \<le> tk_now u" "\<forall>v \<in> set ts. tk_others v = []"
    by (auto simp: runs_out_def)
  moreover from this(2) le have "tk_now t + m * 1000000 \<le> tk_now u" by linarith
  ultimately show "runs_out m ts" using Cons by (auto simp: runs_out_def)
qed (simp add: runs_out_def)

lemma wait_loop_runs_out:
  assumes "\<forall>t \<in> set ts. tk_others t = []" and "\<exists>u \<in> set ts. tk_now u \<ge> deadline"
    and "take_next q = (None, q)"
  shows "\<exists>ts'. wait_loop take_next deadline ts q = (Ok None, q, ts')"
  using assms(1,2)
proof (induction ts)
  case (Cons t ts)
  then have quiet: "bus_run (tk_others t) q = q" by (simp add: bus_run_def)
  show ?case
  proof (cases "tk_now t \<ge> deadline")
    case True
    with quiet assms(3) show ?thesis by simp
  next
    case False
    with Cons have "\<exists>ts'. wait_loop take_next deadline ts q = (Ok None, q, ts')" by auto
    with False quiet assms(3) show ?thesis by simp
  qed
qed simp

lemma wait_loop_at_once: "take_next q = (Some e, q') \<Longrightarrow> wait_loop take_next deadline ts q = (Ok (Some e), q', ts)"
  by (cases ts) simp_all

text \<open>With nobody else there a call takes what there is.\<close>

lemma wait_until_alone:
  assumes "runs_out (unat ms) ts" and "take_next q = (found, q')" and "found = None \<Longrightarrow> q' = q"
  shows "\<exists>ts'. wait_until take_next ms (q, ts) = (Ok found, q', ts') \<and> (found \<noteq> None \<longrightarrow> ts' = tl ts)"
proof (cases ts)
  case Nil
  with assms(1) show ?thesis by (simp add: runs_out_def)
next
  case (Cons t rest)
  with assms(1) have ts: "tk_others t = []" "\<forall>u \<in> set rest. tk_others u = []"
    "\<exists>u \<in> set rest. tk_now u \<ge> tk_now t + unat ms * 1000000"
    by (simp_all add: runs_out_def)
  have start: "wait_until take_next ms (q, ts) = wait_loop take_next (tk_now t + unat ms * 1000000) rest q"
    using Cons ts(1) by (simp add: wait_until_def bus_run_def)
  show ?thesis
  proof (cases found)
    case None
    with assms(2,3) have "take_next q = (None, q)" by simp
    from wait_loop_runs_out [of rest _ take_next, OF ts(2,3) this] None assms(3) start show ?thesis by simp
  next
    case (Some e)
    with assms(2) have "take_next q = (Some e, q')" by simp
    from wait_loop_at_once [of take_next, OF this] Some Cons start show ?thesis by simp
  qed
qed

lemma take_event_none: "take_event h q = (None, q') \<Longrightarrow> q' = q"
  by (auto simp: take_event_def Let_def split: if_splits)

lemma take_message_none: "take_message name q = (None, q') \<Longrightarrow> q' = q"
  by (auto simp: take_message_def split: option.splits if_splits)

lemma polled_takes:
  assumes "runs_out 100 ts" and "unat ms \<le> 100"
  shows "polled ts h ms q = Some (take_event h q)"
proof -
  obtain found q' where t: "take_event h q = (found, q')" by (cases "take_event h q")
  have "found = None \<Longrightarrow> q' = q" using take_event_none t by simp
  from wait_until_alone [OF runs_out_less [OF assms], of "take_event h", OF t this]
  obtain ts' where "wait_until (take_event h) ms (q, ts) = (Ok found, q', ts')" by blast
  with t show ?thesis by (simp add: polled_def iq_poll_def calling_def)
qed

lemma listening_takes:
  assumes "runs_out 100 ts" and "unat ms \<le> 100"
  shows "listening ts name ms q = Some (take_message name q)"
proof -
  obtain found q' where t: "take_message name q = (found, q')" by (cases "take_message name q")
  have "found = None \<Longrightarrow> q' = q" using take_message_none t by simp
  from wait_until_alone [OF runs_out_less [OF assms], of "take_message name", OF t this]
  obtain ts' where "wait_until (take_message name) ms (q, ts) = (Ok found, q', ts')" by blast
  with t show ?thesis by (simp add: listening_def iq_listen_def calling_def)
qed

text \<open>A prompt receiver finds the first event of its types and moves behind it.\<close>

definition position_after :: "string set \<Rightarrow> nat \<Rightarrow> bus_event list \<Rightarrow> nat" where
  "position_after types pos log =
     pos + length (takeWhile (\<lambda>e. be_event_type e \<notin> types) (drop pos log)) +
     (if \<exists>e \<in> set (drop pos log). be_event_type e \<in> types then 1 else 0)"

definition receives :: "string set \<Rightarrow> nat \<Rightarrow> queue_state \<Rightarrow> bus_event option \<times> queue_state" where
  "receives types h q =
     (find (\<lambda>e. be_event_type e \<in> types) (drop (iq_positions q ! h) (iq_log q)),
      q\<lparr>iq_positions := (iq_positions q)[h := position_after types (iq_positions q ! h) (iq_log q)]\<rparr>)"

lemma receives_nothing:
  "length (iq_log q) \<le> iq_positions q ! h \<Longrightarrow> receives types h q = (None, q)"
  by (simp add: receives_def position_after_def)

lemma receives_next:
  assumes "iq_positions q ! h < length (iq_log q)" and "h < length (iq_positions q)"
    and "take_event h q = (Some e, q')"
  shows "receives types h q = (if be_event_type e \<in> types then (Some e, q') else receives types h q')"
proof -
  let ?pos = "iq_positions q ! h"
  have e: "e = iq_log q ! ?pos" and q': "q' = q\<lparr>iq_positions := (iq_positions q)[h := ?pos + 1]\<rparr>"
    using assms(1,3) by (auto simp: take_event_def Let_def)
  have "drop ?pos (iq_log q) = e # drop (Suc ?pos) (iq_log q)"
    using assms(1) by (simp add: Cons_nth_drop_Suc e)
  with assms(2) show ?thesis by (simp add: receives_def position_after_def q')
qed

lemma recv_loop_prompt:
  assumes "\<forall>c \<in> set cs. c < deadline \<and> deadline \<le> c + 100000000"
    and "\<forall>i \<le> length cs. runs_out 100 (drop i ts)"
    and "length (iq_log q) - iq_positions q ! h < length cs" and "h < length (iq_positions q)"
  shows "\<exists>ts'. recv_loop (event_receiver_new (in_memory_subscriber h) types) deadline cs (q, ts) =
    (Ok (fst (receives (set types) h q)), snd (receives (set types) h q), ts')"
  using assms
proof (induction cs arbitrary: q ts)
  case Nil
  then show ?case by simp
next
  case (Cons c cs)
  let ?ms = "of_nat ((deadline - c) div 1000000) :: u64"
  have c: "c < deadline" "deadline - c \<le> 100000000" using Cons.prems(1) by auto
  then have "(deadline - c) div 1000000 \<le> 100" by simp
  then have ms: "unat ?ms \<le> 100" by (simp add: unat_of_nat)
  have clock: "runs_out (unat ?ms) ts" using Cons.prems(2) ms by (fastforce intro: runs_out_less)
  obtain found q' where t: "take_event h q = (found, q')" by (cases "take_event h q")
  have "found = None \<Longrightarrow> q' = q" using take_event_none t by simp
  from wait_until_alone [OF clock, of "take_event h", OF t this]
  obtain ts' where w: "wait_until (take_event h) ?ms (q, ts) = (Ok found, q', ts')" "found \<noteq> None \<Longrightarrow> ts' = tl ts"
    by blast
  have rest: "\<forall>i \<le> length cs. runs_out 100 (drop i (tl ts))"
    using Cons.prems(2) by (metis Suc_le_mono drop_Suc length_Cons)
  show ?case
  proof (cases "iq_positions q ! h < length (iq_log q)")
    case False
    with t w have "found = None" "q' = q" by (auto simp: take_event_def Let_def)
    with False w c show ?thesis
      by (simp add: event_receiver_new_def in_memory_subscriber_def iq_poll_def receives_nothing Let_def)
  next
    case True
    then obtain e where e: "found = Some e" "q' = q\<lparr>iq_positions := (iq_positions q)[h := iq_positions q ! h + 1]\<rparr>"
      using t by (auto simp: take_event_def Let_def)
    note step = receives_next [OF True Cons.prems(4) t [unfolded e(1)], of "set types"]
    show ?thesis
    proof (cases "be_event_type e \<in> set types")
      case True
      with w e c step show ?thesis
        by (simp add: event_receiver_new_def in_memory_subscriber_def iq_poll_def Let_def)
    next
      case False
      have "\<exists>ts'. recv_loop (event_receiver_new (in_memory_subscriber h) types) deadline cs (q', tl ts) =
          (Ok (fst (receives (set types) h q')), snd (receives (set types) h q'), ts')"
        by (rule Cons.IH) (use Cons.prems rest True e in auto)
      with False w e c step show ?thesis
        by (simp add: event_receiver_new_def in_memory_subscriber_def iq_poll_def Let_def)
    qed
  qed
qed

lemma receiving_prompt:
  assumes "prompt 10 cs" and "\<forall>i. i \<le> length cs \<longrightarrow> runs_out 100 (drop i ts)"
    and "10 \<le> unat ms" and "unat ms \<le> 100"
    and "length (iq_log q) - iq_positions q ! h < 5" and "h < length (iq_positions q)"
  shows "receiving cs ts (event_receiver_new (in_memory_subscriber h) types) ms q =
    Some (receives (set types) h q)"
proof -
  obtain start rest where cs: "cs = start # rest" "5 \<le> length rest"
    "\<forall>c \<in> set rest. start \<le> c \<and> c < start + 10 * 1000000"
    using assms(1) by (auto simp: prompt_def split: list.splits)
  have "\<exists>ts'. recv_loop (event_receiver_new (in_memory_subscriber h) types) (start + unat ms * 1000000) rest (q, ts) =
      (Ok (fst (receives (set types) h q)), snd (receives (set types) h q), ts')"
    by (rule recv_loop_prompt) (use assms cs in \<open>fastforce+\<close>)
  then show ?thesis by (auto simp: receiving_def calling_def recv_def cs(1))
qed

section \<open>The queue\<close>

definition queue_test_publish_and_poll :: "(nat \<Rightarrow> tick list) \<Rightarrow> unit option" where
  "queue_test_publish_and_poll ticks = do {
     let queue = in_memory_queue_new;
     let queue = iq_publish (with_string_payload ''evt-1'' ''TestEvent'' ''{\"data\": 1}'') queue;
     (found, queue) \<leftarrow> polled (ticks 0) 0 100 queue;
     assert_that (found \<noteq> None);
     event \<leftarrow> found;
     assert_eq (be_event_type event) ''TestEvent'';
     assert_eq (bus_event_payload_str event) (Some ''{\"data\": 1}'')
   }"

definition queue_test_poll_timeout_when_empty :: "(nat \<Rightarrow> tick list) \<Rightarrow> unit option" where
  "queue_test_poll_timeout_when_empty ticks = do {
     let queue = in_memory_queue_new;
     (event, queue) \<leftarrow> polled (ticks 0) 0 10 queue;
     assert_that (event = None)
   }"

definition queue_test_multiple_subscribers :: "(nat \<Rightarrow> tick list) \<Rightarrow> unit option" where
  "queue_test_multiple_subscribers ticks = do {
     let queue = in_memory_queue_new;
     let queue = iq_publish (with_string_payload ''evt-1'' ''Event1'' ''{}'') queue;
     let queue = iq_publish (with_string_payload ''evt-2'' ''Event2'' ''{}'') queue;
     let (sub2, queue) = iq_new_subscriber queue;
     (found, queue) \<leftarrow> polled (ticks 0) 0 10 queue;
     event \<leftarrow> found;
     assert_eq (be_event_type event) ''Event1'';
     (found, queue) \<leftarrow> polled (ticks 1) 0 10 queue;
     event \<leftarrow> found;
     assert_eq (be_event_type event) ''Event2'';
     (found, queue) \<leftarrow> polled (ticks 2) sub2 10 queue;
     event \<leftarrow> found;
     assert_eq (be_event_type event) ''Event1'';
     (found, queue) \<leftarrow> polled (ticks 3) sub2 10 queue;
     event \<leftarrow> found;
     assert_eq (be_event_type event) ''Event2''
   }"

definition queue_test_publish_batch :: "unit option" where
  "queue_test_publish_batch = do {
     let queue = in_memory_queue_new;
     let events = [with_string_payload ''evt-1'' ''Event1'' ''{}'',
                   with_string_payload ''evt-2'' ''Event2'' ''{}'',
                   with_string_payload ''evt-3'' ''Event3'' ''{}''];
     let queue = iq_publish_batch events queue;
     assert_eq (iq_len queue) 3;
     assert_eq (iq_event_types queue) [''Event1'', ''Event2'', ''Event3'']
   }"

definition queue_test_find_by_type :: "unit option" where
  "queue_test_find_by_type = do {
     let queue = in_memory_queue_new;
     let queue = iq_publish (with_string_payload ''evt-1'' ''OrderCreated'' ''{\"id\":\"1\"}'') queue;
     let queue = iq_publish (with_string_payload ''evt-2'' ''PaymentSucceeded'' ''{\"id\":\"2\"}'') queue;
     let queue = iq_publish (with_string_payload ''evt-3'' ''OrderCreated'' ''{\"id\":\"3\"}'') queue;
     let found = iq_find_by_type ''PaymentSucceeded'' queue;
     assert_that (found \<noteq> None);
     event \<leftarrow> found;
     assert_eq (be_id event) ''evt-2'';
     let all_orders = iq_find_all_by_type ''OrderCreated'' queue;
     assert_eq (length all_orders) 2
   }"

definition queue_test_clear_resets_state :: "(nat \<Rightarrow> tick list) \<Rightarrow> unit option" where
  "queue_test_clear_resets_state ticks = do {
     let queue = in_memory_queue_new;
     let queue = iq_publish (with_string_payload ''evt-1'' ''Event1'' ''{}'') queue;
     (_, queue) \<leftarrow> polled (ticks 0) 0 10 queue;
     let queue = iq_ack 0 ''evt-1'' queue;
     assert_eq (iq_len queue) 1;
     assert_eq (iq_current_position 0 queue) 1;
     assert_eq (length (iq_acknowledged 0 queue)) 1;
     let queue = iq_clear 0 queue;
     assert_eq (iq_len queue) 0;
     assert_eq (iq_current_position 0 queue) 0;
     assert_that (iq_acknowledged 0 queue = [])
   }"

definition queue_test_subscribe_filters_events ::
    "(nat \<Rightarrow> nat list) \<Rightarrow> (nat \<Rightarrow> tick list) \<Rightarrow> unit option" where
  "queue_test_subscribe_filters_events clocks ticks = do {
     let queue = in_memory_queue_new;
     let queue = iq_publish (with_string_payload ''evt-1'' ''OrderCreated'' ''{}'') queue;
     let queue = iq_publish (with_string_payload ''evt-2'' ''PaymentFailed'' ''{}'') queue;
     let queue = iq_publish (with_string_payload ''evt-3'' ''InventoryReserved'' ''{}'') queue;
     let queue = iq_publish (with_string_payload ''evt-4'' ''OrderCreated'' ''{}'') queue;
     (receiver, queue) \<leftarrow> subscribing [''OrderCreated''] queue;
     (found, queue) \<leftarrow> receiving (clocks 0) (ticks 0) receiver 100 queue;
     event1 \<leftarrow> found;
     assert_eq (be_id event1) ''evt-1'';
     assert_eq (be_event_type event1) ''OrderCreated'';
     (found, queue) \<leftarrow> receiving (clocks 1) (ticks 1) receiver 100 queue;
     event2 \<leftarrow> found;
     assert_eq (be_id event2) ''evt-4'';
     assert_eq (be_event_type event2) ''OrderCreated'';
     (found, queue) \<leftarrow> receiving (clocks 2) (ticks 2) receiver 10 queue;
     assert_that (found = None)
   }"

definition queue_test_subscribe_multiple_types ::
    "(nat \<Rightarrow> nat list) \<Rightarrow> (nat \<Rightarrow> tick list) \<Rightarrow> unit option" where
  "queue_test_subscribe_multiple_types clocks ticks = do {
     let queue = in_memory_queue_new;
     let queue = iq_publish (with_string_payload ''evt-1'' ''OrderCreated'' ''{}'') queue;
     let queue = iq_publish (with_string_payload ''evt-2'' ''PaymentFailed'' ''{}'') queue;
     let queue = iq_publish (with_string_payload ''evt-3'' ''OrderCompleted'' ''{}'') queue;
     (receiver, queue) \<leftarrow> subscribing [''OrderCreated'', ''OrderCompleted''] queue;
     (found, queue) \<leftarrow> receiving (clocks 0) (ticks 0) receiver 100 queue;
     event1 \<leftarrow> found;
     assert_eq (be_id event1) ''evt-1'';
     (found, queue) \<leftarrow> receiving (clocks 1) (ticks 1) receiver 100 queue;
     event2 \<leftarrow> found;
     assert_eq (be_id event2) ''evt-3'';
     (found, queue) \<leftarrow> receiving (clocks 2) (ticks 2) receiver 10 queue;
     assert_that (found = None)
   }"

definition queue_test_send_and_listen :: "(nat \<Rightarrow> tick list) \<Rightarrow> unit option" where
  "queue_test_send_and_listen ticks = do {
     let queue = in_memory_queue_new;
     let queue = iq_send ''orders'' (with_string_payload ''evt-1'' ''ProcessOrder'' ''{\"id\":\"123\"}'') queue;
     (found, queue) \<leftarrow> listening (ticks 0) ''orders'' 100 queue;
     assert_that (found \<noteq> None);
     event \<leftarrow> found;
     assert_eq (be_event_type event) ''ProcessOrder'';
     assert_eq (be_id event) ''evt-1''
   }"

definition queue_test_listen_timeout_when_empty :: "(nat \<Rightarrow> tick list) \<Rightarrow> unit option" where
  "queue_test_listen_timeout_when_empty ticks = do {
     let queue = in_memory_queue_new;
     (event, queue) \<leftarrow> listening (ticks 0) ''orders'' 10 queue;
     assert_that (event = None)
   }"

text \<open>Two clones of the queue share its named queues: they are the same state.\<close>

definition queue_test_send_listen_competing_consumers :: "(nat \<Rightarrow> tick list) \<Rightarrow> unit option" where
  "queue_test_send_listen_competing_consumers ticks = do {
     let queue = in_memory_queue_new;
     let queue = iq_send ''tasks'' (with_string_payload ''evt-1'' ''Task'' ''{}'') queue;
     let queue = iq_send ''tasks'' (with_string_payload ''evt-2'' ''Task'' ''{}'') queue;
     (found, queue) \<leftarrow> listening (ticks 0) ''tasks'' 100 queue;
     e1 \<leftarrow> found;
     (found, queue) \<leftarrow> listening (ticks 1) ''tasks'' 100 queue;
     e2 \<leftarrow> found;
     assert_eq (be_id e1) ''evt-1'';
     assert_eq (be_id e2) ''evt-2'';
     (found, queue) \<leftarrow> listening (ticks 2) ''tasks'' 10 queue;
     assert_that (found = None)
   }"

definition queue_test_send_listen_separate_queues :: "(nat \<Rightarrow> tick list) \<Rightarrow> unit option" where
  "queue_test_send_listen_separate_queues ticks = do {
     let queue = in_memory_queue_new;
     let queue = iq_send ''orders'' (with_string_payload ''evt-1'' ''Order'' ''{}'') queue;
     let queue = iq_send ''payments'' (with_string_payload ''evt-2'' ''Payment'' ''{}'') queue;
     (found, queue) \<leftarrow> listening (ticks 0) ''orders'' 100 queue;
     order \<leftarrow> found;
     assert_eq (be_id order) ''evt-1'';
     (found, queue) \<leftarrow> listening (ticks 1) ''payments'' 100 queue;
     payment \<leftarrow> found;
     assert_eq (be_id payment) ''evt-2'';
     (found, queue) \<leftarrow> listening (ticks 2) ''orders'' 10 queue;
     assert_that (found = None);
     (found, queue) \<leftarrow> listening (ticks 3) ''payments'' 10 queue;
     assert_that (found = None)
   }"

definition queue_test_multiple_subscribers_independent ::
    "(nat \<Rightarrow> nat list) \<Rightarrow> (nat \<Rightarrow> tick list) \<Rightarrow> unit option" where
  "queue_test_multiple_subscribers_independent clocks ticks = do {
     let queue = in_memory_queue_new;
     let queue = iq_publish (with_string_payload ''evt-1'' ''OrderCreated'' ''{}'') queue;
     let queue = iq_publish (with_string_payload ''evt-2'' ''PaymentSucceeded'' ''{}'') queue;
     (orders, queue) \<leftarrow> subscribing [''OrderCreated''] queue;
     (payments, queue) \<leftarrow> subscribing [''PaymentSucceeded''] queue;
     (found, queue) \<leftarrow> receiving (clocks 0) (ticks 0) orders 100 queue;
     event \<leftarrow> found;
     assert_eq (be_id event) ''evt-1'';
     (found, queue) \<leftarrow> receiving (clocks 1) (ticks 1) payments 100 queue;
     event \<leftarrow> found;
     assert_eq (be_id event) ''evt-2''
   }"

section \<open>The bus and the events\<close>

text \<open>The mocks share the list of events; the state is that list and the position of the subscriber.\<close>

definition mock_publisher :: "(bus_event list \<times> nat) pub_ops" where
  "mock_publisher =
     (let publish = (\<lambda>e s. (Ok (), fst s @ [e], snd s))
      in \<lparr>pub_publish = publish, pub_publish_batch = publish_batch_default publish\<rparr>)"

definition mock_subscriber :: "(bus_event list \<times> nat) sub_ops" where
  "mock_subscriber =
     \<lparr>sub_poll = (\<lambda>timeout s.
        if snd s < length (fst s) then (Ok (Some (fst s ! snd s)), fst s, snd s + 1) else (Ok None, s)),
      sub_ack = (\<lambda>event_id. st_return ()),
      sub_nack = (\<lambda>event_id reason. st_return ())\<rparr>"

text \<open>The mocks send and listen to nothing: of these two operations nothing is said (\<open>B\<close>).\<close>

definition bus_test_bus_publish_and_poll :: "(bus_event list \<times> nat) bus \<Rightarrow> unit option" where
  "bus_test_bus_publish_and_poll B = do {
     let bus = B\<lparr>bus_publisher := mock_publisher, bus_subscriber := mock_subscriber\<rparr>;
     (_, events) \<leftarrow> calling (bus_publish bus (with_string_payload ''evt-1'' ''TestEvent'' ''{}'')) ([], 0);
     (found, events) \<leftarrow> calling (bus_poll bus 100) events;
     assert_that (found \<noteq> None);
     event \<leftarrow> found;
     assert_eq (be_event_type event) ''TestEvent''
   }"

definition event_test_event_construction :: "unit option" where
  "event_test_event_construction = do {
     let event = bus_event_new ''evt-1'' ''OrderCreated'' (string_bytes ''{}'');
     assert_eq (be_id event) ''evt-1'';
     assert_eq (be_event_type event) ''OrderCreated'';
     assert_eq (bus_event_payload_str event) (Some ''{}'')
   }"

definition event_test_event_with_metadata :: "unit option" where
  "event_test_event_with_metadata = do {
     let event = with_metadata ''source'' ''order-service''
       (with_metadata ''correlation-id'' ''abc-123''
          (bus_event_new ''evt-1'' ''OrderCreated'' (string_bytes ''{}'')));
     meta \<leftarrow> be_metadata event;
     assert_eq (length meta) 2;
     kv \<leftarrow> index_at meta 0;
     assert_eq kv (''correlation-id'', ''abc-123'')
   }"

text \<open>ASCII text is valid UTF-8.\<close>

lemma utf8_valid_ascii: "\<forall>b \<in> set bs. b \<le> 0x7F \<Longrightarrow> utf8_valid bs"
proof (induction bs)
  case Nil
  then show ?case by (simp add: utf8_valid.simps)
next
  case (Cons b bs)
  then show ?case by (subst utf8_valid.simps) (simp add: utf8_width_def Let_def)
qed

lemma payload_str_ascii:
  assumes "\<forall>c \<in> set s. of_nat (of_char c) \<le> (0x7F :: u8)"
  shows "from_utf8 (string_bytes s) = Some s"
proof -
  have "utf8_valid (string_bytes s)"
    by (rule utf8_valid_ascii) (use assms in \<open>simp add: string_bytes_def\<close>)
  then show ?thesis by (simp add: from_utf8_def)
qed

lemmas queue_defs =
  in_memory_queue_new_def iq_publish_def iq_publish_batch_def iq_new_subscriber_def iq_len_def iq_event_types_def
  iq_find_by_type_def iq_find_all_by_type_def iq_ack_def iq_current_position_def iq_acknowledged_def iq_clear_def
  iq_send_def take_event_def take_message_def with_string_payload_def bus_event_new_def p2p_queue_default_def
  subscribing_def iq_subscribe_def in_memory_new_subscriber_def st_bind_def st_return_def
  receives_def position_after_def calling_def lookup_empty lookup_update'

theorem queue_tests_pass:
  assumes ticks: "\<And>i j. j \<le> length (clocks i) \<Longrightarrow> runs_out 100 (drop j (ticks i))"
    and clocks: "\<And>i. prompt 10 (clocks i)"
  shows "passes (queue_test_publish_and_poll ticks)"
    and "passes (queue_test_poll_timeout_when_empty ticks)"
    and "passes (queue_test_multiple_subscribers ticks)"
    and "passes queue_test_publish_batch"
    and "passes queue_test_find_by_type"
    and "passes (queue_test_clear_resets_state ticks)"
    and "passes (queue_test_subscribe_filters_events clocks ticks)"
    and "passes (queue_test_subscribe_multiple_types clocks ticks)"
    and "passes (queue_test_send_and_listen ticks)"
    and "passes (queue_test_listen_timeout_when_empty ticks)"
    and "passes (queue_test_send_listen_competing_consumers ticks)"
    and "passes (queue_test_send_listen_separate_queues ticks)"
    and "passes (queue_test_multiple_subscribers_independent clocks ticks)"
proof -
  have alone: "runs_out 100 (ticks i)" for i using ticks [of 0 i] by simp
  note waits = polled_takes [OF alone] listening_takes [OF alone] receiving_prompt [OF clocks] ticks
  note ops = queue_defs test_simps waits
  show "passes (queue_test_publish_and_poll ticks)"
    by (simp add: queue_test_publish_and_poll_def ops bus_event_payload_str_def payload_str_ascii)
  show "passes (queue_test_poll_timeout_when_empty ticks)" by (simp add: queue_test_poll_timeout_when_empty_def ops)
  show "passes (queue_test_multiple_subscribers ticks)" by (simp add: queue_test_multiple_subscribers_def ops)
  show "passes queue_test_publish_batch" by (simp add: queue_test_publish_batch_def ops)
  show "passes queue_test_find_by_type" by (simp add: queue_test_find_by_type_def ops)
  show "passes (queue_test_clear_resets_state ticks)" by (simp add: queue_test_clear_resets_state_def ops)
  show "passes (queue_test_subscribe_filters_events clocks ticks)"
    by (simp add: queue_test_subscribe_filters_events_def ops)
  show "passes (queue_test_subscribe_multiple_types clocks ticks)"
    by (simp add: queue_test_subscribe_multiple_types_def ops)
  show "passes (queue_test_send_and_listen ticks)" by (simp add: queue_test_send_and_listen_def ops)
  show "passes (queue_test_listen_timeout_when_empty ticks)" by (simp add: queue_test_listen_timeout_when_empty_def ops)
  show "passes (queue_test_send_listen_competing_consumers ticks)"
    by (simp add: queue_test_send_listen_competing_consumers_def ops)
  show "passes (queue_test_send_listen_separate_queues ticks)"
    by (simp add: queue_test_send_listen_separate_queues_def ops)
  show "passes (queue_test_multiple_subscribers_independent clocks ticks)"
    by (simp add: queue_test_multiple_subscribers_independent_def ops)
qed

theorem bus_tests_pass:
  "passes (bus_test_bus_publish_and_poll B)"
  "passes event_test_event_construction"
  "passes event_test_event_with_metadata"
  by (simp_all add: bus_test_bus_publish_and_poll_def event_test_event_construction_def
      event_test_event_with_metadata_def mock_publisher_def mock_subscriber_def bus_publish_def bus_poll_def
      bus_event_payload_str_def payload_str_ascii with_metadata_def queue_defs test_simps)

end
