(* ===== verification/Tests_Service.thy ===== *)
theory Tests_Service
  imports Test_Support Microsvc Emitter
begin

text \<open>
  The unit tests of \<open>src/microsvc\<close> and \<open>src/emitter\<close>.  The service of the tests has no repository:
  its state is of type \<open>unit\<close>.
\<close>

section \<open>Sessions\<close>

definition session_test_empty_session :: "unit option" where
  "session_test_empty_session = do {
     let session = session_new;
     assert_eq (session_user_id session) None;
     assert_eq (session_role session) None;
     assert_that (\<not> session_has session ''anything'')
   }"

definition session_test_hasura_variables :: "unit option" where
  "session_test_hasura_variables = do {
     let vars = Mapping.update ''x-hasura-user-id'' ''user-42'' Mapping.empty;
     let vars = Mapping.update ''x-hasura-role'' ''customer'' vars;
     let session = session_from_map vars;
     assert_eq (session_user_id session) (Some ''user-42'');
     assert_eq (session_role session) (Some ''customer'');
     assert_that (session_has session ''x-hasura-user-id'');
     assert_that (\<not> session_has session ''x-hasura-admin-secret'')
   }"

definition session_test_set_and_get :: "unit option" where
  "session_test_set_and_get = do {
     let session = session_set ''x-hasura-role'' ''admin'' session_new;
     assert_eq (session_get session ''x-hasura-role'') (Some ''admin'');
     assert_eq (session_role session) (Some ''admin'')
   }"

theorem session_tests_pass:
  "passes session_test_empty_session"
  "passes session_test_hasura_variables"
  "passes session_test_set_and_get"
  by (simp_all add: session_test_empty_session_def session_test_hasura_variables_def session_test_set_and_get_def
      session_new_def session_from_map_def session_set_def session_get_def session_user_id_def session_role_def
      session_has_def lookup_empty lookup_update' test_simps)

section \<open>Services\<close>

type_synonym handler = "context_data \<Rightarrow> (unit, handler_error, json) call"

definition test_service :: "unit service" where
  "test_service = service_new"

definition answers :: "json \<Rightarrow> handler" where
  "answers value ctx = st_return value"

definition rejects :: "string \<Rightarrow> handler" where
  "rejects msg ctx r = (Err (HE_Rejected msg), r)"

abbreviation json_empty :: json where
  "json_empty \<equiv> JObject []"

abbreviation json_pong :: json where
  "json_pong \<equiv> JObject [(''pong'', JBool True)]"

definition service_test_dispatch_returns_handler_result :: "unit option" where
  "service_test_dispatch_returns_handler_result = do {
     let service = command ''ping'' (answers json_pong) test_service;
     (result, _) \<leftarrow> calling (dispatch service ''ping'' json_empty session_new) ();
     assert_eq result json_pong
   }"

definition service_test_unknown_command :: "unit option" where
  "service_test_unknown_command = do {
     let service = command ''ping'' (answers json_empty) test_service;
     (err, _) \<leftarrow> failing (dispatch service ''unknown'' json_empty session_new) ();
     assert_that (case err of HE_UnknownCommand s \<Rightarrow> s = ''unknown'' | _ \<Rightarrow> False)
   }"

definition service_test_handler_error_propagates :: "unit option" where
  "service_test_handler_error_propagates = do {
     let service = command ''fail'' (rejects ''nope'') test_service;
     (err, _) \<leftarrow> failing (dispatch service ''fail'' json_empty session_new) ();
     assert_that (case err of HE_Rejected s \<Rightarrow> s = ''nope'' | _ \<Rightarrow> False)
   }"

text \<open>\<open>from_value\<close> is the derived deserializer of the input type, whose field is missing in the input.\<close>

definition typed_handler :: "(json \<Rightarrow> string + 'i) \<Rightarrow> handler" where
  "typed_handler from_value ctx =
     st_bind (st_lift (context_input from_value ctx)) (\<lambda>_. st_return json_empty)"

definition service_test_decode_error_from_bad_payload :: "(json \<Rightarrow> string + 'i) \<Rightarrow> unit option" where
  "service_test_decode_error_from_bad_payload from_value = do {
     let service = command ''typed'' (typed_handler from_value) test_service;
     (err, _) \<leftarrow> failing (dispatch service ''typed'' (JObject [(''wrong'', JNumber ''1'')]) session_new) ();
     assert_that (case err of HE_DecodeFailed _ \<Rightarrow> True | _ \<Rightarrow> False)
   }"

definition service_test_commands_list ::
    "((string, unit command_handler) mapping \<Rightarrow> string list) \<Rightarrow> unit option" where
  "service_test_commands_list ord = do {
     let service = command ''b'' (answers json_empty) (command ''a'' (answers json_empty) test_service);
     let cmds = sort (commands ord service);
     assert_eq cmds [''a'', ''b'']
   }"

definition named_guard :: "context_data \<Rightarrow> unit \<Rightarrow> bool option \<times> unit" where
  "named_guard ctx r = (Some (has_fields [''name''] ctx), r)"

definition greet_handler :: handler where
  "greet_handler ctx r =
     (case cx_input ctx of
        JObject fs \<Rightarrow>
          (case map_of fs ''name'' of
             Some (JString name) \<Rightarrow> (Ok (JObject [(''hello'', JString name)]), r)
           | _ \<Rightarrow> (Panic, r))
      | _ \<Rightarrow> (Panic, r))"

definition service_test_guard_passes :: "unit option" where
  "service_test_guard_passes = do {
     let service = command_guarded ''greet'' named_guard greet_handler test_service;
     (result, _) \<leftarrow> calling (dispatch service ''greet'' (JObject [(''name'', JString ''Pat'')]) session_new) ();
     assert_eq result (JObject [(''hello'', JString ''Pat'')])
   }"

definition service_test_guard_rejects :: "unit option" where
  "service_test_guard_rejects = do {
     let service = command_guarded ''greet'' named_guard (\<lambda>ctx r. (Panic, r)) test_service;
     (err, _) \<leftarrow> failing (dispatch service ''greet'' (JObject [(''wrong'', JNumber ''1'')]) session_new) ();
     assert_that (case err of HE_GuardRejected s \<Rightarrow> s = ''greet'' | _ \<Rightarrow> False)
   }"

definition admin_guard :: "context_data \<Rightarrow> unit \<Rightarrow> bool option \<times> unit" where
  "admin_guard ctx r = (Some (context_role ctx = Some ''admin''), r)"

definition service_test_guard_checks_session :: "unit option" where
  "service_test_guard_checks_session = do {
     let service = command_guarded ''admin'' admin_guard (answers (JObject [(''ok'', JBool True)])) test_service;
     assert_that (unwrap_err (fst (dispatch service ''admin'' json_empty session_new ())) \<noteq> None);
     let session = session_set ''x-hasura-role'' ''admin'' session_new;
     assert_that (is_ok (fst (dispatch service ''admin'' json_empty session ())))
   }"

definition request_for :: "string \<Rightarrow> command_request" where
  "request_for name = \<lparr>rq_command = name, rq_input = json_empty, rq_session_variables = Mapping.empty\<rparr>"

definition service_test_dispatch_request_success :: "unit option" where
  "service_test_dispatch_request_success = do {
     let service = command ''ping'' (answers json_pong) test_service;
     let request = request_for ''ping'';
     (response, _) \<leftarrow> calling (dispatch_request service request) ();
     assert_eq (rs_status response) 200;
     assert_eq (rs_body response) json_pong
   }"

definition unauth_handler :: handler where
  "unauth_handler ctx = st_bind (st_lift (context_user_id ctx)) (\<lambda>_. st_return json_empty)"

definition service_test_dispatch_request_error_codes :: "unit option" where
  "service_test_dispatch_request_error_codes = do {
     let service = command ''unauth'' unauth_handler (command ''reject'' (rejects ''no'') test_service);
     (resp, _) \<leftarrow> calling (dispatch_request service (request_for ''unknown'')) ();
     assert_eq (rs_status resp) 404;
     (resp, _) \<leftarrow> calling (dispatch_request service (request_for ''reject'')) ();
     assert_eq (rs_status resp) 422;
     (resp, _) \<leftarrow> calling (dispatch_request service (request_for ''unauth'')) ();
     assert_eq (rs_status resp) 401
   }"

definition whoami_handler :: handler where
  "whoami_handler ctx =
     st_bind (st_lift (context_user_id ctx)) (\<lambda>user_id. st_return (JObject [(''user_id'', JString user_id)]))"

definition service_test_dispatch_request_passes_session :: "unit option" where
  "service_test_dispatch_request_passes_session = do {
     let service = command ''whoami'' whoami_handler test_service;
     let vars = Mapping.update ''x-hasura-user-id'' ''user-99'' Mapping.empty;
     let request = \<lparr>rq_command = ''whoami'', rq_input = json_empty, rq_session_variables = vars\<rparr>;
     (response, _) \<leftarrow> calling (dispatch_request service request) ();
     assert_eq (rs_status response) 200;
     assert_eq (rs_body response) (JObject [(''user_id'', JString ''user-99'')])
   }"

lemma sort_keys:
  assumes "iteration m ks" and "Mapping.keys m = set xs" and "distinct xs"
  shows "sort ks = sort xs"
  using assms by (metis distinct_remdups_id iteration_def sorted_list_of_set_sort_remdups)

lemmas service_defs =
  test_service_def service_new_def command_def command_guarded_def dispatch_def dispatch_request_def answers_def
  rejects_def typed_handler_def named_guard_def greet_handler_def admin_guard_def unauth_handler_def
  whoami_handler_def request_for_def context_new_def context_input_def context_user_id_def context_role_def
  has_fields_def has_field_def session_new_def session_from_map_def session_set_def session_get_def
  session_user_id_def session_role_def calling_def failing_def st_return_def st_bind_def st_lift_def
  lookup_empty lookup_update'

theorem service_tests_pass:
  assumes "from_value (JObject [(''wrong'', JNumber ''1'')]) = Inl msg" and "orders ord"
  shows "passes service_test_dispatch_returns_handler_result"
    and "passes service_test_unknown_command"
    and "passes service_test_handler_error_propagates"
    and "passes (service_test_decode_error_from_bad_payload from_value)"
    and "passes (service_test_commands_list ord)"
    and "passes service_test_guard_passes"
    and "passes service_test_guard_rejects"
    and "passes service_test_guard_checks_session"
    and "passes service_test_dispatch_request_success"
    and "passes service_test_dispatch_request_error_codes"
    and "passes service_test_dispatch_request_passes_session"
proof -
  show "passes service_test_dispatch_returns_handler_result"
    by (simp add: service_test_dispatch_returns_handler_result_def service_defs test_simps)
  show "passes service_test_unknown_command"
    by (simp add: service_test_unknown_command_def service_defs test_simps)
  show "passes service_test_handler_error_propagates"
    by (simp add: service_test_handler_error_propagates_def service_defs test_simps)
  show "passes (service_test_decode_error_from_bad_payload from_value)"
    by (simp add: service_test_decode_error_from_bad_payload_def service_defs test_simps assms(1))
  show "passes service_test_guard_passes" by (simp add: service_test_guard_passes_def service_defs test_simps)
  show "passes service_test_guard_rejects" by (simp add: service_test_guard_rejects_def service_defs test_simps)
  show "passes service_test_guard_checks_session"
    by (simp add: service_test_guard_checks_session_def service_defs test_simps)
  show "passes service_test_dispatch_request_success"
    by (simp add: service_test_dispatch_request_success_def service_defs test_simps)
  show "passes service_test_dispatch_request_error_codes"
    by (simp add: service_test_dispatch_request_error_codes_def service_defs test_simps)
  show "passes service_test_dispatch_request_passes_session"
    by (simp add: service_test_dispatch_request_passes_session_def service_defs test_simps)
  let ?m = "sv_handlers (command ''b'' (answers json_empty) (command ''a'' (answers json_empty) test_service))"
  have keys: "Mapping.keys ?m = set [''a'', ''b'']" by (auto simp: service_defs)
  then have "iteration ?m (ord ?m)" using assms(2) by (simp add: orders_def)
  from sort_keys [OF this keys] have "sort (ord ?m) = [''a'', ''b'']" by simp
  then show "passes (service_test_commands_list ord)"
    by (simp add: service_test_commands_list_def commands_def test_simps)
qed

section \<open>The entity with an emitter\<close>

text \<open>
  Of the third-party emitter the first test needs that a listener runs when its event is emitted.
  \<open>raise\<close> sets the flag of the test in the state the listeners can reach, and \<open>called\<close> reads it.
\<close>

definition emitter_test_enqueue_and_emit ::
    "'em emitter_ops \<Rightarrow> ('em \<Rightarrow> 'em) \<Rightarrow> ('em \<Rightarrow> bool) \<Rightarrow> system_time \<Rightarrow> unit option" where
  "emitter_test_enqueue_and_emit E raise called now = do {
     let entity = entity_with_id ''test'' now;
     let emitter = with_emitter E entity;
     let emitter = ee_on E ''TestEvent'' (\<lambda>data em. if data = ''test payload'' then raise em else em) emitter;
     let emitter = enqueue ''TestEvent'' ''test payload'' emitter;
     assert_eq (queued_len emitter) 1;
     let emitter = emit_queued E emitter;
     assert_eq (queued_len emitter) 0;
     assert_that (called (ee_event_emitter emitter))
   }"

definition emitter_test_entity_access :: "'em emitter_ops \<Rightarrow> system_time \<Rightarrow> unit option" where
  "emitter_test_entity_access E now = do {
     let entity = entity_with_id ''test'' now;
     let emitter = with_emitter E entity;
     assert_eq (en_id (ee_entity emitter)) ''test'';
     let emitter = emitter\<lparr>ee_entity := set_id ''changed'' (ee_entity emitter)\<rparr>;
     assert_eq (en_id (ee_entity emitter)) ''changed'';
     let entity = ee_into_entity emitter;
     assert_eq (en_id entity) ''changed''
   }"

theorem emitter_tests_pass:
  assumes "\<And>event data listener. eo_emit E event data (eo_on E event listener (eo_new E)) =
      listener data (eo_on E event listener (eo_new E))"
    and "\<And>em. called (raise em)"
  shows "passes (emitter_test_enqueue_and_emit E raise called now)"
    and "passes (emitter_test_entity_access E now)"
  by (simp_all add: emitter_test_enqueue_and_emit_def emitter_test_entity_access_def with_emitter_def
      entity_emitter_new_def ee_on_def enqueue_def entity_with_id_def entity_default_def queued_len_def
      emit_queued_simps set_id_def ee_into_entity_def assms test_simps)

end
