(* ===== verification/Spec2Isabelle.thy ===== *)
theory Spec2Isabelle
  imports Aggregate Queued_Read_Model Snapshot_System Stack Commit_Builder Outbox_System Front_Ends Optimistic
    Macro_Contract Snapshot_Identity Tests_Entity Tests_Commit Tests_Bus Tests_Service
begin

text \<open>
  A verification library for \<open>sourced_rust\<close>, a Rust crate for event-sourced aggregates: entities
  that record events, repositories that store them with optimistic concurrency, locks that
  queue the clients of one aggregate, snapshots, read models, an outbox with its worker, a
  message bus and a small service layer.

  \<^bold>\<open>How the program is modelled.\<close>  A call of the program is a function from the state it can
  change to an outcome and the state it leaves (\<open>call\<close> in \<open>Prelude\<close>).  The outcome is \<open>Ok\<close>,
  \<open>Err\<close> with the error value of the source, \<open>Panic\<close>, or \<open>Stuck\<close> for a call that does not
  return (waiting for a lock that nobody frees, or an upcaster that loops).  Every \<open>?\<close> and early
  return of the source is a \<open>st_bind\<close>, and the state changed before an error stays changed.
  Versions, sequences and attempts are words of the width they have in the source; lengths and
  counters of type \<open>usize\<close> are natural numbers.  Rust traits are records of operations
  (\<open>repo_ops\<close>, \<open>lock_ops\<close>, \<open>rm_ops\<close>, \<open>snap_ops\<close>, \<open>pub_ops\<close>, \<open>sub_ops\<close>, \<open>outbox_ops\<close>), so a generic type
  of the source is a definition that takes the record of what it wraps.  Laws that a client
  needs of such a record are the assumptions of a locale, and each locale is interpreted on the
  code's own implementation.

  \<^bold>\<open>Theories, from the bottom up.\<close>

  \<^item> \<open>Prelude\<close>: outcomes, calls, maps with an iteration order, numbered lists, shared lemmas.
  \<^item> \<open>Event_Record\<close>, \<open>Entity\<close>, \<open>Upcaster\<close> (\<open>src/entity\<close>): event records and their metadata, the
    entity with its event list and committed prefix, replay, and the upgrade of old events.
  \<^item> \<open>Locks\<close> (\<open>src/lock\<close>): the mutex with a condition variable, its manager, a step semantics of
    threads, and the interleaving of many \<open>QueuedRepository::lock_ids_in_order\<close>, each the calls that
    the definition makes on a lock that records them.
  \<^item> \<open>Repository\<close> (\<open>src/repository\<close>): errors, the traits, \<open>Gettable\<close>, streams and the event-store
    contract as a locale.
  \<^item> \<open>Hashmap_Repo\<close> (\<open>src/hashmap_repo\<close>): the in-memory event store with its two-phase commit.
  \<^item> \<open>Queued_Repo\<close> (\<open>src/queued_repo\<close>): the repository that locks what it reads until the commit,
    and interleaved sessions of many clients.
  \<^item> \<open>Aggregate\<close> (\<open>src/aggregate\<close>): hydration, the extension traits and the typed repository.
  \<^item> \<open>Snapshot_Store\<close>, \<open>Snapshot\<close> (\<open>src/snapshot\<close>): snapshots, hydration from them, the snapshot-aware
    repository, and the Todo aggregate of \<open>tests/snapshots\<close> as an instance.
  \<^item> \<open>Snapshot_System\<close>: many clients of one snapshot-aware repository without locks, whose \<open>get\<close> and
    \<open>commit\<close> read and write events and snapshot apart, as a step relation; \<open>Stack\<close>: the
    snapshot-aware repository over the queued one, call by call the inner one with locks.  That a
    stored snapshot is the state of its events is derived from the laws of the aggregate's own
    operations, for an aggregate obtained through the repository and changed by its commands.
  \<^item> \<open>Read_Model\<close>, \<open>Queued_Read_Model\<close> (\<open>src/read_model\<close>): the versioned read-model store, its typed
    view, and its locking wrapper.
  \<^item> \<open>Outbox_Message\<close>, \<open>Outbox_Store\<close>, \<open>Outbox_Worker\<close> (\<open>src/outbox\<close>, \<open>src/outbox_worker\<close>): the message
    aggregate, the commit of an aggregate with a message, claiming and settling, the worker, the
      publishers, and the polling thread.
  \<^item> \<open>Outbox_System\<close>: many worker threads, clients and operators on one store and one bus, as a step
    relation (clients commit new messages; \<open>open_step\<close> adds callers who complete and release messages
    by their ids); \<open>Optimistic\<close>: many clients of one event store without locks, in the same way, each
    batch of a commit holding an id once (the repository does not check it).
  \<^item> \<open>Commit_Builder\<close> (\<open>src/commit_builder\<close>): one commit of entities, messages and read models.
  \<^item> \<open>Bus_Event\<close>, \<open>In_Memory_Queue\<close> (\<open>src/bus\<close>): events, publishers and subscribers, the in-memory
    queue with fan-out and point-to-point delivery, filtered receivers and the bus.
  \<^item> \<open>Microsvc\<close>, \<open>Transport\<close> (\<open>src/microsvc\<close>): sessions, contexts, routing of commands, HTTP and gRPC
    front ends, and the transports that feed a service from the bus.
  \<^item> \<open>Front_Ends\<close>: what surrounds them: registration of handler modules, the HTTP route table, the
    gRPC service, and the stop channels by which the owner of a thread ends it.
  \<^item> \<open>Emitter\<close> (\<open>src/emitter\<close>): local events, queued by commands and emitted after a commit.
  \<^item> \<open>Macro_Syntax\<close>, \<open>Macros\<close> (\<open>sourced_rust_macros/src/lib.rs\<close>): the arguments of \<open>digest\<close>, \<open>enqueue\<close>,
    \<open>event\<close>, \<open>sourced\<close> and \<open>aggregate!\<close> as parsers of token trees, what the macros expand to, and
    what the generated statements, replay arms and enum conversions do when they run.
  \<^item> \<open>Sourced\<close>, \<open>Macro_Contract\<close>: the laws of a program that uses the macros as locales, and what the
    macros guarantee of it; the Todo aggregate of the tests, expanded.
  \<^item> \<open>Derive\<close> (\<open>snapshot.rs\<close>, \<open>read_model.rs\<close> of the macros): the derived snapshots and read models;
    \<open>Snapshot_Identity\<close>: the Inventory aggregate of \<open>tests/sourced_snapshot\<close>, whose snapshot takes
    its id from a field.
  \<^item> \<open>Test_Support\<close>, \<open>Tests_Entity\<close>, \<open>Tests_Repository\<close>, \<open>Tests_Read_Model\<close>, \<open>Tests_Outbox\<close>, \<open>Tests_Commit\<close>,
    \<open>Tests_Bus\<close>, \<open>Tests_Service\<close>: the unit tests that stand beside the modules, as programs of the
    option monad over the operations of the model, each with the proof that it passes
    (\<open>Debug_Text\<close> is the \<open>Debug\<close> output two of them read).

  \<^bold>\<open>What the lemmas show.\<close>  Of each store: its invariant, what every operation does on each branch,
  and that it keeps the rest of the state.  Of each protocol (locking, claiming, delivery): the
  interleavings as step sequences or command lists, and an invariant over all of them.  Of each
  optimisation (snapshots, snapshot-aware reads, batch publishing): equality with the plain route.
  Of the macros: that written arguments are read back, that the state recorded by the methods they
  rewrite is the state their replay rebuilds, and that the two ways to declare an aggregate agree.
  Some theorems record behaviour that the documentation of the crate does not promise or that
  contradicts it; they are listed as findings beside this library.

  \<^bold>\<open>Parameters.\<close>  Code that is not in the repository enters as arguments: the codecs (\<open>serde_json\<close>,
  \<open>bitcode\<close>), the iteration order of hash maps, the clock, the listeners of the event emitter, the router and the
  body extractor of \<open>axum\<close> (its own answers to requests without a handler are not modelled).  The
  laws used of them are hypotheses where they are needed (that decoding undoes encoding, that a
  static route goes before a capture).

  \<^bold>\<open>Bounds and fuel.\<close>  Upcasting is \<open>partial_function\<close>: \<open>Stuck\<close> exactly when the loop runs for ever,
  and it is proved to end for upcasters that raise the version.  Waiting calls of the bus take the
  list of the clock readings and of what others do before each (\<open>tick\<close>); a list that ends before the
  deadline is a call still waiting, and \<open>poll_outcome\<close> says that this is the only way not to return.
  Threads take the list of their turns in the same way.

  \<^bold>\<open>Not modelled.\<close>  The two functions that bind a socket and run a server (\<open>serve\<close>, \<open>serve_grpc\<close>) and
  the generated gRPC stubs; trait
  plumbing without behaviour (accessors that return a field, builder-extension traits that
  only call a constructor).  Of the macros, the Rust parser itself: how far an expression or a path
  reaches is a parameter, and written statements run as the program they belong to says (\<open>host\<close>).
  Of the unit tests, the one that searches the JSON text of an event record: \<open>serde_json\<close> writes it.
\<close>

section \<open>From the outbox to a handler\<close>

lemma publish_each:
  "send_each (fan_out in_memory_publisher) mord cs w =
     ((fst w)\<lparr>iq_log := iq_log (fst w) @ map (message_event mord) cs\<rparr>, snd w)"
  by (induction cs arbitrary: w) (simp_all add: fan_out_def in_memory_publisher_def on_queue_def iq_publish_def)

lemma publish_each_pending:
  assumes "quiet_world h w"
  shows "quiet_world h (send_each (fan_out in_memory_publisher) mord cs w) \<and>
    pending h (fst (send_each (fan_out in_memory_publisher) mord cs w)) =
      pending h (fst w) @ map (message_event mord) cs"
  using assms by (simp add: publish_each quiet_world_def handle_live_def handle_ok_def pending_def)

lemma message_session:
  assumes "iteration (om_metadata m) (mord (om_metadata m))"
  shows "session_get (event_to_session (message_event mord m)) k = Mapping.lookup (om_metadata m) k"
  using map_of_rev_hm_iter [OF assms, of k]
  by (auto simp: event_to_session_def message_event_metadata session_get_def session_from_map_def
      session_new_def lookup_collect_map lookup_empty Let_def)



end
